(* ===== verification/Sbe_Prelude.thy ===== *)
theory Sbe_Prelude
  imports Main "HOL-Library.Word"
begin

unbundle bit_operations_syntax

text \<open>
  Shared vocabulary of the development: the fixed-width integer types of the C and C++
  sources, the collections the component proofs draw on, and the generic facts on words,
  lists and \<open>option\<close> values that several components use.
\<close>

type_synonym u8 = "8 word"
type_synonym u16 = "16 word"
type_synonym u32 = "32 word"
type_synonym u64 = "64 word"

text \<open>
  \<open>pk_defs\<close> collects the definitions of the PK kernel primitives, \<open>io_defs\<close> those of the
  hardware access layer of the SBE firmware.
\<close>

named_theorems pk_defs
named_theorems io_defs

subsection \<open>PK return codes\<close>

text \<open>
  The API return codes and kernel panics of \<open>pk_panic_codes.h\<close>. A PK API returns \<open>PK_OK\<close> (0)
  or the negated code, \<open>Neg c\<close>.
\<close>

datatype pkPanicCode =
    PK_ILLEGAL_CONTEXT_THREAD_CONTEXT
  | PK_ILLEGAL_CONTEXT_INTERRUPT_CONTEXT
  | PK_ILLEGAL_CONTEXT_THREAD
  | PK_ILLEGAL_CONTEXT_TIMER
  | PK_INVALID_THREAD_AT_RESUME1
  | PK_INVALID_THREAD_AT_RESUME2
  | PK_INVALID_THREAD_AT_SUSPEND1
  | PK_INVALID_THREAD_AT_SUSPEND2
  | PK_INVALID_THREAD_AT_DELETE
  | PK_INVALID_THREAD_AT_INFO
  | PK_INVALID_THREAD_AT_CHANGE
  | PK_INVALID_THREAD_AT_SWAP1
  | PK_INVALID_THREAD_AT_SWAP2
  | PK_INVALID_THREAD_AT_CREATE
  | PK_INVALID_SEMAPHORE_AT_POST
  | PK_INVALID_SEMAPHORE_AT_PEND
  | PK_INVALID_SEMAPHORE_AT_RELEASE
  | PK_INVALID_SEMAPHORE_AT_INFO
  | PK_INVALID_SEMAPHORE_AT_CREATE
  | PK_INVALID_TIMER_AT_SCHEDULE
  | PK_INVALID_TIMER_AT_CANCEL
  | PK_INVALID_TIMER_AT_INFO
  | PK_INVALID_TIMER_AT_CREATE
  | PK_INVALID_ARGUMENT_IRQ_SETUP
  | PK_INVALID_ARGUMENT_IRQ_HANDLER
  | PK_INVALID_ARGUMENT_INTERRUPT
  | PK_INVALID_ARGUMENT_CONTEXT_SET
  | PK_INVALID_ARGUMENT_CONTEXT_GET
  | PK_INVALID_ARGUMENT_FIT
  | PK_INVALID_ARGUMENT_WATCHDOG
  | PK_INVALID_ARGUMENT_INIT
  | PK_INVALID_ARGUMENT_SEMAPHORE
  | PK_INVALID_ARGUMENT_THREAD_CHANGE
  | PK_INVALID_ARGUMENT_THREAD_PRIORITY
  | PK_INVALID_ARGUMENT_THREAD1
  | PK_INVALID_ARGUMENT_THREAD2
  | PK_INVALID_ARGUMENT_THREAD3
  | PK_STACK_OVERFLOW
  | PK_TIMER_ACTIVE
  | PK_TIMER_NOT_ACTIVE
  | PK_PRIORITY_IN_USE_AT_RESUME
  | PK_PRIORITY_IN_USE_AT_CHANGE
  | PK_PRIORITY_IN_USE_AT_SWAP
  | PK_SEMAPHORE_OVERFLOW
  | PK_SEMAPHORE_PEND_NO_WAIT
  | PK_SEMAPHORE_PEND_TIMED_OUT
  | PK_SEMAPHORE_PEND_WOULD_BLOCK
  | PK_INVALID_DEQUE_SENTINEL
  | PK_INVALID_DEQUE_ELEMENT
  | PK_INVALID_OBJECT
  | PK_NO_TIMER_SUPPORT
  | PK_START_THREADS_RETURNED
  | PK_UNIMPLEMENTED
  | PK_SCHEDULING_INVARIANT
  | PK_TIMER_HANDLER_INVARIANT
  | PK_THREAD_TIMEOUT_STATE

datatype pk_rc = PK_OK | Neg pkPanicCode

subsection \<open>C conditionals on integers\<close>

text \<open>A C integer used as a condition, and a C flag test \<open>x & mask\<close>.\<close>

abbreviation is_true :: "'a::len word \<Rightarrow> bool" where
  "is_true w \<equiv> w \<noteq> 0"

definition has_flag :: "'a::len word \<Rightarrow> 'a word \<Rightarrow> bool" where
  "has_flag w m \<longleftrightarrow> w AND m \<noteq> 0"

subsection \<open>Words\<close>

lemma word_eqI_len:
  fixes x y :: "'a::len word"
  assumes "\<And>n. n < LENGTH('a) \<Longrightarrow> bit x n = bit y n"
  shows "x = y"
  by (rule bit_word_eqI) (use assms in auto)

lemma unat_add_no_wrap:
  fixes a b :: "'a::len word"
  assumes "unat a + unat b < 2 ^ LENGTH('a)"
  shows "unat (a + b) = unat a + unat b"
  using assms by (simp add: unat_word_ariths)

lemma unat_sub_le:
  fixes a b :: "'a::len word"
  assumes "unat b \<le> unat a"
  shows "unat (a - b) = unat a - unat b"
  using assms by (simp add: unat_sub word_le_nat_alt)

end
