(* ===== verification/Pk_Queue.thy ===== *)
theory Pk_Queue
  imports Sbe_Prelude
begin

text \<open>
  The thread queue of the PK kernel (\<open>ppe42.h\<close>): a 32-bit bitmap, most significant bit
  first, used for the run queue and for the pending queue of every semaphore. The locale
  \<open>thread_queue\<close> states the contract the portable kernel relies on: a queue is a finite set
  of priorities, \<open>min\<close> returns its least element, or \<open>PK_THREADS\<close> for the empty queue.
\<close>

type_synonym PkThreadQueue = u32
type_synonym PkThreadPriority = u8

definition PK_THREADS :: nat where
  "PK_THREADS = 32"

definition PK_IDLE_THREAD_PRIORITY :: PkThreadPriority where
  "PK_IDLE_THREAD_PRIORITY = 32"

text \<open>
  The \<open>cntlzw\<close> instruction: the number of leading zero bits, 32 for zero. The PowerPC shift
  instruction gives 0 for shift amounts from 32 to 63, as \<open>drop_bit\<close> does.
\<close>

fun clz_below :: "nat \<Rightarrow> u32 \<Rightarrow> nat" where
  "clz_below 0 x = 32"
| "clz_below (Suc n) x = (if bit x n then 31 - n else clz_below n x)"

definition cntlzw :: "u32 \<Rightarrow> nat" where
  "cntlzw x = clz_below 32 x"

definition pk_thread_queue_clear :: "PkThreadQueue \<Rightarrow> PkThreadQueue" where
  "pk_thread_queue_clear q = 0"

definition pk_thread_queue_insert :: "PkThreadQueue \<Rightarrow> PkThreadPriority \<Rightarrow> PkThreadQueue" where
  "pk_thread_queue_insert q p = q OR drop_bit (unat p) 0x80000000"

definition pk_thread_queue_delete :: "PkThreadQueue \<Rightarrow> PkThreadPriority \<Rightarrow> PkThreadQueue" where
  "pk_thread_queue_delete q p = q AND NOT (drop_bit (unat p) 0x80000000)"

definition pk_thread_queue_min :: "PkThreadQueue \<Rightarrow> PkThreadPriority" where
  "pk_thread_queue_min q = word_of_nat (cntlzw q)"

text \<open>
  \<open>(*queue >> (31 - priority)) & 1\<close>: for priority 32 the shift amount is \<open>-1\<close>, which the
  shift instruction takes modulo 64 and yields 0.
\<close>

definition pk_thread_queue_member :: "PkThreadQueue \<Rightarrow> PkThreadPriority \<Rightarrow> bool" where
  "pk_thread_queue_member q p \<longleftrightarrow>
     unat p < PK_THREADS \<and> drop_bit (31 - unat p) q AND 1 \<noteq> 0"

definition pk_thread_queue_union :: "PkThreadQueue \<Rightarrow> PkThreadQueue \<Rightarrow> PkThreadQueue" where
  "pk_thread_queue_union q0 q1 = q0 OR q1"

fun popcount_below :: "nat \<Rightarrow> u32 \<Rightarrow> nat" where
  "popcount_below 0 x = 0"
| "popcount_below (Suc n) x = (if bit x n then 1 else 0) + popcount_below n x"

definition pk_thread_queue_count :: "PkThreadQueue \<Rightarrow> nat" where
  "pk_thread_queue_count q = popcount_below 32 q"

subsection \<open>The contract of a thread queue\<close>

locale thread_queue =
  fixes clear :: "'q \<Rightarrow> 'q"
    and ins :: "'q \<Rightarrow> u8 \<Rightarrow> 'q"
    and del :: "'q \<Rightarrow> u8 \<Rightarrow> 'q"
    and minimum :: "'q \<Rightarrow> u8"
    and mem :: "'q \<Rightarrow> u8 \<Rightarrow> bool"
    and join :: "'q \<Rightarrow> 'q \<Rightarrow> 'q"
    and prios :: "'q \<Rightarrow> u8 set"
  assumes prios_range: "p \<in> prios q \<Longrightarrow> p < 32"
    and prios_clear: "prios (clear q) = {}"
    and prios_ins: "p < 32 \<Longrightarrow> prios (ins q p) = insert p (prios q)"
    and prios_del: "prios (del q p) = prios q - {p}"
    and mem_iff: "mem q p \<longleftrightarrow> p \<in> prios q"
    and prios_join: "prios (join q r) = prios q \<union> prios r"
    and minimum_in: "prios q \<noteq> {} \<Longrightarrow> minimum q \<in> prios q"
    and minimum_le: "p \<in> prios q \<Longrightarrow> minimum q \<le> p"
    and minimum_empty: "prios q = {} \<Longrightarrow> minimum q = 32"
begin

lemma minimum_eq_idle: "minimum q = 32 \<longleftrightarrow> prios q = {}"
proof
  assume m: "minimum q = 32"
  show "prios q = {}"
  proof (rule ccontr)
    assume "prios q \<noteq> {}"
    then have "minimum q < 32" by (rule minimum_in [THEN prios_range])
    with m show False by simp
  qed
qed (rule minimum_empty)

lemma minimum_range: "minimum q \<le> 32"
proof (cases "prios q = {}")
  case False
  then have "minimum q < 32" by (rule minimum_in [THEN prios_range])
  then show ?thesis by (rule less_imp_le)
qed (simp add: minimum_empty)

lemma minimum_insert:
  assumes "p < 32"
  shows "minimum (ins q p) = (if prios q = {} then p else min p (minimum q))"
proof (cases "prios q = {}")
  case True
  then have "prios (ins q p) = {p}" using assms by (simp add: prios_ins)
  then show ?thesis using True minimum_in [of "ins q p"] by simp
next
  case False
  have "minimum (ins q p) \<in> insert p (prios q)"
    using minimum_in [of "ins q p"] assms by (simp add: prios_ins)
  moreover have "minimum (ins q p) \<le> p" "minimum (ins q p) \<le> minimum q"
    using minimum_le [of _ "ins q p"] minimum_in [OF False] assms by (simp_all add: prios_ins)
  moreover have "x \<in> prios q \<Longrightarrow> minimum q \<le> x" for x by (rule minimum_le)
  ultimately have "minimum (ins q p) = min p (minimum q)"
    by (elim insertE) (auto simp: min_def intro: order.antisym order.trans)
  then show ?thesis using False by simp
qed

lemma insert_delete_member:
  "p < 32 \<Longrightarrow> mem (ins q p) p \<and> \<not> mem (del q p) p"
  by (simp add: mem_iff prios_ins prios_del)

end

subsection \<open>The bitmap implements the contract\<close>

definition prio_set :: "PkThreadQueue \<Rightarrow> PkThreadPriority set" where
  "prio_set q = {p. pk_thread_queue_member q p}"

lemma bit_top: "bit (0x80000000 :: u32) n \<longleftrightarrow> n = 31"
proof -
  have "(0x80000000 :: u32) = push_bit 31 1" by simp
  then show ?thesis by (simp only: bit_push_bit_iff bit_1_iff) auto
qed

lemma word_and_1_bit: "(w :: 'a::len word) AND 1 \<noteq> 0 \<longleftrightarrow> bit w 0"
  by (simp add: and_one_eq bit_0 even_iff_mod_2_eq_zero)

lemma member_bit:
  "pk_thread_queue_member q p \<longleftrightarrow> unat p < 32 \<and> bit q (31 - unat p)"
  by (simp add: pk_thread_queue_member_def PK_THREADS_def word_and_1_bit bit_drop_bit_eq
      del: word_neq_0_conv)

lemma clz_below_le: "n \<le> 32 \<Longrightarrow> clz_below n x \<le> 32"
  by (induction n x rule: clz_below.induct) auto

lemma clz_below_bit:
  "n \<le> 32 \<Longrightarrow> clz_below n x < 32 \<Longrightarrow> bit x (31 - clz_below n x)"
  by (induction n x rule: clz_below.induct) (auto split: if_splits)

lemma clz_below_min:
  "n \<le> 32 \<Longrightarrow> i < n \<Longrightarrow> bit x i \<Longrightarrow> clz_below n x \<le> 31 - i"
proof (induction n x rule: clz_below.induct)
  case (2 n x)
  then show ?case by (cases "i = n") auto
qed simp

lemma unat_queue_min: "unat (pk_thread_queue_min q) = cntlzw q"
  using clz_below_le [of 32 q]
  by (simp add: pk_thread_queue_min_def cntlzw_def unat_of_nat)

lemma unat_less_32: "p < (32 :: u8) \<longleftrightarrow> unat p < 32"
  by (simp add: word_less_nat_alt)

lemma unat_queue_eq: "p = (q :: u8) \<longleftrightarrow> unat p = unat q"
  by (rule word_unat_eq_iff)

lemma bit_prio_mask:
  "unat (p :: u8) < 32 \<Longrightarrow>
     bit (drop_bit (unat r) (0x80000000 :: u32)) (31 - unat p) \<longleftrightarrow> p = r"
  by (simp only: bit_drop_bit_eq bit_top unat_queue_eq comp_apply) arith

lemma member_insert:
  "r < 32 \<Longrightarrow> pk_thread_queue_member (pk_thread_queue_insert q r) p \<longleftrightarrow>
     p = r \<or> pk_thread_queue_member q p"
  by (auto simp: member_bit pk_thread_queue_insert_def bit_or_iff bit_prio_mask unat_less_32)

lemma member_delete:
  "pk_thread_queue_member (pk_thread_queue_delete q r) p \<longleftrightarrow>
     p \<noteq> r \<and> pk_thread_queue_member q p"
  by (auto simp: member_bit pk_thread_queue_delete_def bit_and_iff bit_not_iff bit_prio_mask)

lemma member_union:
  "pk_thread_queue_member (pk_thread_queue_union q r) p \<longleftrightarrow>
     pk_thread_queue_member q p \<or> pk_thread_queue_member r p"
  by (auto simp: member_bit pk_thread_queue_union_def bit_or_iff)

lemma member_clear: "\<not> pk_thread_queue_member (pk_thread_queue_clear q) p"
  by (simp add: member_bit pk_thread_queue_clear_def)

lemmas member_simps = member_insert member_delete member_union member_clear

lemma member_min:
  assumes "pk_thread_queue_member q p"
  shows "pk_thread_queue_min q \<le> p" and "pk_thread_queue_member q (pk_thread_queue_min q)"
proof -
  from assms have p: "unat p < 32" "bit q (31 - unat p)" by (simp_all add: member_bit)
  have "clz_below 32 q \<le> 31 - (31 - unat p)"
    by (rule clz_below_min) (use p in auto)
  with p have le: "cntlzw q \<le> unat p" by (simp add: cntlzw_def)
  then show "pk_thread_queue_min q \<le> p" by (simp add: word_le_nat_alt unat_queue_min)
  from le p have "clz_below 32 q < 32" by (simp add: cntlzw_def)
  then have "bit q (31 - clz_below 32 q)" by (intro clz_below_bit) auto
  with \<open>clz_below 32 q < 32\<close> show "pk_thread_queue_member q (pk_thread_queue_min q)"
    by (simp add: member_bit unat_queue_min cntlzw_def)
qed

lemma min_no_member:
  assumes "\<And>p. \<not> pk_thread_queue_member q p"
  shows "pk_thread_queue_min q = 32"
proof (rule ccontr)
  assume "pk_thread_queue_min q \<noteq> 32"
  then have "cntlzw q \<noteq> 32" by (auto simp: unat_queue_eq unat_queue_min)
  with clz_below_le [of 32 q] have lt: "clz_below 32 q < 32" by (simp add: cntlzw_def)
  then have "bit q (31 - clz_below 32 q)" by (intro clz_below_bit) auto
  with lt have "pk_thread_queue_member q (pk_thread_queue_min q)"
    by (simp add: member_bit unat_queue_min cntlzw_def)
  with assms show False by blast
qed

interpretation tq: thread_queue pk_thread_queue_clear pk_thread_queue_insert
  pk_thread_queue_delete pk_thread_queue_min pk_thread_queue_member pk_thread_queue_union
  prio_set
proof unfold_locales
  show "p < 32" if "p \<in> prio_set q" for p q
    using that by (simp add: prio_set_def member_bit unat_less_32)
  show "pk_thread_queue_min q \<in> prio_set q" if "prio_set q \<noteq> {}" for q
    using that member_min(2) by (auto simp: prio_set_def)
  show "pk_thread_queue_min q = 32" if "prio_set q = {}" for q
    using that by (intro min_no_member) (auto simp: prio_set_def)
qed (auto simp: prio_set_def member_simps intro: member_min(1))

end
