(* ===== verification/Pk_Deque.thy ===== *)
theory Pk_Deque
  imports Sbe_Prelude
begin

text \<open>
  The doubly-linked list of the PK kernel (\<open>PkDeque\<close> of \<open>pk_api.h\<close>, \<open>pk_core.c\<close>), modelled on an
  explicit heap of \<open>next\<close> and \<open>previous\<close> pointers, and its refinement to lists: \<open>dq h s xs\<close>
  says that the deque with sentinel \<open>s\<close> holds the nodes \<open>xs\<close>, in order. The nodes are the
  \<open>PkDeque\<close> objects of the kernel: sentinels (time queue, bottom-half queue), the timers
  embedded in threads, application timers and bottom halves. \<open>Null\<close> is the null pointer.
\<close>

datatype node =
    Null
  | TimeQueue
  | BhQueue
  | ThreadTimer nat
  | AppTimer nat
  | BottomHalf nat

record PkDequeHeap =
  dq_next :: "node \<Rightarrow> node"
  dq_prev :: "node \<Rightarrow> node"

definition set_next :: "PkDequeHeap \<Rightarrow> node \<Rightarrow> node \<Rightarrow> PkDequeHeap" where
  "set_next h a b = h\<lparr>dq_next := (dq_next h)(a := b)\<rparr>"

definition set_prev :: "PkDequeHeap \<Rightarrow> node \<Rightarrow> node \<Rightarrow> PkDequeHeap" where
  "set_prev h a b = h\<lparr>dq_prev := (dq_prev h)(a := b)\<rparr>"

lemmas heap_defs = set_next_def set_prev_def

lemma heap_sel [simp]:
  "dq_next (set_next h a b) c = (if c = a then b else dq_next h c)"
  "dq_prev (set_next h a b) c = dq_prev h c"
  "dq_next (set_prev h a b) c = dq_next h c"
  "dq_prev (set_prev h a b) c = (if c = a then b else dq_prev h c)"
  by (simp_all add: heap_defs)

subsection \<open>Operations\<close>

text \<open>The null-pointer checks return the negative error codes of \<open>pk_panic_codes.h\<close>.\<close>

definition pk_deque_sentinel_create :: "PkDequeHeap \<Rightarrow> node \<Rightarrow> pk_rc \<times> PkDequeHeap" where
  "pk_deque_sentinel_create h d =
     (if d = Null then (Neg PK_INVALID_DEQUE_SENTINEL, h)
      else (PK_OK, set_next (set_prev h d d) d d))"

definition pk_deque_element_create :: "PkDequeHeap \<Rightarrow> node \<Rightarrow> pk_rc \<times> PkDequeHeap" where
  "pk_deque_element_create h e =
     (if e = Null then (Neg PK_INVALID_DEQUE_ELEMENT, h) else (PK_OK, set_next h e Null))"

definition pk_deque_is_empty :: "PkDequeHeap \<Rightarrow> node \<Rightarrow> bool" where
  "pk_deque_is_empty h d \<longleftrightarrow> d = dq_next h d"

definition pk_deque_is_queued :: "PkDequeHeap \<Rightarrow> node \<Rightarrow> bool" where
  "pk_deque_is_queued h e \<longleftrightarrow> dq_next h e \<noteq> Null"

definition pk_deque_push_back :: "PkDequeHeap \<Rightarrow> node \<Rightarrow> node \<Rightarrow> PkDequeHeap" where
  "pk_deque_push_back h d e =
     (let h1 = set_next h (dq_prev h d) e;
          h2 = set_prev h1 e (dq_prev h1 d);
          h3 = set_next h2 e d
      in set_prev h3 d e)"

definition pk_deque_push_front :: "PkDequeHeap \<Rightarrow> node \<Rightarrow> node \<Rightarrow> PkDequeHeap" where
  "pk_deque_push_front h d e =
     (let h1 = set_prev h (dq_next h d) e;
          h2 = set_next h1 e (dq_next h1 d);
          h3 = set_prev h2 e d
      in set_next h3 d e)"

definition pk_deque_pop_front :: "PkDequeHeap \<Rightarrow> node \<Rightarrow> node \<times> PkDequeHeap" where
  "pk_deque_pop_front h d =
     (if pk_deque_is_empty h d then (Null, h)
      else let hd = dq_next h d;
               h1 = set_next h d (dq_next h hd);
               h2 = set_prev h1 (dq_next h1 d) d
           in (hd, set_next h2 hd Null))"

definition pk_deque_delete :: "PkDequeHeap \<Rightarrow> node \<Rightarrow> PkDequeHeap" where
  "pk_deque_delete h e =
     (let h1 = set_next h (dq_prev h e) (dq_next h e);
          h2 = set_prev h1 (dq_next h1 e) (dq_prev h1 e)
      in set_next h2 e Null)"

subsection \<open>The list a deque holds\<close>

fun linked :: "PkDequeHeap \<Rightarrow> node list \<Rightarrow> bool" where
  "linked h (a # b # l) \<longleftrightarrow> dq_next h a = b \<and> dq_prev h b = a \<and> linked h (b # l)"
| "linked h _ \<longleftrightarrow> True"

definition dq :: "PkDequeHeap \<Rightarrow> node \<Rightarrow> node list \<Rightarrow> bool" where
  "dq h s xs \<longleftrightarrow> distinct (s # xs) \<and> Null \<notin> set (s # xs) \<and> linked h (s # xs @ [s])"

lemma linked_append:
  assumes "xs \<noteq> []" and "ys \<noteq> []"
  shows "linked h (xs @ ys) \<longleftrightarrow>
    linked h xs \<and> linked h ys \<and> dq_next h (last xs) = hd ys \<and> dq_prev h (hd ys) = last xs"
  using assms(1)
proof (induction xs)
  case (Cons x xs)
  show ?case
  proof (cases xs)
    case Nil
    with assms(2) show ?thesis by (cases ys) auto
  next
    case (Cons y zs)
    with Cons.IH show ?thesis by auto
  qed
qed simp

lemma linked_set_next: "a \<notin> set (butlast l) \<Longrightarrow> linked (set_next h a b) l = linked h l"
  by (induction h l rule: linked.induct) (auto simp: set_next_def)

lemma linked_set_prev: "a \<notin> set (tl l) \<Longrightarrow> linked (set_prev h a b) l = linked h l"
proof (induction l)
  case (Cons x l)
  then show ?case by (cases l) (auto simp: set_prev_def)
qed simp

lemma dq_empty: "s \<noteq> Null \<Longrightarrow> dq h s [] \<longleftrightarrow> dq_next h s = s \<and> dq_prev h s = s"
  by (auto simp: dq_def)

lemma dq_next_head: "dq h s (x # xs) \<Longrightarrow> dq_next h s = x"
  by (simp add: dq_def)

lemma dq_is_empty: "dq h s xs \<Longrightarrow> pk_deque_is_empty h s \<longleftrightarrow> xs = []"
  by (cases xs) (auto simp: dq_def pk_deque_is_empty_def)

lemma dq_prev_last: "dq h s xs \<Longrightarrow> dq_prev h s = last (s # xs)"
  using linked_append [of "s # xs" "[s]" h] by (simp add: dq_def)

lemma dq_split:
  assumes "dq h s (xs @ e # ys)"
  shows "dq_prev h e = last (s # xs)" and "dq_next h e = hd (ys @ [s])"
    and "linked h (s # xs)" and "linked h (ys @ [s])"
  using assms linked_append [of "s # xs" "e # ys @ [s]" h] linked_append [of "[e]" "ys @ [s]" h]
  by (simp_all add: dq_def)

lemma dq_queued:
  assumes "dq h s xs" and "e \<in> set xs"
  shows "pk_deque_is_queued h e"
proof -
  from assms(2) obtain ys zs where xs: "xs = ys @ e # zs" by (auto dest: split_list)
  with assms(1) have "dq_next h e = hd (zs @ [s])" by (auto dest: dq_split(2))
  moreover have "hd (zs @ [s]) \<in> set (zs @ [s])" by (rule hd_in_set) simp
  moreover have "Null \<notin> set (zs @ [s])" using assms(1) xs by (auto simp: dq_def)
  ultimately show ?thesis by (auto simp: pk_deque_is_queued_def)
qed

subsection \<open>Each operation refines an operation on lists\<close>

lemma dq_sentinel_create:
  "d \<noteq> Null \<Longrightarrow> dq (snd (pk_deque_sentinel_create h d)) d []"
  by (simp add: dq_empty pk_deque_sentinel_create_def heap_defs)

text \<open>
  Only the nodes of the deque and the element itself are written, so a deque with disjoint
  nodes is left alone.
\<close>

definition same_on :: "node set \<Rightarrow> PkDequeHeap \<Rightarrow> PkDequeHeap \<Rightarrow> bool" where
  "same_on A h h' \<longleftrightarrow> (\<forall>a \<in> A. dq_next h' a = dq_next h a \<and> dq_prev h' a = dq_prev h a)"

lemma linked_same_on: "same_on (set l) h h' \<Longrightarrow> linked h' l = linked h l"
  by (induction h l rule: linked.induct) (auto simp: same_on_def)

lemma dq_same_on: "same_on (insert t (set ys)) h h' \<Longrightarrow> dq h' t ys = dq h t ys"
  using linked_same_on [of "t # ys @ [t]" h h'] by (auto simp: dq_def)

lemma push_back_frame:
  assumes "dq h s xs" and "a \<notin> set (e # s # xs)"
  shows "dq_next (pk_deque_push_back h s e) a = dq_next h a"
    and "dq_prev (pk_deque_push_back h s e) a = dq_prev h a"
proof -
  have "dq_prev h s \<in> set (s # xs)"
    using dq_prev_last [OF assms(1)] last_in_set [of "s # xs"] by simp
  then show "dq_next (pk_deque_push_back h s e) a = dq_next h a"
    and "dq_prev (pk_deque_push_back h s e) a = dq_prev h a"
    using assms(2) by (auto simp: pk_deque_push_back_def Let_def)
qed

lemma distinct_last_butlast: "distinct xs \<Longrightarrow> xs \<noteq> [] \<Longrightarrow> last xs \<notin> set (butlast xs)"
  by (metis append_butlast_last_id distinct_append disjoint_iff list.set_intros(1))

lemma dq_push_back:
  assumes q: "dq h s xs" and e: "e \<notin> set (s # xs)" "e \<noteq> Null"
  shows "dq (pk_deque_push_back h s e) s (xs @ [e])"
proof -
  define l where "l = last (s # xs)"
  let ?h = "pk_deque_push_back h s e"
  have pb: "?h = set_prev (set_next (set_prev (set_next h l e) e l) e s) s e"
    using dq_prev_last [OF q] by (simp add: pk_deque_push_back_def l_def Let_def)
  have d: "distinct (s # xs)" using q by (simp add: dq_def)
  have l_in: "l \<in> set (s # xs)" unfolding l_def by (rule last_in_set) simp
  have "l \<notin> set (butlast (s # xs))" using d unfolding l_def by (rule distinct_last_butlast) simp
  moreover have "linked h (s # xs)" using q linked_append [of "s # xs" "[s]" h] by (simp add: dq_def)
  moreover have "s \<notin> set (tl (s # xs))" using d by simp
  moreover have "e \<notin> set (butlast (s # xs))" using e by (auto dest: in_set_butlastD)
  ultimately have path: "linked ?h (s # xs)"
    using e unfolding pb by (simp add: linked_set_prev linked_set_next del: butlast.simps)
  have "linked ?h ((s # xs) @ [e, s])"
    using path e l_in linked_append [of "s # xs" "[e, s]" ?h]
    by (auto simp: pb l_def [symmetric] simp del: last.simps)
  with q e show ?thesis by (auto simp: dq_def)
qed

lemma delete_frame:
  assumes "dq h s xs" and "e \<in> set xs" and "a \<notin> set (s # xs)"
  shows "dq_next (pk_deque_delete h e) a = dq_next h a"
    and "dq_prev (pk_deque_delete h e) a = dq_prev h a"
proof -
  from assms(2) obtain ys zs where xs: "xs = ys @ e # zs" by (auto dest: split_list)
  have "last (s # ys) \<in> set (s # ys)" "hd (zs @ [s]) \<in> set (zs @ [s])"
    by (rule last_in_set, simp) (rule hd_in_set, simp)
  then have "dq_prev h e \<noteq> a" "dq_next h e \<noteq> a"
    using assms(1,3) dq_split(1,2) [of h s ys e zs] unfolding xs by (auto simp del: last.simps)
  then show "dq_next (pk_deque_delete h e) a = dq_next h a"
    and "dq_prev (pk_deque_delete h e) a = dq_prev h a"
    using assms(2,3) by (auto simp: pk_deque_delete_def Let_def)
qed

lemma dq_delete_split:
  assumes q: "dq h s (xs @ e # ys)"
  shows "dq (pk_deque_delete h e) s (xs @ ys)" and "dq_next (pk_deque_delete h e) e = Null"
proof -
  define p where "p = last (s # xs)"
  define n where "n = hd (ys @ [s])"
  let ?h = "pk_deque_delete h e"
  have d: "distinct (s # xs @ e # ys)" using q by (simp add: dq_def)
  have p_in: "p \<in> set (s # xs)" unfolding p_def by (rule last_in_set) simp
  have n_in: "n \<in> set (ys @ [s])" unfolding n_def by (rule hd_in_set) simp
  have del: "?h = set_next (set_prev (set_next h p n) n p) e Null"
    using dq_split(1,2) [OF q] d p_in
    by (auto simp: pk_deque_delete_def p_def n_def Let_def simp del: last.simps)
  have pl: "p \<notin> set (butlast (s # xs))" using d unfolding p_def
    by (intro distinct_last_butlast) auto
  have nt: "n \<notin> set (tl (ys @ [s]))" using d unfolding n_def by (cases ys) auto
  have "e \<notin> set (butlast (s # xs))" using d by (auto dest: in_set_butlastD)
  moreover have "n \<notin> set (tl (s # xs))" using n_in d by auto
  ultimately have left: "linked ?h (s # xs)"
    using dq_split(3) [OF q] pl unfolding del
    by (simp add: linked_set_prev linked_set_next del: butlast.simps)
  have "e \<notin> set (butlast (ys @ [s]))" "p \<notin> set (butlast (ys @ [s]))"
    using p_in d by auto
  then have right: "linked ?h (ys @ [s])"
    using dq_split(4) [OF q] nt unfolding del
    by (simp add: linked_set_prev linked_set_next del: butlast_snoc)
  have "p \<noteq> e" using p_in d by auto
  then have "linked ?h ((s # xs) @ ys @ [s])"
    using left right linked_append [of "s # xs" "ys @ [s]" ?h]
    by (simp add: p_def [symmetric] n_def [symmetric] del: last.simps) (simp add: del)
  with q show "dq ?h s (xs @ ys)" by (auto simp: dq_def)
  show "dq_next ?h e = Null" by (simp add: del)
qed

lemma dq_delete:
  assumes "dq h s xs" and "e \<in> set xs"
  shows "dq (pk_deque_delete h e) s (remove1 e xs)" and "\<not> pk_deque_is_queued (pk_deque_delete h e) e"
proof -
  from assms(2) obtain ys zs where xs: "xs = ys @ e # zs" and "e \<notin> set ys"
    by (auto dest: split_list_first)
  with assms(1) dq_delete_split [of h s ys e zs]
  show "dq (pk_deque_delete h e) s (remove1 e xs)" and "\<not> pk_deque_is_queued (pk_deque_delete h e) e"
    by (simp_all add: remove1_append pk_deque_is_queued_def)
qed

text \<open>Popping the head of a non-empty deque is deleting its first node.\<close>

lemma pop_front_delete:
  assumes "dq h s (x # xs)"
  shows "pk_deque_pop_front h s = (x, pk_deque_delete h x)"
proof -
  have "dq_prev h x = s" "dq_next h s = x" "s \<noteq> x"
    using assms by (auto simp: dq_def)
  then show ?thesis
    by (simp add: pk_deque_pop_front_def pk_deque_delete_def pk_deque_is_empty_def Let_def)
qed

lemma dq_pop_front:
  assumes "dq h s xs"
  shows "pk_deque_pop_front h s = (Null, h) \<and> xs = [] \<or>
    (\<exists>x ys h'. xs = x # ys \<and> pk_deque_pop_front h s = (x, h') \<and> dq h' s ys)"
proof (cases xs)
  case Nil
  with assms show ?thesis by (simp add: pk_deque_pop_front_def dq_is_empty)
next
  case (Cons x ys)
  with assms show ?thesis
    using pop_front_delete [of h s x ys] dq_delete_split(1) [of h s "[]" x ys] by simp
qed

lemma push_front_frame:
  assumes "dq h s xs" and "a \<notin> set (e # s # xs)"
  shows "dq_next (pk_deque_push_front h s e) a = dq_next h a"
    and "dq_prev (pk_deque_push_front h s e) a = dq_prev h a"
proof -
  have "dq_next h s \<in> set (s # xs)" using assms(1) by (cases xs) (auto simp: dq_def)
  then show "dq_next (pk_deque_push_front h s e) a = dq_next h a"
    and "dq_prev (pk_deque_push_front h s e) a = dq_prev h a"
    using assms(2) by (auto simp: pk_deque_push_front_def Let_def)
qed

lemma dq_push_front:
  assumes q: "dq h s xs" and e: "e \<notin> set (s # xs)" "e \<noteq> Null"
  shows "dq (pk_deque_push_front h s e) s (e # xs)"
proof -
  define n where "n = hd (xs @ [s])"
  let ?h = "pk_deque_push_front h s e"
  have "dq_next h s = n" using q by (cases xs) (auto simp: dq_def n_def)
  then have pf: "?h = set_next (set_prev (set_next (set_prev h n e) e n) e s) s e"
    by (simp add: pk_deque_push_front_def Let_def)
  have d: "distinct (s # xs)" using q by (simp add: dq_def)
  have n_in: "n \<in> set (xs @ [s])" unfolding n_def by (rule hd_in_set) simp
  have nt: "n \<notin> set (tl (xs @ [s]))" using d unfolding n_def by (cases xs) auto
  have "e \<notin> set (tl (xs @ [s]))" "e \<notin> set (butlast (xs @ [s]))" "s \<notin> set (butlast (xs @ [s]))"
    using e d by (cases xs; auto)+
  moreover have "linked h (xs @ [s])"
    using q linked_append [of "[s]" "xs @ [s]" h] by (simp add: dq_def)
  ultimately have right: "linked ?h (xs @ [s])"
    using nt unfolding pf by (simp add: linked_set_prev linked_set_next del: butlast_snoc)
  have "e \<noteq> n" "s \<noteq> e" using e n_in by auto
  then have "linked ?h ([s, e] @ xs @ [s])"
    using right linked_append [of "[s, e]" "xs @ [s]" ?h]
    by (simp add: n_def [symmetric]) (simp add: pf)
  with q e show ?thesis by (auto simp: dq_def)
qed

subsection \<open>First in, first out\<close>

text \<open>
  What a client of a queue relies on, and the order it gets: elements appended one by one to
  an empty queue are removed in the same order.
\<close>

fun pops :: "('h \<Rightarrow> 'n \<times> 'h) \<Rightarrow> nat \<Rightarrow> 'h \<Rightarrow> 'n list \<times> 'h" where
  "pops pop 0 h = ([], h)"
| "pops pop (Suc k) h =
     (let (x, h1) = pop h; (xs, h2) = pops pop k h1 in (x # xs, h2))"

locale fifo =
  fixes repr :: "'h \<Rightarrow> 'n list \<Rightarrow> bool"
    and elems :: "'n set"
    and append :: "'h \<Rightarrow> 'n \<Rightarrow> 'h"
    and pop :: "'h \<Rightarrow> 'n \<times> 'h"
    and nothing :: 'n
  assumes repr_append: "repr h xs \<Longrightarrow> e \<in> elems \<Longrightarrow> e \<notin> set xs \<Longrightarrow> repr (append h e) (xs @ [e])"
    and pop_empty: "repr h [] \<Longrightarrow> pop h = (nothing, h)"
    and pop_Cons: "repr h (x # xs) \<Longrightarrow> fst (pop h) = x \<and> repr (snd (pop h)) xs"
begin

lemma repr_append_list:
  "repr h xs \<Longrightarrow> set es \<subseteq> elems \<Longrightarrow> distinct (xs @ es) \<Longrightarrow> repr (foldl append h es) (xs @ es)"
proof (induction es arbitrary: h xs)
  case (Cons e es)
  from Cons.prems have "repr (append h e) (xs @ [e])" by (intro repr_append) auto
  from Cons.IH [OF this] Cons.prems show ?case by simp
qed simp

lemma pops_repr:
  "repr h (xs @ ys) \<Longrightarrow> fst (pops pop (length xs) h) = xs \<and> repr (snd (pops pop (length xs) h)) ys"
proof (induction xs arbitrary: h)
  case (Cons x xs)
  from Cons.prems have "fst (pop h) = x" "repr (snd (pop h)) (xs @ ys)"
    using pop_Cons [of h x "xs @ ys"] by simp_all
  with Cons.IH [of "snd (pop h)"] show ?case by (simp add: split_beta Let_def)
qed simp

lemma fifo_order:
  assumes "repr h []" and "set es \<subseteq> elems" and "distinct es"
  shows "fst (pops pop (length es) (foldl append h es)) = es"
    and "repr (snd (pops pop (length es) (foldl append h es))) []"
  using repr_append_list [of h "[]" es] pops_repr [of _ es "[]"] assms by simp_all

end

interpretation dqf: fifo "\<lambda>h. dq h s" "- {Null, s}" "\<lambda>h. pk_deque_push_back h s"
  "\<lambda>h. pk_deque_pop_front h s" Null
  for s
proof unfold_locales
  show "dq (pk_deque_push_back h s e) s (xs @ [e])"
    if "dq h s xs" "e \<in> - {Null, s}" "e \<notin> set xs" for h xs e
    using that by (intro dq_push_back) auto
  show "pk_deque_pop_front h s = (Null, h)" if "dq h s []" for h
    using dq_pop_front [OF that] by auto
  show "fst (pk_deque_pop_front h s) = x \<and> dq (snd (pk_deque_pop_front h s)) s xs"
    if "dq h s (x # xs)" for h x xs
    using dq_pop_front [OF that] by auto
qed

end
