(* ===== verification/Pk_State.thy ===== *)
theory Pk_State
  imports Pk_Queue Pk_Deque
begin

text \<open>
  The data of the PK kernel: threads, semaphores and timers (\<open>pk_api.h\<close>), the scheduler
  variables and the time queue (\<open>pk_kernel.h\<close>), the kernel context word and the timebase of
  the PPE42 port (\<open>ppe42.h\<close>, \<open>ppe42_core.c\<close>). Threads and semaphores are named by numbers, 0
  being the null pointer. Field names keep the source's, without the leading \<open>__pk_\<close>
  and with a prefix for the fields of threads, semaphores and timers; a
  function \<open>__pk_f\<close> of the source is \<open>i_pk_f\<close> here.
\<close>

datatype PkThreadState =
    PK_THREAD_STATE_SUSPENDED_RUNNABLE
  | PK_THREAD_STATE_MAPPED
  | PK_THREAD_STATE_SUSPENDED_BLOCKED
  | PK_THREAD_STATE_COMPLETED
  | PK_THREAD_STATE_DELETED

definition PK_THREAD_FLAG_SEMAPHORE_PEND :: u8 where
  "PK_THREAD_FLAG_SEMAPHORE_PEND = 0x1"

definition PK_THREAD_FLAG_TIMER_PEND :: u8 where
  "PK_THREAD_FLAG_TIMER_PEND = 0x2"

definition PK_THREAD_FLAG_TIMED_OUT :: u8 where
  "PK_THREAD_FLAG_TIMED_OUT = 0x4"

lemmas pk_flag_defs = PK_THREAD_FLAG_SEMAPHORE_PEND_def PK_THREAD_FLAG_TIMER_PEND_def
  PK_THREAD_FLAG_TIMED_OUT_def

type_synonym PkTimebase = u64
type_synonym PkInterval = u64
type_synonym thread_id = nat
type_synonym sem_id = nat

text \<open>
  A timer callback is null, the kernel's own \<open>__pk_thread_timeout\<close> (whose argument is the
  thread) or a routine of the application.
\<close>

datatype PkTimerCallback = NoCallback | ThreadTimeout | AppCallback nat

record PkTimer =
  tmr_timeout :: PkTimebase
  tmr_callback :: PkTimerCallback
  tmr_arg :: nat

record PkThread =
  thr_saved_stack_pointer :: u32
  thr_stack_limit :: u32
  thr_stack_base :: u32
  thr_semaphore :: sem_id
  thr_priority :: PkThreadPriority
  thr_state :: PkThreadState
  thr_flags :: u8

record PkSemaphore =
  sem_pending_threads :: PkThreadQueue
  sem_count :: u32
  sem_max_count :: u32

text \<open>
  \<open>thread_mode\<close> and \<open>processing_interrupt\<close> are the fields of the kernel context word in
  SPRG0, \<open>msr_ee\<close> the external interrupt enable of the executing context, \<open>dec\<close> the
  decrementer of the core, \<open>stack_mem\<close> the memory of the stacks, by word address. \<open>panic\<close> is set by \<open>PK_PANIC\<close>, after which nothing runs. \<open>calls\<close> is a
  trace of the timer callbacks made, which the program does not keep.
\<close>

record pk_state =
  threads :: "thread_id \<Rightarrow> PkThread"
  semaphores :: "sem_id \<Rightarrow> PkSemaphore"
  timers :: "node \<Rightarrow> PkTimer"
  heap :: PkDequeHeap
  run_queue :: PkThreadQueue
  priority_map :: "PkThreadPriority \<Rightarrow> thread_id"
  current_thread :: thread_id
  next_thread :: thread_id
  next_priority :: PkThreadPriority
  delayed_switch :: bool
  next_timeout :: PkTimebase
  cursor :: node
  thread_mode :: bool
  processing_interrupt :: bool
  msr_ee :: bool
  timebase_rshift :: u8
  timebase_frequency_hz :: u32
  tb_accumulator :: u64
  dec_start :: u32
  dec_change_tag :: u32
  dec :: u32
  kernel_stack :: u32
  kernel_stack_limit :: u32
  kernel_stack_size :: u32
  stack_mem :: "u32 \<Rightarrow> u32"
  panic :: "pkPanicCode option"
  calls :: "(PkTimerCallback \<times> nat) list"

text \<open>The kernel data as the loader leaves it: all zero.\<close>

definition zero_thread :: PkThread where
  "zero_thread = \<lparr>thr_saved_stack_pointer = 0, thr_stack_limit = 0, thr_stack_base = 0,
     thr_semaphore = 0, thr_priority = 0, thr_state = PK_THREAD_STATE_DELETED, thr_flags = 0\<rparr>"

definition zero_state :: pk_state where
  "zero_state = \<lparr>threads = (\<lambda>_. zero_thread),
     semaphores = (\<lambda>_. \<lparr>sem_pending_threads = 0, sem_count = 0, sem_max_count = 0\<rparr>),
     timers = (\<lambda>_. \<lparr>tmr_timeout = 0, tmr_callback = NoCallback, tmr_arg = 0\<rparr>),
     heap = \<lparr>dq_next = (\<lambda>_. Null), dq_prev = (\<lambda>_. Null)\<rparr>,
     run_queue = 0, priority_map = (\<lambda>_. 0), current_thread = 0, next_thread = 0,
     next_priority = 0, delayed_switch = False, next_timeout = 0, cursor = Null,
     thread_mode = False, processing_interrupt = False, msr_ee = False, timebase_rshift = 32,
     timebase_frequency_hz = 0, tb_accumulator = 0, dec_start = 0, dec_change_tag = 0, dec = 0,
     kernel_stack = 0, kernel_stack_limit = 0, kernel_stack_size = 0, stack_mem = (\<lambda>_. 0),
     panic = None, calls = []\<rparr>"

definition PK_PANIC :: "pkPanicCode \<Rightarrow> pk_state \<Rightarrow> pk_state" where
  "PK_PANIC c s = s\<lparr>panic := Some c\<rparr>"

text \<open>
  \<open>pk_critical_section_enter\<close> saves the machine context and disables interrupts,
  \<open>pk_critical_section_exit\<close> restores the saved context.
\<close>

definition pk_critical_section_enter :: "pk_state \<Rightarrow> bool \<times> pk_state" where
  "pk_critical_section_enter s = (msr_ee s, s\<lparr>msr_ee := False\<rparr>)"

definition pk_critical_section_exit :: "bool \<Rightarrow> pk_state \<Rightarrow> pk_state" where
  "pk_critical_section_exit ctx s = s\<lparr>msr_ee := ctx\<rparr>"

lemmas critical_defs = pk_critical_section_enter_def pk_critical_section_exit_def

definition i_pk_kernel_mode_thread :: "pk_state \<Rightarrow> bool" where
  "i_pk_kernel_mode_thread s \<longleftrightarrow> thread_mode s"

definition i_pk_kernel_context_thread :: "pk_state \<Rightarrow> bool" where
  "i_pk_kernel_context_thread s \<longleftrightarrow> thread_mode s \<and> \<not> processing_interrupt s"

definition i_pk_kernel_context_any_interrupt :: "pk_state \<Rightarrow> bool" where
  "i_pk_kernel_context_any_interrupt s \<longleftrightarrow> processing_interrupt s"

lemmas context_defs = i_pk_kernel_mode_thread_def i_pk_kernel_context_thread_def
  i_pk_kernel_context_any_interrupt_def

subsection \<open>Updates of one thread, semaphore or timer\<close>

definition upd_thread :: "thread_id \<Rightarrow> (PkThread \<Rightarrow> PkThread) \<Rightarrow> pk_state \<Rightarrow> pk_state" where
  "upd_thread t f s = s\<lparr>threads := (threads s)(t := f (threads s t))\<rparr>"

definition upd_sem :: "sem_id \<Rightarrow> (PkSemaphore \<Rightarrow> PkSemaphore) \<Rightarrow> pk_state \<Rightarrow> pk_state" where
  "upd_sem m f s = s\<lparr>semaphores := (semaphores s)(m := f (semaphores s m))\<rparr>"

definition upd_timer :: "node \<Rightarrow> (PkTimer \<Rightarrow> PkTimer) \<Rightarrow> pk_state \<Rightarrow> pk_state" where
  "upd_timer n f s = s\<lparr>timers := (timers s)(n := f (timers s n))\<rparr>"

lemmas upd_defs = upd_thread_def upd_sem_def upd_timer_def

subsection \<open>Timebase and hardware timeout\<close>

definition PK_TIMEBASE_MAX :: PkTimebase where
  "PK_TIMEBASE_MAX = - 1"

definition PK_NO_WAIT :: PkInterval where
  "PK_NO_WAIT = 0"

definition PK_WAIT_FOREVER :: PkInterval where
  "PK_WAIT_FOREVER = - 1"

definition PK_INTERVAL_SCALE :: "pk_state \<Rightarrow> PkInterval \<Rightarrow> PkInterval" where
  "PK_INTERVAL_SCALE s interval = interval + drop_bit (unat (timebase_rshift s)) interval"

text \<open>
  \<open>ppe42_timebase.S\<close>: the accumulator plus the time since the decrementer was last started,
  a 32-bit difference.
\<close>

definition pk_timebase_get :: "pk_state \<Rightarrow> PkTimebase" where
  "pk_timebase_get s = tb_accumulator s + ucast (dec_start s - dec s)"

definition i_pk_schedule_hardware_timeout :: "PkTimebase \<Rightarrow> pk_state \<Rightarrow> pk_state" where
  "i_pk_schedule_hardware_timeout timeout s =
     (if timeout \<noteq> PK_TIMEBASE_MAX then
        let now = pk_timebase_get s;
            new_dec = (if timeout \<le> now then 1
                       else if timeout - now > 0xffff0000 then 0xffff0000
                       else ucast (timeout - now))
        in s\<lparr>dec := new_dec,
             tb_accumulator := tb_accumulator s + ucast (dec_start s - dec s),
             dec_start := new_dec,
             dec_change_tag := dec_change_tag s + 1\<rparr>
      else s)"

definition PK_BASE_FREQ_HZ :: u32 where
  "PK_BASE_FREQ_HZ = 400000000"

definition pk_set_timebase_rshift :: "u32 \<Rightarrow> pk_state \<Rightarrow> pk_state" where
  "pk_set_timebase_rshift freq s =
     s\<lparr>timebase_rshift :=
        (if freq \<le> PK_BASE_FREQ_HZ + drop_bit 4 PK_BASE_FREQ_HZ then 32
         else if freq \<le> PK_BASE_FREQ_HZ + drop_bit 4 PK_BASE_FREQ_HZ + drop_bit 3 PK_BASE_FREQ_HZ
           then 3
         else if freq \<le> PK_BASE_FREQ_HZ + drop_bit 3 PK_BASE_FREQ_HZ + drop_bit 2 PK_BASE_FREQ_HZ
           then 2
         else if freq \<le> PK_BASE_FREQ_HZ + drop_bit 2 PK_BASE_FREQ_HZ + drop_bit 1 PK_BASE_FREQ_HZ
           then 1
         else 0)\<rparr>"

text \<open>Re-arming the decrementer does not change the time the timebase shows.\<close>

lemma timebase_schedule_hardware_timeout:
  "pk_timebase_get (i_pk_schedule_hardware_timeout t s) = pk_timebase_get s"
  by (simp add: pk_timebase_get_def i_pk_schedule_hardware_timeout_def Let_def)

text \<open>The decrementer is loaded with at least one tick and never beyond the timeout.\<close>

lemma hardware_timeout_dec:
  assumes "t \<noteq> PK_TIMEBASE_MAX"
  shows "1 \<le> unat (dec (i_pk_schedule_hardware_timeout t s))"
    and "unat (dec (i_pk_schedule_hardware_timeout t s)) \<le> 0xffff0000"
    and "pk_timebase_get s < t \<Longrightarrow>
      unat (pk_timebase_get s) + unat (dec (i_pk_schedule_hardware_timeout t s)) \<le> unat t"
proof -
  let ?d = "t - pk_timebase_get s"
  have d: "unat ?d = unat t - unat (pk_timebase_get s)" if "pk_timebase_get s < t"
    using that by (intro unat_sub_le) (simp add: word_less_nat_alt)
  have uc: "unat (ucast ?d :: u32) = unat ?d" if "\<not> ?d > 0xffff0000"
    using that by (simp add: word_less_nat_alt unsigned_ucast_eq take_bit_nat_eq_self)
  show "1 \<le> unat (dec (i_pk_schedule_hardware_timeout t s))"
    and "unat (dec (i_pk_schedule_hardware_timeout t s)) \<le> 0xffff0000"
    and "pk_timebase_get s < t \<Longrightarrow>
      unat (pk_timebase_get s) + unat (dec (i_pk_schedule_hardware_timeout t s)) \<le> unat t"
    using assms d uc
    by (auto simp: i_pk_schedule_hardware_timeout_def Let_def word_less_nat_alt word_le_nat_alt)
qed

text \<open>
  The decrementer is set for the timeout \<open>t\<close>: one tick when it is due already, otherwise the distance,
  or the longest time it is set for. \<open>PK_TIMEBASE_MAX\<close> stands for no timeout.
\<close>

definition decrementer_set :: "pk_state \<Rightarrow> PkTimebase \<Rightarrow> bool" where
  "decrementer_set s t \<longleftrightarrow> t \<noteq> PK_TIMEBASE_MAX \<longrightarrow> dec_start s = dec s \<and>
     unat (dec s) = (if t \<le> pk_timebase_get s then 1 else min (unat t - unat (pk_timebase_get s)) 0xffff0000)"

lemma decrementer_set_schedule: "decrementer_set (i_pk_schedule_hardware_timeout t s) t"
proof -
  let ?d = "t - pk_timebase_get s"
  have d: "unat ?d = unat t - unat (pk_timebase_get s)" if "\<not> t \<le> pk_timebase_get s"
    using that by (intro unat_sub_le) (simp add: word_le_nat_alt)
  have uc: "unat (ucast ?d :: u32) = unat ?d" if "\<not> ?d > 0xffff0000"
    using that by (simp add: word_less_nat_alt unsigned_ucast_eq take_bit_nat_eq_self)
  have tb: "pk_timebase_get (i_pk_schedule_hardware_timeout t s) = pk_timebase_get s"
    by (rule timebase_schedule_hardware_timeout)
  show ?thesis
    unfolding decrementer_set_def tb using d uc
    by (auto simp: i_pk_schedule_hardware_timeout_def Let_def word_less_nat_alt min_def not_less)
qed

end
