(* ===== verification/Pk_Timer.thy ===== *)
theory Pk_Timer
  imports Pk_State
begin

text \<open>
  The time queue of the PK kernel (\<open>pk_timer_core.c\<close>, \<open>pk_timer_init.c\<close>) and the bottom
  halves that process it (\<open>pk_bh_core.c\<close>, \<open>pk_bh_schedule\<close> of \<open>pk_api.h\<close>). The queue is the
  deque with sentinel \<open>TimeQueue\<close>; \<open>next_timeout\<close> is the earliest timeout the hardware has
  been armed for, and \<open>cursor\<close> the timer the handler will look at next.
\<close>

definition timer_active :: "pk_state \<Rightarrow> node \<Rightarrow> bool" where
  "timer_active s n \<longleftrightarrow> pk_deque_is_queued (heap s) n"

definition i_pk_timer_cancel :: "node \<Rightarrow> pk_state \<Rightarrow> pk_rc \<times> pk_state" where
  "i_pk_timer_cancel n s =
     (if \<not> timer_active s n then (Neg PK_TIMER_NOT_ACTIVE, s)
      else let s1 = (if n = cursor s then s\<lparr>cursor := dq_next (heap s) (cursor s)\<rparr> else s)
           in (PK_OK, s1\<lparr>heap := pk_deque_delete (heap s1) n\<rparr>))"

definition i_pk_timer_schedule :: "node \<Rightarrow> pk_state \<Rightarrow> pk_state" where
  "i_pk_timer_schedule n s =
     (let s1 = (if \<not> timer_active s n
                then s\<lparr>heap := pk_deque_push_back (heap s) TimeQueue n\<rparr> else s)
      in if tmr_timeout (timers s1 n) < next_timeout s1
         then let s2 = s1\<lparr>next_timeout := tmr_timeout (timers s1 n)\<rparr>
              in if cursor s2 = Null
                 then i_pk_schedule_hardware_timeout (next_timeout s2) s2 else s2
         else s1)"

definition pk_timer_create :: "node \<Rightarrow> PkTimerCallback \<Rightarrow> nat \<Rightarrow> pk_state \<Rightarrow> pk_rc \<times> pk_state" where
  "pk_timer_create n cb a s =
     (if n = Null then (Neg PK_INVALID_TIMER_AT_CREATE, s)
      else let s1 = s\<lparr>heap := snd (pk_deque_element_create (heap s) n)\<rparr>
           in (PK_OK, upd_timer n (\<lambda>_. \<lparr>tmr_timeout = 0, tmr_callback = cb, tmr_arg = a\<rparr>) s1))"

text \<open>
  \<open>pk_timer_schedule\<close> tests its argument inside the critical section and returns without
  leaving it.
\<close>

definition pk_timer_schedule :: "node \<Rightarrow> PkInterval \<Rightarrow> pk_state \<Rightarrow> pk_rc \<times> pk_state" where
  "pk_timer_schedule n interval s =
     (let tmo = pk_timebase_get s + PK_INTERVAL_SCALE s interval;
          (ctx, s1) = pk_critical_section_enter s
      in if n = Null then (Neg PK_INVALID_TIMER_AT_SCHEDULE, s1)
         else let s2 = upd_timer n (\<lambda>t. t\<lparr>tmr_timeout := tmo\<rparr>) s1;
                  s3 = i_pk_timer_schedule n s2
              in (PK_OK, pk_critical_section_exit ctx s3))"

definition pk_timer_cancel :: "node \<Rightarrow> pk_state \<Rightarrow> pk_rc \<times> pk_state" where
  "pk_timer_cancel n s =
     (if n = Null then (Neg PK_INVALID_TIMER_AT_CANCEL, s)
      else let (ctx, s1) = pk_critical_section_enter s;
               (rc, s2) = i_pk_timer_cancel n s1
           in (rc, pk_critical_section_exit ctx s2))"

definition pk_timer_info_get :: "node \<Rightarrow> pk_state \<Rightarrow> pk_rc \<times> (PkTimebase \<times> bool) option" where
  "pk_timer_info_get n s =
     (if n = Null then (Neg PK_INVALID_TIMER_AT_INFO, None)
      else (PK_OK, Some (tmr_timeout (timers s n), timer_active s n)))"

subsection \<open>The timer bottom half\<close>

text \<open>
  One timer of the inner loop: it is removed and its callback called when it has timed out,
  otherwise it takes part in the computation of the next timeout. Callbacks and the
  interrupts taken while the handler is out of its critical section are the environment:
  \<open>run_callback\<close> runs a callback, \<open>preempt\<close> stands for the interrupts taken before
  \<open>timer_deque = tq->cursor\<close>, \<open>preempt_late\<close> for those between that assignment and
  \<open>pk_critical_section_enter\<close>.
\<close>

record timer_env =
  run_callback :: "PkTimerCallback \<Rightarrow> nat \<Rightarrow> pk_state \<Rightarrow> pk_state"
  preempt :: "pk_state \<Rightarrow> pk_state"
  preempt_late :: "pk_state \<Rightarrow> pk_state"

definition call_timer :: "timer_env \<Rightarrow> PkTimer \<Rightarrow> pk_state \<Rightarrow> pk_state" where
  "call_timer env t s =
     (if tmr_callback t \<noteq> NoCallback
      then run_callback env (tmr_callback t) (tmr_arg t)
             (s\<lparr>calls := calls s @ [(tmr_callback t, tmr_arg t)]\<rparr>)
      else s)"

definition timer_bh_visit :: "timer_env \<Rightarrow> PkTimebase \<Rightarrow> bool \<Rightarrow> node \<Rightarrow> pk_state \<Rightarrow> pk_state" where
  "timer_bh_visit env now ctx n s =
     (let s1 = s\<lparr>cursor := dq_next (heap s) n\<rparr>
      in if tmr_timeout (timers s1 n) \<le> now
         then let s2 = s1\<lparr>heap := pk_deque_delete (heap s1) n\<rparr>;
                  s3 = pk_critical_section_exit ctx s2
              in call_timer env (timers s3 n) s3
         else let s2 = s1\<lparr>next_timeout := min (tmr_timeout (timers s1 n)) (next_timeout s1)\<rparr>
              in pk_critical_section_exit ctx s2)"

text \<open>
  The inner loop follows \<open>cursor\<close> until it reaches the sentinel; the callbacks can make the
  queue longer, so it has fuel. The outer loop reads the time (\<open>nows\<close> lists the values the
  successive reads return) until no timeout is due; \<open>None\<close> when it is still running.
\<close>

definition timer_bh_pass ::
  "timer_env \<Rightarrow> PkTimebase \<Rightarrow> bool \<Rightarrow> node \<Rightarrow> pk_state \<Rightarrow> node \<times> pk_state" where
  "timer_bh_pass env now ctx n s =
     (let s1 = preempt env (timer_bh_visit env now ctx n s);
          n1 = cursor s1;
          s2 = preempt_late env s1
      in (n1, snd (pk_critical_section_enter s2)))"

fun timer_bh_scan ::
  "nat \<Rightarrow> timer_env \<Rightarrow> PkTimebase \<Rightarrow> bool \<Rightarrow> node \<Rightarrow> pk_state \<Rightarrow> pk_state option" where
  "timer_bh_scan 0 env now ctx n s = None"
| "timer_bh_scan (Suc k) env now ctx n s =
     (if n = TimeQueue then Some s
      else let (n, s) = timer_bh_pass env now ctx n s
           in timer_bh_scan k env now ctx n s)"

fun timer_bh_loop ::
  "nat \<Rightarrow> timer_env \<Rightarrow> bool \<Rightarrow> PkTimebase list \<Rightarrow> pk_state \<Rightarrow> pk_state option" where
  "timer_bh_loop k env ctx [] s = None"
| "timer_bh_loop k env ctx (now # nows) s =
     (if now \<ge> next_timeout s
      then let s1 = s\<lparr>next_timeout := PK_TIMEBASE_MAX\<rparr>
           in case timer_bh_scan k env now ctx (dq_next (heap s1) TimeQueue) s1 of
                None \<Rightarrow> None
              | Some s2 \<Rightarrow> timer_bh_loop k env ctx nows s2
      else Some s)"

definition i_pk_timer_bh_handler ::
  "nat \<Rightarrow> timer_env \<Rightarrow> PkTimebase list \<Rightarrow> pk_state \<Rightarrow> pk_state option" where
  "i_pk_timer_bh_handler k env nows s =
     (if cursor s \<noteq> Null then Some (PK_PANIC PK_TIMER_HANDLER_INVARIANT s)
      else let (ctx, s1) = pk_critical_section_enter s
           in case timer_bh_loop k env ctx nows s1 of
                None \<Rightarrow> None
              | Some s2 \<Rightarrow>
                  let s3 = (pk_critical_section_exit ctx s2)\<lparr>cursor := Null\<rparr>
                  in Some (i_pk_schedule_hardware_timeout (next_timeout s3) s3))"

subsection \<open>Bottom halves\<close>

definition pk_timer_bh :: node where
  "pk_timer_bh = BottomHalf 0"

definition pk_bh_schedule :: "node \<Rightarrow> pk_state \<Rightarrow> pk_state" where
  "pk_bh_schedule b s =
     (if \<not> pk_deque_is_queued (heap s) b
      then s\<lparr>heap := pk_deque_push_back (heap s) BhQueue b\<rparr> else s)"

definition i_pk_timer_handler :: "pk_state \<Rightarrow> pk_state" where
  "i_pk_timer_handler s = pk_bh_schedule pk_timer_bh s"

text \<open>
  Handlers run in queue order until the queue is empty; \<open>run\<close> calls the handler of a bottom
  half, which may not return (\<open>None\<close>) and may schedule further bottom halves.
\<close>

fun pk_process_bh :: "nat \<Rightarrow> (node \<Rightarrow> pk_state \<Rightarrow> pk_state option) \<Rightarrow> pk_state \<Rightarrow> pk_state option" where
  "pk_process_bh 0 run s = None"
| "pk_process_bh (Suc k) run s =
     (let (b, h) = pk_deque_pop_front (heap s) BhQueue
      in if b = Null then Some (s\<lparr>heap := h\<rparr>)
         else case run b (s\<lparr>heap := h\<rparr>) of
                None \<Rightarrow> None
              | Some s1 \<Rightarrow> pk_process_bh k run s1)"

subsection \<open>The time queue invariant\<close>

text \<open>
  \<open>time_queue s xs\<close>: the time queue holds the timers \<open>xs\<close>, a timer is active exactly when it
  is one of them, and the cursor is null, the sentinel or one of them. \<open>earliest s xs\<close>: no
  queued timer is due before \<open>next_timeout\<close>.
\<close>

definition is_timer :: "node \<Rightarrow> bool" where
  "is_timer n \<longleftrightarrow> (case n of ThreadTimer _ \<Rightarrow> True | AppTimer _ \<Rightarrow> True | _ \<Rightarrow> False)"

lemma is_timer_simps [simp]:
  "\<not> is_timer Null" "\<not> is_timer TimeQueue" "\<not> is_timer BhQueue" "\<not> is_timer (BottomHalf b)"
  "is_timer (ThreadTimer t)" "is_timer (AppTimer t)"
  by (simp_all add: is_timer_def)

definition time_queue :: "pk_state \<Rightarrow> node list \<Rightarrow> bool" where
  "time_queue s xs \<longleftrightarrow> dq (heap s) TimeQueue xs \<and>
     (\<forall>n. is_timer n \<longrightarrow> (timer_active s n \<longleftrightarrow> n \<in> set xs)) \<and>
     (\<forall>n \<in> set xs. is_timer n) \<and> cursor s \<in> {Null, TimeQueue} \<union> set xs"

definition earliest :: "pk_state \<Rightarrow> node list \<Rightarrow> bool" where
  "earliest s xs \<longleftrightarrow> (\<forall>n \<in> set xs. next_timeout s \<le> tmr_timeout (timers s n))"

lemma hardware_timeout_frame [simp]:
  "heap (i_pk_schedule_hardware_timeout t s) = heap s"
  "timers (i_pk_schedule_hardware_timeout t s) = timers s"
  "cursor (i_pk_schedule_hardware_timeout t s) = cursor s"
  "next_timeout (i_pk_schedule_hardware_timeout t s) = next_timeout s"
  "threads (i_pk_schedule_hardware_timeout t s) = threads s"
  "semaphores (i_pk_schedule_hardware_timeout t s) = semaphores s"
  "run_queue (i_pk_schedule_hardware_timeout t s) = run_queue s"
  "priority_map (i_pk_schedule_hardware_timeout t s) = priority_map s"
  "current_thread (i_pk_schedule_hardware_timeout t s) = current_thread s"
  "next_thread (i_pk_schedule_hardware_timeout t s) = next_thread s"
  "next_priority (i_pk_schedule_hardware_timeout t s) = next_priority s"
  "delayed_switch (i_pk_schedule_hardware_timeout t s) = delayed_switch s"
  "thread_mode (i_pk_schedule_hardware_timeout t s) = thread_mode s"
  "processing_interrupt (i_pk_schedule_hardware_timeout t s) = processing_interrupt s"
  "msr_ee (i_pk_schedule_hardware_timeout t s) = msr_ee s"
  "panic (i_pk_schedule_hardware_timeout t s) = panic s"
  "calls (i_pk_schedule_hardware_timeout t s) = calls s"
  by (simp_all add: i_pk_schedule_hardware_timeout_def Let_def)

text \<open>The invariant depends on the heap and the cursor only.\<close>

lemma time_queue_cong:
  "heap s' = heap s \<Longrightarrow> cursor s' = cursor s \<Longrightarrow> time_queue s' xs = time_queue s xs"
  by (simp add: time_queue_def timer_active_def)

lemma dq_delete_next_frame:
  assumes "dq h s xs" and "e \<in> set xs" and "a \<notin> insert s (set xs)"
  shows "pk_deque_is_queued (pk_deque_delete h e) a = pk_deque_is_queued h a"
  using delete_frame(1) [OF assms(1,2)] assms(3) by (simp add: pk_deque_is_queued_def)

lemma time_queue_delete:
  assumes q: "time_queue s xs" and n: "n \<in> set xs"
    and c: "c \<in> {Null, TimeQueue} \<union> set (remove1 n xs)"
  shows "time_queue (s\<lparr>cursor := c, heap := pk_deque_delete (heap s) n\<rparr>) (remove1 n xs)"
proof -
  from q have d: "dq (heap s) TimeQueue xs" "distinct xs" by (simp_all add: time_queue_def dq_def)
  have "pk_deque_is_queued (pk_deque_delete (heap s) n) m \<longleftrightarrow> m \<in> set (remove1 n xs)"
    if m: "is_timer m" for m
  proof (cases "m \<in> set xs")
    case True
    then show ?thesis
      using d n dq_delete [OF d(1) n] dq_queued [OF dq_delete(1) [OF d(1) n], of m]
      by (cases "m = n") auto
  next
    case False
    with m have "m \<notin> insert TimeQueue (set xs)" by auto
    with dq_delete_next_frame [OF d(1) n] False q m show ?thesis
      by (auto simp: time_queue_def timer_active_def dest: notin_set_remove1)
  qed
  with q n c d dq_delete(1) [OF d(1) n] show ?thesis
    by (auto simp: time_queue_def timer_active_def dest: notin_set_remove1)
qed

text \<open>The node after a queued timer is another queued timer or the sentinel.\<close>

lemma time_queue_next:
  assumes q: "time_queue s xs" and n: "n \<in> set xs"
  shows "dq_next (heap s) n \<in> {TimeQueue} \<union> set (remove1 n xs)"
proof -
  from q have d: "dq (heap s) TimeQueue xs" by (simp add: time_queue_def)
  from n obtain ys zs where xs: "xs = ys @ n # zs" by (auto dest: split_list)
  have "n \<notin> set ys" "n \<notin> set zs" using d xs by (auto simp: dq_def)
  moreover have "dq_next (heap s) n = hd (zs @ [TimeQueue])" using d xs dq_split(2) by blast
  moreover have "hd (zs @ [TimeQueue]) \<in> set (zs @ [TimeQueue])" by (rule hd_in_set) simp
  ultimately show ?thesis using xs by (auto simp: remove1_append)
qed

lemma i_pk_timer_cancel_inv:
  assumes q: "time_queue s xs" and n: "is_timer n"
  shows "fst (i_pk_timer_cancel n s) = (if n \<in> set xs then PK_OK else Neg PK_TIMER_NOT_ACTIVE)"
    and "time_queue (snd (i_pk_timer_cancel n s)) (remove1 n xs)"
    and "\<not> timer_active (snd (i_pk_timer_cancel n s)) n"
proof -
  have act: "timer_active s n \<longleftrightarrow> n \<in> set xs" using q n by (simp add: time_queue_def)
  show "fst (i_pk_timer_cancel n s) = (if n \<in> set xs then PK_OK else Neg PK_TIMER_NOT_ACTIVE)"
    by (simp add: i_pk_timer_cancel_def act Let_def)
  have "time_queue (snd (i_pk_timer_cancel n s)) (remove1 n xs)" if m: "n \<in> set xs"
  proof -
    define c where "c = (if n = cursor s then dq_next (heap s) n else cursor s)"
    have eq: "snd (i_pk_timer_cancel n s) = s\<lparr>cursor := c, heap := pk_deque_delete (heap s) n\<rparr>"
      using act m by (auto simp: i_pk_timer_cancel_def c_def Let_def)
    have "distinct xs" using q by (simp add: time_queue_def dq_def)
    then have "c \<in> {Null, TimeQueue} \<union> set (remove1 n xs)"
      using time_queue_next [OF q m] q by (auto simp: c_def time_queue_def)
    with time_queue_delete [OF q m] show ?thesis by (simp add: eq)
  qed
  then show t: "time_queue (snd (i_pk_timer_cancel n s)) (remove1 n xs)"
    using q act by (cases "n \<in> set xs") (auto simp: i_pk_timer_cancel_def remove1_idem)
  have "distinct xs" using q by (simp add: time_queue_def dq_def)
  then show "\<not> timer_active (snd (i_pk_timer_cancel n s)) n" using t n by (simp add: time_queue_def)
qed

text \<open>Scheduling appends an inactive timer and leaves an active one in its place.\<close>

definition enqueue :: "node \<Rightarrow> node list \<Rightarrow> node list" where
  "enqueue n xs = (if n \<in> set xs then xs else xs @ [n])"

lemma set_enqueue [simp]: "set (enqueue n xs) = insert n (set xs)"
  by (auto simp: enqueue_def)

lemma push_back_time_queue:
  assumes q: "time_queue s xs" and n: "is_timer n" "n \<notin> set xs"
  shows "time_queue (s\<lparr>heap := pk_deque_push_back (heap s) TimeQueue n\<rparr>) (xs @ [n])"
proof -
  from q have d: "dq (heap s) TimeQueue xs" by (simp add: time_queue_def)
  have e: "n \<notin> set (TimeQueue # xs)" "n \<noteq> Null" using n by auto
  note d' = dq_push_back [OF d e]
  have "pk_deque_is_queued (pk_deque_push_back (heap s) TimeQueue n) m \<longleftrightarrow> m \<in> set (xs @ [n])"
    if m: "is_timer m" for m
  proof (cases "m \<in> set (xs @ [n])")
    case True
    then show ?thesis using dq_queued [OF d'] by blast
  next
    case False
    with m have "m \<notin> set (n # TimeQueue # xs)" by auto
    from push_back_frame(1) [OF d this] q m False show ?thesis
      by (auto simp: time_queue_def timer_active_def pk_deque_is_queued_def)
  qed
  with q n d' show ?thesis by (auto simp: time_queue_def timer_active_def)
qed

lemma i_pk_timer_schedule_frame:
  "timers (i_pk_timer_schedule n s) = timers s"
  "next_timeout (i_pk_timer_schedule n s) = min (next_timeout s) (tmr_timeout (timers s n))"
  "cursor (i_pk_timer_schedule n s) = cursor s"
  "msr_ee (i_pk_timer_schedule n s) = msr_ee s"
  "pk_timebase_get (i_pk_timer_schedule n s) = pk_timebase_get s"
  by (auto simp: i_pk_timer_schedule_def Let_def min_def timebase_schedule_hardware_timeout)
     (auto simp: pk_timebase_get_def)

lemma i_pk_timer_schedule_inv:
  assumes q: "time_queue s xs" and n: "is_timer n"
  shows "time_queue (i_pk_timer_schedule n s) (enqueue n xs)"
proof -
  let ?s = "if \<not> timer_active s n then s\<lparr>heap := pk_deque_push_back (heap s) TimeQueue n\<rparr> else s"
  have act: "timer_active s n \<longleftrightarrow> n \<in> set xs" using q n by (simp add: time_queue_def)
  have "heap (i_pk_timer_schedule n s) = heap ?s" "cursor (i_pk_timer_schedule n s) = cursor ?s"
    by (auto simp: i_pk_timer_schedule_def Let_def)
  then have "time_queue (i_pk_timer_schedule n s) (enqueue n xs) = time_queue ?s (enqueue n xs)"
    by (rule time_queue_cong)
  with q n push_back_time_queue [OF q n] show ?thesis by (auto simp: act enqueue_def)
qed

lemma i_pk_timer_schedule_earliest:
  assumes "\<forall>m \<in> set xs - {n}. next_timeout s \<le> tmr_timeout (timers s m)"
  shows "earliest (i_pk_timer_schedule n s) (enqueue n xs)"
  using assms by (auto simp: earliest_def i_pk_timer_schedule_frame min_le_iff_disj)

text \<open>An armed timer is never missed: the decrementer interrupt comes no later than its timeout.\<close>

lemma i_pk_timer_schedule_armed:
  assumes "tmr_timeout (timers s n) < next_timeout s" and "cursor s = Null"
    and "pk_timebase_get s < tmr_timeout (timers s n)" and "tmr_timeout (timers s n) \<noteq> PK_TIMEBASE_MAX"
  shows "unat (pk_timebase_get s) + unat (dec (i_pk_timer_schedule n s))
    \<le> unat (tmr_timeout (timers s n))"
proof -
  let ?s = "if \<not> timer_active s n then s\<lparr>heap := pk_deque_push_back (heap s) TimeQueue n\<rparr> else s"
  let ?t = "tmr_timeout (timers s n)"
  have eq: "i_pk_timer_schedule n s = i_pk_schedule_hardware_timeout ?t (?s\<lparr>next_timeout := ?t\<rparr>)"
    using assms(1,2) by (auto simp: i_pk_timer_schedule_def Let_def)
  have tb: "pk_timebase_get (?s\<lparr>next_timeout := ?t\<rparr>) = pk_timebase_get s"
    by (simp add: pk_timebase_get_def)
  show ?thesis
    using hardware_timeout_dec(3) [OF assms(4), of "?s\<lparr>next_timeout := ?t\<rparr>"] assms(3)
    by (simp add: eq tb)
qed

subsection \<open>What one pass of the handler does\<close>

text \<open>
  A quiet routine leaves the time queue alone; it may change threads, semaphores and the
  scheduler. The kernel's own callback \<open>__pk_thread_timeout\<close> is quiet.
\<close>

definition quiet :: "(pk_state \<Rightarrow> pk_state) \<Rightarrow> bool" where
  "quiet f \<longleftrightarrow> (\<forall>s. heap (f s) = heap s \<and> timers (f s) = timers s \<and> cursor (f s) = cursor s \<and>
     next_timeout (f s) = next_timeout s \<and> calls (f s) = calls s)"

definition quiet_env :: "timer_env \<Rightarrow> bool" where
  "quiet_env env \<longleftrightarrow> quiet (preempt env) \<and> quiet (preempt_late env) \<and>
     (\<forall>c a. quiet (run_callback env c a))"

definition expired :: "pk_state \<Rightarrow> PkTimebase \<Rightarrow> node \<Rightarrow> bool" where
  "expired s now n \<longleftrightarrow> tmr_timeout (timers s n) \<le> now"

definition call_of :: "pk_state \<Rightarrow> node \<Rightarrow> (PkTimerCallback \<times> nat) list" where
  "call_of s n = (if tmr_callback (timers s n) = NoCallback then []
     else [(tmr_callback (timers s n), tmr_arg (timers s n))])"

lemma pass_frame [simp]:
  "expired (s\<lparr>msr_ee := b\<rparr>) = expired s" "expired (s\<lparr>next_timeout := t\<rparr>) = expired s"
  "call_of (s\<lparr>msr_ee := b\<rparr>) = call_of s" "call_of (s\<lparr>next_timeout := t\<rparr>) = call_of s"
  by (auto simp: expired_def call_of_def fun_eq_iff)

text \<open>The abstract pass: which timers stay, which calls are made, what timeout is next.\<close>

definition after_pass :: "PkTimebase \<Rightarrow> node list \<Rightarrow> node list \<Rightarrow> pk_state \<Rightarrow> pk_state \<Rightarrow> bool" where
  "after_pass now ys xs s s' \<longleftrightarrow>
     dq (heap s') TimeQueue (ys @ filter (\<lambda>n. \<not> expired s now n) xs) \<and>
     (\<forall>m \<in> set xs. expired s now m \<longrightarrow> \<not> timer_active s' m) \<and>
     (\<forall>m. m \<notin> set (TimeQueue # ys @ xs) \<longrightarrow> dq_next (heap s') m = dq_next (heap s) m) \<and>
     timers s' = timers s \<and>
     calls s' = calls s @ concat (map (call_of s) (filter (expired s now) xs)) \<and>
     next_timeout s' = foldl min (next_timeout s)
       (map (\<lambda>n. tmr_timeout (timers s n)) (filter (\<lambda>n. \<not> expired s now n) xs))"

lemma call_timer_quiet:
  assumes "quiet_env env"
  shows "heap (call_timer env t s) = heap s" "timers (call_timer env t s) = timers s"
    "cursor (call_timer env t s) = cursor s" "next_timeout (call_timer env t s) = next_timeout s"
    "calls (call_timer env t s) =
       calls s @ (if tmr_callback t = NoCallback then [] else [(tmr_callback t, tmr_arg t)])"
  using assms by (auto simp: call_timer_def quiet_env_def quiet_def)

lemma timer_bh_visit_quiet:
  assumes "quiet_env env" and "dq (heap s) TimeQueue (ys @ n # xs)"
  shows "cursor (timer_bh_visit env now ctx n s) = hd (xs @ [TimeQueue])"
    and "dq (heap (timer_bh_visit env now ctx n s)) TimeQueue
      ((if expired s now n then ys else ys @ [n]) @ xs)"
    and "timers (timer_bh_visit env now ctx n s) = timers s"
    and "calls (timer_bh_visit env now ctx n s) =
      calls s @ (if expired s now n then call_of s n else [])"
    and "next_timeout (timer_bh_visit env now ctx n s) =
      (if expired s now n then next_timeout s else min (next_timeout s) (tmr_timeout (timers s n)))"
    and "expired s now n \<Longrightarrow> dq_next (heap (timer_bh_visit env now ctx n s)) n = Null"
    and "m \<notin> set (TimeQueue # ys @ n # xs) \<Longrightarrow>
      dq_next (heap (timer_bh_visit env now ctx n s)) m = dq_next (heap s) m"
  using assms dq_split(2) [OF assms(2)] dq_delete_split [OF assms(2)]
    delete_frame(1) [OF assms(2), of n m]
  by (auto simp: timer_bh_visit_def Let_def expired_def call_timer_quiet critical_defs call_of_def
      min.commute)

lemma timer_bh_scan_quiet:
  assumes env: "quiet_env env"
  shows "length xs < k \<Longrightarrow> dq (heap s) TimeQueue (ys @ xs) \<Longrightarrow>
    \<exists>s'. timer_bh_scan k env now ctx (hd (xs @ [TimeQueue])) s = Some s' \<and>
      after_pass now ys xs s s'"
proof (induction xs arbitrary: k s ys)
  case Nil
  then show ?case by (cases k) (auto simp: after_pass_def)
next
  case (Cons n xs)
  from Cons.prems obtain k' where k: "k = Suc k'" "length xs < k'" by (cases k) auto
  have n: "n \<noteq> TimeQueue" using Cons.prems by (auto simp: dq_def)
  define v where "v = timer_bh_visit env now ctx n s"
  define s3 where "s3 = snd (pk_critical_section_enter (preempt_late env (preempt env v)))"
  define ys' where "ys' = (if expired s now n then ys else ys @ [n])"
  note visit = timer_bh_visit_quiet [OF env Cons.prems(2), where now = now and ctx = ctx, folded v_def]
  have same: "heap s3 = heap v" "timers s3 = timers v" "calls s3 = calls v"
    "next_timeout s3 = next_timeout v"
    using env by (auto simp: s3_def critical_defs quiet_env_def quiet_def)
  have "cursor (preempt env v) = hd (xs @ [TimeQueue])"
    using env visit(1) by (auto simp: quiet_env_def quiet_def)
  then have step: "timer_bh_scan k env now ctx (hd ((n # xs) @ [TimeQueue])) s =
      timer_bh_scan k' env now ctx (hd (xs @ [TimeQueue])) s3"
    using n by (simp add: k s3_def v_def timer_bh_pass_def Let_def)
  have "dq (heap s3) TimeQueue (ys' @ xs)" using visit(2) by (simp add: same ys'_def)
  from Cons.IH [OF k(2) this] obtain s' where
    s': "timer_bh_scan k' env now ctx (hd (xs @ [TimeQueue])) s3 = Some s'" and
    ap: "after_pass now ys' xs s3 s'" by blast
  have "expired s3 now = expired s now" "call_of s3 = call_of s"
    by (auto simp: expired_def call_of_def same visit(3))
  then have eqs: "expired s3 now = expired s now" "call_of s3 = call_of s" by blast+
  have dist: "n \<notin> set (TimeQueue # ys @ xs)" using Cons.prems by (auto simp: dq_def)
  have "after_pass now ys (n # xs) s s'"
    unfolding after_pass_def
  proof (intro conjI allI ballI impI)
    show "dq (heap s') TimeQueue (ys @ filter (\<lambda>n. \<not> expired s now n) (n # xs))"
      using ap eqs by (simp add: after_pass_def ys'_def split: if_splits)
    show "timers s' = timers s" using ap by (simp add: after_pass_def same visit(3))
    show "calls s' = calls s @ concat (map (call_of s) (filter (expired s now) (n # xs)))"
      using ap eqs by (simp add: after_pass_def same visit(4))
    show "next_timeout s' = foldl min (next_timeout s)
       (map (\<lambda>n. tmr_timeout (timers s n)) (filter (\<lambda>n. \<not> expired s now n) (n # xs)))"
      using ap eqs by (simp add: after_pass_def same visit(3,5))
    fix m
    show "\<not> timer_active s' m" if "m \<in> set (n # xs)" "expired s now m"
    proof (cases "m = n")
      case True
      then have "dq_next (heap s') n = dq_next (heap s3) n"
        using ap dist that by (simp add: after_pass_def ys'_def)
      with True that visit(6) show ?thesis
        by (simp add: timer_active_def pk_deque_is_queued_def same)
    next
      case False
      with that ap eqs show ?thesis by (simp add: after_pass_def)
    qed
    show "dq_next (heap s') m = dq_next (heap s) m" if "m \<notin> set (TimeQueue # ys @ n # xs)"
      using that ap visit(7) [of m] by (auto simp: after_pass_def ys'_def same split: if_splits)
  qed
  with step s' show ?case by auto
qed

lemma foldl_min_le:
  fixes a :: "'a::linorder"
  shows "foldl min a l \<le> a" and "x \<in> set l \<Longrightarrow> foldl min a l \<le> x"
proof (induction l arbitrary: a)
  case (Cons y l)
  case 1
  show ?case using Cons(1) [of "min a y"] by simp
  case 2
  then show ?case using Cons(1) [of "min a y"] Cons(2) [of "min a y"]
    by (auto intro: order.trans)
qed simp_all

lemma foldl_min_in:
  fixes a :: "'a::linorder"
  shows "foldl min a l \<in> insert a (set l)"
proof (induction l arbitrary: a)
  case (Cons y l)
  from Cons [of "min a y"] show ?case by (auto simp: min_def split: if_splits)
qed simp

lemma after_pass_time_queue:
  assumes ap: "after_pass now [] xs s s'" and q: "time_queue s xs" and c: "cursor s'' = Null"
    and h: "heap s'' = heap s'"
  shows "time_queue s'' (filter (\<lambda>n. \<not> expired s now n) xs)"
proof -
  have "timer_active s'' m \<longleftrightarrow> m \<in> set (filter (\<lambda>n. \<not> expired s now n) xs)" if m: "is_timer m" for m
  proof (cases "m \<in> set xs")
    case True
    with ap show ?thesis
      using dq_queued [of "heap s'" TimeQueue "filter (\<lambda>n. \<not> expired s now n) xs" m]
      by (auto simp: after_pass_def timer_active_def h)
  next
    case False
    with m have "m \<notin> set (TimeQueue # xs)" by auto
    with ap False q m show ?thesis
      by (auto simp: after_pass_def timer_active_def pk_deque_is_queued_def h time_queue_def)
  qed
  with ap q c show ?thesis by (auto simp: time_queue_def after_pass_def h)
qed

text \<open>A state with an empty time queue, and one application timer scheduled in it.\<close>

definition idle_state :: pk_state where
  "idle_state = zero_state\<lparr>heap := snd (pk_deque_sentinel_create (heap zero_state) TimeQueue),
     next_timeout := PK_TIMEBASE_MAX, msr_ee := True\<rparr>"

definition quiet_world :: timer_env where
  "quiet_world = \<lparr>run_callback = (\<lambda>_ _ s. s), preempt = (\<lambda>s. s), preempt_late = (\<lambda>s. s)\<rparr>"

lemma time_queue_idle: "time_queue idle_state []"
  by (simp add: time_queue_def idle_state_def zero_state_def dq_empty pk_deque_sentinel_create_def
      timer_active_def pk_deque_is_queued_def is_timer_def split: node.splits)

lemma quiet_env_world: "quiet_env quiet_world"
  by (simp add: quiet_env_def quiet_def quiet_world_def)

definition one_timer :: pk_state where
  "one_timer = snd (pk_timer_schedule (AppTimer 2) 100
     (snd (pk_timer_create (AppTimer 2) (AppCallback 7) 5 idle_state)))"

lemma pk_timer_schedule_state:
  assumes "n \<noteq> Null"
  shows "pk_timer_schedule n i s = (PK_OK,
    (i_pk_timer_schedule n (upd_timer n (\<lambda>t. t\<lparr>tmr_timeout := pk_timebase_get s + PK_INTERVAL_SCALE s i\<rparr>)
       (s\<lparr>msr_ee := False\<rparr>)))\<lparr>msr_ee := msr_ee s\<rparr>)"
  using assms by (simp add: pk_timer_schedule_def critical_defs Let_def)

lemma time_queue_create:
  assumes "time_queue s xs" and "n \<notin> set xs" and "is_timer n"
  shows "time_queue (snd (pk_timer_create n cb a s)) xs"
proof -
  have "same_on (insert TimeQueue (set xs)) (heap s) (set_next (heap s) n Null)"
    using assms(2,3) by (auto simp: same_on_def)
  from dq_same_on [OF this] assms show ?thesis
    by (auto simp: time_queue_def timer_active_def pk_timer_create_def upd_timer_def
        pk_deque_element_create_def pk_deque_is_queued_def)
qed

lemma pk_timer_cancel_inv:
  assumes "time_queue s xs" and "is_timer n"
  shows "fst (pk_timer_cancel n s) = (if n \<in> set xs then PK_OK else Neg PK_TIMER_NOT_ACTIVE)"
    and "time_queue (snd (pk_timer_cancel n s)) (remove1 n xs)"
    and "\<not> timer_active (snd (pk_timer_cancel n s)) n"
    and "msr_ee (snd (pk_timer_cancel n s)) = msr_ee s"
proof -
  let ?s = "s\<lparr>msr_ee := False\<rparr>"
  have q: "time_queue ?s xs" using assms(1) time_queue_cong [of ?s s] by simp
  have nn: "n \<noteq> Null" using assms(2) by auto
  have "pk_timer_cancel n s =
    (fst (i_pk_timer_cancel n ?s), (snd (i_pk_timer_cancel n ?s))\<lparr>msr_ee := msr_ee s\<rparr>)"
    using nn by (simp add: pk_timer_cancel_def critical_defs split_beta)
  with i_pk_timer_cancel_inv [OF q assms(2)] show "fst (pk_timer_cancel n s) = (if n \<in> set xs then PK_OK else Neg PK_TIMER_NOT_ACTIVE)"
    and "time_queue (snd (pk_timer_cancel n s)) (remove1 n xs)"
    and "\<not> timer_active (snd (pk_timer_cancel n s)) n"
    and "msr_ee (snd (pk_timer_cancel n s)) = msr_ee s"
    using time_queue_cong [of "(snd (i_pk_timer_cancel n ?s))\<lparr>msr_ee := msr_ee s\<rparr>"]
    by (simp_all add: timer_active_def)
qed

subsection \<open>Properties of the time queue\<close>

text \<open>
  Property C22. \<open>pk_timer_schedule\<close> keeps the time queue well formed and keeps \<open>next_timeout\<close>
  the earliest timeout: the timer is queued once, due at the current time plus the scaled
  interval, and interrupts are enabled again as they were.
\<close>

theorem pk_timer_schedule_correct:
  assumes q: "time_queue s xs" and e: "earliest s xs" and n: "is_timer n"
  shows "fst (pk_timer_schedule n i s) = PK_OK \<and>
    time_queue (snd (pk_timer_schedule n i s)) (enqueue n xs) \<and>
    earliest (snd (pk_timer_schedule n i s)) (enqueue n xs) \<and>
    tmr_timeout (timers (snd (pk_timer_schedule n i s)) n) =
      pk_timebase_get s + PK_INTERVAL_SCALE s i \<and>
    msr_ee (snd (pk_timer_schedule n i s)) = msr_ee s"
proof -
  let ?u = "upd_timer n (\<lambda>t. t\<lparr>tmr_timeout := pk_timebase_get s + PK_INTERVAL_SCALE s i\<rparr>)
    (s\<lparr>msr_ee := False\<rparr>)"
  have nn: "n \<noteq> Null" using n by auto
  have "time_queue ?u xs" using q time_queue_cong [of ?u s xs] by (simp add: upd_timer_def)
  note tq = i_pk_timer_schedule_inv [OF this n]
  have "\<forall>m \<in> set xs - {n}. next_timeout ?u \<le> tmr_timeout (timers ?u m)"
    using e by (auto simp: earliest_def upd_timer_def)
  note ea = i_pk_timer_schedule_earliest [OF this]
  show ?thesis
    using tq ea time_queue_cong [of "(i_pk_timer_schedule n ?u)\<lparr>msr_ee := msr_ee s\<rparr>"]
    by (auto simp: pk_timer_schedule_state [OF nn] earliest_def i_pk_timer_schedule_frame upd_timer_def)
qed

theorem pk_timer_schedule_correct_witness:
  "time_queue (snd (pk_timer_schedule (AppTimer 2) 100 idle_state)) [AppTimer 2]"
  using pk_timer_schedule_correct [OF time_queue_idle, of "AppTimer 2" 100]
  by (simp add: earliest_def enqueue_def)

text \<open>
  \<open>pk_timer_cancel\<close> on a timer removes it wherever it is in the queue, keeps the
  queue and the handler's cursor valid, and reports \<open>PK_TIMER_NOT_ACTIVE\<close> exactly when the
  timer was not queued.
\<close>

lemma pk_timer_cancel_correct:
  assumes "time_queue s xs" and "is_timer n"
  shows "fst (pk_timer_cancel n s) = (if n \<in> set xs then PK_OK else Neg PK_TIMER_NOT_ACTIVE) \<and>
    time_queue (snd (pk_timer_cancel n s)) (remove1 n xs) \<and>
    \<not> timer_active (snd (pk_timer_cancel n s)) n \<and>
    msr_ee (snd (pk_timer_cancel n s)) = msr_ee s"
  using pk_timer_cancel_inv [OF assms] by simp

lemma pk_timer_cancel_correct_witness:
  "fst (pk_timer_cancel (AppTimer 2) idle_state) = Neg PK_TIMER_NOT_ACTIVE"
  using pk_timer_cancel_correct [OF time_queue_idle, of "AppTimer 2"] by simp

text \<open>
  Property C21. The timer bottom half, entered when the next timeout has come, with callbacks and interrupts that
  leave the time queue alone and when no further timer comes due between its two readings of the time, returns;
  it calls back every expired timer exactly once and in queue order, removes exactly those
  from the queue, leaves \<open>next_timeout\<close> the earliest of the remaining timeouts
  (\<open>PK_TIMEBASE_MAX\<close> when none remains) and the decrementer of the hardware set for it.
\<close>

theorem timer_bh_handler_correct:
  assumes env: "quiet_env env" and q: "time_queue s xs" and c: "cursor s = Null"
    and due: "next_timeout s \<le> now" and fuel: "length xs < k"
    and later: "now' < PK_TIMEBASE_MAX"
      "\<forall>n \<in> set xs. now < tmr_timeout (timers s n) \<longrightarrow> now' < tmr_timeout (timers s n)"
  shows "\<exists>s'. i_pk_timer_bh_handler k env [now, now'] s = Some s' \<and>
    time_queue s' (filter (\<lambda>n. \<not> expired s now n) xs) \<and>
    earliest s' (filter (\<lambda>n. \<not> expired s now n) xs) \<and>
    next_timeout s' \<in> insert PK_TIMEBASE_MAX
      ((\<lambda>n. tmr_timeout (timers s n)) ` set (filter (\<lambda>n. \<not> expired s now n) xs)) \<and>
    decrementer_set s' (next_timeout s') \<and>
    calls s' = calls s @ concat (map (call_of s) (filter (expired s now) xs))"
proof -
  define r where "r = filter (\<lambda>n. \<not> expired s now n) xs"
  define s1 where "s1 = s\<lparr>msr_ee := False, next_timeout := PK_TIMEBASE_MAX\<rparr>"
  have d: "dq (heap s1) TimeQueue ([] @ xs)" using q by (simp add: s1_def time_queue_def)
  have hd: "dq_next (heap s1) TimeQueue = hd (xs @ [TimeQueue])" using d by (cases xs) (auto simp: dq_def)
  from timer_bh_scan_quiet [OF env fuel d] hd obtain s2 where
    s2: "timer_bh_scan k env now (msr_ee s) (dq_next (heap s1) TimeQueue) s1 = Some s2"
    and ap1: "after_pass now [] xs s1 s2" by auto
  then have ap: "after_pass now [] xs (s\<lparr>next_timeout := PK_TIMEBASE_MAX\<rparr>) s2"
    by (simp add: after_pass_def s1_def)
  let ?ts = "map (\<lambda>n. tmr_timeout (timers s n)) r"
  have nt: "next_timeout s2 = foldl min PK_TIMEBASE_MAX ?ts"
    using ap by (simp add: after_pass_def r_def)
  have "next_timeout s2 \<in> insert PK_TIMEBASE_MAX (set ?ts)" unfolding nt by (rule foldl_min_in)
  then have stop: "\<not> next_timeout s2 \<le> now'"
    using later by (auto simp: r_def expired_def)
  define s3 where "s3 = s2\<lparr>msr_ee := msr_ee s, cursor := Null\<rparr>"
  have run: "i_pk_timer_bh_handler k env [now, now'] s =
      Some (i_pk_schedule_hardware_timeout (next_timeout s3) s3)"
    using c due s2 stop by (simp add: i_pk_timer_bh_handler_def critical_defs s1_def s3_def)
  have q0: "time_queue (s\<lparr>next_timeout := PK_TIMEBASE_MAX\<rparr>) xs"
    using q time_queue_cong [of "s\<lparr>next_timeout := PK_TIMEBASE_MAX\<rparr>" s] by simp
  have "time_queue (i_pk_schedule_hardware_timeout (next_timeout s3) s3) r"
    using after_pass_time_queue [OF ap q0] by (simp add: s3_def r_def)
  moreover have "earliest (i_pk_schedule_hardware_timeout (next_timeout s3) s3) r"
    using foldl_min_le(2) [of _ ?ts PK_TIMEBASE_MAX] ap nt
    by (auto simp: earliest_def s3_def after_pass_def)
  moreover have "next_timeout s2 \<in> insert PK_TIMEBASE_MAX ((\<lambda>n. tmr_timeout (timers s n)) ` set r)"
    using nt foldl_min_in [of PK_TIMEBASE_MAX ?ts] by auto
  moreover have "decrementer_set (i_pk_schedule_hardware_timeout (next_timeout s3) s3) (next_timeout s3)"
    by (rule decrementer_set_schedule)
  ultimately show ?thesis
    using run ap by (auto simp: s3_def r_def after_pass_def)
qed

lemma one_timer_queue:
  "time_queue one_timer [AppTimer 2]" "cursor one_timer = Null" "next_timeout one_timer = 100"
  "timers one_timer (AppTimer 2) = \<lparr>tmr_timeout = 100, tmr_callback = AppCallback 7, tmr_arg = 5\<rparr>"
  "calls one_timer = []"
proof -
  let ?c = "snd (pk_timer_create (AppTimer 2) (AppCallback 7) 5 idle_state)"
  have q: "time_queue ?c []" by (rule time_queue_create [OF time_queue_idle]) simp_all
  let ?u = "upd_timer (AppTimer 2) (\<lambda>t. t\<lparr>tmr_timeout := pk_timebase_get ?c + PK_INTERVAL_SCALE ?c 100\<rparr>)
    (?c\<lparr>msr_ee := False\<rparr>)"
  have "time_queue ?u []" using q time_queue_cong [of ?u ?c] by (simp add: upd_timer_def)
  from i_pk_timer_schedule_inv [OF this, of "AppTimer 2"]
  show "time_queue one_timer [AppTimer 2]"
    using time_queue_cong [of one_timer "i_pk_timer_schedule (AppTimer 2) ?u"]
    by (simp add: one_timer_def pk_timer_schedule_state enqueue_def)
qed (simp_all add: one_timer_def pk_timer_schedule_state i_pk_timer_schedule_def pk_timer_create_def
    upd_timer_def idle_state_def zero_state_def timer_active_def pk_deque_is_queued_def
    pk_deque_element_create_def pk_deque_sentinel_create_def pk_timebase_get_def
    PK_INTERVAL_SCALE_def PK_TIMEBASE_MAX_def i_pk_schedule_hardware_timeout_def Let_def)

theorem timer_bh_handler_correct_witness:
  "\<exists>s'. i_pk_timer_bh_handler 5 quiet_world [200, 201] one_timer = Some s' \<and>
    time_queue s' [] \<and> calls s' = [(AppCallback 7, 5)]"
  using timer_bh_handler_correct [OF quiet_env_world one_timer_queue(1,2), of 200 5 201]
  by (auto simp: one_timer_queue expired_def call_of_def PK_TIMEBASE_MAX_def)

text \<open>The queue of the bottom halves holds \<open>xs\<close>, and a bottom half is queued exactly when it is one of them.\<close>

definition bh_queue :: "pk_state \<Rightarrow> node list \<Rightarrow> bool" where
  "bh_queue s xs \<longleftrightarrow> dq (heap s) BhQueue xs \<and> set xs \<subseteq> range BottomHalf \<and>
     (\<forall>i. pk_deque_is_queued (heap s) (BottomHalf i) \<longleftrightarrow> BottomHalf i \<in> set xs)"

lemma bh_queue_schedule:
  assumes q: "bh_queue s xs" and b: "b \<in> range BottomHalf"
  shows "bh_queue (pk_bh_schedule b s) (enqueue b xs)"
proof (cases "b \<in> set xs")
  case True
  then have "pk_deque_is_queued (heap s) b" using q by (auto simp: bh_queue_def intro: dq_queued)
  then show ?thesis using q True by (simp add: pk_bh_schedule_def enqueue_def)
next
  case False
  have d: "dq (heap s) BhQueue xs" using q by (simp add: bh_queue_def)
  have "\<not> pk_deque_is_queued (heap s) b" using q b False by (auto simp: bh_queue_def)
  then have e: "pk_bh_schedule b s = s\<lparr>heap := pk_deque_push_back (heap s) BhQueue b\<rparr>"
    by (simp add: pk_bh_schedule_def)
  have p: "dq (pk_deque_push_back (heap s) BhQueue b) BhQueue (xs @ [b])"
    by (rule dqf.repr_append [OF d]) (use b False in auto)
  have "pk_deque_is_queued (pk_deque_push_back (heap s) BhQueue b) (BottomHalf i) \<longleftrightarrow> BottomHalf i \<in> set (xs @ [b])" for i
  proof (cases "BottomHalf i \<in> set (xs @ [b])")
    case True
    then show ?thesis using dq_queued [OF p] by blast
  next
    case False
    then have "BottomHalf i \<notin> set (b # BhQueue # xs)" by auto
    from push_back_frame(1) [OF d this] q False show ?thesis by (auto simp: bh_queue_def pk_deque_is_queued_def)
  qed
  then show ?thesis using p q b False by (simp add: e bh_queue_def enqueue_def)
qed

lemma bh_queue_pop:
  assumes q: "bh_queue s (x # xs)"
  shows "\<exists>h. pk_deque_pop_front (heap s) BhQueue = (x, h) \<and> bh_queue (s\<lparr>heap := h\<rparr>) xs"
proof -
  have d: "dq (heap s) BhQueue (x # xs)" using q by (simp add: bh_queue_def)
  define h where "h = pk_deque_delete (heap s) x"
  have p: "pk_deque_pop_front (heap s) BhQueue = (x, h)" unfolding h_def by (rule pop_front_delete [OF d])
  then have q': "dq h BhQueue xs" using dqf.pop_Cons [OF d] by simp
  have ds: "distinct (x # xs)" using d by (simp add: dq_def)
  have "pk_deque_is_queued h (BottomHalf i) \<longleftrightarrow> BottomHalf i \<in> set xs" for i
  proof (cases "BottomHalf i \<in> set (x # xs)")
    case True
    then show ?thesis
      using dq_queued [OF q'] dq_delete(2) [OF d, of x] ds by (cases "BottomHalf i = x") (auto simp: h_def)
  next
    case False
    then have "BottomHalf i \<notin> insert BhQueue (set (x # xs))" by simp
    from dq_delete_next_frame [OF d _ this, of x] q False show ?thesis by (auto simp: bh_queue_def h_def)
  qed
  then show ?thesis using p q' q by (auto simp: bh_queue_def)
qed

lemma bh_queue_cong: "heap s' = heap s \<Longrightarrow> bh_queue s' xs = bh_queue s xs"
  by (simp add: bh_queue_def)

lemma process_bh_drains:
  assumes run: "\<And>b x. b \<in> range BottomHalf \<Longrightarrow> \<exists>y. run b x = Some y \<and> heap y = heap x \<and> seen y = seen x @ [b]"
    and seen: "\<And>x h. seen (x\<lparr>heap := h\<rparr>) = seen x"
  shows "bh_queue s xs \<Longrightarrow> length xs < k \<Longrightarrow>
    \<exists>s'. pk_process_bh k run s = Some s' \<and> seen s' = seen s @ xs \<and> bh_queue s' []"
proof (induction xs arbitrary: s k)
  case Nil
  then obtain k' where k: "k = Suc k'" by (cases k) auto
  have "pk_deque_pop_front (heap s) BhQueue = (Null, heap s)"
    using dqf.pop_empty Nil by (simp add: bh_queue_def)
  then show ?case using Nil seen [where x = s and h = "heap s"] by (simp add: k)
next
  case (Cons x xs)
  then obtain k' where k: "k = Suc k'" "length xs < k'" by (cases k) auto
  obtain h where p: "pk_deque_pop_front (heap s) BhQueue = (x, h)" "bh_queue (s\<lparr>heap := h\<rparr>) xs"
    using bh_queue_pop [OF Cons.prems(1)] by blast
  have x: "x \<in> range BottomHalf" "x \<noteq> Null" using Cons.prems(1) by (auto simp: bh_queue_def)
  obtain y where y: "run x (s\<lparr>heap := h\<rparr>) = Some y" "heap y = h" "seen y = seen s @ [x]"
    using run [OF x(1), of "s\<lparr>heap := h\<rparr>"] seen by auto
  have "bh_queue y xs" using p(2) y(2) bh_queue_cong [of y "s\<lparr>heap := h\<rparr>"] by simp
  from Cons.IH [OF this k(2)] show ?case using p(1) y x(2) by (auto simp: k)
qed


text \<open>Every handler leaves its number in the log; 3 is scheduled twice.\<close>

definition logged :: "pk_state \<Rightarrow> node list" where
  "logged s = map (\<lambda>(c, a). BottomHalf a) (calls s)"

definition log_handler :: "node \<Rightarrow> pk_state \<Rightarrow> pk_state option" where
  "log_handler b s = (case b of BottomHalf i \<Rightarrow> Some (s\<lparr>calls := calls s @ [(NoCallback, i)]\<rparr>) | _ \<Rightarrow> None)"


text \<open>
  Property C26. The handler visits a timer that has not expired and whose successor in the time queue,
  \<open>b\<close>, has, and it reads \<open>tq->cursor\<close> before it re-enters its critical section. An
  interrupt taken in between that cancels \<open>b\<close> is told \<open>PK_OK\<close> and the timer is not active
  any more, but the handler goes on with \<open>b\<close>: its callback is called all the same, and
  the handler goes on with the null pointer that the cancellation left in \<open>b\<close>.
\<close>

theorem timer_cancel_race:
  fixes a b
  defines "env \<equiv> quiet_world\<lparr>preempt_late := (\<lambda>s. snd (pk_timer_cancel b s))\<rparr>"
  assumes q: "time_queue s (a # b # xs)" and "\<not> expired s now a" and "expired s now b"
    and "tmr_callback (timers s b) \<noteq> NoCallback"
  shows "fst (pk_timer_cancel b (timer_bh_visit env now ctx a s)) = PK_OK \<and>
    (\<exists>s1 s2. timer_bh_pass env now ctx a s = (b, s1) \<and> \<not> timer_active s1 b \<and> calls s1 = calls s \<and>
      timer_bh_pass env now ctx b s1 = (Null, s2) \<and>
      calls s2 = calls s @ [(tmr_callback (timers s b), tmr_arg (timers s b))] \<and>
      timer_bh_scan (Suc (Suc k)) env now ctx a s = timer_bh_scan k env now ctx Null s2)"
proof -
  define w where "w = timer_bh_visit env now ctx a s"
  have d: "dq (heap s) TimeQueue ([] @ a # b # xs)" using q by (simp add: time_queue_def)
  have ab: "a \<noteq> TimeQueue" "b \<noteq> TimeQueue" "is_timer a" "is_timer b" "b \<noteq> Null"
    using q by (auto simp: time_queue_def)
  have nx: "dq_next (heap s) a = b" using d by (simp add: dq_def)
  have w: "heap w = heap s" "cursor w = b" "timers w = timers s" "calls w = calls s"
    using assms(3) nx by (simp_all add: w_def timer_bh_visit_def expired_def critical_defs)
  have qw: "time_queue w (a # b # xs)"
    using q w by (auto simp: time_queue_def timer_active_def)
  note c = pk_timer_cancel_inv [OF qw ab(4)]
  have ok: "fst (pk_timer_cancel b w) = PK_OK" using c(1) by simp
  define v where "v = snd (pk_critical_section_enter (snd (pk_timer_cancel b w)))"
  have v: "timers v = timers s" "calls v = calls s" "\<not> timer_active v b"
    using w c(3) by (simp_all add: v_def pk_timer_cancel_def i_pk_timer_cancel_def critical_defs Let_def
        timer_active_def split_beta)
  have pr: "preempt env x = x" "preempt_late env x = snd (pk_timer_cancel b x)" "run_callback env c i x = x" for x c i
    by (simp_all add: env_def quiet_world_def)
  have p1: "timer_bh_pass env now ctx a s = (b, v)"
    using w(2) by (simp add: timer_bh_pass_def v_def w_def [symmetric] pr Let_def)
  define u where "u = timer_bh_visit env now ctx b v"
  have "dq_next (heap v) b = Null" using v(3) by (simp add: timer_active_def pk_deque_is_queued_def)
  then have u: "cursor u = Null" "calls u = calls s @ [(tmr_callback (timers s b), tmr_arg (timers s b))]"
    using assms(4,5) v(1,2) by (simp_all add: u_def timer_bh_visit_def expired_def critical_defs call_timer_def pr Let_def)
  define s2 where "s2 = snd (pk_critical_section_enter (snd (pk_timer_cancel b u)))"
  have p2: "timer_bh_pass env now ctx b v = (Null, s2)"
    using u(1) by (simp add: timer_bh_pass_def s2_def u_def [symmetric] pr Let_def)
  have "calls s2 = calls u"
    by (simp add: s2_def pk_timer_cancel_def i_pk_timer_cancel_def critical_defs Let_def split_beta)
  moreover have "timer_bh_scan (Suc (Suc k)) env now ctx a s = timer_bh_scan k env now ctx Null s2"
    using ab(1,2) p1 p2 by simp
  ultimately show ?thesis using ok p1 p2 u(2) v(2,3) unfolding w_def
    by (intro conjI exI [of _ v] exI [of _ s2]) simp_all
qed

text \<open>Two timers, the first due at 500 and the second at 100.\<close>

definition two_timers :: pk_state where
  "two_timers = i_pk_timer_schedule (AppTimer 2) (i_pk_timer_schedule (AppTimer 3)
     (idle_state\<lparr>timers := (timers idle_state)
       (AppTimer 3 := \<lparr>tmr_timeout = 500, tmr_callback = AppCallback 8, tmr_arg = 0\<rparr>,
        AppTimer 2 := \<lparr>tmr_timeout = 100, tmr_callback = AppCallback 7, tmr_arg = 5\<rparr>)\<rparr>))"

lemma two_timers_queue: "time_queue two_timers [AppTimer 3, AppTimer 2]"
proof -
  have "time_queue (idle_state\<lparr>timers := t\<rparr>) []" for t
    using time_queue_idle time_queue_cong [of "idle_state\<lparr>timers := t\<rparr>" idle_state] by simp
  from i_pk_timer_schedule_inv [OF i_pk_timer_schedule_inv [OF this], of "AppTimer 3" "AppTimer 2"]
  show ?thesis by (simp add: two_timers_def enqueue_def)
qed

theorem timer_cancel_race_witness:
  "\<exists>s1 s2. timer_bh_pass (quiet_world\<lparr>preempt_late := (\<lambda>s. snd (pk_timer_cancel (AppTimer 2) s))\<rparr>)
      200 True (AppTimer 3) two_timers = (AppTimer 2, s1) \<and> \<not> timer_active s1 (AppTimer 2) \<and>
    timer_bh_pass (quiet_world\<lparr>preempt_late := (\<lambda>s. snd (pk_timer_cancel (AppTimer 2) s))\<rparr>)
      200 True (AppTimer 2) s1 = (Null, s2) \<and> calls s2 = [(AppCallback 7, 5)]"
proof -
  have t: "timers two_timers (AppTimer 3) = \<lparr>tmr_timeout = 500, tmr_callback = AppCallback 8, tmr_arg = 0\<rparr>"
    "timers two_timers (AppTimer 2) = \<lparr>tmr_timeout = 100, tmr_callback = AppCallback 7, tmr_arg = 5\<rparr>"
    by (simp_all add: two_timers_def i_pk_timer_schedule_frame)
  have "calls two_timers = []" by code_simp
  then show ?thesis
    using timer_cancel_race [OF two_timers_queue, of 200 True 0]
    by (simp add: t expired_def del: timer_bh_scan.simps) blast
qed

text \<open>
  \<open>pk_timer_schedule\<close> called with a null timer returns its error with interrupts
  still disabled: the error return inside the critical section does not leave it.
\<close>

lemma pk_timer_schedule_null_leaks:
  "pk_timer_schedule Null i s = (Neg PK_INVALID_TIMER_AT_SCHEDULE, s\<lparr>msr_ee := False\<rparr>)"
  by (simp add: pk_timer_schedule_def critical_defs Let_def)

end
