(* ===== verification/Pk_Thread.thy ===== *)
theory Pk_Thread
  imports Pk_Timer
begin

text \<open>
  Threads and the scheduler of the PK kernel: \<open>pk_thread_core.c\<close>, \<open>pk_thread_init.c\<close>,
  \<open>pk_thread_util.c\<close>, \<open>pk_stack_init.c\<close> and the predicates of \<open>pk_thread.h\<close>, with the kernel
  invariant that the thread operations keep. A routine that gives up the processor in the
  middle (\<open>pk_sleep\<close>) is modelled as two parts, before and after the context switch.
\<close>

definition i_pk_thread_is_active :: "pk_state \<Rightarrow> thread_id \<Rightarrow> bool" where
  "i_pk_thread_is_active s t \<longleftrightarrow>
     thr_state (threads s t) \<noteq> PK_THREAD_STATE_COMPLETED \<and>
     thr_state (threads s t) \<noteq> PK_THREAD_STATE_DELETED"

definition i_pk_thread_is_mapped :: "pk_state \<Rightarrow> thread_id \<Rightarrow> bool" where
  "i_pk_thread_is_mapped s t \<longleftrightarrow> thr_state (threads s t) = PK_THREAD_STATE_MAPPED"

definition i_pk_thread_is_runnable :: "pk_state \<Rightarrow> thread_id \<Rightarrow> bool" where
  "i_pk_thread_is_runnable s t \<longleftrightarrow>
     pk_thread_queue_member (run_queue s) (thr_priority (threads s t))"

definition i_pk_thread_at_priority :: "pk_state \<Rightarrow> PkThreadPriority \<Rightarrow> thread_id" where
  "i_pk_thread_at_priority s p = priority_map s p"

lemmas thread_pred_defs = i_pk_thread_is_active_def i_pk_thread_is_mapped_def
  i_pk_thread_is_runnable_def i_pk_thread_at_priority_def

subsection \<open>Mapping and unmapping\<close>

definition run_insert :: "PkThreadPriority \<Rightarrow> pk_state \<Rightarrow> pk_state" where
  "run_insert p s = s\<lparr>run_queue := pk_thread_queue_insert (run_queue s) p\<rparr>"

definition run_delete :: "PkThreadPriority \<Rightarrow> pk_state \<Rightarrow> pk_state" where
  "run_delete p s = s\<lparr>run_queue := pk_thread_queue_delete (run_queue s) p\<rparr>"

definition pend_insert :: "sem_id \<Rightarrow> PkThreadPriority \<Rightarrow> pk_state \<Rightarrow> pk_state" where
  "pend_insert m p =
     upd_sem m (\<lambda>x. x\<lparr>sem_pending_threads := pk_thread_queue_insert (sem_pending_threads x) p\<rparr>)"

definition pend_delete :: "sem_id \<Rightarrow> PkThreadPriority \<Rightarrow> pk_state \<Rightarrow> pk_state" where
  "pend_delete m p =
     upd_sem m (\<lambda>x. x\<lparr>sem_pending_threads := pk_thread_queue_delete (sem_pending_threads x) p\<rparr>)"

definition set_state :: "thread_id \<Rightarrow> PkThreadState \<Rightarrow> pk_state \<Rightarrow> pk_state" where
  "set_state t st = upd_thread t (\<lambda>x. x\<lparr>thr_state := st\<rparr>)"

definition set_flags :: "thread_id \<Rightarrow> u8 \<Rightarrow> pk_state \<Rightarrow> pk_state" where
  "set_flags t m = upd_thread t (\<lambda>x. x\<lparr>thr_flags := thr_flags x OR m\<rparr>)"

definition clear_flags :: "thread_id \<Rightarrow> u8 \<Rightarrow> pk_state \<Rightarrow> pk_state" where
  "clear_flags t m = upd_thread t (\<lambda>x. x\<lparr>thr_flags := thr_flags x AND NOT m\<rparr>)"

lemmas kernel_upd_defs = run_insert_def run_delete_def pend_insert_def pend_delete_def
  set_state_def set_flags_def clear_flags_def upd_defs

definition i_pk_thread_map :: "thread_id \<Rightarrow> pk_state \<Rightarrow> pk_state" where
  "i_pk_thread_map t s =
     (let p = thr_priority (threads s t);
          s1 = s\<lparr>priority_map := (priority_map s)(p := t)\<rparr>;
          m = thr_semaphore (threads s1 t);
          s2 = (if thr_state (threads s1 t) = PK_THREAD_STATE_SUSPENDED_RUNNABLE
                then run_insert p s1
                else if has_flag (thr_flags (threads s1 t)) PK_THREAD_FLAG_SEMAPHORE_PEND
                then if sem_count (semaphores s1 m) \<noteq> 0
                     then run_insert p (upd_sem m (\<lambda>x. x\<lparr>sem_count := sem_count x - 1\<rparr>) s1)
                     else pend_insert m p s1
                else s1)
      in set_state t PK_THREAD_STATE_MAPPED s2)"

definition i_pk_thread_unmap :: "thread_id \<Rightarrow> pk_state \<Rightarrow> pk_state" where
  "i_pk_thread_unmap t s =
     (let p = thr_priority (threads s t);
          s1 = s\<lparr>priority_map := (priority_map s)(p := 0)\<rparr>
      in if i_pk_thread_is_runnable s1 t
         then run_delete p (set_state t PK_THREAD_STATE_SUSPENDED_RUNNABLE s1)
         else let s2 = set_state t PK_THREAD_STATE_SUSPENDED_BLOCKED s1
              in if has_flag (thr_flags (threads s2 t)) PK_THREAD_FLAG_SEMAPHORE_PEND
                 then pend_delete (thr_semaphore (threads s2 t)) p s2 else s2)"

subsection \<open>The scheduler\<close>

text \<open>
  \<open>__ctx_switch\<close> saves the context of the current thread on its stack and goes on to
  \<open>__pk_next_thread_resume\<close>, which makes \<open>__pk_next_thread\<close> the current thread
  (\<open>ppe42_exceptions.S\<close>). The register contents are not part of the model.
\<close>

definition i_pk_next_thread_resume :: "pk_state \<Rightarrow> pk_state" where
  "i_pk_next_thread_resume s = s\<lparr>current_thread := next_thread s\<rparr>"

definition i_pk_switch :: "pk_state \<Rightarrow> pk_state" where
  "i_pk_switch s = i_pk_next_thread_resume s"

definition i_pk_schedule :: "pk_state \<Rightarrow> pk_state" where
  "i_pk_schedule s =
     (let np = pk_thread_queue_min (run_queue s);
          s1 = s\<lparr>next_priority := np, next_thread := priority_map s np\<rparr>
      in if next_thread s1 = 0 \<or> next_thread s1 \<noteq> current_thread s1
         then if i_pk_kernel_mode_thread s1
              then if i_pk_kernel_context_thread s1
                   then if current_thread s1 \<noteq> 0 then i_pk_switch s1
                        else i_pk_next_thread_resume s1
                   else s1\<lparr>delayed_switch := True\<rparr>
              else s1
         else s1)"

text \<open>
  Leaving an interrupt (\<open>ppe42_exceptions.S\<close>): in thread mode a delayed switch is carried out.
\<close>

definition ppe42_interrupt_exit :: "pk_state \<Rightarrow> pk_state" where
  "ppe42_interrupt_exit s =
     (let s1 = s\<lparr>processing_interrupt := False\<rparr>
      in if thread_mode s1 \<and> delayed_switch s1
         then i_pk_next_thread_resume (s1\<lparr>delayed_switch := False\<rparr>) else s1)"

subsection \<open>Deletion and timeout\<close>

definition i_pk_thread_delete :: "thread_id \<Rightarrow> PkThreadState \<Rightarrow> pk_state \<Rightarrow> pk_state" where
  "i_pk_thread_delete t final s =
     (let (ctx, s1) = pk_critical_section_enter s;
          mapped = i_pk_thread_is_mapped s1 t;
          s2 = (if mapped then i_pk_thread_unmap t s1 else s1);
          s3 = snd (i_pk_timer_cancel (ThreadTimer t) s2);
          s4 = set_state t final s3;
          s5 = (if mapped
                then i_pk_schedule (if t = current_thread s4 then s4\<lparr>current_thread := 0\<rparr> else s4)
                else s4)
      in pk_critical_section_exit ctx s5)"

definition i_pk_thread_timeout :: "thread_id \<Rightarrow> pk_state \<Rightarrow> pk_state" where
  "i_pk_thread_timeout t s =
     (let (ctx, s1) = pk_critical_section_enter s;
          s2 = (case thr_state (threads s1 t) of
                  PK_THREAD_STATE_MAPPED \<Rightarrow>
                    if \<not> i_pk_thread_is_runnable s1 t
                    then i_pk_schedule (run_insert (thr_priority (threads s1 t))
                           (set_flags t PK_THREAD_FLAG_TIMED_OUT s1))
                    else s1
                | PK_THREAD_STATE_SUSPENDED_RUNNABLE \<Rightarrow> s1
                | PK_THREAD_STATE_SUSPENDED_BLOCKED \<Rightarrow>
                    set_state t PK_THREAD_STATE_SUSPENDED_RUNNABLE
                      (set_flags t PK_THREAD_FLAG_TIMED_OUT s1)
                | _ \<Rightarrow> PK_PANIC PK_THREAD_TIMEOUT_STATE s1)
      in if panic s2 = None then pk_critical_section_exit ctx s2 else s2)"

subsection \<open>Thread interfaces\<close>

definition i_pk_start_threads :: "pk_state \<Rightarrow> pk_state" where
  "i_pk_start_threads s = i_pk_next_thread_resume s"

text \<open>
  \<open>pk_start_threads\<close> enters thread mode when the first thread context is restored, since every
  initial context carries \<open>PPE42_THREAD_MODE\<close>; with no runnable thread the idle thread sets it.
\<close>

definition pk_start_threads :: "pk_state \<Rightarrow> pk_rc \<times> pk_state" where
  "pk_start_threads s =
     (if i_pk_kernel_mode_thread s then (Neg PK_ILLEGAL_CONTEXT_THREAD, s)
      else (PK_OK, (i_pk_start_threads s)\<lparr>thread_mode := True\<rparr>))"

definition pk_thread_resume :: "thread_id \<Rightarrow> pk_state \<Rightarrow> pk_rc \<times> pk_state" where
  "pk_thread_resume t s =
     (if t = 0 then (Neg PK_INVALID_THREAD_AT_RESUME1, s)
      else let (ctx, s1) = pk_critical_section_enter s
      in if \<not> i_pk_thread_is_active s1 t
         then (Neg PK_INVALID_THREAD_AT_RESUME2, pk_critical_section_exit ctx s1)
         else if \<not> i_pk_thread_is_mapped s1 t
         then if priority_map s1 (thr_priority (threads s1 t)) \<noteq> 0
              then (Neg PK_PRIORITY_IN_USE_AT_RESUME, pk_critical_section_exit ctx s1)
              else (PK_OK, pk_critical_section_exit ctx (i_pk_schedule (i_pk_thread_map t s1)))
         else (PK_OK, pk_critical_section_exit ctx s1))"

definition pk_thread_suspend :: "thread_id \<Rightarrow> pk_state \<Rightarrow> pk_rc \<times> pk_state" where
  "pk_thread_suspend t s =
     (if t = 0 then (Neg PK_INVALID_THREAD_AT_SUSPEND1, s)
      else let (ctx, s1) = pk_critical_section_enter s
      in if \<not> i_pk_thread_is_active s1 t
         then (Neg PK_INVALID_THREAD_AT_SUSPEND2, pk_critical_section_exit ctx s1)
         else (PK_OK, pk_critical_section_exit ctx
                (if i_pk_thread_is_mapped s1 t then i_pk_schedule (i_pk_thread_unmap t s1) else s1)))"

definition pk_thread_delete :: "thread_id \<Rightarrow> pk_state \<Rightarrow> pk_rc \<times> pk_state" where
  "pk_thread_delete t s =
     (if t = 0 then (Neg PK_INVALID_THREAD_AT_DELETE, s)
      else (PK_OK, i_pk_thread_delete t PK_THREAD_STATE_DELETED s))"

definition pk_complete :: "pk_state \<Rightarrow> pk_rc \<times> pk_state" where
  "pk_complete s =
     (if \<not> i_pk_kernel_context_thread s then (Neg PK_ILLEGAL_CONTEXT_THREAD_CONTEXT, s)
      else (PK_OK, i_pk_thread_delete (current_thread s) PK_THREAD_STATE_COMPLETED s))"

text \<open>
  \<open>pk_sleep\<close> up to the context switch, which returns the calling thread and its saved machine
  context, and the rest, run when the thread is current again.
\<close>

definition pk_sleep_enter ::
  "PkInterval \<Rightarrow> pk_state \<Rightarrow> (pk_rc + thread_id \<times> bool) \<times> pk_state" where
  "pk_sleep_enter interval s =
     (if \<not> i_pk_kernel_context_thread s then (Inl (Neg PK_ILLEGAL_CONTEXT_THREAD_CONTEXT), s)
      else let time = pk_timebase_get s + PK_INTERVAL_SCALE s interval;
               (ctx, s1) = pk_critical_section_enter s;
               current = current_thread s1;
               s2 = upd_timer (ThreadTimer current) (\<lambda>x. x\<lparr>tmr_timeout := time\<rparr>) s1;
               s3 = i_pk_timer_schedule (ThreadTimer current) s2;
               s4 = set_flags current PK_THREAD_FLAG_TIMER_PEND s3;
               s5 = run_delete (thr_priority (threads s4 current)) s4
           in (Inr (current, ctx), i_pk_schedule s5))"

definition pk_sleep_leave :: "thread_id \<times> bool \<Rightarrow> pk_state \<Rightarrow> pk_rc \<times> pk_state" where
  "pk_sleep_leave = (\<lambda>(current, ctx) s.
     (PK_OK, pk_critical_section_exit ctx
       (clear_flags current (PK_THREAD_FLAG_TIMER_PEND OR PK_THREAD_FLAG_TIMED_OUT) s)))"

definition pk_thread_info_get ::
  "thread_id \<Rightarrow> pk_state \<Rightarrow> pk_rc \<times> (PkThreadState \<times> PkThreadPriority \<times> bool) option" where
  "pk_thread_info_get t s =
     (if t = 0 then (Neg PK_INVALID_THREAD_AT_INFO, None)
      else (PK_OK, Some (thr_state (threads s t), thr_priority (threads s t),
              thr_state (threads s t) = PK_THREAD_STATE_MAPPED \<and>
              pk_thread_queue_member (run_queue s) (thr_priority (threads s t)))))"

definition set_priority :: "thread_id \<Rightarrow> PkThreadPriority \<Rightarrow> pk_state \<Rightarrow> pk_state" where
  "set_priority t p = upd_thread t (\<lambda>x. x\<lparr>thr_priority := p\<rparr>)"

definition pk_thread_priority_change ::
  "thread_id \<Rightarrow> PkThreadPriority \<Rightarrow> pk_state \<Rightarrow> pk_rc \<times> PkThreadPriority option \<times> pk_state" where
  "pk_thread_priority_change t new s =
     (if t = 0 then (Neg PK_INVALID_THREAD_AT_CHANGE, None, s)
      else if unat new > PK_THREADS then (Neg PK_INVALID_ARGUMENT_THREAD_CHANGE, None, s)
      else let (ctx, s1) = pk_critical_section_enter s;
               p = thr_priority (threads s1 t)
           in if p \<noteq> new
              then if \<not> i_pk_thread_is_mapped s1 t
                   then (PK_OK, Some p, pk_critical_section_exit ctx (set_priority t new s1))
                   else if priority_map s1 new \<noteq> 0
                   then (Neg PK_PRIORITY_IN_USE_AT_CHANGE, None, pk_critical_section_exit ctx s1)
                   else (PK_OK, Some p, pk_critical_section_exit ctx
                          (i_pk_schedule (i_pk_thread_map t
                            (set_priority t new (i_pk_thread_unmap t s1)))))
              else (PK_OK, Some p, pk_critical_section_exit ctx s1))"

definition pk_thread_at_priority :: "PkThreadPriority \<Rightarrow> pk_state \<Rightarrow> pk_rc \<times> thread_id option" where
  "pk_thread_at_priority p s =
     (if unat p > PK_THREADS then (Neg PK_INVALID_ARGUMENT_THREAD_PRIORITY, None)
      else (PK_OK, Some (i_pk_thread_at_priority s p)))"

text \<open>The work of a swap: unmap the mapped threads, exchange the priorities, map them again.\<close>

definition swap_unmap :: "thread_id \<Rightarrow> thread_id \<Rightarrow> pk_state \<Rightarrow> pk_state" where
  "swap_unmap a b s =
     (let s2 = (if i_pk_thread_is_mapped s a then i_pk_thread_unmap a s else s)
      in if i_pk_thread_is_mapped s b then i_pk_thread_unmap b s2 else s2)"

definition swap_remap :: "thread_id \<Rightarrow> thread_id \<Rightarrow> pk_state \<Rightarrow> pk_state" where
  "swap_remap a b s =
     (let s4 = set_priority b (thr_priority (threads s a))
                 (set_priority a (thr_priority (threads s b)) (swap_unmap a b s));
          s5 = (if i_pk_thread_is_mapped s a then i_pk_thread_map a s4 else s4)
      in if i_pk_thread_is_mapped s b then i_pk_thread_map b s5 else s5)"

definition pk_thread_priority_swap :: "thread_id \<Rightarrow> thread_id \<Rightarrow> pk_state \<Rightarrow> pk_rc \<times> pk_state" where
  "pk_thread_priority_swap a b s =
     (if a = 0 \<or> b = 0 then (Neg PK_INVALID_THREAD_AT_SWAP1, s)
      else let (ctx, s1) = pk_critical_section_enter s
      in if a = b then (PK_OK, pk_critical_section_exit ctx s1)
         else let mapped_a = i_pk_thread_is_mapped s1 a;
                  mapped_b = i_pk_thread_is_mapped s1 b;
                  pa = thr_priority (threads s1 a);
                  pb = thr_priority (threads s1 b);
                  priority_in_use =
                    mapped_a \<and> \<not> mapped_b \<and> i_pk_thread_at_priority s1 pb \<noteq> 0 \<or>
                    \<not> mapped_a \<and> mapped_b \<and> i_pk_thread_at_priority s1 pa \<noteq> 0
              in if unat pa > PK_THREADS \<or> unat pb > PK_THREADS
                 then (Neg PK_INVALID_THREAD_AT_SWAP2, pk_critical_section_exit ctx s1)
                 else if priority_in_use
                 then (Neg PK_PRIORITY_IN_USE_AT_SWAP, pk_critical_section_exit ctx s1)
                 else (PK_OK, pk_critical_section_exit ctx (i_pk_schedule (swap_remap a b s1))))"

subsection \<open>Scheduling\<close>

lemma i_pk_schedule_frame [simp]:
  "threads (i_pk_schedule s) = threads s" "semaphores (i_pk_schedule s) = semaphores s"
  "timers (i_pk_schedule s) = timers s" "heap (i_pk_schedule s) = heap s"
  "run_queue (i_pk_schedule s) = run_queue s" "priority_map (i_pk_schedule s) = priority_map s"
  "next_timeout (i_pk_schedule s) = next_timeout s" "cursor (i_pk_schedule s) = cursor s"
  "thread_mode (i_pk_schedule s) = thread_mode s"
  "processing_interrupt (i_pk_schedule s) = processing_interrupt s"
  "msr_ee (i_pk_schedule s) = msr_ee s" "panic (i_pk_schedule s) = panic s"
  "calls (i_pk_schedule s) = calls s"
  "next_priority (i_pk_schedule s) = pk_thread_queue_min (run_queue s)"
  "next_thread (i_pk_schedule s) = priority_map s (pk_thread_queue_min (run_queue s))"
  by (simp_all add: i_pk_schedule_def i_pk_switch_def i_pk_next_thread_resume_def Let_def)

lemma i_pk_schedule_thread_context:
  "i_pk_kernel_context_thread s \<Longrightarrow>
     current_thread (i_pk_schedule s) = priority_map s (pk_thread_queue_min (run_queue s))"
  by (auto simp: i_pk_schedule_def i_pk_switch_def i_pk_next_thread_resume_def context_defs Let_def)

lemma i_pk_schedule_interrupt:
  "processing_interrupt s \<Longrightarrow> current_thread (i_pk_schedule s) = current_thread s"
  by (auto simp: i_pk_schedule_def context_defs Let_def)

subsection \<open>The kernel invariant\<close>

text \<open>
  \<open>map_inv\<close>: the priority map and the mapped threads are the same relation, and the entry of
  the idle thread is null. \<open>run_inv\<close>: only mapped threads are in the run queue. \<open>pend_inv\<close>: a
  priority in the pending queue of a semaphore is that of a mapped thread blocked on that
  semaphore. \<open>excl_inv\<close>: a thread that is both runnable and pending has timed out and has not
  run since. \<open>prio_inv\<close>: every thread has a valid priority.
\<close>

definition map_inv :: "pk_state \<Rightarrow> bool" where
  "map_inv s \<longleftrightarrow>
     (\<forall>p. priority_map s p \<noteq> 0 \<longrightarrow> p < 32 \<and>
        thr_state (threads s (priority_map s p)) = PK_THREAD_STATE_MAPPED \<and>
        thr_priority (threads s (priority_map s p)) = p) \<and>
     (\<forall>t. t \<noteq> 0 \<longrightarrow> thr_state (threads s t) = PK_THREAD_STATE_MAPPED \<longrightarrow>
        priority_map s (thr_priority (threads s t)) = t)"

definition run_inv :: "pk_state \<Rightarrow> bool" where
  "run_inv s \<longleftrightarrow> (\<forall>p. pk_thread_queue_member (run_queue s) p \<longrightarrow> priority_map s p \<noteq> 0)"

abbreviation pending :: "pk_state \<Rightarrow> sem_id \<Rightarrow> PkThreadPriority \<Rightarrow> bool" where
  "pending s m p \<equiv> pk_thread_queue_member (sem_pending_threads (semaphores s m)) p"

definition pend_inv :: "pk_state \<Rightarrow> bool" where
  "pend_inv s \<longleftrightarrow> (\<forall>m p. pending s m p \<longrightarrow> priority_map s p \<noteq> 0 \<and>
     thr_semaphore (threads s (priority_map s p)) = m \<and>
     has_flag (thr_flags (threads s (priority_map s p))) PK_THREAD_FLAG_SEMAPHORE_PEND)"

definition excl_inv :: "pk_state \<Rightarrow> bool" where
  "excl_inv s \<longleftrightarrow> (\<forall>m p. pending s m p \<longrightarrow> pk_thread_queue_member (run_queue s) p \<longrightarrow>
     has_flag (thr_flags (threads s (priority_map s p))) PK_THREAD_FLAG_TIMED_OUT)"

definition prio_inv :: "pk_state \<Rightarrow> bool" where
  "prio_inv s \<longleftrightarrow> (\<forall>t. thr_priority (threads s t) < 32)"

definition pk_inv :: "pk_state \<Rightarrow> bool" where
  "pk_inv s \<longleftrightarrow> map_inv s \<and> run_inv s \<and> pend_inv s \<and> excl_inv s \<and> prio_inv s"

lemmas pk_inv_defs = pk_inv_def map_inv_def run_inv_def pend_inv_def excl_inv_def prio_inv_def

text \<open>
  A thread is settled unless it is runnable and still in the pending queue of its semaphore:
  the window between a timeout and the thread running again.
\<close>

definition settled :: "pk_state \<Rightarrow> thread_id \<Rightarrow> bool" where
  "settled s t \<longleftrightarrow> \<not> (i_pk_thread_is_runnable s t \<and>
     (\<exists>m. pending s m (thr_priority (threads s t))))"

lemma pk_inv_cong:
  assumes "threads s' = threads s" and "semaphores s' = semaphores s"
    and "run_queue s' = run_queue s" and "priority_map s' = priority_map s"
  shows "pk_inv s' = pk_inv s"
  by (simp add: pk_inv_defs assms)

lemma pk_inv_schedule [simp]: "pk_inv (i_pk_schedule s) = pk_inv s"
  by (rule pk_inv_cong) simp_all

lemma pk_inv_critical [simp]:
  "pk_inv (pk_critical_section_exit ctx s) = pk_inv s"
  "pk_inv (s\<lparr>msr_ee := b\<rparr>) = pk_inv s"
  by (rule pk_inv_cong; simp add: critical_defs)+

lemma mapped_at:
  "pk_inv s \<Longrightarrow> t \<noteq> 0 \<Longrightarrow> thr_state (threads s t) = PK_THREAD_STATE_MAPPED \<Longrightarrow>
     priority_map s (thr_priority (threads s t)) = t \<and> thr_priority (threads s t) < 32"
  by (auto simp: pk_inv_def map_inv_def)

lemma run_invD: "pk_inv s \<Longrightarrow> pk_thread_queue_member (run_queue s) p \<Longrightarrow> priority_map s p \<noteq> 0"
  by (simp add: pk_inv_def run_inv_def)

lemma pend_invD:
  assumes "pk_inv s" and "pending s m p"
  shows "priority_map s p \<noteq> 0" and "thr_semaphore (threads s (priority_map s p)) = m"
    and "has_flag (thr_flags (threads s (priority_map s p))) PK_THREAD_FLAG_SEMAPHORE_PEND"
  using assms(1) [unfolded pk_inv_def pend_inv_def] assms(2) by blast+

lemma excl_invD:
  assumes "pk_inv s" and "pending s m p" and "pk_thread_queue_member (run_queue s) p"
  shows "has_flag (thr_flags (threads s (priority_map s p))) PK_THREAD_FLAG_TIMED_OUT"
  using assms(1) [unfolded pk_inv_def excl_inv_def] assms(2,3) by blast

lemma map_invD:
  assumes "pk_inv s" and "priority_map s p \<noteq> 0"
  shows "p < 32" and "thr_state (threads s (priority_map s p)) = PK_THREAD_STATE_MAPPED"
    and "thr_priority (threads s (priority_map s p)) = p"
  using assms(1) [unfolded pk_inv_def map_inv_def] assms(2) by blast+

lemma prio_invD: "pk_inv s \<Longrightarrow> thr_priority (threads s t) < 32"
  by (simp add: pk_inv_def prio_inv_def)

lemma free_priority:
  assumes "pk_inv s" and "priority_map s p = 0"
  shows "\<not> pk_thread_queue_member (run_queue s) p" and "\<not> pending s m p"
  using assms run_invD pend_invD(1) by blast+

subsection \<open>Effect of mapping and unmapping\<close>

definition map_ready :: "pk_state \<Rightarrow> thread_id \<Rightarrow> bool" where
  "map_ready s t \<longleftrightarrow> thr_state (threads s t) = PK_THREAD_STATE_SUSPENDED_RUNNABLE \<or>
     has_flag (thr_flags (threads s t)) PK_THREAD_FLAG_SEMAPHORE_PEND \<and>
     sem_count (semaphores s (thr_semaphore (threads s t))) \<noteq> 0"

definition map_blocks :: "pk_state \<Rightarrow> thread_id \<Rightarrow> bool" where
  "map_blocks s t \<longleftrightarrow> \<not> map_ready s t \<and>
     has_flag (thr_flags (threads s t)) PK_THREAD_FLAG_SEMAPHORE_PEND"

lemma map_effect:
  "threads (i_pk_thread_map t s) =
     (threads s)(t := (threads s t)\<lparr>thr_state := PK_THREAD_STATE_MAPPED\<rparr>)"
  "priority_map (i_pk_thread_map t s) = (priority_map s)(thr_priority (threads s t) := t)"
  by (simp_all add: i_pk_thread_map_def kernel_upd_defs Let_def)

lemma map_run:
  "thr_priority (threads s t) < 32 \<Longrightarrow>
   pk_thread_queue_member (run_queue (i_pk_thread_map t s)) q \<longleftrightarrow>
     pk_thread_queue_member (run_queue s) q \<or> q = thr_priority (threads s t) \<and> map_ready s t"
  by (auto simp: i_pk_thread_map_def kernel_upd_defs Let_def member_insert map_ready_def)

lemma map_pending:
  "thr_priority (threads s t) < 32 \<Longrightarrow>
   pending (i_pk_thread_map t s) m q \<longleftrightarrow>
     pending s m q \<or> q = thr_priority (threads s t) \<and> m = thr_semaphore (threads s t) \<and> map_blocks s t"
  by (auto simp: i_pk_thread_map_def kernel_upd_defs Let_def member_insert map_ready_def map_blocks_def)

lemma unmap_effect:
  "threads (i_pk_thread_unmap t s) = (threads s)(t := (threads s t)\<lparr>thr_state :=
     (if i_pk_thread_is_runnable s t then PK_THREAD_STATE_SUSPENDED_RUNNABLE
      else PK_THREAD_STATE_SUSPENDED_BLOCKED)\<rparr>)"
  "priority_map (i_pk_thread_unmap t s) = (priority_map s)(thr_priority (threads s t) := 0)"
  by (simp_all add: i_pk_thread_unmap_def kernel_upd_defs Let_def i_pk_thread_is_runnable_def)

lemma unmap_run:
  "pk_thread_queue_member (run_queue (i_pk_thread_unmap t s)) q \<longleftrightarrow>
     q \<noteq> thr_priority (threads s t) \<and> pk_thread_queue_member (run_queue s) q"
  by (auto simp: i_pk_thread_unmap_def kernel_upd_defs Let_def member_delete i_pk_thread_is_runnable_def)

lemma unmap_pending:
  "pending (i_pk_thread_unmap t s) m q \<longleftrightarrow> pending s m q \<and>
     \<not> (q = thr_priority (threads s t) \<and> m = thr_semaphore (threads s t) \<and>
        \<not> i_pk_thread_is_runnable s t \<and>
        has_flag (thr_flags (threads s t)) PK_THREAD_FLAG_SEMAPHORE_PEND)"
  by (auto simp: i_pk_thread_unmap_def kernel_upd_defs Let_def member_delete i_pk_thread_is_runnable_def)

lemmas map_simps = map_effect map_run map_pending
lemmas unmap_simps = unmap_effect unmap_run unmap_pending

text \<open>Mapping a suspended thread at a free priority keeps the invariant.\<close>

lemma pk_invI:
  assumes "\<And>p. priority_map s p \<noteq> 0 \<Longrightarrow> p < 32 \<and>
      thr_state (threads s (priority_map s p)) = PK_THREAD_STATE_MAPPED \<and>
      thr_priority (threads s (priority_map s p)) = p"
    and "\<And>t. t \<noteq> 0 \<Longrightarrow> thr_state (threads s t) = PK_THREAD_STATE_MAPPED \<Longrightarrow>
      priority_map s (thr_priority (threads s t)) = t"
    and "\<And>p. pk_thread_queue_member (run_queue s) p \<Longrightarrow> priority_map s p \<noteq> 0"
    and "\<And>m p. pending s m p \<Longrightarrow> priority_map s p \<noteq> 0 \<and>
      thr_semaphore (threads s (priority_map s p)) = m \<and>
      has_flag (thr_flags (threads s (priority_map s p))) PK_THREAD_FLAG_SEMAPHORE_PEND"
    and "\<And>m p. pending s m p \<Longrightarrow> pk_thread_queue_member (run_queue s) p \<Longrightarrow>
      has_flag (thr_flags (threads s (priority_map s p))) PK_THREAD_FLAG_TIMED_OUT"
    and "\<And>t. thr_priority (threads s t) < 32"
  shows "pk_inv s"
  using assms by (simp add: pk_inv_defs)

lemma i_pk_thread_map_inv:
  assumes inv: "pk_inv s" and t: "t \<noteq> 0"
    and free: "priority_map s (thr_priority (threads s t)) = 0"
  shows "pk_inv (i_pk_thread_map t s)"
proof (rule pk_invI)
  let ?p = "thr_priority (threads s t)"
  note p = prio_invD [OF inv, of t]
  note fp = free_priority [OF inv free]
  note D = run_invD [OF inv] pend_invD [OF inv] excl_invD [OF inv] map_invD [OF inv]
  have nt: "priority_map s q \<noteq> t" for q
    using D(8) [of q] t free by auto
  show "priority_map (i_pk_thread_map t s) q \<noteq> 0 \<Longrightarrow> q < 32 \<and>
      thr_state (threads (i_pk_thread_map t s) (priority_map (i_pk_thread_map t s) q)) =
        PK_THREAD_STATE_MAPPED \<and>
      thr_priority (threads (i_pk_thread_map t s) (priority_map (i_pk_thread_map t s) q)) = q" for q
    using p D(6-8) [of q] by (auto simp: map_effect)
  show "priority_map (i_pk_thread_map t s) (thr_priority (threads (i_pk_thread_map t s) x)) = x"
    if "x \<noteq> 0" "thr_state (threads (i_pk_thread_map t s) x) = PK_THREAD_STATE_MAPPED" for x
    using that mapped_at [OF inv, of x] free by (cases "x = t") (auto simp: map_effect)
  show "priority_map (i_pk_thread_map t s) q \<noteq> 0"
    if "pk_thread_queue_member (run_queue (i_pk_thread_map t s)) q" for q
    using that D(1) [of q] t p by (auto simp: map_simps)
  show "priority_map (i_pk_thread_map t s) q \<noteq> 0 \<and>
      thr_semaphore (threads (i_pk_thread_map t s) (priority_map (i_pk_thread_map t s) q)) = m \<and>
      has_flag (thr_flags (threads (i_pk_thread_map t s) (priority_map (i_pk_thread_map t s) q)))
        PK_THREAD_FLAG_SEMAPHORE_PEND"
    if "pending (i_pk_thread_map t s) m q" for m q
    using that D(2-4) [of m q] t p fp(2) [of m] nt [of q]
    by (auto simp: map_simps map_blocks_def simp del: neq0_conv)
  show "has_flag (thr_flags (threads (i_pk_thread_map t s) (priority_map (i_pk_thread_map t s) q)))
      PK_THREAD_FLAG_TIMED_OUT"
    if "pending (i_pk_thread_map t s) m q" "pk_thread_queue_member (run_queue (i_pk_thread_map t s)) q"
    for m q
    using that D(5) [of m q] p fp(2) [of m] fp(1) nt [of q]
    by (auto simp: map_simps map_blocks_def)
  show "thr_priority (threads (i_pk_thread_map t s) x) < 32" for x
    using prio_invD [OF inv, of x] by (auto simp: map_effect)
qed

text \<open>Unmapping a settled mapped thread keeps the invariant and frees its priority.\<close>

lemma i_pk_thread_unmap_inv:
  assumes inv: "pk_inv s" and t: "t \<noteq> 0" and st: "thr_state (threads s t) = PK_THREAD_STATE_MAPPED"
    and settled: "settled s t"
  shows "pk_inv (i_pk_thread_unmap t s)"
proof (rule pk_invI)
  let ?p = "thr_priority (threads s t)"
  note at = mapped_at [OF inv t st]
  note D = run_invD [OF inv] pend_invD [OF inv] excl_invD [OF inv] map_invD [OF inv]
  have only: "pending s m ?p \<Longrightarrow> m = thr_semaphore (threads s t) \<and>
      has_flag (thr_flags (threads s t)) PK_THREAD_FLAG_SEMAPHORE_PEND" for m
    using D(3,4) [of m ?p] at by simp
  have other: "priority_map s q = t \<longleftrightarrow> q = ?p" for q
    using D(8) [of q] t at by auto
  have gone: "\<not> pending (i_pk_thread_unmap t s) m ?p" for m
    using settled only [of m] by (auto simp: settled_def unmap_pending)
  have sub: "pending (i_pk_thread_unmap t s) m q \<Longrightarrow> pending s m q \<and> q \<noteq> ?p" for m q
    using gone [of m] by (auto simp: unmap_pending)
  show "priority_map (i_pk_thread_unmap t s) q \<noteq> 0 \<Longrightarrow> q < 32 \<and>
      thr_state (threads (i_pk_thread_unmap t s) (priority_map (i_pk_thread_unmap t s) q)) =
        PK_THREAD_STATE_MAPPED \<and>
      thr_priority (threads (i_pk_thread_unmap t s) (priority_map (i_pk_thread_unmap t s) q)) = q" for q
    using D(6-8) [of q] other [of q] by (auto simp: unmap_effect split: if_splits)
  show "priority_map (i_pk_thread_unmap t s) (thr_priority (threads (i_pk_thread_unmap t s) x)) = x"
    if "x \<noteq> 0" "thr_state (threads (i_pk_thread_unmap t s) x) = PK_THREAD_STATE_MAPPED" for x
    using that mapped_at [OF inv, of x] at by (auto simp: unmap_effect split: if_splits)
  show "priority_map (i_pk_thread_unmap t s) q \<noteq> 0"
    if "pk_thread_queue_member (run_queue (i_pk_thread_unmap t s)) q" for q
    using that D(1) [of q] by (auto simp: unmap_simps)
  show "priority_map (i_pk_thread_unmap t s) q \<noteq> 0 \<and>
      thr_semaphore (threads (i_pk_thread_unmap t s) (priority_map (i_pk_thread_unmap t s) q)) = m \<and>
      has_flag (thr_flags (threads (i_pk_thread_unmap t s) (priority_map (i_pk_thread_unmap t s) q)))
        PK_THREAD_FLAG_SEMAPHORE_PEND"
    if "pending (i_pk_thread_unmap t s) m q" for m q
    using sub [OF that] D(2-4) [of m q] other [of q] by (auto simp: unmap_effect)
  show "has_flag (thr_flags (threads (i_pk_thread_unmap t s) (priority_map (i_pk_thread_unmap t s) q)))
      PK_THREAD_FLAG_TIMED_OUT"
    if "pending (i_pk_thread_unmap t s) m q" "pk_thread_queue_member (run_queue (i_pk_thread_unmap t s)) q"
    for m q
    using sub [OF that(1)] that(2) D(5) [of m q] other [of q] by (auto simp: unmap_simps)
  show "thr_priority (threads (i_pk_thread_unmap t s) x) < 32" for x
    using prio_invD [OF inv, of x] by (auto simp: unmap_effect)
qed

subsection \<open>The operations keep the invariant\<close>

lemma timer_kernel_frame [simp]:
  "threads (snd (i_pk_timer_cancel n s)) = threads s"
  "semaphores (snd (i_pk_timer_cancel n s)) = semaphores s"
  "run_queue (snd (i_pk_timer_cancel n s)) = run_queue s"
  "priority_map (snd (i_pk_timer_cancel n s)) = priority_map s"
  "threads (i_pk_timer_schedule n s) = threads s"
  "semaphores (i_pk_timer_schedule n s) = semaphores s"
  "run_queue (i_pk_timer_schedule n s) = run_queue s"
  "priority_map (i_pk_timer_schedule n s) = priority_map s"
  by (simp_all add: i_pk_timer_cancel_def i_pk_timer_schedule_def Let_def)

lemma critical_frame [simp]:
  "threads (pk_critical_section_exit c s) = threads s"
  "semaphores (pk_critical_section_exit c s) = semaphores s"
  "run_queue (pk_critical_section_exit c s) = run_queue s"
  "priority_map (pk_critical_section_exit c s) = priority_map s"
  "current_thread (pk_critical_section_exit c s) = current_thread s"
  "panic (pk_critical_section_exit c s) = panic s"
  by (simp_all add: critical_defs)

lemma unmap_state:
  "thr_state (threads (i_pk_thread_unmap t s) t) \<noteq> PK_THREAD_STATE_MAPPED"
  "thr_priority (threads (i_pk_thread_unmap t s) t) = thr_priority (threads s t)"
  by (simp_all add: unmap_effect)

lemma pk_inv_unmapped_thread:
  assumes inv: "pk_inv s" and st: "thr_state (threads s t) \<noteq> PK_THREAD_STATE_MAPPED"
    and f: "thr_state (f (threads s t)) \<noteq> PK_THREAD_STATE_MAPPED" "thr_priority (f (threads s t)) < 32"
  shows "pk_inv (upd_thread t f s)"
proof -
  have nt: "priority_map s q \<noteq> 0 \<Longrightarrow> priority_map s q \<noteq> t" for q
    using map_invD(2) [OF inv, of q] st by auto
  show ?thesis
    using inv nt f by (auto simp: pk_inv_defs upd_thread_def)
qed

lemma set_state_inv:
  "pk_inv s \<Longrightarrow> thr_state (threads s t) \<noteq> PK_THREAD_STATE_MAPPED \<Longrightarrow>
     st \<noteq> PK_THREAD_STATE_MAPPED \<Longrightarrow> pk_inv (set_state t st s)"
  unfolding set_state_def by (rule pk_inv_unmapped_thread) (simp_all add: prio_invD)

lemma set_priority_inv:
  "pk_inv s \<Longrightarrow> thr_state (threads s t) \<noteq> PK_THREAD_STATE_MAPPED \<Longrightarrow> p < 32 \<Longrightarrow>
     pk_inv (set_priority t p s)"
  unfolding set_priority_def by (rule pk_inv_unmapped_thread) simp_all

lemma has_flag_or: "has_flag w f \<Longrightarrow> has_flag (w OR m) f"
  by (auto simp: has_flag_def bit_eq_iff bit_simps)

lemma set_flags_inv: "pk_inv s \<Longrightarrow> pk_inv (set_flags t m s)"
  by (auto simp: pk_inv_defs set_flags_def upd_thread_def has_flag_or)

definition no_pend :: "pk_state \<Rightarrow> thread_id \<Rightarrow> bool" where
  "no_pend s t \<longleftrightarrow> (\<forall>m. \<not> pending s m (thr_priority (threads s t)))"

lemma clear_flags_inv:
  assumes inv: "pk_inv s" and np: "no_pend s t"
  shows "pk_inv (clear_flags t f s)"
proof -
  have nt: "pending s m q \<Longrightarrow> priority_map s q \<noteq> t" for m q
    using map_invD(3) [OF inv, of q] pend_invD(1) [OF inv, of m q] np by (auto simp: no_pend_def)
  show ?thesis
    using inv nt by (fastforce simp: pk_inv_defs clear_flags_def upd_thread_def)
qed

lemma run_delete_inv: "pk_inv s \<Longrightarrow> pk_inv (run_delete p s)"
  by (auto simp: pk_inv_defs run_delete_def member_delete)

lemma no_pend_settled: "no_pend s t \<Longrightarrow> settled s t"
  by (simp add: no_pend_def settled_def)

lemma pk_thread_resume_inv: "pk_inv s \<Longrightarrow> pk_inv (snd (pk_thread_resume t s))"
  by (auto simp: pk_thread_resume_def critical_defs Let_def i_pk_thread_map_inv)

lemma pk_thread_suspend_inv:
  "pk_inv s \<Longrightarrow> settled s t \<Longrightarrow> pk_inv (snd (pk_thread_suspend t s))"
  by (auto simp: pk_thread_suspend_def critical_defs Let_def i_pk_thread_is_mapped_def
      settled_def i_pk_thread_is_runnable_def intro!: i_pk_thread_unmap_inv)

lemma i_pk_thread_delete_inv:
  assumes inv: "pk_inv s" and t: "t \<noteq> 0" and st: "settled s t" and f: "final \<noteq> PK_THREAD_STATE_MAPPED"
  shows "pk_inv (i_pk_thread_delete t final s)"
proof -
  let ?s1 = "s\<lparr>msr_ee := False\<rparr>"
  let ?s2 = "if i_pk_thread_is_mapped ?s1 t then i_pk_thread_unmap t ?s1 else ?s1"
  let ?s3 = "set_state t final (snd (i_pk_timer_cancel (ThreadTimer t) ?s2))"
  have "pk_inv ?s2"
    using inv t st
    by (auto simp: i_pk_thread_is_mapped_def settled_def i_pk_thread_is_runnable_def
        intro!: i_pk_thread_unmap_inv)
  moreover have "thr_state (threads ?s2 t) \<noteq> PK_THREAD_STATE_MAPPED"
    by (auto simp: i_pk_thread_is_mapped_def unmap_state)
  ultimately have "pk_inv ?s3"
    using f by (intro set_state_inv) (auto cong: pk_inv_cong simp del: pk_inv_critical
        simp: pk_inv_cong [of "snd (i_pk_timer_cancel (ThreadTimer t) ?s2)" ?s2])
  then show ?thesis
    by (auto simp: i_pk_thread_delete_def critical_defs Let_def
        pk_inv_cong [of "_\<lparr>current_thread := _\<rparr>"])
qed

lemma i_pk_thread_timeout_inv:
  assumes inv: "pk_inv s" and t: "t \<noteq> 0"
  shows "pk_inv (i_pk_thread_timeout t s)"
proof -
  let ?s1 = "s\<lparr>msr_ee := False\<rparr>"
  let ?r = "run_insert (thr_priority (threads s t)) (set_flags t PK_THREAD_FLAG_TIMED_OUT ?s1)"
  have 1: "pk_inv ?r" if "thr_state (threads s t) = PK_THREAD_STATE_MAPPED"
    using inv mapped_at [OF inv t that] t set_flags_inv [OF inv, of t PK_THREAD_FLAG_TIMED_OUT]
    by (auto simp: pk_inv_defs set_flags_def upd_thread_def run_insert_def member_insert
        has_flag_def pk_flag_defs)
  have 2: "pk_inv (set_state t PK_THREAD_STATE_SUSPENDED_RUNNABLE (set_flags t PK_THREAD_FLAG_TIMED_OUT ?s1))"
    if "thr_state (threads s t) = PK_THREAD_STATE_SUSPENDED_BLOCKED"
    using that inv set_flags_inv [of ?s1 t PK_THREAD_FLAG_TIMED_OUT]
    by (intro set_state_inv) (simp_all add: set_flags_def upd_thread_def)
  show ?thesis
    using inv 1 2
    by (auto simp: i_pk_thread_timeout_def pk_critical_section_enter_def Let_def PK_PANIC_def
        pk_inv_cong [of "_\<lparr>panic := _\<rparr>"] split: PkThreadState.splits)
qed

lemma pk_sleep_enter_inv: "pk_inv s \<Longrightarrow> pk_inv (snd (pk_sleep_enter interval s))"
  by (auto simp: pk_sleep_enter_def critical_defs Let_def
      pk_inv_cong [of "i_pk_timer_schedule _ _"] pk_inv_cong [of "upd_timer _ _ _"] upd_timer_def
      intro!: run_delete_inv set_flags_inv)

lemma pk_sleep_leave_inv:
  "pk_inv s \<Longrightarrow> no_pend s (fst tc) \<Longrightarrow> pk_inv (snd (pk_sleep_leave tc s))"
  by (auto simp: pk_sleep_leave_def clear_flags_inv split: prod.splits)

lemma pk_thread_priority_change_inv:
  assumes inv: "pk_inv s" and st: "settled s t" and new: "new < 32"
  shows "pk_inv (snd (snd (pk_thread_priority_change t new s)))"
proof -
  let ?s1 = "s\<lparr>msr_ee := False\<rparr>"
  let ?s2 = "set_priority t new (i_pk_thread_unmap t ?s1)"
  have "pk_inv (i_pk_thread_map t ?s2)" if "t \<noteq> 0" "i_pk_thread_is_mapped s t" "priority_map s new = 0"
  proof (rule i_pk_thread_map_inv)
    have "pk_inv (i_pk_thread_unmap t ?s1)"
      using that st inv by (intro i_pk_thread_unmap_inv)
        (auto simp: i_pk_thread_is_mapped_def settled_def i_pk_thread_is_runnable_def)
    then show "pk_inv ?s2" by (rule set_priority_inv) (simp_all add: unmap_state new)
    show "t \<noteq> 0" by fact
    show "priority_map ?s2 (thr_priority (threads ?s2 t)) = 0"
      using that by (simp add: set_priority_def upd_thread_def unmap_effect)
  qed
  moreover have "pk_inv (set_priority t new ?s1)" if "\<not> i_pk_thread_is_mapped s t"
    using that inv new by (intro set_priority_inv) (simp_all add: i_pk_thread_is_mapped_def)
  ultimately show ?thesis
    using inv by (auto simp: pk_thread_priority_change_def critical_defs Let_def i_pk_thread_is_mapped_def)
qed

lemma unmap_other:
  "b \<noteq> a \<Longrightarrow> threads (i_pk_thread_unmap a s) b = threads s b"
  by (simp add: unmap_effect)

lemma settled_unmap_other:
  "settled s b \<Longrightarrow> b \<noteq> a \<Longrightarrow> settled (i_pk_thread_unmap a s) b"
  by (auto simp: settled_def i_pk_thread_is_runnable_def unmap_other unmap_run unmap_pending)

lemma swap_unmap_inv:
  assumes inv: "pk_inv s" and nz: "a \<noteq> 0" "b \<noteq> 0" "a \<noteq> b" and st: "settled s a" "settled s b"
  shows "pk_inv (swap_unmap a b s)"
    and "thr_state (threads (swap_unmap a b s) a) \<noteq> PK_THREAD_STATE_MAPPED"
    and "thr_state (threads (swap_unmap a b s) b) \<noteq> PK_THREAD_STATE_MAPPED"
    and "thr_priority (threads (swap_unmap a b s) x) = thr_priority (threads s x)"
    and "priority_map (swap_unmap a b s) p = (if i_pk_thread_is_mapped s a \<and> p = thr_priority (threads s a) \<or>
       i_pk_thread_is_mapped s b \<and> p = thr_priority (threads s b) then 0 else priority_map s p)"
  using assms settled_unmap_other [of s b a]
  by (auto simp: swap_unmap_def Let_def i_pk_thread_is_mapped_def unmap_other unmap_effect
      intro!: i_pk_thread_unmap_inv)

lemma swap_map_inv:
  assumes inv: "pk_inv s" and nz: "a \<noteq> 0" "b \<noteq> 0" "a \<noteq> b" and st: "settled s a" "settled s b"
    and fa: "i_pk_thread_is_mapped s a \<Longrightarrow> \<not> i_pk_thread_is_mapped s b \<Longrightarrow>
        priority_map s (thr_priority (threads s b)) = 0"
    and fb: "i_pk_thread_is_mapped s b \<Longrightarrow> \<not> i_pk_thread_is_mapped s a \<Longrightarrow>
        priority_map s (thr_priority (threads s a)) = 0"
  defines "s4 \<equiv> set_priority b (thr_priority (threads s a))
      (set_priority a (thr_priority (threads s b)) (swap_unmap a b s))"
  defines "s5 \<equiv> (if i_pk_thread_is_mapped s a then i_pk_thread_map a s4 else s4)"
  shows "pk_inv s5" and "pk_inv (if i_pk_thread_is_mapped s b then i_pk_thread_map b s5 else s5)"
proof -
  note U = swap_unmap_inv [OF inv nz st]
  have s4: "pk_inv s4"
    unfolding s4_def using U nz prio_invD [OF inv]
    by (intro set_priority_inv) (auto simp: set_priority_def upd_thread_def)
  have th: "thr_priority (threads s4 a) = thr_priority (threads s b)"
    "thr_priority (threads s4 b) = thr_priority (threads s a)"
    "priority_map s4 = priority_map (swap_unmap a b s)"
    using nz by (simp_all add: s4_def set_priority_def upd_thread_def)
  have ne: "thr_priority (threads s a) \<noteq> thr_priority (threads s b)"
    if "i_pk_thread_is_mapped s a" "i_pk_thread_is_mapped s b"
    using that mapped_at [OF inv, of a] mapped_at [OF inv, of b] nz by (auto simp: i_pk_thread_is_mapped_def)
  show s5: "pk_inv s5"
    unfolding s5_def using s4 nz fa by (auto simp: th U(5) intro!: i_pk_thread_map_inv)
  have th5: "thr_priority (threads s5 b) = thr_priority (threads s a)"
    "priority_map s5 p = (if i_pk_thread_is_mapped s a \<and> p = thr_priority (threads s b) then a
       else priority_map s4 p)" for p
    using nz th by (auto simp: s5_def map_effect)
  show "pk_inv (if i_pk_thread_is_mapped s b then i_pk_thread_map b s5 else s5)"
    using s5 nz fb ne by (auto simp: th5 th U(5) intro!: i_pk_thread_map_inv)
qed

lemma pk_thread_priority_swap_inv:
  assumes inv: "pk_inv s" and st: "settled s a" "settled s b"
  shows "pk_inv (snd (pk_thread_priority_swap a b s))"
proof -
  have "settled (s\<lparr>msr_ee := False\<rparr>) a" "settled (s\<lparr>msr_ee := False\<rparr>) b"
    using st by (simp_all add: settled_def i_pk_thread_is_runnable_def)
  then have "pk_inv (swap_remap a b (s\<lparr>msr_ee := False\<rparr>))"
    if "a \<noteq> 0" "b \<noteq> 0" "a \<noteq> b"
      "\<not> (i_pk_thread_is_mapped s a \<and> \<not> i_pk_thread_is_mapped s b \<and>
         priority_map s (thr_priority (threads s b)) \<noteq> 0 \<or>
        \<not> i_pk_thread_is_mapped s a \<and> i_pk_thread_is_mapped s b \<and>
         priority_map s (thr_priority (threads s a)) \<noteq> 0)"
    unfolding swap_remap_def Let_def using that inv
    by (intro swap_map_inv(2)) (auto simp: i_pk_thread_is_mapped_def)
  then show ?thesis
    using inv by (auto simp: pk_thread_priority_swap_def critical_defs Let_def
        i_pk_thread_at_priority_def i_pk_thread_is_mapped_def)
qed

end
