(* ===== verification/Pk_Semaphore.thy ===== *)
theory Pk_Semaphore
  imports Pk_Thread
begin

text \<open>
  Semaphores of the PK kernel: \<open>pk_semaphore_core.c\<close> and \<open>pk_semaphore_init.c\<close>, with their
  contract for \<open>pk_semaphore_post\<close> and \<open>pk_semaphore_pend\<close>. A semaphore argument of 0 is the
  null pointer. \<open>pk_semaphore_pend\<close> gives up the processor in the middle, so it is modelled by
  the part before the context switch and the part after it.
\<close>

definition pk_semaphore_create :: "sem_id \<Rightarrow> u32 \<Rightarrow> u32 \<Rightarrow> pk_state \<Rightarrow> pk_rc \<times> pk_state" where
  "pk_semaphore_create m initial_count max_count s =
     (if m = 0 then (Neg PK_INVALID_SEMAPHORE_AT_CREATE, s)
      else if max_count \<noteq> 0 \<and> initial_count > max_count
      then (Neg PK_INVALID_ARGUMENT_SEMAPHORE, s)
      else (PK_OK, upd_sem m (\<lambda>x. \<lparr>sem_pending_threads = pk_thread_queue_clear (sem_pending_threads x),
              sem_count = initial_count, sem_max_count = max_count\<rparr>) s))"

text \<open>
  The overflow error of \<open>pk_semaphore_post\<close> is raised by \<open>PK_ERROR_IF\<close> inside the critical
  section, so it returns with interrupts disabled and the count already incremented.
\<close>

definition pk_semaphore_post :: "sem_id \<Rightarrow> pk_state \<Rightarrow> pk_rc \<times> pk_state" where
  "pk_semaphore_post m s =
     (if m = 0 then (Neg PK_INVALID_SEMAPHORE_AT_POST, s)
      else let (ctx, s1) = pk_critical_section_enter s;
               p = pk_thread_queue_min (sem_pending_threads (semaphores s1 m))
           in if p \<noteq> PK_IDLE_THREAD_PRIORITY
              then (PK_OK, pk_critical_section_exit ctx
                     (i_pk_schedule (run_insert p (pend_delete m p s1))))
              else let s2 = upd_sem m (\<lambda>x. x\<lparr>sem_count := sem_count x + 1\<rparr>) s1
                   in if sem_max_count (semaphores s2 m) > 0 \<and>
                         sem_count (semaphores s2 m) > sem_max_count (semaphores s2 m)
                      then (Neg PK_SEMAPHORE_OVERFLOW, s2)
                      else (PK_OK, pk_critical_section_exit ctx s2))"

text \<open>
  What a blocked call of \<open>pk_semaphore_pend\<close> keeps in its frame: the calling thread, the
  semaphore, its timer if it has one, and the saved machine context.
\<close>

record pend_frame =
  pf_thread :: thread_id
  pf_semaphore :: sem_id
  pf_timer :: "node option"
  pf_ctx :: bool

definition set_semaphore :: "thread_id \<Rightarrow> sem_id \<Rightarrow> pk_state \<Rightarrow> pk_state" where
  "set_semaphore t m = upd_thread t (\<lambda>x. x\<lparr>thr_semaphore := m\<rparr>)"

text \<open>The blocking branch of \<open>pk_semaphore_pend\<close>, up to the context switch.\<close>

definition pend_timer :: "thread_id \<Rightarrow> PkInterval \<Rightarrow> pk_state \<Rightarrow> pk_state" where
  "pend_timer t scaled_timeout s =
     set_flags t PK_THREAD_FLAG_TIMER_PEND
       (i_pk_timer_schedule (ThreadTimer t)
         (upd_timer (ThreadTimer t)
           (\<lambda>x. x\<lparr>tmr_timeout := pk_timebase_get s + scaled_timeout\<rparr>) s))"

definition pend_block :: "sem_id \<Rightarrow> PkInterval \<Rightarrow> PkInterval \<Rightarrow> pk_state \<Rightarrow> pk_state" where
  "pend_block m timeout scaled_timeout s =
     (let t = current_thread s;
          p = thr_priority (threads s t);
          s1 = pend_insert m p s;
          s2 = set_flags t PK_THREAD_FLAG_SEMAPHORE_PEND (set_semaphore t m s1);
          s3 = (if timeout \<noteq> PK_WAIT_FOREVER then pend_timer t scaled_timeout s2 else s2)
      in i_pk_schedule (run_delete p s3))"

definition pk_semaphore_pend_enter ::
  "sem_id \<Rightarrow> PkInterval \<Rightarrow> pk_state \<Rightarrow> (pk_rc + pend_frame) \<times> pk_state" where
  "pk_semaphore_pend_enter m timeout s =
     (let scaled_timeout = PK_INTERVAL_SCALE s timeout
      in if m = 0 then (Inl (Neg PK_INVALID_SEMAPHORE_AT_PEND), s)
      else let (ctx, s1) = pk_critical_section_enter s
      in if sem_count (semaphores s1 m) \<noteq> 0
         then (Inl PK_OK, pk_critical_section_exit ctx
                (upd_sem m (\<lambda>x. x\<lparr>sem_count := sem_count x - 1\<rparr>) s1))
         else if timeout = PK_NO_WAIT
         then (Inl (Neg PK_SEMAPHORE_PEND_NO_WAIT), pk_critical_section_exit ctx s1)
         else if \<not> i_pk_kernel_context_thread s1
         then (Inl (Neg PK_SEMAPHORE_PEND_WOULD_BLOCK), pk_critical_section_exit ctx s1)
         else (Inr \<lparr>pf_thread = current_thread s1, pf_semaphore = m,
                    pf_timer = (if timeout \<noteq> PK_WAIT_FOREVER
                                then Some (ThreadTimer (current_thread s1)) else None),
                    pf_ctx = ctx\<rparr>,
               pend_block m timeout scaled_timeout s1))"

definition pk_semaphore_pend_leave :: "pend_frame \<Rightarrow> pk_state \<Rightarrow> pk_rc \<times> pk_state" where
  "pk_semaphore_pend_leave fr s =
     (let t = pf_thread fr; m = pf_semaphore fr;
          s1 = clear_flags t PK_THREAD_FLAG_SEMAPHORE_PEND s;
          (rc, s2) =
            (if has_flag (thr_flags (threads s1 t)) PK_THREAD_FLAG_TIMER_PEND
             then let (rc, s') =
                    (if has_flag (thr_flags (threads s1 t)) PK_THREAD_FLAG_TIMED_OUT
                     then (Neg PK_SEMAPHORE_PEND_TIMED_OUT,
                           pend_delete m (thr_priority (threads s1 t)) s1)
                     else (PK_OK, snd (i_pk_timer_cancel
                                    (case pf_timer fr of Some n \<Rightarrow> n | None \<Rightarrow> Null) s1)))
                  in (rc, clear_flags t (PK_THREAD_FLAG_TIMER_PEND OR PK_THREAD_FLAG_TIMED_OUT) s')
             else (PK_OK, s1))
      in (rc, pk_critical_section_exit (pf_ctx fr) s2))"

definition pk_semaphore_release_all :: "sem_id \<Rightarrow> pk_state \<Rightarrow> pk_rc \<times> pk_state" where
  "pk_semaphore_release_all m s =
     (if m = 0 then (Neg PK_INVALID_SEMAPHORE_AT_RELEASE, s)
      else let (ctx, s1) = pk_critical_section_enter s;
               s2 = s1\<lparr>run_queue := pk_thread_queue_union (run_queue s1)
                                     (sem_pending_threads (semaphores s1 m))\<rparr>;
               s3 = upd_sem m (\<lambda>x. x\<lparr>sem_pending_threads :=
                                   pk_thread_queue_clear (sem_pending_threads x)\<rparr>) s2
           in (PK_OK, pk_critical_section_exit ctx (i_pk_schedule s3)))"

definition pk_semaphore_info_get :: "sem_id \<Rightarrow> pk_state \<Rightarrow> pk_rc \<times> (u32 \<times> nat) option" where
  "pk_semaphore_info_get m s =
     (if m = 0 then (Neg PK_INVALID_SEMAPHORE_AT_INFO, None)
      else (PK_OK, Some (sem_count (semaphores s m),
                         pk_thread_queue_count (sem_pending_threads (semaphores s m)))))"

subsection \<open>The kernel invariant\<close>

text \<open>A change of the queues only: the pending queues shrink, the new runnable threads are mapped.\<close>

lemma pk_inv_queues:
  assumes inv: "pk_inv s" and eqs: "threads s' = threads s" "priority_map s' = priority_map s"
    and run: "\<And>q. pk_thread_queue_member (run_queue s') q \<Longrightarrow> priority_map s q \<noteq> 0"
    and pend: "\<And>m q. pending s' m q \<Longrightarrow> pending s m q"
    and excl: "\<And>m q. pending s' m q \<Longrightarrow> pk_thread_queue_member (run_queue s') q \<Longrightarrow>
      \<not> pk_thread_queue_member (run_queue s) q \<Longrightarrow> False"
  shows "pk_inv s'"
proof (rule pk_invI)
  note D = run_invD [OF inv] pend_invD [OF inv] excl_invD [OF inv] map_invD [OF inv]
  show "priority_map s' q \<noteq> 0 \<Longrightarrow> q < 32 \<and>
      thr_state (threads s' (priority_map s' q)) = PK_THREAD_STATE_MAPPED \<and>
      thr_priority (threads s' (priority_map s' q)) = q" for q
    using D(6-8) [of q] by (simp add: eqs)
  show "priority_map s' (thr_priority (threads s' x)) = x"
    if "x \<noteq> 0" "thr_state (threads s' x) = PK_THREAD_STATE_MAPPED" for x
    using that mapped_at [OF inv, of x] by (simp add: eqs)
  show "priority_map s' q \<noteq> 0" if "pk_thread_queue_member (run_queue s') q" for q
    using run [OF that] by (simp add: eqs)
  show "priority_map s' q \<noteq> 0 \<and> thr_semaphore (threads s' (priority_map s' q)) = m \<and>
      has_flag (thr_flags (threads s' (priority_map s' q))) PK_THREAD_FLAG_SEMAPHORE_PEND"
    if "pending s' m q" for m q
    using D(2-4) [OF pend [OF that]] by (simp add: eqs)
  show "has_flag (thr_flags (threads s' (priority_map s' q))) PK_THREAD_FLAG_TIMED_OUT"
    if "pending s' m q" "pk_thread_queue_member (run_queue s') q" for m q
    using excl [OF that] D(5) [OF pend [OF that(1)]] by (auto simp: eqs)
  show "thr_priority (threads s' x) < 32" for x
    using prio_invD [OF inv, of x] by (simp add: eqs)
qed

lemma pend_less_inv:
  assumes "pk_inv s" and "threads s' = threads s" and "priority_map s' = priority_map s"
    and "run_queue s' = run_queue s" and "\<And>m p. pending s' m p \<Longrightarrow> pending s m p"
  shows "pk_inv s'"
  using assms run_invD [OF assms(1)] by (intro pk_inv_queues [OF assms(1)]) auto

lemma pend_unique:
  assumes "pk_inv s" and "pending s m p" and "pending s m' p"
  shows "m' = m"
  using pend_invD(2) [OF assms(1,2)] pend_invD(2) [OF assms(1,3)] by simp

lemma pend_min:
  assumes "pk_thread_queue_min q \<noteq> PK_IDLE_THREAD_PRIORITY"
  shows "pk_thread_queue_member q (pk_thread_queue_min q)"
  using assms tq.minimum_in [of q] tq.minimum_empty [of q] tq.mem_iff
  by (auto simp: PK_IDLE_THREAD_PRIORITY_def)

lemma pk_semaphore_create_inv: "pk_inv s \<Longrightarrow> pk_inv (snd (pk_semaphore_create m i x s))"
  by (rule pend_less_inv [of s])
     (auto simp: pk_semaphore_create_def upd_sem_def member_clear split: if_splits)

lemma post_wake_inv:
  assumes inv: "pk_inv s" and p: "pending s m p"
  shows "pk_inv (run_insert p (pend_delete m p s))"
proof (rule pk_inv_queues [OF inv])
  have p32: "p < 32" using pend_invD(1) [OF inv p] by (rule map_invD(1) [OF inv])
  let ?s = "run_insert p (pend_delete m p s)"
  have run: "pk_thread_queue_member (run_queue ?s) q \<longleftrightarrow> q = p \<or> pk_thread_queue_member (run_queue s) q"
    and pend: "pending ?s m' q \<longleftrightarrow> pending s m' q \<and> (m', q) \<noteq> (m, p)" for m' q
    using p32 by (auto simp: kernel_upd_defs member_insert member_delete)
  show "pending s m' q" if "pending ?s m' q" for m' q using that pend by blast
  show "priority_map s q \<noteq> 0" if "pk_thread_queue_member (run_queue ?s) q" for q
    using that pend_invD(1) [OF inv p] run_invD [OF inv, of q] by (auto simp: run)
  show False if "pending ?s m' q" "pk_thread_queue_member (run_queue ?s) q"
    "\<not> pk_thread_queue_member (run_queue s) q" for m' q
    using that pend_unique [OF inv p, of m'] by (auto simp: run pend)
qed (simp_all add: kernel_upd_defs)

lemma pk_semaphore_post_inv: "pk_inv s \<Longrightarrow> pk_inv (snd (pk_semaphore_post m s))"
  by (auto simp: pk_semaphore_post_def critical_defs Let_def upd_sem_def
      intro!: post_wake_inv pend_min intro: pend_less_inv [of s] split: if_splits)

lemma release_all_wake_inv:
  assumes inv: "pk_inv s"
  shows "pk_inv (upd_sem m (\<lambda>x. x\<lparr>sem_pending_threads := pk_thread_queue_clear (sem_pending_threads x)\<rparr>)
    (s\<lparr>run_queue := pk_thread_queue_union (run_queue s) (sem_pending_threads (semaphores s m))\<rparr>))"
    (is "pk_inv ?s")
proof (rule pk_inv_queues [OF inv])
  have run: "pk_thread_queue_member (run_queue ?s) q \<longleftrightarrow>
      pending s m q \<or> pk_thread_queue_member (run_queue s) q"
    and pend: "pending ?s m' q \<longleftrightarrow> pending s m' q \<and> m' \<noteq> m" for m' q
    by (auto simp: upd_sem_def member_union member_clear)
  show "pending s m' q" if "pending ?s m' q" for m' q using that pend by blast
  show "priority_map s q \<noteq> 0" if "pk_thread_queue_member (run_queue ?s) q" for q
    using that pend_invD(1) [OF inv, of m q] run_invD [OF inv, of q] by (auto simp: run)
  show False if "pending ?s m' q" "pk_thread_queue_member (run_queue ?s) q"
    "\<not> pk_thread_queue_member (run_queue s) q" for m' q
    using that pend_unique [OF inv, of m q m'] by (auto simp: run pend)
qed (simp_all add: upd_sem_def)

lemma pk_semaphore_release_all_inv: "pk_inv s \<Longrightarrow> pk_inv (snd (pk_semaphore_release_all m s))"
  using release_all_wake_inv [of "s\<lparr>msr_ee := False\<rparr>" m]
  by (simp add: pk_semaphore_release_all_def pk_critical_section_enter_def Let_def)

lemma has_flag_set: "m \<noteq> 0 \<Longrightarrow> has_flag (w OR m) m"
proof -
  have "(w OR m) AND m = m" by (auto simp: bit_eq_iff bit_simps)
  then show "m \<noteq> 0 \<Longrightarrow> has_flag (w OR m) m" by (simp add: has_flag_def)
qed

text \<open>
  Blocking: the calling thread is mapped and in no pending queue. After the call it is in the
  pending queue of the semaphore and not in the run queue.
\<close>

lemma block_inv:
  assumes inv: "pk_inv s" and t: "t \<noteq> 0" and st: "thr_state (threads s t) = PK_THREAD_STATE_MAPPED"
    and np: "no_pend s t"
  defines "p \<equiv> thr_priority (threads s t)"
  shows "pk_inv (run_delete p (set_flags t PK_THREAD_FLAG_SEMAPHORE_PEND
      (set_semaphore t m (pend_insert m p s))))" (is "pk_inv ?s")
proof (rule pk_invI)
  note D = run_invD [OF inv] pend_invD [OF inv] excl_invD [OF inv] map_invD [OF inv]
  have at: "priority_map s p = t" "p < 32" using mapped_at [OF inv t st] by (simp_all add: p_def)
  have other: "priority_map s q = t \<longleftrightarrow> q = p" for q
    using D(8) [of q] t at p_def by auto
  have th: "thr_state (threads ?s x) = thr_state (threads s x)"
      "thr_priority (threads ?s x) = thr_priority (threads s x)"
      "x \<noteq> t \<Longrightarrow> threads ?s x = threads s x" for x
    by (simp_all add: kernel_upd_defs set_semaphore_def)
  have tt: "thr_semaphore (threads ?s t) = m"
      "has_flag (thr_flags (threads ?s t)) PK_THREAD_FLAG_SEMAPHORE_PEND"
    by (auto simp: kernel_upd_defs set_semaphore_def has_flag_set PK_THREAD_FLAG_SEMAPHORE_PEND_def)
  have map: "priority_map ?s = priority_map s" by (simp add: kernel_upd_defs set_semaphore_def)
  have run: "pk_thread_queue_member (run_queue ?s) q \<longleftrightarrow> q \<noteq> p \<and> pk_thread_queue_member (run_queue s) q" for q
    by (auto simp: kernel_upd_defs set_semaphore_def member_delete)
  have pend: "pending ?s m' q \<longleftrightarrow> (m', q) = (m, p) \<or> pending s m' q" for m' q
    using at(2) by (auto simp: kernel_upd_defs set_semaphore_def member_insert)
  have npp: "\<not> pending s m' p" for m' using np by (simp add: no_pend_def p_def)
  show "priority_map ?s q \<noteq> 0 \<Longrightarrow> q < 32 \<and>
      thr_state (threads ?s (priority_map ?s q)) = PK_THREAD_STATE_MAPPED \<and>
      thr_priority (threads ?s (priority_map ?s q)) = q" for q
    using D(6-8) [of q] by (simp add: th map)
  show "priority_map ?s (thr_priority (threads ?s x)) = x"
    if "x \<noteq> 0" "thr_state (threads ?s x) = PK_THREAD_STATE_MAPPED" for x
    using that mapped_at [OF inv, of x] by (simp add: th map)
  show "priority_map ?s q \<noteq> 0" if "pk_thread_queue_member (run_queue ?s) q" for q
    using that D(1) [of q] by (simp add: run map)
  show "priority_map ?s q \<noteq> 0 \<and> thr_semaphore (threads ?s (priority_map ?s q)) = m' \<and>
      has_flag (thr_flags (threads ?s (priority_map ?s q))) PK_THREAD_FLAG_SEMAPHORE_PEND"
    if "pending ?s m' q" for m' q
    using that D(2-4) [of m' q] at t tt other [of q] npp [of m'] th(3) [of "priority_map s q"]
    by (auto simp: pend map)
  show "has_flag (thr_flags (threads ?s (priority_map ?s q))) PK_THREAD_FLAG_TIMED_OUT"
    if "pending ?s m' q" "pk_thread_queue_member (run_queue ?s) q" for m' q
    using that D(5) [of m' q] other [of q] th(3) [of "priority_map s q"]
    by (auto simp: pend run map)
  show "thr_priority (threads ?s x) < 32" for x using prio_invD [OF inv, of x] by (simp add: th)
qed

lemma sem_count_inv: "pk_inv s \<Longrightarrow> pk_inv (upd_sem m (\<lambda>x. x\<lparr>sem_count := c x\<rparr>) s)"
  by (erule pend_less_inv) (auto simp: upd_sem_def split: if_splits)

lemma pend_timer_frame [simp]:
  "semaphores (pend_timer t i s) = semaphores s" "run_queue (pend_timer t i s) = run_queue s"
  "priority_map (pend_timer t i s) = priority_map s"
  "threads (pend_timer t i s) = (threads s)
     (t := (threads s t)\<lparr>thr_flags := thr_flags (threads s t) OR PK_THREAD_FLAG_TIMER_PEND\<rparr>)"
  by (simp_all add: pend_timer_def set_flags_def upd_defs)

lemma pend_block_inv:
  assumes inv: "pk_inv s" and t: "current_thread s \<noteq> 0"
      "thr_state (threads s (current_thread s)) = PK_THREAD_STATE_MAPPED" "no_pend s (current_thread s)"
  shows "pk_inv (pend_block m timeout i s)"
proof -
  let ?t = "current_thread s"
  let ?b = "set_flags ?t PK_THREAD_FLAG_SEMAPHORE_PEND
      (set_semaphore ?t m (pend_insert m (thr_priority (threads s ?t)) s))"
  have b: "pk_inv (run_delete (thr_priority (threads s ?t)) ?b)" by (rule block_inv [OF inv t])
  have "pk_inv (run_delete (thr_priority (threads s ?t)) (pend_timer ?t i ?b)) \<longleftrightarrow>
      pk_inv (set_flags ?t PK_THREAD_FLAG_TIMER_PEND (run_delete (thr_priority (threads s ?t)) ?b))"
    by (rule pk_inv_cong) (simp_all add: kernel_upd_defs)
  with b set_flags_inv [OF b] show ?thesis by (simp add: pend_block_def Let_def)
qed

lemma pk_semaphore_pend_enter_inv:
  assumes inv: "pk_inv s" and t: "i_pk_kernel_context_thread s \<Longrightarrow> current_thread s \<noteq> 0 \<and>
      thr_state (threads s (current_thread s)) = PK_THREAD_STATE_MAPPED \<and> no_pend s (current_thread s)"
  shows "pk_inv (snd (pk_semaphore_pend_enter m timeout s))"
  using inv t by (auto simp: pk_semaphore_pend_enter_def pk_critical_section_enter_def Let_def
      context_defs no_pend_def intro!: sem_count_inv pend_block_inv)

lemma no_pend_clear_flags: "no_pend (clear_flags t f s) t = no_pend s t"
  by (simp add: no_pend_def clear_flags_def upd_thread_def)

definition timer_flags :: u8 where
  "timer_flags = PK_THREAD_FLAG_TIMER_PEND OR PK_THREAD_FLAG_TIMED_OUT"

lemma flag_masks:
  "has_flag (f AND NOT PK_THREAD_FLAG_SEMAPHORE_PEND) PK_THREAD_FLAG_TIMER_PEND =
     has_flag f PK_THREAD_FLAG_TIMER_PEND"
  "has_flag (f AND NOT PK_THREAD_FLAG_SEMAPHORE_PEND) PK_THREAD_FLAG_TIMED_OUT =
     has_flag f PK_THREAD_FLAG_TIMED_OUT"
  by (simp_all add: has_flag_def pk_flag_defs and.assoc)

text \<open>
  What the thread does when it runs again, on the fields of the invariant: the pending queue
  loses it when it timed out, its flags are cleared.
\<close>

definition pend_done :: "thread_id \<Rightarrow> sem_id \<Rightarrow> pk_state \<Rightarrow> pk_state" where
  "pend_done t m s =
     (let timed = has_flag (thr_flags (threads s t)) PK_THREAD_FLAG_TIMER_PEND;
          out = has_flag (thr_flags (threads s t)) PK_THREAD_FLAG_TIMED_OUT;
          s1 = (if timed \<and> out then pend_delete m (thr_priority (threads s t)) s else s);
          s2 = clear_flags t PK_THREAD_FLAG_SEMAPHORE_PEND s1
      in if timed then clear_flags t timer_flags s2 else s2)"

lemma pend_leave_effect:
  "threads (snd (pk_semaphore_pend_leave fr s)) = threads (pend_done (pf_thread fr) (pf_semaphore fr) s)"
  "semaphores (snd (pk_semaphore_pend_leave fr s)) = semaphores (pend_done (pf_thread fr) (pf_semaphore fr) s)"
  "run_queue (snd (pk_semaphore_pend_leave fr s)) = run_queue s"
  "priority_map (snd (pk_semaphore_pend_leave fr s)) = priority_map s"
  by (simp_all add: pk_semaphore_pend_leave_def pend_done_def Let_def kernel_upd_defs flag_masks
      timer_flags_def)

lemma pend_done_frame [simp]:
  "run_queue (pend_done t m s) = run_queue s" "priority_map (pend_done t m s) = priority_map s"
  by (simp_all add: pend_done_def Let_def kernel_upd_defs)

text \<open>
  Unblocking: a runnable thread that returns from the context switch is in no pending queue
  afterwards, on every path.
\<close>

lemma pend_done_inv:
  assumes inv: "pk_inv s" and run: "i_pk_thread_is_runnable s t"
    and st: "thr_state (threads s t) = PK_THREAD_STATE_MAPPED" and t: "t \<noteq> 0"
    and m: "thr_semaphore (threads s t) = m"
    and timed: "has_flag (thr_flags (threads s t)) PK_THREAD_FLAG_TIMED_OUT \<Longrightarrow>
      has_flag (thr_flags (threads s t)) PK_THREAD_FLAG_TIMER_PEND"
  shows "pk_inv (pend_done t m s)" and "no_pend (pend_done t m s) t"
proof -
  let ?p = "thr_priority (threads s t)"
  let ?out = "has_flag (thr_flags (threads s t)) PK_THREAD_FLAG_TIMER_PEND \<and>
      has_flag (thr_flags (threads s t)) PK_THREAD_FLAG_TIMED_OUT"
  let ?s1 = "if ?out then pend_delete m ?p s else s"
  have at: "priority_map s ?p = t" using mapped_at [OF inv t st] by simp
  have pend: "m' = m \<and> ?out" if "pending s m' ?p" for m'
    using pend_invD(2) [OF inv that] excl_invD [OF inv that] run timed m at
    by (auto simp: i_pk_thread_is_runnable_def)
  have np: "no_pend ?s1 t"
    using pend by (auto simp: no_pend_def kernel_upd_defs member_delete)
  have i1: "pk_inv ?s1"
    using inv by (auto intro!: pend_less_inv [OF inv] simp: kernel_upd_defs member_delete split: if_splits)
  define s1 where "s1 = ?s1"
  have s1: "pk_inv s1" "no_pend s1 t" unfolding s1_def by (fact i1 np)+
  have "pend_done t m s =
      (if has_flag (thr_flags (threads s t)) PK_THREAD_FLAG_TIMER_PEND
       then clear_flags t timer_flags (clear_flags t PK_THREAD_FLAG_SEMAPHORE_PEND s1)
       else clear_flags t PK_THREAD_FLAG_SEMAPHORE_PEND s1)"
    by (simp add: pend_done_def Let_def s1_def)
  with s1 show "pk_inv (pend_done t m s)" "no_pend (pend_done t m s) t"
    by (simp_all add: clear_flags_inv no_pend_clear_flags)
qed

lemma pk_semaphore_pend_leave_inv:
  assumes "pk_inv s" and "i_pk_thread_is_runnable s (pf_thread fr)"
    and "thr_state (threads s (pf_thread fr)) = PK_THREAD_STATE_MAPPED" and "pf_thread fr \<noteq> 0"
    and "thr_semaphore (threads s (pf_thread fr)) = pf_semaphore fr"
    and "has_flag (thr_flags (threads s (pf_thread fr))) PK_THREAD_FLAG_TIMED_OUT \<Longrightarrow>
      has_flag (thr_flags (threads s (pf_thread fr))) PK_THREAD_FLAG_TIMER_PEND"
  shows "pk_inv (snd (pk_semaphore_pend_leave fr s))"
  using pend_done_inv(1) [OF assms]
    pk_inv_cong [of "snd (pk_semaphore_pend_leave fr s)" "pend_done (pf_thread fr) (pf_semaphore fr) s"]
  by (simp add: pend_leave_effect)

subsection \<open>Properties\<close>

lemma post_pending:
  assumes "m \<noteq> 0" and "pending s m p0"
  defines "p \<equiv> pk_thread_queue_min (sem_pending_threads (semaphores s m))"
  shows "pending s m p" and "pending s m q \<Longrightarrow> p \<le> q"
    and "pk_semaphore_post m s = (PK_OK, pk_critical_section_exit (msr_ee s)
      (i_pk_schedule (run_insert p (pend_delete m p (s\<lparr>msr_ee := False\<rparr>)))))"
proof -
  show m: "pending s m p" unfolding p_def by (rule member_min(2)) (rule assms(2))
  show "pending s m q \<Longrightarrow> p \<le> q" unfolding p_def by (rule member_min(1))
  have "p \<noteq> PK_IDLE_THREAD_PRIORITY"
    using tq.minimum_eq_idle [of "sem_pending_threads (semaphores s m)"] m tq.mem_iff
    by (auto simp: p_def PK_IDLE_THREAD_PRIORITY_def)
  then show "pk_semaphore_post m s = (PK_OK, pk_critical_section_exit (msr_ee s)
      (i_pk_schedule (run_insert p (pend_delete m p (s\<lparr>msr_ee := False\<rparr>)))))"
    using assms(1) by (simp add: pk_semaphore_post_def pk_critical_section_enter_def Let_def p_def)
qed

text \<open>
  Property C2. Posting to a semaphore on which threads are pending: the thread of the highest
  priority among them leaves the pending queue and becomes runnable, nothing else changes in any
  queue, no count changes and the interrupt enable is as before the call.
\<close>

theorem pk_semaphore_post_correct:
  assumes "pk_inv s" and "m \<noteq> 0" and "pending s m p0"
  shows "\<exists>p s'. pk_semaphore_post m s = (PK_OK, s') \<and> pending s m p \<and>
     (\<forall>q. pending s m q \<longrightarrow> p \<le> q) \<and>
     (\<forall>n q. pending s' n q \<longleftrightarrow> pending s n q \<and> (n, q) \<noteq> (m, p)) \<and>
     (\<forall>q. pk_thread_queue_member (run_queue s') q \<longleftrightarrow> pk_thread_queue_member (run_queue s) q \<or> q = p) \<and>
     (\<forall>n. sem_count (semaphores s' n) = sem_count (semaphores s n)) \<and>
     threads s' = threads s \<and> priority_map s' = priority_map s \<and> msr_ee s' = msr_ee s"
proof -
  let ?p = "pk_thread_queue_min (sem_pending_threads (semaphores s m))"
  note P = post_pending [OF assms(2,3)]
  have "?p < 32" using pend_invD(1) [OF assms(1) P(1)] by (rule map_invD(1) [OF assms(1)])
  then show ?thesis
    using P by (intro exI [of _ ?p] exI [of _ "snd (pk_semaphore_post m s)"])
      (auto simp: critical_defs kernel_upd_defs member_insert member_delete)
qed

lemma pend_block_effect:
  assumes "thr_priority (threads s (current_thread s)) < 32"
  defines "c \<equiv> current_thread s" and "p \<equiv> thr_priority (threads s (current_thread s))"
  shows "pending (pend_block m PK_WAIT_FOREVER i s) n q \<longleftrightarrow> pending s n q \<or> (n, q) = (m, p)"
    and "pk_thread_queue_member (run_queue (pend_block m PK_WAIT_FOREVER i s)) q \<longleftrightarrow>
      pk_thread_queue_member (run_queue s) q \<and> q \<noteq> p"
    and "thr_flags (threads (pend_block m PK_WAIT_FOREVER i s) c) =
      thr_flags (threads s c) OR PK_THREAD_FLAG_SEMAPHORE_PEND"
    and "thr_priority (threads (pend_block m PK_WAIT_FOREVER i s) x) = thr_priority (threads s x)"
    and "sem_count (semaphores (pend_block m PK_WAIT_FOREVER i s) n) = sem_count (semaphores s n)"
  using assms(1)
  by (auto simp: pend_block_def Let_def kernel_upd_defs set_semaphore_def member_insert member_delete c_def p_def)

lemma pend_leave_untimed:
  "\<not> has_flag (thr_flags (threads s (pf_thread fr))) PK_THREAD_FLAG_TIMER_PEND \<Longrightarrow>
     fst (pk_semaphore_pend_leave fr s) = PK_OK"
  by (simp add: pk_semaphore_pend_leave_def Let_def clear_flags_def upd_thread_def flag_masks)

lemma pend_leave_timed_out:
  "has_flag (thr_flags (threads s (pf_thread fr))) PK_THREAD_FLAG_TIMER_PEND \<Longrightarrow>
   has_flag (thr_flags (threads s (pf_thread fr))) PK_THREAD_FLAG_TIMED_OUT \<Longrightarrow>
     fst (pk_semaphore_pend_leave fr s) = Neg PK_SEMAPHORE_PEND_TIMED_OUT"
  by (simp add: pk_semaphore_pend_leave_def Let_def clear_flags_def upd_thread_def flag_masks)

lemma post_only:
  assumes "m \<noteq> 0" and "\<And>q. pending s m q \<longleftrightarrow> q = p" and "p < 32"
  shows "fst (pk_semaphore_post m s) = PK_OK"
    and "pending (snd (pk_semaphore_post m s)) n q \<longleftrightarrow> pending s n q \<and> n \<noteq> m"
    and "pk_thread_queue_member (run_queue (snd (pk_semaphore_post m s))) q \<longleftrightarrow>
      pk_thread_queue_member (run_queue s) q \<or> q = p"
    and "threads (snd (pk_semaphore_post m s)) = threads s"
    and "sem_count (semaphores (snd (pk_semaphore_post m s)) n) = sem_count (semaphores s n)"
    and "priority_map (snd (pk_semaphore_post m s)) = priority_map s"
proof -
  have pend: "pending s m p" using assms(2) by simp
  note P = post_pending [OF assms(1) pend]
  have "pk_thread_queue_min (sem_pending_threads (semaphores s m)) = p" using P(1) assms(2) by simp
  then show "fst (pk_semaphore_post m s) = PK_OK"
    and "pending (snd (pk_semaphore_post m s)) n q \<longleftrightarrow> pending s n q \<and> n \<noteq> m"
    and "pk_thread_queue_member (run_queue (snd (pk_semaphore_post m s))) q \<longleftrightarrow>
      pk_thread_queue_member (run_queue s) q \<or> q = p"
    and "threads (snd (pk_semaphore_post m s)) = threads s"
    and "sem_count (semaphores (snd (pk_semaphore_post m s)) n) = sem_count (semaphores s n)"
    and "priority_map (snd (pk_semaphore_post m s)) = priority_map s"
    using P(3) assms(2,3) by (auto simp: kernel_upd_defs member_insert member_delete)
qed

text \<open>Posts, one after the other, to a semaphore on which a thread at priority \<open>p\<close> is pending.\<close>

fun posts :: "sem_id \<Rightarrow> nat \<Rightarrow> pk_state \<Rightarrow> pk_state" where
  "posts m 0 s = s"
| "posts m (Suc j) s = posts m j (snd (pk_semaphore_post m s))"

definition ahead :: "sem_id \<Rightarrow> PkThreadPriority \<Rightarrow> pk_state \<Rightarrow> PkThreadPriority set" where
  "ahead m p s = {q. pending s m q \<and> q < p}"

lemma post_ahead:
  assumes inv: "pk_inv s" and m: "m \<noteq> 0" and p: "pending s m p"
  defines "s' \<equiv> snd (pk_semaphore_post m s)"
  shows "fst (pk_semaphore_post m s) = PK_OK" and "pk_inv s'" and "threads s' = threads s"
    and "sem_count (semaphores s' m) = sem_count (semaphores s m)"
    and "ahead m p s = {} \<Longrightarrow> pk_thread_queue_member (run_queue s') p"
    and "ahead m p s \<noteq> {} \<Longrightarrow> pending s' m p \<and> Suc (card (ahead m p s')) = card (ahead m p s) \<and>
      (pk_thread_queue_member (run_queue s') p \<longleftrightarrow> pk_thread_queue_member (run_queue s) p)"
proof -
  define q where "q = pk_thread_queue_min (sem_pending_threads (semaphores s m))"
  note Q = post_pending [OF m p, folded q_def]
  have q32: "q < 32" using pend_invD(1) [OF inv Q(1)] by (rule map_invD(1) [OF inv])
  show "fst (pk_semaphore_post m s) = PK_OK" using Q(3) by simp
  show "pk_inv s'" unfolding s'_def by (rule pk_semaphore_post_inv [OF inv])
  show "threads s' = threads s" "sem_count (semaphores s' m) = sem_count (semaphores s m)"
    using Q(3) by (simp_all add: s'_def kernel_upd_defs)
  have run: "pk_thread_queue_member (run_queue s') x \<longleftrightarrow> pk_thread_queue_member (run_queue s) x \<or> x = q"
    and pend: "pending s' m x \<longleftrightarrow> pending s m x \<and> x \<noteq> q" for x
    using Q(3) q32 by (auto simp: s'_def kernel_upd_defs member_insert member_delete)
  show "pk_thread_queue_member (run_queue s') p" if "ahead m p s = {}"
  proof -
    have "\<not> q < p" using Q(1) that by (auto simp: ahead_def)
    then have "q = p" using Q(2) [OF p] by simp
    then show ?thesis by (simp add: run)
  qed
  show "pending s' m p \<and> Suc (card (ahead m p s')) = card (ahead m p s) \<and>
      (pk_thread_queue_member (run_queue s') p \<longleftrightarrow> pk_thread_queue_member (run_queue s) p)" if "ahead m p s \<noteq> {}"
  proof -
    obtain x where "x \<in> ahead m p s" using \<open>ahead m p s \<noteq> {}\<close> by blast
    then have x: "pending s m x" "x < p" by (simp_all add: ahead_def)
    then have "q < p" using Q(2) [OF x(1)] by simp
    then have q: "q \<in> ahead m p s" "p \<noteq> q" using Q(1) by (auto simp: ahead_def)
    have "ahead m p s' = ahead m p s - {q}" by (auto simp: ahead_def pend)
    moreover have "finite (ahead m p s)" by simp
    ultimately have "card (ahead m p s) = Suc (card (ahead m p s'))" using card.remove [of _ q] q(1) by simp
    then show ?thesis using q(2) p by (simp add: pend run)
  qed
qed

lemma posts_ahead:
  assumes "m \<noteq> 0"
  shows "pk_inv s \<Longrightarrow> pending s m p \<Longrightarrow> \<not> pk_thread_queue_member (run_queue s) p \<Longrightarrow> card (ahead m p s) = n \<Longrightarrow>
    (\<forall>j \<le> n. fst (pk_semaphore_post m (posts m j s)) = PK_OK \<and> \<not> pk_thread_queue_member (run_queue (posts m j s)) p) \<and>
    (\<forall>j \<le> Suc n. threads (posts m j s) = threads s \<and> sem_count (semaphores (posts m j s) m) = sem_count (semaphores s m)) \<and>
    pk_thread_queue_member (run_queue (posts m (Suc n) s)) p"
proof (induction n arbitrary: s)
  case 0
  then have "ahead m p s = {}" by (simp add: ahead_def)
  then show ?case using post_ahead(1-5) [OF 0(1) assms 0(2)] 0(3) by (simp add: le_Suc_eq)
next
  case (Suc n)
  note P = post_ahead [OF Suc.prems(1) assms Suc.prems(2)]
  have "ahead m p s \<noteq> {}" using Suc.prems(4) by auto
  note N = P(6) [OF this]
  have IH: "(\<forall>j \<le> n. fst (pk_semaphore_post m (posts m (Suc j) s)) = PK_OK \<and>
        \<not> pk_thread_queue_member (run_queue (posts m (Suc j) s)) p) \<and>
      (\<forall>j \<le> Suc n. threads (posts m (Suc j) s) = threads s \<and>
        sem_count (semaphores (posts m (Suc j) s) m) = sem_count (semaphores s m)) \<and>
      pk_thread_queue_member (run_queue (posts m (Suc (Suc n)) s)) p"
    using Suc.IH [OF P(2)] N Suc.prems(3,4) P(3,4) by simp
  have all: "\<forall>j \<le> Suc k. R j" if "R 0" "\<forall>j \<le> k. R (Suc j)" for k R
    using that by (metis Suc_le_mono not0_implies_Suc)
  show ?case
  proof (intro conjI)
    show "\<forall>j \<le> Suc n. fst (pk_semaphore_post m (posts m j s)) = PK_OK \<and> \<not> pk_thread_queue_member (run_queue (posts m j s)) p"
      by (rule all) (use P(1) Suc.prems(3) in \<open>simp only: posts.simps(1) simp_thms\<close>, rule conjunct1 [OF IH])
    show "\<forall>j \<le> Suc (Suc n). threads (posts m j s) = threads s \<and> sem_count (semaphores (posts m j s) m) = sem_count (semaphores s m)"
      by (rule all) (simp, rule conjunct1 [OF conjunct2 [OF IH]])
    show "pk_thread_queue_member (run_queue (posts m (Suc (Suc n)) s)) p" using IH by blast
  qed
qed

text \<open>
  Property C3. A mapped thread without flags that waits for ever on an empty semaphore, and the posts that wake it, when nothing
  else acts on the semaphore or the thread in between: with \<open>n\<close> threads of higher priority pending
  already, the thread is blocked until \<open>n\<close> posts have been made, the next post makes it runnable, all
  posts succeed and leave the count at 0. Whenever the thread runs again with its flags as it
  went to sleep, its call returns \<open>PK_OK\<close>.
\<close>

theorem pk_semaphore_handover:
  assumes "pk_inv s" and "m \<noteq> 0" and "i_pk_kernel_context_thread s" and "c \<noteq> 0" and "c = current_thread s"
    and "thr_state (threads s c) = PK_THREAD_STATE_MAPPED" and "thr_flags (threads s c) = 0"
    and "sem_count (semaphores s m) = 0"
    and "n = card {q. pending s m q \<and> q < thr_priority (threads s c)}"
  shows "\<exists>fr s1. pk_semaphore_pend_enter m PK_WAIT_FOREVER s = (Inr fr, s1) \<and>
     (\<forall>j \<le> n. \<not> i_pk_thread_is_runnable (posts m j s1) c \<and> fst (pk_semaphore_post m (posts m j s1)) = PK_OK \<and>
        sem_count (semaphores (posts m (Suc j) s1) m) = 0) \<and>
     i_pk_thread_is_runnable (posts m (Suc n) s1) c \<and>
     threads (posts m (Suc n) s1) = threads s1 \<and>
     (\<forall>s2. thr_flags (threads s2 c) = thr_flags (threads s1 c) \<longrightarrow> fst (pk_semaphore_pend_leave fr s2) = PK_OK)"
proof -
  let ?p = "thr_priority (threads s c)"
  let ?s0 = "s\<lparr>msr_ee := False\<rparr>"
  let ?fr = "\<lparr>pf_thread = c, pf_semaphore = m, pf_timer = None, pf_ctx = msr_ee s\<rparr>"
  define s1 where "s1 = pend_block m PK_WAIT_FOREVER (PK_INTERVAL_SCALE s PK_WAIT_FOREVER) ?s0"
  have p: "?p < 32" by (rule prio_invD [OF assms(1)])
  note B = pend_block_effect [of ?s0 m "PK_INTERVAL_SCALE s PK_WAIT_FOREVER", folded s1_def]
  have enter: "pk_semaphore_pend_enter m PK_WAIT_FOREVER s = (Inr ?fr, s1)"
    using assms(2,3,5,8)
    by (simp add: pk_semaphore_pend_enter_def pk_critical_section_enter_def Let_def context_defs
        PK_WAIT_FOREVER_def PK_NO_WAIT_def s1_def)
  have np: "\<not> pending s k ?p" for k
    using mapped_at [OF assms(1,4,6)] pend_invD(3) [OF assms(1), of k ?p] assms(7) by (auto simp: has_flag_def)
  have "pk_inv (snd (pk_semaphore_pend_enter m PK_WAIT_FOREVER s))"
    by (rule pk_semaphore_pend_enter_inv [OF assms(1)]) (use assms(4-6) np in \<open>auto simp: no_pend_def\<close>)
  then have inv: "pk_inv s1" using enter by simp
  have pend: "pending s1 m ?p" and run: "\<not> pk_thread_queue_member (run_queue s1) ?p"
    and prio: "thr_priority (threads s1 c) = ?p" and cnt: "sem_count (semaphores s1 m) = 0"
    using B(1,2,4,5) p assms(5,8) by simp_all
  have "ahead m ?p s1 = {q. pending s m q \<and> q < ?p}" using B(1) p assms(5) by (auto simp: ahead_def)
  then have "card (ahead m ?p s1) = n" using assms(9) by simp
  note W = posts_ahead [OF assms(2) inv pend run this]
  have same: "threads (posts m j s1) = threads s1" "sem_count (semaphores (posts m j s1) m) = 0" if "j \<le> Suc n" for j
    using W that cnt by simp_all
  have flags: "thr_flags (threads s1 c) = PK_THREAD_FLAG_SEMAPHORE_PEND"
    using B(3) p assms(5,7) by simp
  have "fst (pk_semaphore_pend_leave ?fr s2) = PK_OK" if "thr_flags (threads s2 c) = thr_flags (threads s1 c)" for s2
    using that flags by (intro pend_leave_untimed) (simp add: has_flag_def pk_flag_defs)
  moreover have "\<not> i_pk_thread_is_runnable (posts m j s1) c \<and> fst (pk_semaphore_post m (posts m j s1)) = PK_OK \<and>
        sem_count (semaphores (posts m (Suc j) s1) m) = 0" if "j \<le> n" for j
    using W that same [of j] same [of "Suc j"] prio by (simp add: i_pk_thread_is_runnable_def del: posts.simps(2))
  moreover have "i_pk_thread_is_runnable (posts m (Suc n) s1) c"
    using W same [of "Suc n"] prio by (simp add: i_pk_thread_is_runnable_def del: posts.simps(2))
  ultimately show ?thesis using enter same(1) [of "Suc n"] by (intro exI [of _ ?fr] exI [of _ s1]) blast
qed

text \<open>A kernel with one thread, 2, running at priority 9, and the same after it has blocked on 3.\<close>

definition one_thread :: pk_state where
  "one_thread = zero_state\<lparr>threads := (\<lambda>_. zero_thread)(2 := zero_thread\<lparr>thr_priority := 9,
       thr_state := PK_THREAD_STATE_MAPPED\<rparr>),
     priority_map := (\<lambda>_. 0)(9 := 2), run_queue := pk_thread_queue_insert 0 9,
     current_thread := 2, next_thread := 2, thread_mode := True, msr_ee := True\<rparr>"

definition one_blocked :: pk_state where
  "one_blocked = snd (pk_semaphore_pend_enter 3 100 one_thread)"

definition one_timed_out :: pk_state where
  "one_timed_out = i_pk_thread_timeout 2 one_blocked"

lemma one_thread_inv: "pk_inv one_thread"
  by (auto simp: pk_inv_defs one_thread_def zero_state_def zero_thread_def member_insert member_bit [of 0])

lemma one_thread_no_pend: "\<not> pending one_thread m q"
  by (simp add: one_thread_def zero_state_def member_bit)

lemma one_thread_facts:
  "i_pk_kernel_context_thread one_thread" "current_thread one_thread = 2"
  "thr_state (threads one_thread 2) = PK_THREAD_STATE_MAPPED" "thr_flags (threads one_thread 2) = 0"
  "sem_count (semaphores one_thread 3) = 0"
  by code_simp+

lemma one_blocked_inv: "pk_inv one_blocked"
  unfolding one_blocked_def
  by (rule pk_semaphore_pend_enter_inv [OF one_thread_inv])
     (simp add: one_thread_facts no_pend_def one_thread_no_pend)

lemma one_blocked_pending: "pending one_blocked 3 9"
  by code_simp

theorem pk_semaphore_post_correct_witness:
  "\<exists>p s'. pk_semaphore_post 3 one_blocked = (PK_OK, s') \<and> pending one_blocked 3 p"
  using pk_semaphore_post_correct [OF one_blocked_inv _ one_blocked_pending] by auto

text \<open>Thread 2 goes to sleep behind thread 1, at priority 4: the first post wakes 1, the second wakes 2.\<close>

definition two_threads :: pk_state where
  "two_threads = one_thread\<lparr>threads := (threads one_thread)(1 := zero_thread\<lparr>thr_priority := 4,
       thr_state := PK_THREAD_STATE_MAPPED, thr_flags := PK_THREAD_FLAG_SEMAPHORE_PEND, thr_semaphore := 3\<rparr>),
     priority_map := (\<lambda>_. 0)(9 := 2, 4 := 1),
     semaphores := (semaphores one_thread)(3 := \<lparr>sem_pending_threads = pk_thread_queue_insert 0 4,
       sem_count = 0, sem_max_count = 0\<rparr>)\<rparr>"

lemma two_threads_inv: "pk_inv two_threads"
  by (auto simp: pk_inv_defs two_threads_def one_thread_def zero_state_def zero_thread_def member_insert member_bit [of 0]
      has_flag_def pk_flag_defs split: if_splits)

theorem pk_semaphore_handover_witness:
  "\<exists>fr s1. pk_semaphore_pend_enter 3 PK_WAIT_FOREVER two_threads = (Inr fr, s1) \<and>
     \<not> i_pk_thread_is_runnable (posts 3 1 s1) 2 \<and> i_pk_thread_is_runnable (posts 3 2 s1) 2 \<and>
     fst (pk_semaphore_pend_leave fr (posts 3 2 s1)) = PK_OK"
proof -
  have f: "i_pk_kernel_context_thread two_threads" "2 = current_thread two_threads"
    "thr_state (threads two_threads 2) = PK_THREAD_STATE_MAPPED" "thr_flags (threads two_threads 2) = 0"
    "sem_count (semaphores two_threads 3) = 0"
    by (simp_all add: two_threads_def one_thread_def zero_state_def zero_thread_def context_defs)
  have "{q. pending two_threads 3 q \<and> q < thr_priority (threads two_threads 2)} = {4}"
    by (auto simp: two_threads_def one_thread_def zero_thread_def member_insert member_bit [of 0])
  then have "1 = card {q. pending two_threads 3 q \<and> q < thr_priority (threads two_threads 2)}" by simp
  from pk_semaphore_handover [OF two_threads_inv _ f(1) _ f(2-5) this]
  show ?thesis by (simp add: numeral_2_eq_2 del: posts.simps(2)) (metis order_refl)
qed

lemma word_less_succ: "x \<noteq> - 1 \<Longrightarrow> x < x + (1 :: u32)"
  by (meson inc_less_eq_triv_imp linorder_not_le)

text \<open>
  A post that exceeds \<open>max_count\<close> returns \<open>-PK_SEMAPHORE_OVERFLOW\<close> from inside the critical
  section: interrupts stay disabled, and the count has already been incremented.
\<close>

lemma pk_semaphore_overflow_leaks:
  assumes "m \<noteq> 0" and "\<And>q. \<not> pending s m q" and "sem_max_count (semaphores s m) = x"
    and "sem_count (semaphores s m) = x" and "x \<noteq> 0" and "x \<noteq> - 1"
  shows "fst (pk_semaphore_post m s) = Neg PK_SEMAPHORE_OVERFLOW \<and>
    \<not> msr_ee (snd (pk_semaphore_post m s)) \<and>
    sem_count (semaphores (snd (pk_semaphore_post m s)) m) = x + 1"
proof -
  have "pk_thread_queue_min (sem_pending_threads (semaphores s m)) = PK_IDLE_THREAD_PRIORITY"
    using min_no_member [OF assms(2)] by (simp add: PK_IDLE_THREAD_PRIORITY_def)
  moreover have "x < x + 1" using assms(6) by (rule word_less_succ)
  moreover have "x > 0" using assms(5) by (simp add: word_gt_0)
  ultimately show ?thesis
    using assms by (simp add: pk_semaphore_post_def pk_critical_section_enter_def Let_def upd_sem_def)
qed

definition full_sem :: pk_state where
  "full_sem = upd_sem 3 (\<lambda>x. x\<lparr>sem_count := 1, sem_max_count := 1\<rparr>) one_thread"

lemma pk_semaphore_overflow_leaks_witness:
  "fst (pk_semaphore_post 3 full_sem) = Neg PK_SEMAPHORE_OVERFLOW \<and> \<not> msr_ee (snd (pk_semaphore_post 3 full_sem))"
proof -
  have "\<not> pending full_sem 3 q" for q
    by (simp add: full_sem_def upd_sem_def one_thread_def zero_state_def member_bit)
  then show ?thesis
    using pk_semaphore_overflow_leaks [of 3 full_sem 1] by (simp add: full_sem_def upd_sem_def)
qed

text \<open>
  Property C27. The window between a timeout and the thread running again. The documentation says that a
  timed-out thread is removed from the pending queue; the code leaves it there until it runs. A post
  in that window is taken by that thread and lost: the call still returns
  \<open>-PK_SEMAPHORE_PEND_TIMED_OUT\<close>, no thread becomes runnable that was not, and the count stays.
\<close>

theorem pk_semaphore_post_lost:
  assumes "m \<noteq> 0" and "p < 32" and "thr_priority (threads s t) = p" and "\<And>q. pending s m q \<longleftrightarrow> q = p"
    and "i_pk_thread_is_runnable s t"
    and "has_flag (thr_flags (threads s t)) PK_THREAD_FLAG_TIMER_PEND"
    and "has_flag (thr_flags (threads s t)) PK_THREAD_FLAG_TIMED_OUT"
    and "pf_thread fr = t"
  shows "\<exists>s'. pk_semaphore_post m s = (PK_OK, s') \<and>
    (\<forall>q. pk_thread_queue_member (run_queue s') q \<longleftrightarrow> pk_thread_queue_member (run_queue s) q) \<and>
    sem_count (semaphores s' m) = sem_count (semaphores s m) \<and>
    fst (pk_semaphore_pend_leave fr s') = Neg PK_SEMAPHORE_PEND_TIMED_OUT"
proof -
  note Q = post_only [OF assms(1,4,2)]
  have "fst (pk_semaphore_pend_leave fr (snd (pk_semaphore_post m s))) = Neg PK_SEMAPHORE_PEND_TIMED_OUT"
    using assms(6-8) Q(4) by (intro pend_leave_timed_out) simp_all
  with Q assms(3,5) show ?thesis
    by (intro exI [of _ "snd (pk_semaphore_post m s)"])
       (auto simp: prod_eq_iff i_pk_thread_is_runnable_def)
qed

lemma one_timed_out_facts:
  "thr_priority (threads one_timed_out 2) = 9" "i_pk_thread_is_runnable one_timed_out 2"
  "has_flag (thr_flags (threads one_timed_out 2)) PK_THREAD_FLAG_TIMER_PEND"
  "has_flag (thr_flags (threads one_timed_out 2)) PK_THREAD_FLAG_TIMED_OUT"
  "thr_state (threads one_timed_out 2) = PK_THREAD_STATE_MAPPED"
  "sem_pending_threads (semaphores one_timed_out 3) = pk_thread_queue_insert 0 9"
  by code_simp+

lemma one_timed_out_inv: "pk_inv one_timed_out"
  unfolding one_timed_out_def by (rule i_pk_thread_timeout_inv [OF one_blocked_inv]) simp

lemma one_timed_out_pending: "pending one_timed_out 3 q \<longleftrightarrow> q = 9"
  by (simp add: one_timed_out_facts(6) member_insert member_bit [of 0])

theorem pk_semaphore_post_lost_witness:
  "\<exists>s'. pk_semaphore_post 3 one_timed_out = (PK_OK, s') \<and>
    fst (pk_semaphore_pend_leave \<lparr>pf_thread = 2, pf_semaphore = 3, pf_timer = Some (ThreadTimer 2),
      pf_ctx = True\<rparr> s') = Neg PK_SEMAPHORE_PEND_TIMED_OUT"
  using pk_semaphore_post_lost [of 3 9 one_timed_out 2 "\<lparr>pf_thread = 2, pf_semaphore = 3,
      pf_timer = Some (ThreadTimer 2), pf_ctx = True\<rparr>"] one_timed_out_facts one_timed_out_pending
  by auto

text \<open>
  Property C28. A timed-out thread that is suspended before it runs leaves its priority in the pending
  queue. The next post to that semaphore then makes a priority runnable that no thread has.
\<close>

theorem pk_thread_suspend_stale:
  assumes "pk_inv s" and "t \<noteq> 0" and "m \<noteq> 0" and "thr_state (threads s t) = PK_THREAD_STATE_MAPPED"
    and "i_pk_thread_is_runnable s t" and "thr_priority (threads s t) = p" and "\<And>q. pending s m q \<longleftrightarrow> q = p"
  shows "\<exists>s1 s2. pk_thread_suspend t s = (PK_OK, s1) \<and> pk_semaphore_post m s1 = (PK_OK, s2) \<and>
    pk_thread_queue_member (run_queue s2) p \<and> priority_map s2 p = 0 \<and> \<not> pk_inv s2"
proof -
  let ?s0 = "s\<lparr>msr_ee := False\<rparr>"
  define s1 where "s1 = snd (pk_thread_suspend t s)"
  have s: "pk_thread_suspend t s = (PK_OK, pk_critical_section_exit (msr_ee s)
      (i_pk_schedule (i_pk_thread_unmap t ?s0)))"
    using assms(2,4) by (simp add: pk_thread_suspend_def pk_critical_section_enter_def Let_def thread_pred_defs)
  have p: "p < 32" using prio_invD [OF assms(1), of t] assms(6) by simp
  have pend: "pending s1 m q \<longleftrightarrow> q = p" for q
    using assms(5,6,7) by (simp add: s1_def s unmap_pending i_pk_thread_is_runnable_def)
  note Q = post_only [OF assms(3) pend p]
  have run: "pk_thread_queue_member (run_queue (snd (pk_semaphore_post m s1))) p" using Q(3) by simp
  moreover have map: "priority_map (snd (pk_semaphore_post m s1)) p = 0"
    using assms(6) by (simp add: Q(6)) (simp add: s1_def s unmap_effect)
  moreover have "\<not> pk_inv (snd (pk_semaphore_post m s1))" using run_invD [OF _ run] map by blast
  ultimately show ?thesis
    using Q(1) s by (intro exI [of _ s1] exI [of _ "snd (pk_semaphore_post m s1)"])
      (simp add: prod_eq_iff s1_def)
qed

theorem pk_thread_suspend_stale_witness:
  "\<exists>s1 s2. pk_thread_suspend 2 one_timed_out = (PK_OK, s1) \<and> pk_semaphore_post 3 s1 = (PK_OK, s2) \<and>
    \<not> pk_inv s2"
  using pk_thread_suspend_stale [of one_timed_out 2 3 9] one_timed_out_facts one_timed_out_inv
    one_timed_out_pending by auto

text \<open>
  \<open>pk_thread_priority_change\<close> accepts the priority \<open>PK_THREADS\<close>, whose entry of the
  priority map is that of the idle thread: an unmapped thread given it and resumed takes that entry.
\<close>

lemma pk_thread_priority_change_idle:
  assumes "t \<noteq> 0" and "thr_state (threads s t) = PK_THREAD_STATE_SUSPENDED_RUNNABLE"
    and "priority_map s 32 = 0" and "thr_priority (threads s t) \<noteq> 32"
  shows "\<exists>p s1 s2. pk_thread_priority_change t 32 s = (PK_OK, p, s1) \<and>
    pk_thread_resume t s1 = (PK_OK, s2) \<and> priority_map s2 PK_IDLE_THREAD_PRIORITY = t \<and> \<not> pk_inv s2"
proof -
  let ?s0 = "s\<lparr>msr_ee := False\<rparr>"
  let ?s1 = "pk_critical_section_exit (msr_ee s) (set_priority t 32 ?s0)"
  let ?s2 = "snd (pk_thread_resume t ?s1)"
  have c: "pk_thread_priority_change t 32 s = (PK_OK, Some (thr_priority (threads s t)), ?s1)"
    using assms
    by (simp add: pk_thread_priority_change_def pk_critical_section_enter_def Let_def PK_THREADS_def
        i_pk_thread_is_mapped_def)
  have r: "fst (pk_thread_resume t ?s1) = PK_OK" "priority_map ?s2 32 = t"
    using assms
    by (simp_all add: pk_thread_resume_def pk_critical_section_enter_def Let_def thread_pred_defs
        set_priority_def upd_thread_def map_effect)
  moreover have "\<not> pk_inv ?s2" using map_invD(1) [of ?s2 32] r(2) assms(1) by auto
  ultimately show ?thesis
    using c by (intro exI [of _ "Some (thr_priority (threads s t))"] exI [of _ ?s1] exI [of _ ?s2])
      (simp add: prod_eq_iff PK_IDLE_THREAD_PRIORITY_def)
qed

lemma pk_thread_priority_change_idle_witness:
  "\<exists>p s1 s2. pk_thread_priority_change 2 32 (set_state 2 PK_THREAD_STATE_SUSPENDED_RUNNABLE one_thread) = (PK_OK, p, s1) \<and>
    pk_thread_resume 2 s1 = (PK_OK, s2) \<and> priority_map s2 PK_IDLE_THREAD_PRIORITY = 2"
  using pk_thread_priority_change_idle [of 2 "set_state 2 PK_THREAD_STATE_SUSPENDED_RUNNABLE one_thread"]
  by (fastforce simp: set_state_def upd_thread_def one_thread_def zero_state_def)

end
