(* ===== verification/Pk_Trace.thy ===== *)
theory Pk_Trace
  imports Pk_State
begin

text \<open>
  The trace buffer of the kernel, \<open>pk_trace_core.c\<close>, \<open>pk_trace_big.c\<close> and \<open>pk_trace_binary.c\<close>:
  every entry ends in an 8-byte footer, so that a reader can walk the circular buffer from the
  newest entry to the oldest, as the tool \<open>ppe2fsp.c\<close> does. The buffer is a list of
  \<open>PK_TRACE_SZ\<close> bytes; the words in it are big-endian, as the processor writes them.
\<close>

subsection \<open>Words as bytes\<close>

definition bytes32 :: "u32 \<Rightarrow> u8 list" where
  "bytes32 w = [ucast (drop_bit 24 w), ucast (drop_bit 16 w), ucast (drop_bit 8 w), ucast w]"

definition word32 :: "u8 list \<Rightarrow> u32" where
  "word32 bs = push_bit 24 (ucast (bs ! 0)) OR push_bit 16 (ucast (bs ! 1)) OR
     push_bit 8 (ucast (bs ! 2)) OR ucast (bs ! 3)"

definition bytes64 :: "u64 \<Rightarrow> u8 list" where
  "bytes64 w = bytes32 (ucast (drop_bit 32 w)) @ bytes32 (ucast w)"

definition word16 :: "u8 list \<Rightarrow> u16" where
  "word16 bs = push_bit 8 (ucast (bs ! 0)) OR ucast (bs ! 1)"

lemma length_bytes [simp]: "length (bytes32 w) = 4" "length (bytes64 d) = 8"
  by (simp_all add: bytes32_def bytes64_def)

lemma word32_bytes32: "word32 [ucast (drop_bit 24 w), ucast (drop_bit 16 w), ucast (drop_bit 8 w), ucast w] = w"
proof (rule bit_word_eqI)
  fix n assume "n < LENGTH(32)"
  then consider "n < 8" | "8 \<le> n" "n < 16" | "16 \<le> n" "n < 24" | "24 \<le> n" "n < 32" by fastforce
  then show "bit (word32 [ucast (drop_bit 24 w), ucast (drop_bit 16 w), ucast (drop_bit 8 w), ucast w]) n = bit w n"
    by cases (auto simp: word32_def bit_simps)
qed

subsection \<open>The buffer\<close>

definition PK_TRACE_SZ :: nat where
  "PK_TRACE_SZ = 256"

definition PK_TRACE_CB_MASK :: u32 where
  "PK_TRACE_CB_MASK = 255"

definition PK_TRACE_CLIPPED_BINARY_SZ :: u32 where
  "PK_TRACE_CLIPPED_BINARY_SZ = 128"

definition PK_TRACE_FORMAT_TINY :: u32 where "PK_TRACE_FORMAT_TINY = 1"
definition PK_TRACE_FORMAT_BIG :: u32 where "PK_TRACE_FORMAT_BIG = 2"
definition PK_TRACE_FORMAT_BINARY :: u32 where "PK_TRACE_FORMAT_BINARY = 3"

definition PK_TRACE_FORMAT_MASK :: u32 where "PK_TRACE_FORMAT_MASK = 3"
definition PK_TRACE_TS_MASK :: u32 where "PK_TRACE_TS_MASK = NOT 3"

lemmas trace_const_defs = PK_TRACE_SZ_def PK_TRACE_CB_MASK_def PK_TRACE_CLIPPED_BINARY_SZ_def
  PK_TRACE_FORMAT_TINY_def PK_TRACE_FORMAT_BIG_def PK_TRACE_FORMAT_BINARY_def
  PK_TRACE_FORMAT_MASK_def PK_TRACE_TS_MASK_def

text \<open>The fields of \<open>PkTraceBuffer\<close> that the code changes; \<open>cb\<close> by index.\<close>

record PkTraceBuffer =
  tr_hz :: u32
  tr_time_adj64 :: u64
  tr_tbu32 :: u32
  tr_offset :: u32
  tr_cb :: "nat \<Rightarrow> u8"

definition cb_index :: "u32 \<Rightarrow> nat" where
  "cb_index off = unat (off AND PK_TRACE_CB_MASK)"

definition cb_put :: "nat \<Rightarrow> u8 list \<Rightarrow> (nat \<Rightarrow> u8) \<Rightarrow> nat \<Rightarrow> u8" where
  "cb_put i bs cb = (\<lambda>j. if i \<le> j \<and> j < i + length bs then bs ! (j - i) else cb j)"

text \<open>\<open>PkTraceTime\<close>: the low word of the timebase with its two low bits replaced by the format.\<close>

definition time_format :: "u64 \<Rightarrow> u32 \<Rightarrow> u32" where
  "time_format tb64 fmt = (ucast tb64 AND PK_TRACE_TS_MASK) OR fmt"

definition footer_bytes :: "u32 \<Rightarrow> u64 \<Rightarrow> u32 \<Rightarrow> u8 list" where
  "footer_bytes parms tb64 fmt = bytes32 parms @ bytes32 (time_format tb64 fmt)"

text \<open>
  The part of every trace routine that runs with interrupts disabled: it takes the space of
  the entry, \<open>len\<close> bytes of data and the footer, and writes the footer.
\<close>

definition trace_reserve :: "u32 \<Rightarrow> u64 \<Rightarrow> u32 \<Rightarrow> u32 \<Rightarrow> PkTraceBuffer \<Rightarrow> PkTraceBuffer" where
  "trace_reserve parms tb64 fmt len b =
     (let footer_offset = tr_offset b + len
      in b\<lparr>tr_tbu32 := ucast (drop_bit 32 tb64), tr_offset := footer_offset + 8,
           tr_cb := cb_put (cb_index footer_offset) (footer_bytes parms tb64 fmt) (tr_cb b)\<rparr>)"

definition pk_trace_tiny :: "u32 \<Rightarrow> u64 \<Rightarrow> PkTraceBuffer \<Rightarrow> PkTraceBuffer" where
  "pk_trace_tiny parm tb64 b = trace_reserve parm tb64 PK_TRACE_FORMAT_TINY 0 b"

definition set_complete :: "u32 \<Rightarrow> PkTraceBuffer \<Rightarrow> PkTraceBuffer" where
  "set_complete footer_offset b =
     b\<lparr>tr_cb := cb_put (cb_index footer_offset + 2) [1] (tr_cb b)\<rparr>"

text \<open>The parameter count and the byte count are the low byte of the footer's first word.\<close>

definition low_count :: "u32 \<Rightarrow> u32" where
  "low_count parms = parms AND 0xff"

definition big_parm_size :: "u32 \<Rightarrow> u32" where
  "big_parm_size parms = (if low_count parms \<le> 2 then 8 else 16)"

definition trace_big_fill :: "u32 \<Rightarrow> u64 \<Rightarrow> u64 \<Rightarrow> u32 \<Rightarrow> PkTraceBuffer \<Rightarrow> PkTraceBuffer" where
  "trace_big_fill parm_size p1 p2 cur_offset b =
     (let b1 = b\<lparr>tr_cb := cb_put (cb_index cur_offset) (bytes64 p1) (tr_cb b)\<rparr>;
          b2 = (if parm_size > 8
                then b1\<lparr>tr_cb := cb_put (cb_index (cur_offset + 8)) (bytes64 p2) (tr_cb b1)\<rparr>
                else b1)
      in set_complete (cur_offset + parm_size) b2)"

definition pk_trace_big :: "u32 \<Rightarrow> u64 \<Rightarrow> u64 \<Rightarrow> u64 \<Rightarrow> PkTraceBuffer \<Rightarrow> PkTraceBuffer" where
  "pk_trace_big hash_and_count p1 p2 tb64 b =
     trace_big_fill (big_parm_size hash_and_count) p1 p2 (tr_offset b)
       (trace_reserve hash_and_count tb64 PK_TRACE_FORMAT_BIG (big_parm_size hash_and_count) b)"

definition binary_data_size :: "u32 \<Rightarrow> u32" where
  "binary_data_size parms =
     (let d = (low_count parms + 7) AND NOT 7
      in if d > PK_TRACE_CLIPPED_BINARY_SZ then PK_TRACE_CLIPPED_BINARY_SZ else d)"

text \<open>The copying loop of \<open>pk_trace_binary\<close>; \<open>src\<close> is the memory that \<open>bufp\<close> points to.\<close>

fun copy_in :: "nat \<Rightarrow> (nat \<Rightarrow> u8) \<Rightarrow> u32 \<Rightarrow> (nat \<Rightarrow> u8) \<Rightarrow> nat \<Rightarrow> u8" where
  "copy_in 0 src cb_offset cb = cb"
| "copy_in (Suc n) src cb_offset cb =
     (copy_in n src cb_offset cb)(cb_index (cb_offset + of_nat n) := src n)"

definition trace_binary_fill :: "u32 \<Rightarrow> (nat \<Rightarrow> u8) \<Rightarrow> u32 \<Rightarrow> PkTraceBuffer \<Rightarrow> PkTraceBuffer" where
  "trace_binary_fill data_size src cb_offset b =
     set_complete (cb_offset + data_size) (b\<lparr>tr_cb := copy_in (unat data_size) src cb_offset (tr_cb b)\<rparr>)"

definition pk_trace_binary :: "u32 \<Rightarrow> (nat \<Rightarrow> u8) \<Rightarrow> u64 \<Rightarrow> PkTraceBuffer \<Rightarrow> PkTraceBuffer" where
  "pk_trace_binary hash_and_size src tb64 b =
     trace_binary_fill (binary_data_size hash_and_size) src (tr_offset b)
       (trace_reserve hash_and_size tb64 PK_TRACE_FORMAT_BINARY (binary_data_size hash_and_size) b)"

definition pk_trace_set_timebase :: "PkTimebase \<Rightarrow> u64 \<Rightarrow> PkTraceBuffer \<Rightarrow> PkTraceBuffer" where
  "pk_trace_set_timebase timebase now b = b\<lparr>tr_time_adj64 := timebase - now\<rparr>"

definition pk_trace_set_freq :: "u32 \<Rightarrow> PkTraceBuffer \<Rightarrow> PkTraceBuffer" where
  "pk_trace_set_freq freq b = b\<lparr>tr_hz := freq\<rparr>"

subsection \<open>The reader\<close>

text \<open>
  \<open>ppe_get_entry\<close> of \<open>ppe2fsp.c\<close>: the footer that ends at \<open>offset\<close> and the data before it. The
  fields \<open>complete\<close> and \<open>bytes_or_parms_count\<close> are the two bytes of \<open>parm16\<close>.
\<close>

record trace_entry =
  te_size :: u32
  te_string_id :: u16
  te_parm16 :: u16
  te_complete :: u8
  te_count :: u8
  te_time :: u32
  te_data :: "u8 list"

definition cb_get :: "nat \<Rightarrow> nat \<Rightarrow> (nat \<Rightarrow> u8) \<Rightarrow> u8 list" where
  "cb_get i n cb = map cb [i..<i + n]"

definition PK_GET_TRACE_FORMAT :: "u32 \<Rightarrow> u32" where
  "PK_GET_TRACE_FORMAT w = PK_TRACE_FORMAT_MASK AND w"

definition PK_GET_TRACE_TIME :: "u32 \<Rightarrow> u32" where
  "PK_GET_TRACE_TIME w = PK_TRACE_TS_MASK AND w"

definition entry_sizes :: "u32 \<Rightarrow> u8 \<Rightarrow> u32 \<times> u32" where
  "entry_sizes fmt count =
     (let (entry_size, parm_size) =
        (if fmt = PK_TRACE_FORMAT_TINY then (8, 0)
         else if fmt = PK_TRACE_FORMAT_BIG then (8, ucast count * 4)
         else if fmt = PK_TRACE_FORMAT_BINARY then (8, ucast count)
         else (0, 0));
          parm_size = (parm_size + 7) AND NOT 7
      in (entry_size + parm_size, parm_size))"

definition ppe_get_entry :: "u32 \<Rightarrow> PkTraceBuffer \<Rightarrow> trace_entry" where
  "ppe_get_entry offset b =
     (let f = cb_get (cb_index (offset - 8)) 8 (tr_cb b);
          tf = word32 (drop 4 f);
          (entry_size, parm_size) = entry_sizes (PK_GET_TRACE_FORMAT tf) (f ! 3);
          start_index = cb_index (offset - entry_size);
          bytes_left = PK_TRACE_SZ - start_index;
          bytes_to_copy = (if unat parm_size < bytes_left then unat parm_size else bytes_left);
          data = cb_get start_index bytes_to_copy (tr_cb b) @
                 cb_get 0 (unat parm_size - bytes_to_copy) (tr_cb b)
      in \<lparr>te_size = entry_size, te_string_id = word16 f, te_parm16 = word16 (drop 2 f),
          te_complete = f ! 2, te_count = f ! 3, te_time = tf, te_data = data\<rparr>)"

subsection \<open>The circular index\<close>

lemma cb_index_mod: "cb_index off = unat off mod 256"
proof -
  have m: "off AND PK_TRACE_CB_MASK = take_bit 8 off"
    by (simp add: PK_TRACE_CB_MASK_def take_bit_eq_mask mask_eq_exp_minus_1)
  have "unat (take_bit 8 off) = take_bit 8 (unat off)" by (rule unsigned_take_bit_eq)
  then show ?thesis unfolding cb_index_def m by (simp add: take_bit_eq_mod)
qed

lemma cb_index_add: "cb_index (off + of_nat k) = (cb_index off + k) mod 256"
proof -
  have "unat (off + of_nat k) mod 256 = (unat off + k) mod 256"
    by (simp add: unat_word_ariths unsigned_of_nat take_bit_eq_mod mod_mod_cancel mod_simps)
  then show ?thesis by (simp add: cb_index_mod mod_simps)
qed

lemma cb_index_less: "cb_index off < 256"
  by (simp add: cb_index_mod)

lemma mod_256: "i < 256 \<Longrightarrow> k < 256 \<Longrightarrow> (i + k) mod 256 = (if i + k < 256 then i + k else i + k - (256 :: nat))"
  by (simp add: mod_if)

lemma cb_index_inj:
  assumes "k < 256" "l < 256"
  shows "cb_index (off + of_nat k) = cb_index (off + of_nat l) \<longleftrightarrow> k = l"
  using assms cb_index_less [of off] by (auto simp: cb_index_add mod_256 split: if_splits)

text \<open>A store inside an aligned 8-byte cell, seen through the circular index from a base.\<close>

lemma cb_put_index:
  assumes "k < 256" "d + 8 \<le> 256" "cb_index (off + of_nat d) + 8 \<le> 256" "j + length bs \<le> 8"
  shows "cb_put (cb_index (off + of_nat d) + j) bs cb (cb_index (off + of_nat k)) =
    (if d + j \<le> k \<and> k < d + j + length bs then bs ! (k - (d + j)) else cb (cb_index (off + of_nat k)))"
  using assms cb_index_less [of off]
  by (auto simp: cb_put_def cb_index_add mod_256 split: if_splits)

lemma copy_in_index:
  assumes "k < 256" "d + n \<le> 256"
  shows "copy_in n src (off + of_nat d) cb (cb_index (off + of_nat k)) =
    (if d \<le> k \<and> k < d + n then src (k - d) else cb (cb_index (off + of_nat k)))"
  using assms(2)
proof (induction n)
  case (Suc n)
  have e: "off + of_nat d + of_nat n = off + of_nat (d + n)" by simp
  have "cb_index (off + of_nat k) = cb_index (off + of_nat (d + n)) \<longleftrightarrow> k = d + n"
    by (rule cb_index_inj) (use assms(1) Suc.prems in auto)
  then show ?case using Suc by (auto simp: e simp del: of_nat_add)
qed auto

subsection \<open>Entries\<close>

text \<open>A call of a trace routine, with the time it reads.\<close>

datatype trace_call = Tiny u32 u64 | Big u32 u64 u64 u64 | Binary u32 "nat \<Rightarrow> u8" u64

fun trace_write :: "trace_call \<Rightarrow> PkTraceBuffer \<Rightarrow> PkTraceBuffer" where
  "trace_write (Tiny parm tb) b = pk_trace_tiny parm tb b"
| "trace_write (Big parms p1 p2 tb) b = pk_trace_big parms p1 p2 tb b"
| "trace_write (Binary parms src tb) b = pk_trace_binary parms src tb b"

text \<open>The bytes an entry takes in the buffer: its data, then the footer with \<open>complete\<close> set.\<close>

fun entry_data :: "trace_call \<Rightarrow> u8 list" where
  "entry_data (Tiny parm tb) = []"
| "entry_data (Big parms p1 p2 tb) = bytes64 p1 @ (if big_parm_size parms > 8 then bytes64 p2 else [])"
| "entry_data (Binary parms src tb) = map src [0..<unat (binary_data_size parms)]"

fun entry_footer :: "trace_call \<Rightarrow> u8 list" where
  "entry_footer (Tiny parm tb) = footer_bytes parm tb PK_TRACE_FORMAT_TINY"
| "entry_footer (Big parms p1 p2 tb) = (footer_bytes parms tb PK_TRACE_FORMAT_BIG)[2 := 1]"
| "entry_footer (Binary parms src tb) = (footer_bytes parms tb PK_TRACE_FORMAT_BINARY)[2 := 1]"

definition entry_bytes :: "trace_call \<Rightarrow> u8 list" where
  "entry_bytes e = entry_data e @ entry_footer e"

lemma length_footer_bytes [simp]: "length (footer_bytes p t f) = 8"
  by (simp add: footer_bytes_def)

lemma length_entry_footer [simp]: "length (entry_footer e) = 8"
  by (cases e) simp_all

lemma big_parm_size_cases: "big_parm_size p = 8 \<or> big_parm_size p = 16"
  by (simp add: big_parm_size_def)

lemma and_not_7: "unat (w AND - (8 :: u32)) mod 8 = 0"
proof -
  have "- (8 :: u32) = NOT (mask 3)" by (simp add: mask_eq_exp_minus_1)
  then have "take_bit 3 (w AND - 8) = 0" by (simp only:) (rule bit_word_eqI, auto simp: bit_simps)
  moreover have "unat (take_bit 3 (w AND - 8)) = take_bit 3 (unat (w AND - 8))"
    by (rule unsigned_take_bit_eq)
  ultimately have "take_bit 3 (unat (w AND - 8)) = 0" by simp
  then show ?thesis by (simp only: take_bit_eq_mod) simp
qed

lemma binary_data_size_mod: "unat (binary_data_size p) mod 8 = 0" "unat (binary_data_size p) \<le> 128"
  by (auto simp: binary_data_size_def Let_def PK_TRACE_CLIPPED_BINARY_SZ_def and_not_7 word_less_nat_alt)

lemma length_entry_data:
  "length (entry_data (Big parms p1 p2 tb)) = unat (big_parm_size parms)"
  "length (entry_data (Binary parms src tb)) = unat (binary_data_size parms)"
  "length (entry_data e) mod 8 = 0" "length (entry_data e) \<le> 128"
proof -
  show 1: "length (entry_data (Big parms p1 p2 tb)) = unat (big_parm_size parms)"
    and 2: "length (entry_data (Binary parms src tb)) = unat (binary_data_size parms)" for parms p1 p2 tb src
    by (simp_all add: big_parm_size_def)
  show "length (entry_data e) mod 8 = 0" "length (entry_data e) \<le> 128"
    using 1 2 binary_data_size_mod by (cases e; simp add: big_parm_size_def)+
qed

lemma aligned_room: "x mod 8 = 0 \<Longrightarrow> x < 256 \<Longrightarrow> x + 8 \<le> (256 :: nat)"
  by presburger

lemma cell_fits:
  assumes "cb_index base mod 8 = 0" "d mod 8 = 0"
  shows "cb_index (base + of_nat d) + 8 \<le> 256"
proof -
  have "(cb_index base + d) mod 8 = 0" using assms by presburger
  then have "(cb_index base + d) mod 256 mod 8 = 0" by (simp add: mod_mod_cancel)
  moreover have "(cb_index base + d) mod 256 < 256" by simp
  ultimately show ?thesis unfolding cb_index_add by (rule aligned_room)
qed

lemma reserve_index:
  assumes "cb_index base mod 8 = 0" "tr_offset b = base + of_nat n" "(n + l) mod 8 = 0" "n + l + 8 \<le> 256" "k < 256"
  shows "tr_cb (trace_reserve parms tb fmt (of_nat l) b) (cb_index (base + of_nat k)) =
    (if n + l \<le> k \<and> k < n + l + 8 then footer_bytes parms tb fmt ! (k - (n + l))
     else tr_cb b (cb_index (base + of_nat k)))"
proof -
  have e: "tr_offset b + of_nat l = base + of_nat (n + l)" by (simp add: assms(2) add.assoc)
  show ?thesis
    using cb_put_index [of k "n + l" base 0 "footer_bytes parms tb fmt" "tr_cb b"]
      cell_fits [OF assms(1,3)] assms(4,5)
    by (simp add: trace_reserve_def Let_def e del: of_nat_add)
qed

lemma complete_index:
  assumes "cb_index base mod 8 = 0" "d mod 8 = 0" "d + 8 \<le> 256" "k < 256"
  shows "tr_cb (set_complete (base + of_nat d) b) (cb_index (base + of_nat k)) =
    (if k = d + 2 then 1 else tr_cb b (cb_index (base + of_nat k)))"
  using cb_put_index [of k d base 2 "[1]" "tr_cb b"] cell_fits [OF assms(1,2)] assms(3,4)
  by (auto simp: set_complete_def)

lemma footer_complete:
  "k < 8 \<Longrightarrow> (footer_bytes p t f)[2 := 1] ! k = (if k = 2 then 1 else footer_bytes p t f ! k)"
  by (simp add: nth_list_update)

lemma entry_nth:
  assumes "k < length (entry_data e) + 8"
  shows "entry_bytes e ! k = (if k < length (entry_data e) then entry_data e ! k
    else entry_footer e ! (k - length (entry_data e)))"
  by (simp add: entry_bytes_def nth_append)

lemma big_fill_index:
  assumes "cb_index base mod 8 = 0" "n mod 8 = 0" "n + unat (big_parm_size parms) + 8 \<le> 256" "k < 256"
  shows "tr_cb (trace_big_fill (big_parm_size parms) p1 p2 (base + of_nat n) b) (cb_index (base + of_nat k)) =
    (if k = n + unat (big_parm_size parms) + 2 then 1
     else if n \<le> k \<and> k < n + unat (big_parm_size parms) then entry_data (Big parms p1 p2 tb) ! (k - n)
     else tr_cb b (cb_index (base + of_nat k)))"
proof -
  have e: "base + of_nat n + 8 = base + of_nat (n + 8)" "base + of_nat n + 16 = base + of_nat (n + 16)" by simp_all
  have m: "(n + 8) mod 8 = 0" "(n + 16) mod 8 = 0" using assms(2) by presburger+
  note c = cell_fits [OF assms(1,2)] cell_fits [OF assms(1) m(1)] 
  note p = cb_put_index [of k n base 0] cb_put_index [of k "n + 8" base 0]
  note s = complete_index [OF assms(1) m(1)] complete_index [OF assms(1) m(2)]
  from big_parm_size_cases [of parms] show ?thesis
  proof
    assume 8: "big_parm_size parms = 8"
    with assms c p s show ?thesis
      by (auto simp: trace_big_fill_def Let_def e simp del: of_nat_add)
  next
    assume 16: "big_parm_size parms = 16"
    with assms c p s show ?thesis
      by (auto simp: trace_big_fill_def Let_def e nth_append simp del: of_nat_add)
  qed
qed

lemma length_entry_bytes [simp]: "length (entry_bytes e) = length (entry_data e) + 8"
  by (simp add: entry_bytes_def)

lemma fill_offset [simp]:
  "tr_offset (trace_big_fill l p1 p2 off b) = tr_offset b"
  "tr_offset (trace_binary_fill l src off b) = tr_offset b"
  by (simp_all add: trace_big_fill_def trace_binary_fill_def set_complete_def Let_def)

lemma trace_write_offset:
  assumes "tr_offset b = base + of_nat n"
  shows "tr_offset (trace_write e b) = base + of_nat (n + length (entry_bytes e))"
  using assms length_entry_data(1,2)
  by (cases e) (simp_all add: pk_trace_tiny_def pk_trace_big_def pk_trace_binary_def
      trace_reserve_def Let_def del: entry_data.simps(2,3))

text \<open>Writing an entry changes exactly the bytes it takes after the current offset.\<close>

lemma trace_write_index:
  assumes a: "cb_index base mod 8 = 0" and ofs: "tr_offset b = base + of_nat n" and n: "n mod 8 = 0"
    and fits: "n + length (entry_bytes e) \<le> 256" and k: "k < 256"
  shows "tr_cb (trace_write e b) (cb_index (base + of_nat k)) =
    (if n \<le> k \<and> k < n + length (entry_bytes e) then entry_bytes e ! (k - n)
     else tr_cb b (cb_index (base + of_nat k)))"
proof (cases e)
  case (Tiny parm tb)
  then show ?thesis
    using reserve_index [OF a ofs, of 0 k] n fits k
    by (simp add: pk_trace_tiny_def entry_bytes_def)
next
  case (Big parms p1 p2 tb)
  let ?l = "unat (big_parm_size parms)"
  have l: "length (entry_data e) = ?l" unfolding Big by (rule length_entry_data(1))
  have m: "(n + ?l) mod 8 = 0" using big_parm_size_cases [of parms] n by (elim disjE) (simp_all, presburger)
  have f: "n + ?l + 8 \<le> 256" using fits l by simp
  show ?thesis
    using big_fill_index [OF a n f k, where tb = tb] reserve_index [OF a ofs m f k] f k l
      entry_nth [of "k - n" e] footer_complete [of "k - (n + ?l)"]
    by (auto simp: Big ofs pk_trace_big_def simp del: entry_data.simps)
next
  case (Binary parms src tb)
  let ?l = "unat (binary_data_size parms)"
  have l: "length (entry_data e) = ?l" unfolding Binary by (rule length_entry_data(2))
  have m: "(n + ?l) mod 8 = 0" using binary_data_size_mod(1) [of parms] n by presburger
  have f: "n + ?l + 8 \<le> 256" using fits l by simp
  have e: "base + of_nat n + binary_data_size parms = base + of_nat (n + ?l)" by simp
  show ?thesis
    using complete_index [OF a m f k] copy_in_index [OF k, of n ?l src base] reserve_index [OF a ofs m f k] f k l
      entry_nth [of "k - n" e] footer_complete [of "k - (n + ?l)"]
    by (auto simp: Binary ofs e pk_trace_binary_def trace_binary_fill_def simp del: of_nat_add)
qed

subsection \<open>Reading back\<close>

definition trace_stream :: "PkTraceBuffer \<Rightarrow> u32 \<Rightarrow> nat \<Rightarrow> u8 list" where
  "trace_stream b base n = map (\<lambda>k. tr_cb b (cb_index (base + of_nat k))) [0..<n]"

lemma length_stream [simp]: "length (trace_stream b base n) = n"
  by (simp add: trace_stream_def)

lemma write_stream:
  assumes "cb_index base mod 8 = 0" "tr_offset b = base + of_nat n" "n mod 8 = 0"
    "n + length (entry_bytes e) \<le> 256"
  shows "trace_stream (trace_write e b) base (n + length (entry_bytes e)) =
    trace_stream b base n @ entry_bytes e"
proof (rule nth_equalityI)
  fix k assume "k < length (trace_stream (trace_write e b) base (n + length (entry_bytes e)))"
  then show "trace_stream (trace_write e b) base (n + length (entry_bytes e)) ! k =
      (trace_stream b base n @ entry_bytes e) ! k"
    using trace_write_index [OF assms, of k] assms(4)
    by (simp add: trace_stream_def nth_append)
qed simp

definition trace_total :: "trace_call list \<Rightarrow> nat" where
  "trace_total es = length (concat (map entry_bytes es))"

lemma trace_total_simps [simp]:
  "trace_total [] = 0" "trace_total (es @ [e]) = trace_total es + length (entry_bytes e)"
  by (simp_all add: trace_total_def)

lemma trace_total_mod: "trace_total es mod 8 = 0"
proof (induction es rule: rev_induct)
  case (snoc e es)
  then show ?case using length_entry_data(3) [of e] by simp presburger
qed simp

lemma fold_stream:
  assumes "cb_index (tr_offset b) mod 8 = 0" "trace_total es \<le> 256"
  shows "tr_offset (fold trace_write es b) = tr_offset b + of_nat (trace_total es) \<and>
    trace_stream (fold trace_write es b) (tr_offset b) (trace_total es) = concat (map entry_bytes es)"
  using assms(2)
proof (induction es rule: rev_induct)
  case (snoc e es)
  let ?b = "fold trace_write es b"
  have IH: "tr_offset ?b = tr_offset b + of_nat (trace_total es)"
    "trace_stream ?b (tr_offset b) (trace_total es) = concat (map entry_bytes es)"
    using snoc by simp_all
  have fits: "trace_total es + length (entry_bytes e) \<le> 256" using snoc.prems by simp
  show ?case
    using write_stream [OF assms(1) IH(1) trace_total_mod fits] trace_write_offset [OF IH(1), of e] IH(2)
    by (simp del: length_entry_bytes)
qed (simp add: trace_stream_def)

text \<open>What the reader is to show for a call; \<open>entry_ok\<close>: the counts the macros allow.\<close>

fun entry_ok :: "trace_call \<Rightarrow> bool" where
  "entry_ok (Tiny parm tb) = True"
| "entry_ok (Big parms p1 p2 tb) = (low_count parms \<in> {1, 2, 3, 4})"
| "entry_ok (Binary parms src tb) = (low_count parms \<le> 128)"

fun call_parms :: "trace_call \<Rightarrow> u32" where
  "call_parms (Tiny p tb) = p" | "call_parms (Big p p1 p2 tb) = p" | "call_parms (Binary p src tb) = p"

fun call_time :: "trace_call \<Rightarrow> u32" where
  "call_time (Tiny p tb) = time_format tb PK_TRACE_FORMAT_TINY"
| "call_time (Big p p1 p2 tb) = time_format tb PK_TRACE_FORMAT_BIG"
| "call_time (Binary p src tb) = time_format tb PK_TRACE_FORMAT_BINARY"

fun call_complete :: "trace_call \<Rightarrow> u8" where
  "call_complete (Tiny p tb) = ucast (drop_bit 8 p)"
| "call_complete (Big p p1 p2 tb) = 1" | "call_complete (Binary p src tb) = 1"

definition shown :: "trace_call \<Rightarrow> trace_entry" where
  "shown e = \<lparr>te_size = of_nat (length (entry_bytes e)),
     te_string_id = ucast (drop_bit 16 (call_parms e)),
     te_parm16 = push_bit 8 (ucast (call_complete e)) OR ucast (ucast (call_parms e) :: u8),
     te_complete = call_complete e, te_count = ucast (call_parms e), te_time = call_time e,
     te_data = entry_data e\<rparr>"

lemma word16_bytes32:
  "word16 [ucast (drop_bit 24 (w :: u32)), ucast (drop_bit 16 w), x, y] = ucast (drop_bit 16 w)"
proof (rule bit_word_eqI)
  fix n assume "n < LENGTH(16)"
  then consider "n < 8" | "8 \<le> n" "n < 16" by fastforce
  then show "bit (word16 [ucast (drop_bit 24 w), ucast (drop_bit 16 w), x, y]) n = bit (ucast (drop_bit 16 w) :: u16) n"
    by cases (auto simp: word16_def bit_simps)
qed

lemma footer_decode:
  "entry_footer e ! 2 = call_complete e" "entry_footer e ! 3 = ucast (call_parms e)"
  "word16 (entry_footer e) = ucast (drop_bit 16 (call_parms e))"
  "word32 (drop 4 (entry_footer e)) = call_time e"
  using word16_bytes32 word32_bytes32
  by (cases e; simp add: footer_bytes_def bytes32_def word16_def numeral_2_eq_2 numeral_3_eq_3)+

lemma format_of_time:
  "fmt AND 3 = fmt \<Longrightarrow> PK_GET_TRACE_FORMAT (time_format tb fmt) = fmt"
proof -
  assume f: "fmt AND 3 = fmt"
  have "3 AND ((x AND NOT 3) OR fmt) = fmt AND 3" for x :: u32
    by (rule bit_word_eqI) (auto simp: bit_simps)
  with f show ?thesis by (simp only: PK_GET_TRACE_FORMAT_def time_format_def trace_const_defs)
qed

lemma low_count_byte: "ucast (ucast p :: u8) = low_count p"
proof -
  have m: "(0xff :: u32) = mask 8" by (simp add: mask_eq_exp_minus_1)
  show ?thesis unfolding low_count_def m by (rule bit_word_eqI) (auto simp: bit_simps)
qed

lemma and_split: "(w AND NOT m) + (w AND m) = (w :: u32)"
proof -
  have "(w AND NOT m) + (w AND m) = (w AND NOT m) OR (w AND m)"
    by (rule disjunctive_add) (auto simp: bit_simps)
  also have "\<dots> = w" by (rule bit_word_eqI) (auto simp: bit_simps)
  finally show ?thesis .
qed

lemma unat_plus_le: "unat (x + y) \<le> unat x + unat (y :: u32)"
  by (simp add: unat_word_ariths)

lemma binary_data_size_small:
  assumes "low_count p \<le> 128"
  shows "binary_data_size p = (low_count p + 7) AND NOT 7"
proof -
  have c: "unat (low_count p) \<le> 128" using assms by (simp add: word_le_nat_alt)
  then have "unat (low_count p + 7) = unat (low_count p) + 7" using unat_add_no_wrap [of "low_count p" 7] by simp
  moreover have "(low_count p + 7) AND NOT 7 \<le> low_count p + 7" by (rule word_and_le2)
  ultimately have "unat ((low_count p + 7) AND NOT 7) \<le> 135" using c by (simp add: word_le_nat_alt)
  then have "unat ((low_count p + 7) AND NOT 7) \<le> 128" using and_not_7 [of "low_count p + 7"] by simp presburger
  then show ?thesis by (simp add: binary_data_size_def PK_TRACE_CLIPPED_BINARY_SZ_def word_less_nat_alt)
qed

lemma entry_sizes_shown:
  assumes "entry_ok e"
  shows "entry_sizes (PK_GET_TRACE_FORMAT (call_time e)) (ucast (call_parms e)) =
    (of_nat (length (entry_bytes e)), of_nat (length (entry_data e)))"
proof (cases e)
  case (Tiny parm tb)
  then show ?thesis by (simp add: format_of_time trace_const_defs entry_sizes_def)
next
  case (Big parms p1 p2 tb)
  then show ?thesis
    using assms by (auto simp: format_of_time trace_const_defs entry_sizes_def low_count_byte big_parm_size_def)
next
  case (Binary parms src tb)
  then show ?thesis
    using assms binary_data_size_small [of parms]
    by (simp add: format_of_time trace_const_defs entry_sizes_def low_count_byte Let_def add.commute)
qed

lemma cb_get_stream:
  assumes "cb_index (base + of_nat d) + m \<le> 256" "d + m \<le> 256"
  shows "cb_get (cb_index (base + of_nat d)) m (tr_cb b) = map (\<lambda>k. tr_cb b (cb_index (base + of_nat (d + k)))) [0..<m]"
proof (rule nth_equalityI)
  fix k assume "k < length (cb_get (cb_index (base + of_nat d)) m (tr_cb b))"
  then have k: "k < m" by (simp add: cb_get_def)
  have "cb_index (base + of_nat d + of_nat k) = cb_index (base + of_nat d) + k"
    using assms(1) k by (simp only: cb_index_add [of "base + of_nat d"]) simp
  then show "cb_get (cb_index (base + of_nat d)) m (tr_cb b) ! k =
      map (\<lambda>k. tr_cb b (cb_index (base + of_nat (d + k)))) [0..<m] ! k"
    using k by (simp add: cb_get_def add.assoc)
qed (simp add: cb_get_def)

lemma wrap_get:
  fixes cb :: "nat \<Rightarrow> u8"
  assumes "i < 256" "l \<le> 256"
  defines "c \<equiv> if l < 256 - i then l else 256 - i"
  shows "cb_get i c cb @ cb_get 0 (l - c) cb = map (\<lambda>k. cb ((i + k) mod 256)) [0..<l]"
proof (rule nth_equalityI)
  fix k assume "k < length (cb_get i c cb @ cb_get 0 (l - c) cb)"
  then have "k < l" by (auto simp: cb_get_def c_def split: if_splits)
  then show "(cb_get i c cb @ cb_get 0 (l - c) cb) ! k = map (\<lambda>k. cb ((i + k) mod 256)) [0..<l] ! k"
    using assms(1,2) mod_256 [of i k]
    by (auto simp: nth_append cb_get_def c_def intro!: arg_cong [of _ _ cb])
qed (use assms in \<open>auto simp: cb_get_def\<close>)

text \<open>The reader finds the entry that ends at the given offset.\<close>

lemma get_footer:
  assumes a: "cb_index base mod 8 = 0" and n: "n mod 8 = 0" and fits: "n + length (entry_bytes e) \<le> 256"
    and st: "\<And>k. k < length (entry_bytes e) \<Longrightarrow> tr_cb b (cb_index (base + of_nat (n + k))) = entry_bytes e ! k"
  shows "cb_get (cb_index (base + of_nat (n + length (entry_bytes e)) - 8)) 8 (tr_cb b) = entry_footer e"
proof -
  let ?l = "length (entry_data e)"
  let ?off = "base + of_nat (n + length (entry_bytes e))"
  have 8: "?off - 8 = base + of_nat (n + ?l)" by simp
  have m: "(n + ?l) mod 8 = 0" using n length_entry_data(3) [of e] by presburger
  have "cb_get (cb_index (?off - 8)) 8 (tr_cb b) = map (\<lambda>k. tr_cb b (cb_index (base + of_nat (n + ?l + k)))) [0..<8]"
    unfolding 8 by (rule cb_get_stream) (use cell_fits [OF a m] fits in simp_all)
  also have "\<dots> = entry_footer e"
    by (rule nth_equalityI) (use st [of "?l + _"] in \<open>auto simp: entry_bytes_def nth_append add.assoc\<close>)
  finally show ?thesis .
qed

lemma get_entry_shown:
  assumes a: "cb_index base mod 8 = 0" and n: "n mod 8 = 0" and fits: "n + length (entry_bytes e) \<le> 256"
    and st: "\<And>k. k < length (entry_bytes e) \<Longrightarrow> tr_cb b (cb_index (base + of_nat (n + k))) = entry_bytes e ! k"
    and ok: "entry_ok e"
  shows "ppe_get_entry (base + of_nat (n + length (entry_bytes e))) b = shown e"
proof -
  let ?l = "length (entry_data e)"
  let ?off = "base + of_nat (n + length (entry_bytes e))"
  have f: "cb_get (cb_index (?off - 8)) 8 (tr_cb b) = entry_footer e"
    by (rule get_footer [OF a n fits]) (rule st)
  have start: "?off - of_nat (length (entry_bytes e)) = base + of_nat n" by simp
  have l: "unat (of_nat ?l :: u32) = ?l"
    using length_entry_data(4) [of e] by (simp add: unsigned_of_nat take_bit_nat_eq_self)
  have "map (\<lambda>k. tr_cb b ((cb_index (base + of_nat n) + k) mod 256)) [0..<?l] = entry_data e"
    by (rule nth_equalityI)
       (use st in \<open>auto simp: entry_bytes_def nth_append cb_index_add [symmetric] add.assoc\<close>)
  then show ?thesis
    using wrap_get [OF cb_index_less, of ?l "base + of_nat n" "tr_cb b"] length_entry_data(4) [of e]
    unfolding ppe_get_entry_def f Let_def footer_decode entry_sizes_shown [OF ok] prod.case start l PK_TRACE_SZ_def
    by (simp add: shown_def word16_def footer_decode split del: if_split)
qed

text \<open>The reader, entry by entry from the newest to the oldest.\<close>

fun walk :: "nat \<Rightarrow> u32 \<Rightarrow> PkTraceBuffer \<Rightarrow> trace_entry list" where
  "walk 0 off b = []"
| "walk (Suc n) off b = (let e = ppe_get_entry off b in e # walk n (off - te_size e) b)"

lemma walk_stream:
  assumes a: "cb_index base mod 8 = 0"
  shows "trace_total es \<le> 256 \<Longrightarrow> list_all entry_ok es \<Longrightarrow>
    trace_stream b base (trace_total es) = concat (map entry_bytes es) \<Longrightarrow>
    walk (length es) (base + of_nat (trace_total es)) b = map shown (rev es)"
proof (induction es rule: rev_induct)
  case (snoc e es)
  let ?n = "trace_total es"
  have st: "trace_stream b base (?n + length (entry_bytes e)) = concat (map entry_bytes es) @ entry_bytes e"
    using snoc.prems by simp
  have len: "length (concat (map entry_bytes es)) = ?n" by (simp add: trace_total_def)
  have "tr_cb b (cb_index (base + of_nat (?n + k))) = entry_bytes e ! k" if "k < length (entry_bytes e)" for k
    using arg_cong [OF st, of "\<lambda>x. x ! (?n + k)"] that len
    by (simp add: trace_stream_def nth_append del: length_entry_bytes of_nat_add)
  then have g: "ppe_get_entry (base + of_nat (?n + length (entry_bytes e))) b = shown e"
    using snoc.prems by (intro get_entry_shown a trace_total_mod) simp_all
  have "trace_stream b base ?n = concat (map entry_bytes es)"
    using arg_cong [OF st, of "take ?n"] len by (simp add: trace_stream_def take_map del: length_entry_bytes)
  then have w: "walk (length es) (base + of_nat ?n) b = map shown (rev es)" using snoc by simp
  have d: "base + of_nat (?n + length (entry_bytes e)) - te_size (shown e) = base + of_nat ?n"
    by (simp add: shown_def del: length_entry_bytes)
  have "length (es @ [e]) = Suc (length es)" "map shown (rev (es @ [e])) = shown e # map shown (rev es)"
    by simp_all
  then show ?case by (simp only: trace_total_simps walk.simps g Let_def d w)
qed simp

subsection \<open>Properties\<close>

text \<open>
  A binary trace of more than 128 bytes: the writer clips the data to half the buffer but
  leaves the unclipped count in the footer, so the reader computes another size for the entry and
  loses its place in the buffer.
\<close>

lemma trace_binary_clip_mismatch:
  assumes "low_count parms > 128" and "unat (tr_offset b) mod 8 = 0"
  shows "te_size (ppe_get_entry (tr_offset (pk_trace_binary parms src tb b)) (pk_trace_binary parms src tb b))
    \<noteq> tr_offset (pk_trace_binary parms src tb b) - tr_offset b"
proof -
  let ?e = "Binary parms src tb"
  let ?b = "trace_write ?e b"
  let ?d = "(low_count parms + 7) AND NOT 7"
  have a: "cb_index (tr_offset b) mod 8 = 0" using assms(2) by (simp add: cb_index_mod mod_mod_cancel)
  have c: "unat (low_count parms) > 128" "unat (low_count parms) \<le> 255"
    using assms(1) word_and_le1 [of parms 255] by (simp_all add: word_less_nat_alt word_le_nat_alt low_count_def)
  have "unat (low_count parms + 7) = unat (low_count parms) + 7"
    using c unat_add_no_wrap [of "low_count parms" 7] by simp
  moreover have "unat ((low_count parms + 7) AND 7) \<le> 7"
    using word_and_le1 [of "low_count parms + 7" 7] by (simp add: word_le_nat_alt)
  ultimately have d: "unat ?d > 128"
    using unat_plus_le [of ?d "(low_count parms + 7) AND 7", unfolded and_split] c by linarith
  then have l: "length (entry_bytes ?e) = 136"
    using assms by (simp add: binary_data_size_def PK_TRACE_CLIPPED_BINARY_SZ_def word_less_nat_alt)
  have ofs: "tr_offset b = tr_offset b + of_nat 0" by simp
  note W = trace_write_index [OF a ofs, of ?e] trace_write_offset [OF ofs, of ?e]
  have o: "tr_offset ?b = tr_offset b + of_nat (0 + length (entry_bytes ?e))" using W(2) .
  have f: "cb_get (cb_index (tr_offset ?b - 8)) 8 (tr_cb ?b) = entry_footer ?e"
    unfolding o by (rule get_footer [OF a]) (use W(1) l in simp_all)
  have "te_size (ppe_get_entry (tr_offset ?b) ?b) = 8 + ?d"
    unfolding ppe_get_entry_def f Let_def footer_decode
    by (simp add: format_of_time trace_const_defs entry_sizes_def low_count_byte Let_def)
  moreover have "8 + ?d \<noteq> 136" using d by auto
  moreover have "binary_data_size parms = 128"
    using d by (simp add: binary_data_size_def PK_TRACE_CLIPPED_BINARY_SZ_def word_less_nat_alt)
  ultimately show ?thesis using o by simp
qed

text \<open>
  Property C23. Start at an offset that is a multiple of eight and make any sequence of trace calls whose entries
  fit in the circular buffer together: tiny traces, traces with one to four parameters, binary traces with at most
  128 bytes of data. The reader that walks back from the newest entry recovers them all, newest first, with their
  format string, parameters, data and time stamp, and each marked complete, also where an entry wraps
  around the end of the buffer. A binary trace with more data is not recovered: the writer clips the data to half the
  buffer and leaves the unclipped count in the footer, so the size that the reader computes is not the one
  by which the writer advanced.
\<close>

theorem trace_roundtrip:
  assumes "unat (tr_offset b) mod 8 = 0" and "list_all entry_ok es" and "trace_total es \<le> PK_TRACE_SZ"
  shows "walk (length es) (tr_offset (fold trace_write es b)) (fold trace_write es b) = map shown (rev es) \<and>
    (low_count parms > 128 \<longrightarrow>
      te_size (ppe_get_entry (tr_offset (pk_trace_binary parms src tb b)) (pk_trace_binary parms src tb b))
        \<noteq> tr_offset (pk_trace_binary parms src tb b) - tr_offset b)"
proof -
  have a: "cb_index (tr_offset b) mod 8 = 0" using assms(1) by (simp add: cb_index_mod mod_mod_cancel)
  have t: "trace_total es \<le> 256" using assms(3) by (simp add: PK_TRACE_SZ_def)
  show ?thesis
    using walk_stream [OF a t assms(2)] fold_stream [OF a t] trace_binary_clip_mismatch [OF _ assms(1)] by simp
qed

definition demo_buffer :: PkTraceBuffer where
  "demo_buffer = \<lparr>tr_hz = 0, tr_time_adj64 = 0, tr_tbu32 = 0, tr_offset = 248, tr_cb = (\<lambda>_. 0)\<rparr>"

definition demo_calls :: "trace_call list" where
  "demo_calls = [Tiny 0x12345678 7, Big 0xabcd0001 9 0 11, Binary 0xabcd0005 (\<lambda>k. of_nat k) 12]"

theorem trace_roundtrip_witness:
  "walk (length demo_calls) (tr_offset (fold trace_write demo_calls demo_buffer))
     (fold trace_write demo_calls demo_buffer) = map shown (rev demo_calls) \<and>
   te_size (ppe_get_entry (tr_offset (pk_trace_binary 0xabcd00c8 (\<lambda>_. 0) 5 demo_buffer))
     (pk_trace_binary 0xabcd00c8 (\<lambda>_. 0) 5 demo_buffer))
    \<noteq> tr_offset (pk_trace_binary 0xabcd00c8 (\<lambda>_. 0) 5 demo_buffer) - tr_offset demo_buffer"
proof -
  have "unat (tr_offset demo_buffer) mod 8 = 0" "list_all entry_ok demo_calls" "trace_total demo_calls \<le> PK_TRACE_SZ"
    by code_simp+
  note * = trace_roundtrip [OF this]
  have "low_count 0xabcd00c8 > 128" by code_simp
  then show ?thesis using * [of "0xabcd00c8"] by blast
qed

end
