(* ===== verification/Pk_Init.thy ===== *)
theory Pk_Init
  imports Pk_Semaphore Pk_Trace
begin

text \<open>
  Initialisation of the kernel: stacks (\<open>pk_stack_init.c\<close>), threads (\<open>pk_thread_init.c\<close>,
  \<open>ppe42_thread_init.S\<close>) and the kernel itself (\<open>pk_init.c\<close>), built with trace, timer and thread
  support.
\<close>

definition PK_STACK_PATTERN :: u32 where
  "PK_STACK_PATTERN = 0x03abcdef"

text \<open>The prepatterning loop: \<open>n\<close> words, downwards from \<open>p\<close>, each written after a decrement.\<close>

fun prepattern :: "nat \<Rightarrow> u32 \<Rightarrow> (u32 \<Rightarrow> u32) \<Rightarrow> u32 \<Rightarrow> u32" where
  "prepattern 0 p mem = mem"
| "prepattern (Suc n) p mem = prepattern n (p - 4) (mem(p - 4 := PK_STACK_PATTERN))"

definition i_pk_stack_create_initial_frame :: "u32 \<times> u32 \<Rightarrow> (u32 \<Rightarrow> u32) \<Rightarrow> (u32 \<times> u32) \<times> (u32 \<Rightarrow> u32)" where
  "i_pk_stack_create_initial_frame ss mem = ((fst ss - 8, snd ss - 8), mem(fst ss - 8 := 0))"

text \<open>Stacks grow down, are pre-decremented and aligned to 8 bytes.\<close>

definition i_pk_stack_init :: "u32 \<Rightarrow> u32 \<Rightarrow> (u32 \<Rightarrow> u32) \<Rightarrow> (u32 \<times> u32) \<times> (u32 \<Rightarrow> u32)" where
  "i_pk_stack_init stack sz mem =
     (let stack1 = stack + sz;
          excess = stack1 AND 7;
          stack2 = stack1 - excess;
          sz2 = sz - excess;
          sz3 = sz2 div 4 * 4;
          mem1 = prepattern (unat (sz3 div 4)) stack2 mem
      in i_pk_stack_create_initial_frame (stack2, sz3) mem1)"

definition i_pk_stack_check :: "u32 \<Rightarrow> u32 \<Rightarrow> u32 \<Rightarrow> pk_state \<Rightarrow> pk_state" where
  "i_pk_stack_check stack_addr stack_base stack_limit s =
     (if stack_addr > stack_base \<or> stack_addr < stack_limit then PK_PANIC PK_STACK_OVERFLOW s else s)"

text \<open>
  The initial context (\<open>ppe42_context.h\<close> gives the offsets): back link, CR, LR, the GPRs, XER, CTR,
  SRR0, SRR1 and the kernel context word. \<open>complete\<close> is the address of \<open>pk_complete\<close>, \<open>mc\<close>
  the default machine context.
\<close>

definition PK_CTX_SIZE :: u32 where
  "PK_CTX_SIZE = 0x58"

fun write_words :: "u32 \<Rightarrow> (u32 \<times> u32) list \<Rightarrow> (u32 \<Rightarrow> u32) \<Rightarrow> u32 \<Rightarrow> u32" where
  "write_words base [] mem = mem"
| "write_words base ((off, w) # ws) mem = write_words base ws (mem(base + off := w))"

definition i_pk_thread_context_initialize ::
  "u32 \<Rightarrow> u32 \<Rightarrow> thread_id \<Rightarrow> u32 \<Rightarrow> u32 \<Rightarrow> pk_state \<Rightarrow> pk_state" where
  "i_pk_thread_context_initialize complete mc t routine private s =
     (let sp = thr_saved_stack_pointer (threads s t);
          r6 = sp - PK_CTX_SIZE;
          ctx = [(0x00, sp), (0x18, 0), (0x1c, complete), (0x08, private), (0x0c, 0x0404),
                 (0x10, 0x0505), (0x14, 0x0606), (0x40, 0), (0x44, 0), (0x48, routine),
                 (0x4c, mc), (0x50, 0), (0x20, 0x0707), (0x24, 0x0808), (0x28, 0x0909),
                 (0x2c, 0x1010), (0x30, 0x2828), (0x34, 0x2929), (0x38, 0x3030), (0x3c, 0x3131),
                 (0x54, 0x80000000)]
      in upd_thread t (\<lambda>x. x\<lparr>thr_saved_stack_pointer := r6\<rparr>)
           (s\<lparr>stack_mem := write_words r6 ctx (stack_mem s)\<rparr>))"

definition pk_thread_create ::
  "u32 \<Rightarrow> u32 \<Rightarrow> thread_id \<Rightarrow> u32 \<Rightarrow> u32 \<Rightarrow> u32 \<Rightarrow> u32 \<Rightarrow> PkThreadPriority \<Rightarrow> pk_state \<Rightarrow> pk_rc \<times> pk_state"
where
  "pk_thread_create complete mc t routine arg stack stack_size priority s =
     (if t = 0 then (Neg PK_INVALID_THREAD_AT_CREATE, s)
      else if routine = 0 \<or> unat priority \<ge> PK_THREADS then (Neg PK_INVALID_ARGUMENT_THREAD1, s)
      else let ((sp, sz), mem) = i_pk_stack_init stack stack_size (stack_mem s);
               s1 = upd_thread t (\<lambda>x. x\<lparr>thr_saved_stack_pointer := sp, thr_stack_base := sp,
                                        thr_stack_limit := sp - sz\<rparr>) (s\<lparr>stack_mem := mem\<rparr>)
      in if thr_stack_limit (threads s1 t) > thr_stack_base (threads s1 t)
         then (Neg PK_INVALID_ARGUMENT_THREAD2, s1)
         else let s2 = upd_thread t (\<lambda>x. x\<lparr>thr_semaphore := 0, thr_priority := priority,
                         thr_state := PK_THREAD_STATE_SUSPENDED_RUNNABLE, thr_flags := 0\<rparr>) s1;
                  s3 = snd (pk_timer_create (ThreadTimer t) ThreadTimeout t s2)
              in (PK_OK, i_pk_thread_context_initialize complete mc t routine arg s3))"

text \<open>The timer of the trace buffer, \<open>g_pk_trace_timer\<close>.\<close>

definition g_pk_trace_timer :: node where
  "g_pk_trace_timer = AppTimer 0"

definition PK_TRACE_TIMER_PERIOD :: PkInterval where
  "PK_TRACE_TIMER_PERIOD = 0xffffffff - 62500000"

fun clear_map :: "nat \<Rightarrow> (PkThreadPriority \<Rightarrow> thread_id) \<Rightarrow> PkThreadPriority \<Rightarrow> thread_id" where
  "clear_map 0 pm = pm"
| "clear_map (Suc i) pm = (clear_map i pm)(of_nat i := 0)"

definition pk_initialize ::
  "u32 \<Rightarrow> u32 \<Rightarrow> PkTimebase \<Rightarrow> u32 \<Rightarrow> pk_state \<Rightarrow> PkTraceBuffer \<Rightarrow> pk_rc \<times> pk_state \<times> PkTraceBuffer"
where
  "pk_initialize kstack kstack_size initial_timebase freq s b =
     (if kstack = 0 \<or> kstack_size = 0 then (Neg PK_INVALID_ARGUMENT_INIT, s, b)
      else let s1 = pk_set_timebase_rshift freq (s\<lparr>timebase_frequency_hz := freq\<rparr>);
               ((sp, sz), mem) = i_pk_stack_init kstack kstack_size (stack_mem s1);
               s2 = s1\<lparr>kernel_stack_limit := kstack, kernel_stack := sp, kernel_stack_size := sz,
                       stack_mem := mem\<rparr>;
               s3 = s2\<lparr>heap := snd (pk_deque_sentinel_create (heap s2) TimeQueue), cursor := Null,
                       next_timeout := PK_TIMEBASE_MAX\<rparr>;
               b1 = pk_trace_set_freq freq b;
               b2 = (if initial_timebase \<noteq> PK_TIMEBASE_MAX
                     then pk_trace_set_timebase initial_timebase (pk_timebase_get s3) b1 else b1);
               s4 = snd (pk_timer_schedule g_pk_trace_timer PK_TRACE_TIMER_PERIOD s3);
               s5 = s4\<lparr>priority_map := clear_map (PK_THREADS + 1) (priority_map s4),
                       run_queue := pk_thread_queue_clear (run_queue s4), current_thread := 0,
                       next_thread := 0, delayed_switch := False\<rparr>
           in (PK_OK, s5, b2))"

definition pk_timebase_freq_set :: "u32 \<Rightarrow> pk_state \<Rightarrow> PkTraceBuffer \<Rightarrow> pk_rc \<times> pk_state \<times> PkTraceBuffer" where
  "pk_timebase_freq_set freq s b =
     (PK_OK, pk_set_timebase_rshift freq (s\<lparr>timebase_frequency_hz := freq\<rparr>), pk_trace_set_freq freq b)"

subsection \<open>Stacks\<close>

lemma prepattern_apply:
  "prepattern n p mem a = (if \<exists>i. 1 \<le> i \<and> i \<le> n \<and> a = p - 4 * of_nat i then PK_STACK_PATTERN else mem a)"
proof (induction n arbitrary: p mem)
  case (Suc n)
  have "(\<exists>i. 1 \<le> i \<and> i \<le> Suc n \<and> a = p - 4 * of_nat i) \<longleftrightarrow>
      a = p - 4 \<or> (\<exists>i. 1 \<le> i \<and> i \<le> n \<and> a = p - 4 - 4 * of_nat i)" (is "?l \<longleftrightarrow> ?r")
  proof
    assume ?l
    then obtain i where i: "1 \<le> i" "i \<le> Suc n" "a = p - 4 * of_nat i" by blast
    show ?r
    proof (cases "i = 1")
      case False
      with i have "1 \<le> i - 1" "i - 1 \<le> n" "a = p - 4 - 4 * of_nat (i - 1)"
        by (auto simp: of_nat_diff algebra_simps)
      then show ?thesis by blast
    qed (use i in simp)
  next
    assume ?r
    then show ?l
    proof
      assume "\<exists>i. 1 \<le> i \<and> i \<le> n \<and> a = p - 4 - 4 * of_nat i"
      then obtain i where "1 \<le> i" "i \<le> n" "a = p - 4 - 4 * of_nat i" by blast
      then show ?l by (intro exI [of _ "Suc i"]) (auto simp: algebra_simps)
    qed (auto intro: exI [of _ 1])
  qed
  then show ?case unfolding prepattern.simps Suc.IH by auto
qed auto

lemma unat32_less: "unat (w :: u32) < 2 ^ 32"
proof -
  have "unat w < 2 ^ LENGTH(32)" by (rule unsigned_less)
  then show ?thesis by simp
qed

lemma unat32_of_nat: "n < 2 ^ 32 \<Longrightarrow> unat (of_nat n :: u32) = n"
  by (simp add: unsigned_of_nat take_bit_nat_eq_self)

lemma unat32_mult: "unat a * unat b < 2 ^ 32 \<Longrightarrow> unat (a * b :: u32) = unat a * unat b"
  by (simp add: unat_word_ariths)

lemma and_7: "unat (w AND (7 :: u32)) = unat w mod 8"
proof -
  have m: "w AND 7 = take_bit 3 w" by (simp add: take_bit_eq_mask mask_eq_exp_minus_1)
  have "unat (take_bit 3 w) = take_bit 3 (unat w)" by (rule unsigned_take_bit_eq)
  then show ?thesis unfolding m by (simp add: take_bit_eq_mod)
qed

lemma stack_arith:
  fixes stack sz :: u32
  assumes "16 \<le> unat sz" "unat stack + unat sz < 2 ^ 32"
  defines "e \<equiv> (unat stack + unat sz) mod 8"
  shows "unat (stack + sz - ((stack + sz) AND 7)) = unat stack + unat sz - e"
    and "unat ((sz - ((stack + sz) AND 7)) div 4) = (unat sz - e) div 4"
    and "unat ((sz - ((stack + sz) AND 7)) div 4 * 4) = (unat sz - e) div 4 * 4"
proof -
  have 1: "unat (stack + sz) = unat stack + unat sz" using assms(2) by (intro unat_add_no_wrap) simp
  have 2: "unat ((stack + sz) AND 7) = e" by (simp add: and_7 1 e_def)
  have "e \<le> 7" by (simp add: e_def)
  show "unat (stack + sz - ((stack + sz) AND 7)) = unat stack + unat sz - e"
    using \<open>e \<le> 7\<close> assms(1) by (subst unat_sub_le) (simp_all add: 1 2)
  have 4: "unat (sz - ((stack + sz) AND 7)) = unat sz - e"
    using \<open>e \<le> 7\<close> assms(1) by (subst unat_sub_le) (simp_all add: 2)
  show 5: "unat ((sz - ((stack + sz) AND 7)) div 4) = (unat sz - e) div 4"
    by (simp add: unat_div 4)
  have "(unat sz - e) div 4 * 4 \<le> unat sz" by (rule le_trans [of _ "unat sz - e"]) simp_all
  then have "unat ((sz - ((stack + sz) AND 7)) div 4) * unat (4 :: u32) < 2 ^ 32"
    using assms(2) by (simp only: 5) simp
  then show "unat ((sz - ((stack + sz) AND 7)) div 4 * 4) = (unat sz - e) div 4 * 4"
    by (simp only: unat32_mult 5) simp
qed

lemma sub_8_mod: "x mod 8 = 0 \<Longrightarrow> 8 \<le> x \<Longrightarrow> (x - 8) mod 8 = (0 :: nat)"
  by presburger

lemma quad_sub_mod: "2 \<le> n \<Longrightarrow> (n * 4 - 8) mod 4 = (0 :: nat)"
  by presburger

lemma pattern_address:
  fixes p :: u32
  assumes "4 * i \<le> unat p"
  shows "unat (p - 4 * of_nat i) = unat p - 4 * i"
proof -
  have "4 * of_nat i = (of_nat (4 * i) :: u32)" by simp
  moreover have "unat (of_nat (4 * i) :: u32) = 4 * i"
    by (rule unat32_of_nat) (use assms unat32_less [of p] in linarith)
  ultimately show ?thesis using assms by (simp add: unat_sub_le)
qed

lemma i_pk_stack_init_eq:
  fixes stack sz :: u32
  assumes "16 \<le> unat sz" "unat stack + unat sz < 2 ^ 32"
  defines "tp \<equiv> unat stack + unat sz - (unat stack + unat sz) mod 8"
    and "n \<equiv> (unat sz - (unat stack + unat sz) mod 8) div 4"
  shows "\<exists>p. unat p = tp \<and> i_pk_stack_init stack sz mem =
    ((p - 8, of_nat (n * 4) - 8), (prepattern n p mem)(p - 8 := 0))"
proof -
  note A = stack_arith [OF assms(1,2), folded tp_def n_def]
  have "(sz - ((stack + sz) AND 7)) div 4 * 4 = of_nat (n * 4)"
    by (subst A(3) [symmetric]) simp
  then show ?thesis
    using A
    by (intro exI [of _ "stack + sz - ((stack + sz) AND 7)"])
       (simp add: i_pk_stack_init_def i_pk_stack_create_initial_frame_def Let_def unat_div)
qed

subsection \<open>Properties\<close>



end
