(* ===== verification/Pk_System.thy ===== *)
theory Pk_System
  imports Pk_Init
begin

text \<open>
  The kernel as a transition system: calls of threads, of interrupt handlers and of the
  initialisation code, timeouts, interrupt entry and exit, in any order. Every call is one
  step, since it runs in a critical section; \<open>pk_sleep\<close> and \<open>pk_semaphore_pend\<close> are two steps
  each. The second component of a system state says where each thread is.
\<close>

datatype phase = Running | Sleeping bool | Pending pend_frame

type_synonym sys = "pk_state \<times> (thread_id \<Rightarrow> phase)"

text \<open>
  A call is made by an interrupt handler, by the initialisation code before threads are started,
  or by the current thread when it is not inside a blocking call.
\<close>

definition thread_runs :: "pk_state \<Rightarrow> (thread_id \<Rightarrow> phase) \<Rightarrow> bool" where
  "thread_runs s ph \<longleftrightarrow> i_pk_kernel_context_thread s \<and> current_thread s \<noteq> 0 \<and>
     ph (current_thread s) = Running"

definition may_call :: "pk_state \<Rightarrow> (thread_id \<Rightarrow> phase) \<Rightarrow> bool" where
  "may_call s ph \<longleftrightarrow> panic s = None \<and> (\<not> i_pk_kernel_context_thread s \<or> thread_runs s ph)"

text \<open>
  \<open>strict\<close> restricts the calls that act on a thread from outside to those after which the kernel keeps
  its data consistent: the threads are \<open>settled\<close> (not both timed out and still in a pending queue), a thread
  is not created while it is active, and no priority is changed to that of the idle thread. Without it
  these calls are made at any time, with any argument.
\<close>

inductive sys_step :: "bool \<Rightarrow> sys \<Rightarrow> sys \<Rightarrow> bool" for strict where
  create: "may_call s ph \<Longrightarrow> (strict \<Longrightarrow> \<not> i_pk_thread_is_active s t) \<Longrightarrow>
    pk_thread_create complete mc t routine arg stack sz prio s = (rc, s') \<Longrightarrow>
    sys_step strict (s, ph) (s', if rc = PK_OK then ph(t := Running) else ph)"
| sem_create: "may_call s ph \<Longrightarrow>
    sys_step strict (s, ph) (snd (pk_semaphore_create m i x s), ph)"
| start: "may_call s ph \<Longrightarrow> \<not> processing_interrupt s \<Longrightarrow>
    sys_step strict (s, ph) (snd (pk_start_threads s), ph)"
| resume: "may_call s ph \<Longrightarrow> sys_step strict (s, ph) (snd (pk_thread_resume t s), ph)"
| suspend: "may_call s ph \<Longrightarrow> (strict \<Longrightarrow> settled s t) \<Longrightarrow> sys_step strict (s, ph) (snd (pk_thread_suspend t s), ph)"
| delete: "may_call s ph \<Longrightarrow> (strict \<Longrightarrow> settled s t) \<Longrightarrow> sys_step strict (s, ph) (snd (pk_thread_delete t s), ph)"
| complete: "may_call s ph \<Longrightarrow> sys_step strict (s, ph) (snd (pk_complete s), ph)"
| change: "may_call s ph \<Longrightarrow> (strict \<Longrightarrow> settled s t) \<Longrightarrow> (strict \<Longrightarrow> new \<noteq> 32) \<Longrightarrow>
    sys_step strict (s, ph) (snd (snd (pk_thread_priority_change t new s)), ph)"
| swap: "may_call s ph \<Longrightarrow> (strict \<Longrightarrow> settled s a) \<Longrightarrow> (strict \<Longrightarrow> settled s b) \<Longrightarrow>
    sys_step strict (s, ph) (snd (pk_thread_priority_swap a b s), ph)"
| post: "may_call s ph \<Longrightarrow> sys_step strict (s, ph) (snd (pk_semaphore_post m s), ph)"
| release_all: "may_call s ph \<Longrightarrow> sys_step strict (s, ph) (snd (pk_semaphore_release_all m s), ph)"
| pend: "may_call s ph \<Longrightarrow> pk_semaphore_pend_enter m timeout s = (Inl rc, s') \<Longrightarrow>
    sys_step strict (s, ph) (s', ph)"
| pend_blocks: "may_call s ph \<Longrightarrow> pk_semaphore_pend_enter m timeout s = (Inr fr, s') \<Longrightarrow>
    sys_step strict (s, ph) (s', ph(pf_thread fr := Pending fr))"
| pend_returns: "panic s = None \<Longrightarrow> i_pk_kernel_context_thread s \<Longrightarrow> current_thread s = t \<Longrightarrow> t \<noteq> 0 \<Longrightarrow>
    ph t = Pending fr \<Longrightarrow> sys_step strict (s, ph) (snd (pk_semaphore_pend_leave fr s), ph(t := Running))"
| sleep_fails: "may_call s ph \<Longrightarrow> pk_sleep_enter i s = (Inl rc, s') \<Longrightarrow> sys_step strict (s, ph) (s', ph)"
| sleep: "may_call s ph \<Longrightarrow> pk_sleep_enter i s = (Inr (t, ctx), s') \<Longrightarrow>
    sys_step strict (s, ph) (s', ph(t := Sleeping ctx))"
| sleep_returns: "panic s = None \<Longrightarrow> i_pk_kernel_context_thread s \<Longrightarrow> current_thread s = t \<Longrightarrow> t \<noteq> 0 \<Longrightarrow>
    ph t = Sleeping ctx \<Longrightarrow> sys_step strict (s, ph) (snd (pk_sleep_leave (t, ctx) s), ph(t := Running))"
| timeout: "panic s = None \<Longrightarrow> processing_interrupt s \<Longrightarrow> t \<noteq> 0 \<Longrightarrow>
    has_flag (thr_flags (threads s t)) PK_THREAD_FLAG_TIMER_PEND \<Longrightarrow>
    sys_step strict (s, ph) (i_pk_thread_timeout t s, ph)"
| interrupt: "panic s = None \<Longrightarrow> \<not> processing_interrupt s \<Longrightarrow>
    sys_step strict (s, ph) (s\<lparr>processing_interrupt := True\<rparr>, ph)"
| interrupt_exit: "panic s = None \<Longrightarrow> processing_interrupt s \<Longrightarrow>
    sys_step strict (s, ph) (ppe42_interrupt_exit s, ph)"

text \<open>The states reached from the kernel as \<open>pk_initialize\<close> leaves it.\<close>

definition boot_trace :: PkTraceBuffer where
  "boot_trace = \<lparr>tr_hz = 25000000, tr_time_adj64 = 0, tr_tbu32 = 0, tr_offset = 0, tr_cb = (\<lambda>_. 0)\<rparr>"

inductive sys_reach :: "bool \<Rightarrow> sys \<Rightarrow> bool" for strict where
  init: "pk_initialize kstack ksize tb freq zero_state boot_trace = (PK_OK, s, b) \<Longrightarrow>
    sys_reach strict (s, \<lambda>_. Running)"
| step: "sys_reach strict x \<Longrightarrow> sys_step strict x y \<Longrightarrow> sys_reach strict y"

definition sched_inv :: "pk_state \<Rightarrow> bool" where
  "sched_inv s \<longleftrightarrow> next_thread s = priority_map s (pk_thread_queue_min (run_queue s)) \<and>
     (if thread_mode s
      then current_thread s = next_thread s \<or> processing_interrupt s \<and> delayed_switch s
      else current_thread s = 0)"

definition phase_inv :: "pk_state \<Rightarrow> (thread_id \<Rightarrow> phase) \<Rightarrow> bool" where
  "phase_inv s ph \<longleftrightarrow> (\<forall>t. t \<noteq> 0 \<longrightarrow>
     (has_flag (thr_flags (threads s t)) PK_THREAD_FLAG_SEMAPHORE_PEND \<longrightarrow> (\<exists>fr. ph t = Pending fr)) \<and>
     (has_flag (thr_flags (threads s t)) PK_THREAD_FLAG_TIMED_OUT \<longrightarrow>
       has_flag (thr_flags (threads s t)) PK_THREAD_FLAG_TIMER_PEND) \<and>
     (\<forall>fr. ph t = Pending fr \<longrightarrow> pf_thread fr = t \<and> pf_semaphore fr = thr_semaphore (threads s t)))"

definition sys_inv :: "sys \<Rightarrow> bool" where
  "sys_inv = (\<lambda>(s, ph). pk_inv s \<and> sched_inv s \<and> phase_inv s ph)"

subsection \<open>Scheduling invariant\<close>

definition idle_until_start :: "pk_state \<Rightarrow> bool" where
  "idle_until_start s \<longleftrightarrow> (thread_mode s \<or> current_thread s = 0)"

lemma sched_inv_schedule: "idle_until_start s \<Longrightarrow> sched_inv (i_pk_schedule s)"
  by (auto simp: sched_inv_def idle_until_start_def i_pk_schedule_def i_pk_switch_def
      i_pk_next_thread_resume_def context_defs Let_def)

lemma sched_inv_idle: "sched_inv s \<Longrightarrow> idle_until_start s"
  by (auto simp: sched_inv_def idle_until_start_def split: if_splits)

lemma sched_inv_cong:
  assumes "next_thread s' = next_thread s" "priority_map s' = priority_map s"
    "run_queue s' = run_queue s" "thread_mode s' = thread_mode s"
    "current_thread s' = current_thread s" "processing_interrupt s' = processing_interrupt s"
    "delayed_switch s' = delayed_switch s"
  shows "sched_inv s' = sched_inv s"
  by (simp add: sched_inv_def assms)

lemma context_frame [simp]:
  "current_thread (i_pk_thread_map t s) = current_thread s"
  "thread_mode (i_pk_thread_map t s) = thread_mode s"
  "current_thread (i_pk_thread_unmap t s) = current_thread s"
  "thread_mode (i_pk_thread_unmap t s) = thread_mode s"
  "current_thread (snd (i_pk_timer_cancel n s)) = current_thread s"
  "thread_mode (snd (i_pk_timer_cancel n s)) = thread_mode s"
  "processing_interrupt (snd (i_pk_timer_cancel n s)) = processing_interrupt s"
  "delayed_switch (snd (i_pk_timer_cancel n s)) = delayed_switch s"
  "next_thread (snd (i_pk_timer_cancel n s)) = next_thread s"
  "current_thread (i_pk_timer_schedule n s) = current_thread s"
  "thread_mode (i_pk_timer_schedule n s) = thread_mode s"
  "processing_interrupt (i_pk_timer_schedule n s) = processing_interrupt s"
  by (simp_all add: i_pk_thread_map_def i_pk_thread_unmap_def i_pk_timer_cancel_def
      i_pk_timer_schedule_def kernel_upd_defs Let_def)

lemma sched_inv_exit [simp]:
  "sched_inv (pk_critical_section_exit c s) = sched_inv s" "sched_inv (s\<lparr>msr_ee := b\<rparr>) = sched_inv s"
  by (rule sched_inv_cong; simp add: critical_defs)+

lemma idle_frame [simp]:
  "idle_until_start (i_pk_thread_map t s) = idle_until_start s"
  "idle_until_start (i_pk_thread_unmap t s) = idle_until_start s"
  "idle_until_start (snd (i_pk_timer_cancel n s)) = idle_until_start s"
  "idle_until_start (i_pk_timer_schedule n s) = idle_until_start s"
  "idle_until_start (upd_thread t f s) = idle_until_start s"
  "idle_until_start (upd_sem m g s) = idle_until_start s"
  "idle_until_start (upd_timer n h s) = idle_until_start s"
  "idle_until_start (run_insert p s) = idle_until_start s"
  "idle_until_start (run_delete p s) = idle_until_start s"
  "idle_until_start (s\<lparr>msr_ee := b\<rparr>) = idle_until_start s"
  "idle_until_start (s\<lparr>run_queue := r\<rparr>) = idle_until_start s"
  by (simp_all add: idle_until_start_def kernel_upd_defs)

lemma idle_clear: "idle_until_start s \<Longrightarrow> idle_until_start (s\<lparr>current_thread := 0\<rparr>)"
  by (simp add: idle_until_start_def)

lemma idle_swap [simp]: "idle_until_start (swap_remap a b s) = idle_until_start s"
  by (simp add: swap_remap_def swap_unmap_def Let_def set_priority_def)

lemma sched_inv_upd [simp]:
  "sched_inv (upd_thread t f s) = sched_inv s" "sched_inv (upd_sem m g s) = sched_inv s"
  "sched_inv (upd_timer n h s) = sched_inv s" "sched_inv (snd (i_pk_timer_cancel n s)) = sched_inv s"
  by (rule sched_inv_cong; simp add: upd_defs)+

lemmas sched_simps = pk_critical_section_enter_def Let_def sched_inv_schedule sched_inv_idle

lemma sched_delete:
  assumes "sched_inv s"
  shows "sched_inv (i_pk_thread_delete t final s)"
  using assms unfolding i_pk_thread_delete_def
  by (auto simp: sched_simps set_state_def intro!: sched_inv_schedule idle_clear)

lemma sched_timeout:
  assumes "sched_inv s"
  shows "sched_inv (i_pk_thread_timeout t s)"
  using assms
  by (auto simp: i_pk_thread_timeout_def sched_simps set_state_def set_flags_def PK_PANIC_def
      sched_inv_cong [of "_\<lparr>panic := _\<rparr>"] split: PkThreadState.splits)

lemma sched_thread_ops:
  assumes "sched_inv s"
  shows "sched_inv (snd (pk_thread_resume t s))" and "sched_inv (snd (pk_thread_suspend t s))"
    and "sched_inv (snd (snd (pk_thread_priority_change t new s)))"
    and "sched_inv (snd (pk_thread_priority_swap a b s))"
    and "sched_inv (snd (pk_sleep_enter i s))" and "sched_inv (snd (pk_sleep_leave tc s))"
  using assms
  by (auto simp: pk_thread_resume_def pk_thread_suspend_def pk_thread_priority_change_def
      pk_thread_priority_swap_def pk_sleep_enter_def pk_sleep_leave_def sched_simps set_priority_def
      set_flags_def clear_flags_def split: prod.splits)

lemma sched_sem_ops:
  assumes "sched_inv s"
  shows "sched_inv (snd (pk_semaphore_create m i x s))" and "sched_inv (snd (pk_semaphore_post m s))"
    and "sched_inv (snd (pk_semaphore_release_all m s))"
    and "sched_inv (snd (pk_semaphore_pend_enter m timeout s))"
    and "sched_inv (snd (pk_semaphore_pend_leave fr s))"
  using assms
  by (auto simp: pk_semaphore_create_def pk_semaphore_post_def pk_semaphore_release_all_def
      pk_semaphore_pend_enter_def pend_block_def pend_timer_def pk_semaphore_pend_leave_def sched_simps
      set_semaphore_def set_flags_def clear_flags_def pend_insert_def pend_delete_def
      split: prod.splits if_splits)

subsection \<open>Threads inside blocking calls\<close>

definition same_flags :: "pk_state \<Rightarrow> pk_state \<Rightarrow> bool" where
  "same_flags s s' \<longleftrightarrow> (\<forall>t. thr_flags (threads s' t) = thr_flags (threads s t) \<and>
     thr_semaphore (threads s' t) = thr_semaphore (threads s t))"

lemma phase_same_flags: "same_flags s s' \<Longrightarrow> phase_inv s ph \<Longrightarrow> phase_inv s' ph"
  by (simp add: same_flags_def phase_inv_def)

lemma flags_frame [simp]:
  "thr_flags (threads (i_pk_thread_map t s) x) = thr_flags (threads s x)"
  "thr_semaphore (threads (i_pk_thread_map t s) x) = thr_semaphore (threads s x)"
  "thr_flags (threads (i_pk_thread_unmap t s) x) = thr_flags (threads s x)"
  "thr_semaphore (threads (i_pk_thread_unmap t s) x) = thr_semaphore (threads s x)"
  "thr_flags (threads (set_state t st s) x) = thr_flags (threads s x)"
  "thr_semaphore (threads (set_state t st s) x) = thr_semaphore (threads s x)"
  "thr_flags (threads (set_priority t p s) x) = thr_flags (threads s x)"
  "thr_semaphore (threads (set_priority t p s) x) = thr_semaphore (threads s x)"
  by (simp_all add: map_effect unmap_effect set_state_def set_priority_def upd_thread_def)

lemma swap_flags [simp]:
  "thr_flags (threads (swap_remap a b s) x) = thr_flags (threads s x)"
  "thr_semaphore (threads (swap_remap a b s) x) = thr_semaphore (threads s x)"
  by (simp_all add: swap_remap_def swap_unmap_def Let_def)

lemma same_flags_ops:
  "same_flags s (snd (pk_thread_resume t s))" "same_flags s (snd (pk_thread_suspend t s))"
  "same_flags s (i_pk_thread_delete t final s)"
  "same_flags s (snd (snd (pk_thread_priority_change t new s)))"
  "same_flags s (snd (pk_thread_priority_swap a b s))"
  "same_flags s (snd (pk_semaphore_create m i x s))" "same_flags s (snd (pk_semaphore_post m s))"
  "same_flags s (snd (pk_semaphore_release_all m s))"
  "same_flags s (ppe42_interrupt_exit s)" "same_flags s (snd (pk_start_threads s))"
  by (auto simp: same_flags_def pk_thread_resume_def pk_thread_suspend_def i_pk_thread_delete_def
      pk_thread_priority_change_def pk_thread_priority_swap_def pk_semaphore_create_def
      pk_semaphore_post_def pk_semaphore_release_all_def ppe42_interrupt_exit_def
      i_pk_next_thread_resume_def pk_start_threads_def i_pk_start_threads_def
      pk_critical_section_enter_def Let_def upd_sem_def run_insert_def pend_delete_def split: prod.splits)

lemma flag_or: "m AND k = 0 \<Longrightarrow> has_flag (f OR m) k = has_flag f k"
  by (simp add: has_flag_def bit.conj_disj_distrib2)

lemma flag_clear: "has_flag (f AND NOT m) k = has_flag f (k AND NOT m)"
  by (simp add: has_flag_def ac_simps)

lemma flag_facts:
  "has_flag (f OR PK_THREAD_FLAG_TIMED_OUT) PK_THREAD_FLAG_SEMAPHORE_PEND = has_flag f PK_THREAD_FLAG_SEMAPHORE_PEND"
  "has_flag (f OR PK_THREAD_FLAG_TIMED_OUT) PK_THREAD_FLAG_TIMER_PEND = has_flag f PK_THREAD_FLAG_TIMER_PEND"
  "has_flag (f OR PK_THREAD_FLAG_TIMER_PEND) PK_THREAD_FLAG_SEMAPHORE_PEND = has_flag f PK_THREAD_FLAG_SEMAPHORE_PEND"
  "has_flag (f OR PK_THREAD_FLAG_TIMER_PEND) PK_THREAD_FLAG_TIMER_PEND"
  "has_flag (f OR PK_THREAD_FLAG_TIMER_PEND) PK_THREAD_FLAG_TIMED_OUT = has_flag f PK_THREAD_FLAG_TIMED_OUT"
  "has_flag (f OR PK_THREAD_FLAG_SEMAPHORE_PEND) PK_THREAD_FLAG_TIMER_PEND = has_flag f PK_THREAD_FLAG_TIMER_PEND"
  "has_flag (f OR PK_THREAD_FLAG_SEMAPHORE_PEND) PK_THREAD_FLAG_TIMED_OUT = has_flag f PK_THREAD_FLAG_TIMED_OUT"
  "\<not> has_flag (f AND NOT PK_THREAD_FLAG_SEMAPHORE_PEND) PK_THREAD_FLAG_SEMAPHORE_PEND"
  "has_flag (f AND NOT timer_flags) PK_THREAD_FLAG_SEMAPHORE_PEND = has_flag f PK_THREAD_FLAG_SEMAPHORE_PEND"
  "\<not> has_flag (f AND NOT timer_flags) PK_THREAD_FLAG_TIMER_PEND"
  "\<not> has_flag (f AND NOT timer_flags) PK_THREAD_FLAG_TIMED_OUT"
  "\<not> has_flag 0 k"
  by (simp_all add: flag_clear flag_or has_flag_set timer_flags_def pk_flag_defs)
     (simp_all add: has_flag_def and.assoc)

lemmas flag_rules = flag_facts flag_masks timer_flags_def [symmetric]

lemma phase_no_pend:
  "phase_inv s ph \<Longrightarrow> t \<noteq> 0 \<Longrightarrow> (\<And>fr. ph t \<noteq> Pending fr) \<Longrightarrow>
     \<not> has_flag (thr_flags (threads s t)) PK_THREAD_FLAG_SEMAPHORE_PEND"
  by (auto simp: phase_inv_def)

lemma phase_timeout:
  assumes "phase_inv s ph" "has_flag (thr_flags (threads s t)) PK_THREAD_FLAG_TIMER_PEND"
  shows "phase_inv (i_pk_thread_timeout t s) ph"
  using assms
  by (auto simp: phase_inv_def i_pk_thread_timeout_def pk_critical_section_enter_def Let_def
      set_flags_def set_state_def upd_thread_def run_insert_def flag_rules PK_PANIC_def
      split: PkThreadState.splits)

lemma phase_sleep:
  assumes "phase_inv s ph" "pk_sleep_enter i s = (Inr (t, ctx), s')" "ph t = Running"
  shows "phase_inv s' (ph(t := Sleeping ctx))"
  using assms phase_no_pend [OF assms(1), of t]
  by (auto simp: phase_inv_def pk_sleep_enter_def pk_critical_section_enter_def Let_def
      set_flags_def upd_defs run_delete_def flag_rules split: if_splits)

lemma phase_sleep_returns:
  assumes "phase_inv s ph" "ph t = Sleeping ctx"
  shows "phase_inv (snd (pk_sleep_leave (t, ctx) s)) (ph(t := Running))"
  using assms phase_no_pend [OF assms(1), of t]
  by (auto simp: phase_inv_def pk_sleep_leave_def clear_flags_def upd_thread_def flag_rules)

lemma phase_pend:
  assumes "phase_inv s ph" "pk_semaphore_pend_enter m timeout s = (Inr fr, s')"
  shows "phase_inv s' (ph(pf_thread fr := Pending fr))"
  using assms
  by (auto simp: phase_inv_def pk_semaphore_pend_enter_def pend_block_def pk_critical_section_enter_def
      Let_def set_flags_def set_semaphore_def pend_insert_def upd_defs run_delete_def flag_rules split: if_splits)

lemma phase_pend_returns:
  assumes "phase_inv s ph" "ph t = Pending fr" "t \<noteq> 0"
  shows "phase_inv (snd (pk_semaphore_pend_leave fr s)) (ph(t := Running))"
  using assms
  by (auto simp: phase_inv_def pend_leave_effect pend_done_def Let_def clear_flags_def
      pend_delete_def upd_defs flag_rules)

subsection \<open>The invariant of the system\<close>

lemma current_runnable:
  assumes inv: "pk_inv s" "sched_inv s" and ctx: "i_pk_kernel_context_thread s" and c: "current_thread s \<noteq> 0"
  shows "thr_state (threads s (current_thread s)) = PK_THREAD_STATE_MAPPED"
    and "i_pk_thread_is_runnable s (current_thread s)"
    and "thr_priority (threads s (current_thread s)) = pk_thread_queue_min (run_queue s)"
proof -
  let ?m = "pk_thread_queue_min (run_queue s)"
  have cur: "current_thread s = priority_map s ?m"
    using inv(2) ctx by (auto simp: sched_inv_def context_defs split: if_splits)
  with c have nz: "priority_map s ?m \<noteq> 0" by simp
  note M = map_invD [OF inv(1) nz]
  show "thr_state (threads s (current_thread s)) = PK_THREAD_STATE_MAPPED"
    and "thr_priority (threads s (current_thread s)) = ?m"
    using M by (simp_all add: cur)
  have "?m \<noteq> PK_IDLE_THREAD_PRIORITY" using M(1) by (auto simp: PK_IDLE_THREAD_PRIORITY_def)
  then show "i_pk_thread_is_runnable s (current_thread s)"
    using pend_min [of "run_queue s"] M(3) by (simp add: i_pk_thread_is_runnable_def cur)
qed

lemma no_pend_flag:
  assumes "pk_inv s" "t \<noteq> 0" "thr_state (threads s t) = PK_THREAD_STATE_MAPPED"
    and "\<not> has_flag (thr_flags (threads s t)) PK_THREAD_FLAG_SEMAPHORE_PEND"
  shows "no_pend s t"
  using mapped_at [OF assms(1-3)] assms(4)
    pend_invD(3) [OF assms(1), of _ "thr_priority (threads s t)"] by (auto simp: no_pend_def)

lemma running_no_pend:
  assumes "pk_inv s" "sched_inv s" "phase_inv s ph" "thread_runs s ph"
  shows "no_pend s (current_thread s)"
  using assms current_runnable(1) [of s] phase_no_pend [of s ph "current_thread s"]
  by (intro no_pend_flag) (auto simp: thread_runs_def)

lemma create_effect:
  assumes "pk_thread_create complete mc t routine arg stack sz prio s = (rc, s')"
  shows "semaphores s' = semaphores s \<and> run_queue s' = run_queue s \<and> priority_map s' = priority_map s \<and>
      next_thread s' = next_thread s \<and> thread_mode s' = thread_mode s \<and>
      current_thread s' = current_thread s \<and> processing_interrupt s' = processing_interrupt s \<and>
      delayed_switch s' = delayed_switch s"
    and "threads s' = (threads s)(t := threads s' t)"
    and "rc = PK_OK \<Longrightarrow> thr_state (threads s' t) = PK_THREAD_STATE_SUSPENDED_RUNNABLE \<and>
      thr_priority (threads s' t) = prio \<and> prio < 32 \<and> thr_flags (threads s' t) = 0"
    and "rc \<noteq> PK_OK \<Longrightarrow> thr_state (threads s' t) = thr_state (threads s t) \<and>
      thr_priority (threads s' t) = thr_priority (threads s t) \<and> thr_flags (threads s' t) = thr_flags (threads s t) \<and>
      thr_semaphore (threads s' t) = thr_semaphore (threads s t)"
  using assms
  by (auto simp: pk_thread_create_def i_pk_thread_context_initialize_def pk_timer_create_def Let_def
      upd_defs PK_THREADS_def word_less_nat_alt split: if_splits prod.splits)

lemma create_inv:
  assumes "pk_inv s" "\<not> i_pk_thread_is_active s t"
    and c: "pk_thread_create complete mc t routine arg stack sz prio s = (rc, s')"
  shows "pk_inv s'" and "sched_inv s \<Longrightarrow> sched_inv s'"
    and "phase_inv s ph \<Longrightarrow> phase_inv s' (if rc = PK_OK then ph(t := Running) else ph)"
proof -
  note E = create_effect [OF c]
  from assms(2) have st: "thr_state (threads s t) \<noteq> PK_THREAD_STATE_MAPPED"
    by (auto simp: i_pk_thread_is_active_def)
  have "pk_inv s' = pk_inv (upd_thread t (\<lambda>_. threads s' t) s)"
    using E(1) E(2) by (intro pk_inv_cong) (simp_all add: upd_thread_def)
  moreover have "pk_inv (upd_thread t (\<lambda>_. threads s' t) s)"
    using E(3,4) st prio_invD [OF assms(1), of t]
    by (intro pk_inv_unmapped_thread assms(1)) (cases "rc = PK_OK"; simp)+
  ultimately show "pk_inv s'" by simp
  show "sched_inv s \<Longrightarrow> sched_inv s'" using E(1) by (subst sched_inv_cong [of _ s]) simp_all
  have o: "x \<noteq> t \<Longrightarrow> threads s' x = threads s x" for x by (subst E(2)) simp
  show "phase_inv s' (if rc = PK_OK then ph(t := Running) else ph)" if P: "phase_inv s ph"
    unfolding phase_inv_def
  proof (intro allI impI)
    fix x :: thread_id assume x: "x \<noteq> 0"
    note P' = P [unfolded phase_inv_def, rule_format, OF x]
    show "(has_flag (thr_flags (threads s' x)) PK_THREAD_FLAG_SEMAPHORE_PEND \<longrightarrow>
        (\<exists>fr. (if rc = PK_OK then ph(t := Running) else ph) x = Pending fr)) \<and>
      (has_flag (thr_flags (threads s' x)) PK_THREAD_FLAG_TIMED_OUT \<longrightarrow>
        has_flag (thr_flags (threads s' x)) PK_THREAD_FLAG_TIMER_PEND) \<and>
      (\<forall>fr. (if rc = PK_OK then ph(t := Running) else ph) x = Pending fr \<longrightarrow>
        pf_thread fr = x \<and> pf_semaphore fr = thr_semaphore (threads s' x))"
      using P' E(3,4) o [of x] by (cases "x = t"; cases "rc = PK_OK"; simp add: flag_facts(12))
  qed
qed

lemma clear_map_zero: "clear_map n (\<lambda>_. 0) = (\<lambda>_. 0)"
  by (induction n) auto

lemma rshift_frame [simp]:
  "threads (pk_set_timebase_rshift f s) = threads s"
  "semaphores (pk_set_timebase_rshift f s) = semaphores s"
  "priority_map (pk_set_timebase_rshift f s) = priority_map s"
  "thread_mode (pk_set_timebase_rshift f s) = thread_mode s"
  by (simp_all add: pk_set_timebase_rshift_def)

lemma initialize_effect:
  assumes "pk_initialize kstack ksize tb freq s0 b0 = (PK_OK, s, b)"
  shows "threads s = threads s0" "semaphores s = semaphores s0" "run_queue s = 0"
    "priority_map s = clear_map (PK_THREADS + 1) (priority_map s0)" "current_thread s = 0"
    "next_thread s = 0" "thread_mode s = thread_mode s0"
  using assms
  by (auto simp: pk_initialize_def pk_timer_schedule_def critical_defs Let_def
      g_pk_trace_timer_def upd_timer_def pk_thread_queue_clear_def
      simp del: clear_map.simps split: prod.splits if_split_asm)

lemma initialize_inv:
  assumes "pk_initialize kstack ksize tb freq zero_state boot_trace = (PK_OK, s, b)"
  shows "sys_inv (s, \<lambda>_. Running)"
proof -
  have T: "threads s = threads zero_state" "semaphores s = semaphores zero_state"
    "run_queue s = 0" "priority_map s = (\<lambda>_. 0)" "current_thread s = 0" "next_thread s = 0"
    "thread_mode s = False"
    using initialize_effect [OF assms] by (simp_all add: zero_state_def clear_map_zero)
  have "pk_inv s" by (simp add: pk_inv_defs T zero_state_def zero_thread_def member_bit)
  moreover have "sched_inv s" by (simp add: sched_inv_def T)
  moreover have "phase_inv s (\<lambda>_. Running)"
    by (simp add: phase_inv_def T zero_state_def zero_thread_def has_flag_def)
  ultimately show ?thesis by (simp add: sys_inv_def)
qed

lemma change_inv:
  assumes "pk_inv s" "settled s t" "new \<noteq> 32"
  shows "pk_inv (snd (snd (pk_thread_priority_change t new s)))"
proof (cases "unat new > PK_THREADS")
  case True
  then show ?thesis using assms(1) by (simp add: pk_thread_priority_change_def)
next
  case False
  with assms(3) have "new < 32"
    by (auto simp: PK_THREADS_def word_less_nat_alt unat_queue_eq less_le)
  then show ?thesis by (rule pk_thread_priority_change_inv [OF assms(1,2)])
qed

lemma complete_inv:
  assumes "pk_inv s" "sched_inv s" "phase_inv s ph" "may_call s ph"
  shows "pk_inv (snd (pk_complete s))"
  using assms running_no_pend [OF assms(1-3)]
  by (auto simp: pk_complete_def may_call_def thread_runs_def
      intro!: i_pk_thread_delete_inv no_pend_settled)

lemma start_inv:
  "pk_inv s \<Longrightarrow> pk_inv (snd (pk_start_threads s))"
  "sched_inv s \<Longrightarrow> \<not> processing_interrupt s \<Longrightarrow> sched_inv (snd (pk_start_threads s))"
  by (auto simp: pk_start_threads_def i_pk_start_threads_def i_pk_next_thread_resume_def sched_inv_def
      context_defs pk_inv_defs)

lemma interrupt_inv:
  "pk_inv (s\<lparr>processing_interrupt := b\<rparr>) = pk_inv s" "pk_inv (ppe42_interrupt_exit s) = pk_inv s"
  "sched_inv s \<Longrightarrow> sched_inv (s\<lparr>processing_interrupt := True\<rparr>)"
  "sched_inv s \<Longrightarrow> sched_inv (ppe42_interrupt_exit s)"
  by (auto simp: ppe42_interrupt_exit_def i_pk_next_thread_resume_def sched_inv_def Let_def
      pk_inv_cong [of "_\<lparr>processing_interrupt := _\<rparr>"] pk_inv_cong [of "_\<lparr>current_thread := _\<rparr>"]
      pk_inv_cong [of "_\<lparr>delayed_switch := _\<rparr>"] split: if_splits)

lemma delete_sys:
  "pk_inv s \<Longrightarrow> settled s t \<Longrightarrow> pk_inv (snd (pk_thread_delete t s))"
  "sched_inv s \<Longrightarrow> sched_inv (snd (pk_thread_delete t s))" "same_flags s (snd (pk_thread_delete t s))"
  "sched_inv s \<Longrightarrow> sched_inv (snd (pk_complete s))" "same_flags s (snd (pk_complete s))"
  by (simp_all add: pk_thread_delete_def pk_complete_def i_pk_thread_delete_inv sched_delete
      same_flags_ops) (simp_all add: same_flags_def)

lemma pend_enter_same_flags:
  "pk_semaphore_pend_enter m timeout s = (Inl rc, s') \<Longrightarrow> same_flags s s'"
  by (auto simp: pk_semaphore_pend_enter_def pk_critical_section_enter_def Let_def same_flags_def
      upd_sem_def split: if_splits)

lemma sleep_enter_same:
  "pk_sleep_enter i s = (Inl rc, s') \<Longrightarrow> s' = s"
  by (auto simp: pk_sleep_enter_def Let_def split: if_splits prod.splits)

lemma same_flags_interrupt: "same_flags s (s\<lparr>processing_interrupt := b\<rparr>)"
  by (simp add: same_flags_def)

lemma sys_keep:
  "sys_inv (s, ph) \<Longrightarrow> pk_inv s' \<Longrightarrow> sched_inv s' \<Longrightarrow> same_flags s s' \<Longrightarrow> sys_inv (s', ph)"
  by (simp add: sys_inv_def phase_same_flags)

lemma sys_inv_calls:
  assumes i: "sys_inv (s, ph)" and c: "may_call s ph"
  shows "sys_inv (snd (pk_semaphore_create m n x s), ph)"
    and "\<not> processing_interrupt s \<Longrightarrow> sys_inv (snd (pk_start_threads s), ph)"
    and "sys_inv (snd (pk_thread_resume t s), ph)"
    and "settled s t \<Longrightarrow> sys_inv (snd (pk_thread_suspend t s), ph)"
    and "settled s t \<Longrightarrow> sys_inv (snd (pk_thread_delete t s), ph)"
    and "sys_inv (snd (pk_complete s), ph)"
    and "settled s t \<Longrightarrow> new \<noteq> 32 \<Longrightarrow> sys_inv (snd (snd (pk_thread_priority_change t new s)), ph)"
    and "settled s a \<Longrightarrow> settled s b \<Longrightarrow> sys_inv (snd (pk_thread_priority_swap a b s), ph)"
    and "sys_inv (snd (pk_semaphore_post m s), ph)"
    and "sys_inv (snd (pk_semaphore_release_all m s), ph)"
proof -
  have I: "pk_inv s" "sched_inv s" "phase_inv s ph" using i by (simp_all add: sys_inv_def)
  note keep = sys_keep [OF i _ _ same_flags_ops(1)] sys_keep [OF i _ _ same_flags_ops(2)]
    sys_keep [OF i _ _ same_flags_ops(4)] sys_keep [OF i _ _ same_flags_ops(5)]
    sys_keep [OF i _ _ same_flags_ops(6)] sys_keep [OF i _ _ same_flags_ops(7)]
    sys_keep [OF i _ _ same_flags_ops(8)] sys_keep [OF i _ _ same_flags_ops(10)]
    sys_keep [OF i _ _ delete_sys(3)] sys_keep [OF i _ _ delete_sys(5)]
  note ops = pk_semaphore_create_inv start_inv pk_thread_resume_inv pk_thread_suspend_inv delete_sys
    complete_inv change_inv pk_thread_priority_swap_inv pk_semaphore_post_inv
    pk_semaphore_release_all_inv sched_thread_ops sched_sem_ops
  show "sys_inv (snd (pk_semaphore_create m n x s), ph)"
    and "\<not> processing_interrupt s \<Longrightarrow> sys_inv (snd (pk_start_threads s), ph)"
    and "sys_inv (snd (pk_thread_resume t s), ph)"
    and "settled s t \<Longrightarrow> sys_inv (snd (pk_thread_suspend t s), ph)"
    and "settled s t \<Longrightarrow> sys_inv (snd (pk_thread_delete t s), ph)"
    and "sys_inv (snd (pk_complete s), ph)"
    and "settled s t \<Longrightarrow> new \<noteq> 32 \<Longrightarrow> sys_inv (snd (snd (pk_thread_priority_change t new s)), ph)"
    and "settled s a \<Longrightarrow> settled s b \<Longrightarrow> sys_inv (snd (pk_thread_priority_swap a b s), ph)"
    and "sys_inv (snd (pk_semaphore_post m s), ph)"
    and "sys_inv (snd (pk_semaphore_release_all m s), ph)"
    using I c by (auto intro!: keep intro: ops)
qed

lemma sys_inv_pend:
  assumes i: "sys_inv (s, ph)" and c: "may_call s ph"
  shows "pk_semaphore_pend_enter m timeout s = (Inl rc, s') \<Longrightarrow> sys_inv (s', ph)"
    and "pk_semaphore_pend_enter m timeout s = (Inr fr, s') \<Longrightarrow> sys_inv (s', ph(pf_thread fr := Pending fr))"
proof -
  have I: "pk_inv s" "sched_inv s" "phase_inv s ph" using i by (simp_all add: sys_inv_def)
  have "pk_inv (snd (pk_semaphore_pend_enter m timeout s))"
    using c running_no_pend [OF I] current_runnable(1) [OF I(1,2)]
    by (intro pk_semaphore_pend_enter_inv I) (auto simp: may_call_def thread_runs_def)
  with I i show "pk_semaphore_pend_enter m timeout s = (Inl rc, s') \<Longrightarrow> sys_inv (s', ph)"
    and "pk_semaphore_pend_enter m timeout s = (Inr fr, s') \<Longrightarrow> sys_inv (s', ph(pf_thread fr := Pending fr))"
    using sched_sem_ops(4) [OF I(2), of m timeout] phase_pend [OF I(3)]
    by (auto simp: sys_inv_def dest: pend_enter_same_flags phase_same_flags [OF _ I(3)])
qed

lemma sys_inv_pend_returns:
  assumes i: "sys_inv (s, ph)" and c: "i_pk_kernel_context_thread s" "current_thread s = t" "t \<noteq> 0"
    and ph: "ph t = Pending fr"
  shows "sys_inv (snd (pk_semaphore_pend_leave fr s), ph(t := Running))"
proof -
  have I: "pk_inv s" "sched_inv s" "phase_inv s ph" using i by (simp_all add: sys_inv_def)
  have F: "pf_thread fr = t" "pf_semaphore fr = thr_semaphore (threads s t)"
    "has_flag (thr_flags (threads s t)) PK_THREAD_FLAG_TIMED_OUT \<Longrightarrow>
       has_flag (thr_flags (threads s t)) PK_THREAD_FLAG_TIMER_PEND"
    using I(3) ph c(3) by (auto simp: phase_inv_def)
  have "pk_inv (snd (pk_semaphore_pend_leave fr s))"
    using current_runnable [OF I(1,2) c(1)] c F I(1) by (intro pk_semaphore_pend_leave_inv) auto
  then show ?thesis
    using phase_pend_returns [OF I(3) ph c(3)] sched_sem_ops(5) [OF I(2)] by (simp add: sys_inv_def)
qed

lemma sys_inv_sleep:
  assumes i: "sys_inv (s, ph)" and c: "may_call s ph"
  shows "pk_sleep_enter n s = (Inl rc, s') \<Longrightarrow> sys_inv (s', ph)"
    and "pk_sleep_enter n s = (Inr (t, ctx), s') \<Longrightarrow> sys_inv (s', ph(t := Sleeping ctx))"
proof -
  have I: "pk_inv s" "sched_inv s" "phase_inv s ph" using i by (simp_all add: sys_inv_def)
  show "pk_sleep_enter n s = (Inl rc, s') \<Longrightarrow> sys_inv (s', ph)"
    using i sleep_enter_same by blast
  have "ph t = Running" if "pk_sleep_enter n s = (Inr (t, ctx), s')"
    using that c by (auto simp: pk_sleep_enter_def pk_critical_section_enter_def Let_def may_call_def
        thread_runs_def split: if_splits)
  then show "pk_sleep_enter n s = (Inr (t, ctx), s') \<Longrightarrow> sys_inv (s', ph(t := Sleeping ctx))"
    using phase_sleep [OF I(3)] pk_sleep_enter_inv [OF I(1), of n] sched_thread_ops(5) [OF I(2), of n]
    by (auto simp: sys_inv_def)
qed

lemma sys_inv_sleep_returns:
  assumes i: "sys_inv (s, ph)" and c: "i_pk_kernel_context_thread s" "current_thread s = t" "t \<noteq> 0"
    and ph: "ph t = Sleeping ctx"
  shows "sys_inv (snd (pk_sleep_leave (t, ctx) s), ph(t := Running))"
proof -
  have I: "pk_inv s" "sched_inv s" "phase_inv s ph" using i by (simp_all add: sys_inv_def)
  have "no_pend s t"
    using current_runnable(1) [OF I(1,2) c(1)] c phase_no_pend [OF I(3) c(3)] ph I(1)
    by (intro no_pend_flag) auto
  then show ?thesis
    using phase_sleep_returns [OF I(3) ph] sched_thread_ops(6) [OF I(2), of "(t, ctx)"]
      pk_sleep_leave_inv [OF I(1), of "(t, ctx)"] by (simp add: sys_inv_def)
qed

lemma sys_inv_step: "sys_step True x y \<Longrightarrow> sys_inv x \<Longrightarrow> sys_inv y"
proof (induction rule: sys_step.induct)
  case (create s ph t complete mc routine arg stack sz prio rc s')
  then show ?case using create_inv [of s t] by (simp add: sys_inv_def)
next
  case (timeout s t ph)
  then show ?case
    using i_pk_thread_timeout_inv [of s t] sched_timeout [of s t] phase_timeout [of s ph t]
    by (simp add: sys_inv_def)
next
  case (interrupt s ph)
  then show ?case
    using interrupt_inv phase_same_flags [OF same_flags_interrupt] by (simp add: sys_inv_def)
next
  case (interrupt_exit s ph)
  then show ?case
    using interrupt_inv phase_same_flags [OF same_flags_ops(9)] by (simp add: sys_inv_def)
qed (blast intro: sys_inv_calls sys_inv_pend sys_inv_pend_returns sys_inv_sleep sys_inv_sleep_returns)+

lemma sys_reach_inv: "sys_reach True x \<Longrightarrow> sys_inv x"
proof (induction rule: sys_reach.induct)
  case (init kstack ksize tb freq s b)
  then show ?case by (rule initialize_inv)
next
  case (step x y)
  then show ?case by (blast intro: sys_inv_step)
qed

text \<open>The scheduler keeps its choice in every run, whatever the calls do to the other data.\<close>

lemma sched_step: "sys_step strict x y \<Longrightarrow> sched_inv (fst x) \<Longrightarrow> sched_inv (fst y)"
proof (induction rule: sys_step.induct)
  case (create s ph t complete mc routine arg stack sz prio rc s')
  then show ?case using create_effect(1) [OF create(3)] by (simp add: sched_inv_cong [of s' s])
next
  case (pend s ph m timeout rc s')
  then show ?case using sched_sem_ops(4) [of s m timeout] by simp
next
  case (pend_blocks s ph m timeout fr s')
  then show ?case using sched_sem_ops(4) [of s m timeout] by simp
next
  case (sleep_fails s ph i rc s')
  then show ?case using sched_thread_ops(5) [of s i] by simp
next
  case (sleep s ph i t ctx s')
  then show ?case using sched_thread_ops(5) [of s i] by simp
qed (simp_all add: sched_thread_ops sched_sem_ops sched_timeout start_inv interrupt_inv delete_sys)

lemma sched_reach: "sys_reach strict x \<Longrightarrow> sched_inv (fst x)"
proof (induction rule: sys_reach.induct)
  case (init kstack ksize tb freq s b)
  then show ?case using initialize_inv [OF init] by (simp add: sys_inv_def)
next
  case (step x y)
  then show ?case by (blast intro: sched_step)
qed

subsection \<open>Properties\<close>

text \<open>
  Property C1. Thread calls, handlers, timeouts and interrupts come in any order. In every state the
  kernel reaches, with calls on any thread at any time, the thread that runs in thread context is
  the one the priority map has for the least runnable priority (the highest; none, the idle loop, for
  an empty run queue). When, in addition, every suspend, delete and change of priority is made while
  the thread is settled, that is not both timed out and still in a pending queue, no active thread is
  created again and no priority becomes that of the idle thread, the data are consistent as
  well: the priority map is exactly the set of mapped threads, only mapped threads are runnable, a
  thread in a pending queue is blocked on that semaphore, the running thread is mapped and runnable and
  no runnable thread has a higher priority, and the processor is idle only if no thread is runnable.
  C28 shows why the second part needs its condition. \<open>pk_start_threads\<close> is not called by a handler.
\<close>

theorem pk_scheduling:
  assumes "sys_reach strict (s, ph)"
  shows "(i_pk_kernel_context_thread s \<longrightarrow>
      current_thread s = priority_map s (pk_thread_queue_min (run_queue s))) \<and>
    (strict \<longrightarrow> pk_inv s \<and> (i_pk_kernel_context_thread s \<longrightarrow>
     (if current_thread s = 0 then \<forall>p. \<not> pk_thread_queue_member (run_queue s) p
      else thr_state (threads s (current_thread s)) = PK_THREAD_STATE_MAPPED \<and>
        i_pk_thread_is_runnable s (current_thread s) \<and>
        (\<forall>p. pk_thread_queue_member (run_queue s) p \<longrightarrow>
          thr_priority (threads s (current_thread s)) \<le> p))))"
proof (intro conjI impI)
  have sch: "sched_inv s" using sched_reach [OF assms] by simp
  then show "current_thread s = priority_map s (pk_thread_queue_min (run_queue s))" if "i_pk_kernel_context_thread s"
    using that by (auto simp: sched_inv_def context_defs split: if_splits)
  assume strict
  then have inv: "pk_inv s" "sched_inv s" using sys_reach_inv [of "(s, ph)"] assms by (simp_all add: sys_inv_def)
  then show "pk_inv s" by blast
  assume ctx: "i_pk_kernel_context_thread s"
  have "\<not> pk_thread_queue_member (run_queue s) p" if "current_thread s = 0" for p
  proof
    assume "pk_thread_queue_member (run_queue s) p"
    then have "priority_map s (pk_thread_queue_min (run_queue s)) \<noteq> 0"
      by (intro run_invD [OF inv(1)] member_min(2))
    with that ctx inv(2) show False by (auto simp: sched_inv_def context_defs split: if_splits)
  qed
  then show "if current_thread s = 0 then \<forall>p. \<not> pk_thread_queue_member (run_queue s) p
      else thr_state (threads s (current_thread s)) = PK_THREAD_STATE_MAPPED \<and>
        i_pk_thread_is_runnable s (current_thread s) \<and>
        (\<forall>p. pk_thread_queue_member (run_queue s) p \<longrightarrow>
          thr_priority (threads s (current_thread s)) \<le> p)"
    using current_runnable [OF inv ctx] member_min(1) by auto
qed

text \<open>A short run: initialise, create two threads, resume them, start.\<close>

definition boot0 :: pk_state where
  "boot0 = fst (snd (pk_initialize 0x1000 32 0 400000000 zero_state boot_trace))"

definition boot1 :: pk_state where
  "boot1 = snd (pk_thread_create 0x100 0 2 0x200 0 0x2000 32 9 boot0)"

definition boot2 :: pk_state where
  "boot2 = snd (pk_start_threads (snd (pk_thread_resume 2 boot1)))"

lemma boot_facts:
  "fst (pk_initialize 0x1000 32 0 400000000 zero_state boot_trace) = PK_OK"
  "panic boot0 = None" "\<not> i_pk_kernel_context_thread boot0" "\<not> i_pk_thread_is_active boot0 2"
  "fst (pk_thread_create 0x100 0 2 0x200 0 0x2000 32 9 boot0) = PK_OK"
  "panic boot1 = None" "\<not> i_pk_kernel_context_thread boot1"
  "panic (snd (pk_thread_resume 2 boot1)) = None"
  "\<not> i_pk_kernel_context_thread (snd (pk_thread_resume 2 boot1))"
  "\<not> processing_interrupt (snd (pk_thread_resume 2 boot1))"
  "current_thread boot2 = 2" "i_pk_kernel_context_thread boot2"
  by code_simp+

lemma boot_reach: "sys_reach True (boot2, \<lambda>_. Running)"
proof -
  have 0: "sys_reach True (boot0, \<lambda>_. Running)"
    by (rule sys_reach.init [of "0x1000" 32 0 400000000 _ "snd (snd (pk_initialize 0x1000 32 0 400000000
      zero_state boot_trace))"]) (simp add: boot0_def prod_eq_iff boot_facts(1))
  have "sys_step True (boot0, \<lambda>_. Running) (boot1, if PK_OK = PK_OK then (\<lambda>_. Running)(2 := Running) else (\<lambda>_. Running))"
    by (rule sys_step.create [of _ _ _ _ "0x100" 0 "0x200" 0 "0x2000" 32 9])
       (simp_all add: may_call_def boot_facts boot1_def prod_eq_iff)
  then have "sys_step True (boot0, \<lambda>_. Running) (boot1, \<lambda>_. Running)" by (simp add: fun_upd_idem)
  with 0 have "sys_reach True (boot1, \<lambda>_. Running)" by (rule sys_reach.step)
  then have "sys_reach True (snd (pk_thread_resume 2 boot1), \<lambda>_. Running)"
    by (rule sys_reach.step) (simp add: sys_step.resume may_call_def boot_facts)
  then show ?thesis
    unfolding boot2_def by (rule sys_reach.step) (simp add: sys_step.start may_call_def boot_facts)
qed

theorem pk_scheduling_witness:
  "pk_inv boot2 \<and> thr_state (threads boot2 2) = PK_THREAD_STATE_MAPPED \<and> i_pk_thread_is_runnable boot2 2"
  using pk_scheduling [OF boot_reach] boot_facts(11,12) by simp

end
