(* ===== verification/Ppe_Arith.thy ===== *)
theory Ppe_Arith
  imports Pk_Queue "HOL-Library.Signed_Division"
begin

text \<open>
  The arithmetic the compiler expects of the run time of the PPE42, a 32-bit core with no
  multiply, divide or 64-bit shift instruction: \<open>ppe42_gcc.c\<close>, \<open>math.c\<close> and the assembler
  routines \<open>div32.S\<close> and \<open>div64.S\<close> they call. Each routine is shown equal to the operation
  it stands for.
\<close>

unbundle bit_operations_syntax

subsection \<open>Shifts and comparison of 64-bit values\<close>

text \<open>\<open>Uint64\<close>: \<open>word[0]\<close> is the high word and \<open>word[1]\<close> the low word.\<close>

definition word0 :: "u64 \<Rightarrow> u32" where
  "word0 x = ucast (drop_bit 32 x)"

definition word1 :: "u64 \<Rightarrow> u32" where
  "word1 x = ucast x"

definition Uint64 :: "u32 \<Rightarrow> u32 \<Rightarrow> u64" where
  "Uint64 w0 w1 = push_bit 32 (ucast w0) OR ucast w1"

definition lshrdi3 :: "u64 \<Rightarrow> nat \<Rightarrow> u64" where
  "lshrdi3 x i =
     (if i = 0 then x
      else if i \<ge> 32 then Uint64 0 (drop_bit (i - 32) (word0 x))
      else Uint64 (drop_bit i (word0 x)) (drop_bit i (word1 x) OR push_bit (32 - i) (word0 x)))"

definition ashldi3 :: "u64 \<Rightarrow> nat \<Rightarrow> u64" where
  "ashldi3 x i =
     (if i = 0 then x
      else if i \<ge> 32 then Uint64 (push_bit (i - 32) (word1 x)) 0
      else Uint64 (push_bit i (word0 x) OR drop_bit (32 - i) (word1 x)) (push_bit i (word1 x)))"

definition ashrdi3 :: "u64 \<Rightarrow> nat \<Rightarrow> u64" where
  "ashrdi3 x i =
     (if i = 0 then x
      else if i \<ge> 32 then Uint64 (signed_drop_bit 31 (word0 x)) (signed_drop_bit (i - 32) (word0 x))
      else Uint64 (signed_drop_bit i (word0 x))
             (drop_bit i (word1 x) OR push_bit (32 - i) (word0 x)))"

definition ucmpdi2 :: "u64 \<Rightarrow> u64 \<Rightarrow> nat" where
  "ucmpdi2 a b =
     (if word0 a < word0 b then 0 else if word0 a > word0 b then 2
      else if word1 a < word1 b then 0 else if word1 a > word1 b then 2 else 1)"

subsection \<open>Population count\<close>

definition popcountsi2 :: "u32 \<Rightarrow> u32" where
  "popcountsi2 x0 =
     (let m1 = 0x55555555; m2 = 0x33333333; m4 = 0x0f0f0f0f;
          x1 = x0 - (drop_bit 1 x0 AND m1);
          x2 = (x1 AND m2) + (drop_bit 2 x1 AND m2);
          x3 = (x2 + drop_bit 4 x2) AND m4;
          x4 = x3 + drop_bit 8 x3
      in (x4 + drop_bit 16 x4) AND 0x3f)"

definition popcountdi2 :: "u64 \<Rightarrow> u32" where
  "popcountdi2 x = popcountsi2 (word0 x) + popcountsi2 (word1 (x AND 0xffffffff))"

subsection \<open>Multiplication\<close>

text \<open>The instruction \<open>mullhwu\<close>: the product of the low halves of its operands.\<close>

definition mullhwu :: "u32 \<Rightarrow> u32 \<Rightarrow> u32" where
  "mullhwu a b = take_bit 16 a * take_bit 16 b"

definition umulsi3 :: "u32 \<Rightarrow> u32 \<Rightarrow> u32" where
  "umulsi3 a b =
     (let d = mullhwu a b;
          d = d + push_bit 16 (mullhwu (drop_bit 16 a) b)
      in d + push_bit 16 (mullhwu (drop_bit 16 b) a))"

definition mulsi3 :: "u32 \<Rightarrow> u32 \<Rightarrow> u32" where
  "mulsi3 a b =
     (let neg = False;
          (a, neg) = (if has_flag a 0x80000000 then (NOT a + 1, \<not> neg) else (a, neg));
          (b, neg) = (if has_flag b 0x80000000 then (NOT b + 1, \<not> neg) else (b, neg));
          d = umulsi3 a b
      in if neg then NOT d + 1 else d)"

function muldi3_loop :: "u64 \<Rightarrow> u64 \<Rightarrow> u64 \<Rightarrow> u64" where
  "muldi3_loop a b acc =
     (if a \<noteq> 0
      then muldi3_loop (drop_bit 1 a) (push_bit 1 b) (if a AND 1 \<noteq> 0 then acc + b else acc)
      else acc)"
  by pat_completeness auto

lemma unat_drop_bit_1: "unat (drop_bit 1 (a :: 'a::len word)) = unat a div 2"
  by (subst unsigned_drop_bit_eq)
    (simp only: take_bit_nat_eq_self [OF unsigned_less] drop_bit_eq_div power_one_right)

lemma unat_drop_bit_1_less: "a \<noteq> 0 \<Longrightarrow> unat (drop_bit 1 a) < unat (a :: 'a::len word)"
  by (simp add: unat_drop_bit_1 unat_gt_0 del: One_nat_def)

termination muldi3_loop
  by (relation "measure (\<lambda>(a, b, acc). unat a)")
    (simp_all add: unat_drop_bit_1_less del: One_nat_def)

declare muldi3_loop.simps [simp del]

definition muldi3 :: "u64 \<Rightarrow> u64 \<Rightarrow> u64" where
  "muldi3 a b = muldi3_loop a b 0"

subsection \<open>Division of 32-bit values\<close>

text \<open>
  \<open>udivmodsi4_loop\<close> of \<open>div32.S\<close>. \<open>udivmodsi4_up\<close> is the loop that aligns the divisor under
  the dividend: \<open>ctr\<close> is the counter register (33 at the call), \<open>r9\<close> the current quotient bit;
  the counter running out is the branch to \<open>.L2\<close>. \<open>udivmodsi4_down\<close> is the loop at \<open>.L5\<close>; it
  returns the remainder in \<open>r3\<close> and the quotient in \<open>r10\<close>.
\<close>

fun udivmodsi4_up :: "nat \<Rightarrow> u32 \<Rightarrow> u32 \<Rightarrow> u32 \<Rightarrow> u32 \<times> u32" where
  "udivmodsi4_up ctr r3 r4 r9 =
     (if r3 \<le> r4 then (r4, r9)
      else if ctr \<le> 1 then (r4, 0)
      else if bit r4 31 then (r4, r9)
      else udivmodsi4_up (ctr - 1) r3 (push_bit 1 r4) (push_bit 1 r9))"

declare udivmodsi4_up.simps [simp del]

function udivmodsi4_down :: "u32 \<Rightarrow> u32 \<Rightarrow> u32 \<Rightarrow> u32 \<Rightarrow> u32 \<times> u32" where
  "udivmodsi4_down r3 r4 r9 r10 =
     (if r9 = 0 then (r3, r10)
      else if r3 < r4 then udivmodsi4_down r3 (drop_bit 1 r4) (drop_bit 1 r9) r10
      else udivmodsi4_down (r3 - r4) (drop_bit 1 r4) (drop_bit 1 r9) (r10 OR r9))"
  by pat_completeness auto

termination udivmodsi4_down
  by (relation "measure (\<lambda>(r3, r4, r9, r10). unat r9)")
    (simp_all add: unat_drop_bit_1_less del: One_nat_def)

declare udivmodsi4_down.simps [simp del]

definition udivmodsi4 :: "u32 \<Rightarrow> u32 \<Rightarrow> bool \<Rightarrow> u32" where
  "udivmodsi4 a b want_mod =
     (let (r4, r9) = udivmodsi4_up 33 a b 1;
          (r3, r10) = udivmodsi4_down a r4 r9 0
      in if want_mod then r3 else r10)"

definition udivsi3 :: "u32 \<Rightarrow> u32 \<Rightarrow> u32" where
  "udivsi3 a b = udivmodsi4 a b False"

definition umodsi3 :: "u32 \<Rightarrow> u32 \<Rightarrow> u32" where
  "umodsi3 a b = udivmodsi4 a b True"

definition divsi3 :: "u32 \<Rightarrow> u32 \<Rightarrow> u32" where
  "divsi3 a b =
     (let neg = False;
          (a, neg) = (if has_flag a 0x80000000 then (NOT a + 1, \<not> neg) else (a, neg));
          (b, neg) = (if has_flag b 0x80000000 then (NOT b + 1, \<not> neg) else (b, neg));
          c = udivsi3 a b
      in if neg then NOT c + 1 else c)"

subsection \<open>Division of 64-bit values\<close>

text \<open>
  \<open>__ppe42_udiv64\<close> of \<open>div64.S\<close>, with each register pair as one 64-bit value: \<open>tmp\<close> is
  \<open>R7:R8\<close>, \<open>dvdnd\<close> is \<open>R3:R4\<close>, the divisor \<open>v\<close> is \<open>R5:R6\<close> and \<open>ca\<close> is the carry bit. A chain of
  \<open>adde\<close> instructions adds a pair to itself with the carry coming in, \<open>adde64\<close>, and leaves
  the carry out.
\<close>

definition leading_zeros :: "u64 \<Rightarrow> nat" where
  "leading_zeros x = (if word0 x \<noteq> 0 then cntlzw (word0 x) else cntlzw (word1 x) + 32)"

definition adde64 :: "u64 \<Rightarrow> bool \<Rightarrow> u64 \<times> bool" where
  "adde64 x ca = (x + x + of_bool ca, bit x 63)"

fun udiv64_loop :: "nat \<Rightarrow> u64 \<Rightarrow> u64 \<Rightarrow> u64 \<Rightarrow> bool \<Rightarrow> u64 \<times> u64 \<times> bool" where
  "udiv64_loop 0 v tmp dvdnd ca = (tmp, dvdnd, ca)"
| "udiv64_loop (Suc n) v tmp dvdnd ca =
     (let (dvdnd, ca) = adde64 dvdnd ca;
          (tmp, ca) = adde64 tmp ca;
          diff = tmp - v
      in if bit diff 63 then udiv64_loop n v tmp dvdnd (v \<le> tmp)
         else udiv64_loop n v diff dvdnd True)"

definition ppe42_udiv64 :: "u64 \<Rightarrow> u64 \<Rightarrow> u64 \<times> u64" where
  "ppe42_udiv64 u v =
     (let lu = leading_zeros u; lv = leading_zeros v
      in if v = 0 then (- 1, - 1)
         else if lu > lv then (0, u)
         else let dvs_SD = 64 - (lv + 1);
                  n = (64 - lu) - dvs_SD;
                  (tmp, dvdnd, ca) =
                    udiv64_loop n v (lshrdi3 u n) (ashldi3 u (lu + dvs_SD)) False
              in (fst (adde64 dvdnd ca), tmp))"

definition udivdi3 :: "u64 \<Rightarrow> u64 \<Rightarrow> u64" where
  "udivdi3 u v = fst (ppe42_udiv64 u v)"

definition umoddi3 :: "u64 \<Rightarrow> u64 \<Rightarrow> u64" where
  "umoddi3 u v = snd (ppe42_udiv64 u v)"

definition ppe42_sdiv64 :: "u64 \<Rightarrow> u64 \<Rightarrow> u64 \<times> u64" where
  "ppe42_sdiv64 u v =
     (let q_negate = ((u <s 0) \<noteq> (v <s 0));
          r_negate = (u <s 0);
          uu = (if u <s 0 then - u else u);
          uv = (if v <s 0 then - v else v);
          (quotient, remainder) = ppe42_udiv64 uu uv
      in (if q_negate then - quotient else quotient,
          if r_negate then - remainder else remainder))"

definition divdi3 :: "u64 \<Rightarrow> u64 \<Rightarrow> u64" where
  "divdi3 u v = fst (ppe42_sdiv64 u v)"

definition moddi3 :: "u64 \<Rightarrow> u64 \<Rightarrow> u64" where
  "moddi3 u v = snd (ppe42_sdiv64 u v)"

subsection \<open>Bits of the two halves\<close>

lemma bit_Uint64: "bit (Uint64 a b) n \<longleftrightarrow> (if n < 32 then bit b n else n < 64 \<and> bit a (n - 32))"
  by (auto simp: Uint64_def bit_simps dest: bit_imp_le_length)

lemma bit_word0: "bit (word0 x) n \<longleftrightarrow> n < 32 \<and> bit x (n + 32)"
  by (auto simp: word0_def bit_simps ac_simps)

lemma bit_word1: "bit (word1 x) n \<longleftrightarrow> n < 32 \<and> bit x n"
  by (auto simp: word1_def bit_simps)

lemmas halves_bits = bit_Uint64 bit_word0 bit_word1

lemma lshrdi3_eq: "i < 64 \<Longrightarrow> lshrdi3 x i = drop_bit i x"
  by (rule bit_word_eqI)
    (auto simp: lshrdi3_def halves_bits bit_simps ac_simps not_less dest: bit_imp_le_length)

lemma ashldi3_eq: "i < 64 \<Longrightarrow> ashldi3 x i = push_bit i x"
  by (rule bit_word_eqI)
    (auto simp: ashldi3_def halves_bits bit_simps ac_simps not_less dest: bit_imp_le_length)

text \<open>The bit an arithmetic shift brings to position \<open>n\<close> is the bit \<open>i\<close> above it, or the sign.\<close>

lemma bit_signed_drop_bit_min:
  "n < LENGTH('a) \<Longrightarrow>
    bit (signed_drop_bit i (w :: 'a::len word)) n \<longleftrightarrow> bit w (min (i + n) (LENGTH('a) - 1))"
  by (auto simp: bit_signed_drop_bit_iff min_def intro!: arg_cong [of _ _ "bit w"])

lemma ashrdi3_eq:
  assumes "i < 64"
  shows "ashrdi3 x i = signed_drop_bit i x"
proof (rule word_eqI_len)
  fix n
  assume n: "n < LENGTH(64)"
  have s: "bit (signed_drop_bit i x) n \<longleftrightarrow> bit x (min (i + n) 63)"
    using n bit_signed_drop_bit_min [of n i x] by simp
  have h: "bit (signed_drop_bit k (word0 x)) m \<longleftrightarrow> bit x (min (k + m) 31 + 32)" if "m < 32" for k m
    using that bit_signed_drop_bit_min [of m k "word0 x"] by (simp add: bit_word0 min_less_iff_disj)
  consider "i = 0" | "32 \<le> i" | "0 < i" "i < 32" by linarith
  then show "bit (ashrdi3 x i) n = bit (signed_drop_bit i x) n"
  proof cases
    case 1
    then show ?thesis by (simp add: ashrdi3_def signed_drop_bit_0)
  next
    case 2
    have "n < 32 \<Longrightarrow> min (i - 32 + n) 31 + 32 = min (i + n) 63"
      and "\<not> n < 32 \<Longrightarrow> min (31 + (n - 32)) 31 + 32 = min (i + n) 63"
      using 2 n by linarith+
    then show ?thesis
      using 2 n unfolding s by (simp add: ashrdi3_def bit_Uint64 h)
  next
    case 3
    show ?thesis
    proof (cases "n < 32")
      case True
      have "n - (32 - i) + 32 = n + i" if "32 - i \<le> n" using that 3 by linarith
      moreover have "min (i + n) 63 = n + i" using 3 True by linarith
      ultimately show ?thesis
        using 3 True unfolding s by (auto simp: ashrdi3_def halves_bits bit_simps ac_simps)
    next
      case False
      have "min (i + (n - 32)) 31 + 32 = min (i + n) 63" using False by linarith
      then show ?thesis
        using 3 False n unfolding s by (simp add: ashrdi3_def bit_Uint64 h)
    qed
  qed
qed

lemma unat_halves: "unat x = unat (word0 x) * 2 ^ 32 + unat (word1 x)"
proof -
  have "unat (word0 x) = unat x div 2 ^ 32"
    using unsigned_less [of x, where 'a = nat]
    by (simp add: word0_def unsigned_ucast_eq unsigned_drop_bit_eq drop_bit_eq_div
        take_bit_eq_mod less_mult_imp_div_less unat_div)
  moreover have "unat (word1 x) = unat x mod 2 ^ 32"
    by (simp add: word1_def unsigned_ucast_eq take_bit_eq_mod)
  ultimately show ?thesis by (metis div_mult_mod_eq)
qed

lemma ucmpdi2_eq: "ucmpdi2 a b = (if a < b then 0 else if a = b then 1 else 2)"
proof -
  have w: "unat (word1 x) < 2 ^ 32" for x
    using unsigned_less [of "word1 x", where 'a = nat] by simp
  have "x < y" if "m < n" "x = m * 2 ^ 32 + p" "y = n * 2 ^ 32 + q" "p < 2 ^ 32" for x y m n p q :: nat
    using that by simp
  note less = this
  have "a < b" if "word0 a < word0 b" for a b
    using that less [OF _ unat_halves unat_halves w, of a b] by (simp add: word_less_nat_alt)
  moreover have "a < b \<longleftrightarrow> word1 a < word1 b" if "word0 a = word0 b" for a b
    using that unat_halves [of a] unat_halves [of b] by (simp add: word_less_nat_alt)
  moreover have "a = b" if "word0 a = word0 b" "word1 a = word1 b" for a b
    using that unat_halves [of a] unat_halves [of b] by (metis word_unat_eq_iff)
  ultimately show ?thesis
    unfolding ucmpdi2_def by (smt (verit) less_asym linorder_neq_iff order_less_irrefl)
qed

subsection \<open>Multiplication is multiplication\<close>

lemma halves32: "(a :: u32) = push_bit 16 (drop_bit 16 a) + take_bit 16 a"
  by (simp add: bits_ident)

lemma push_bit16_take_bit: "push_bit 16 (take_bit 16 (x :: u32)) = push_bit 16 x"
  by (rule bit_word_eqI) (auto simp: bit_simps)

lemma umulsi3_eq: "umulsi3 a b = a * b"
proof -
  define ah al bh bl where "ah = drop_bit 16 a" "al = take_bit 16 a" "bh = drop_bit 16 b" "bl = take_bit 16 b"
  define c :: u32 where "c = 2 ^ 16"
  have a: "a = c * ah + al" and b: "b = c * bh + bl"
    using halves32 [of a] halves32 [of b]
    by (simp_all add: ah_al_bh_bl_def c_def push_bit_eq_mult ac_simps)
  have t: "take_bit 16 ah = ah" "take_bit 16 bh = bh"
    by (rule bit_word_eqI; auto simp: ah_al_bh_bl_def bit_simps dest: bit_imp_le_length)+
  have "c * c = 0" unfolding c_def by code_simp
  then have z: "c * (c * x) = 0" for x by (simp flip: mult.assoc)
  have "umulsi3 a b = al * bl + c * (ah * bl) + c * (bh * al)"
    by (simp add: umulsi3_def mullhwu_def push_bit_eq_mult t ac_simps c_def flip: ah_al_bh_bl_def)
  also have "\<dots> = a * b"
    unfolding a b using z by (simp add: algebra_simps)
  finally show ?thesis .
qed

lemma mulsi3_eq: "mulsi3 a b = a * b"
proof -
  have "NOT x + 1 = - x" for x :: u32 by (simp add: minus_eq_not_plus_1)
  then show ?thesis
    by (simp add: mulsi3_def umulsi3_eq Let_def split: prod.splits if_splits)
qed

lemma muldi3_loop_eq: "muldi3_loop a b acc = acc + a * b"
proof (induction a b acc rule: muldi3_loop.induct)
  case (1 a b acc)
  show ?case
  proof (cases "a = 0")
    case True
    then show ?thesis by (simp add: muldi3_loop.simps)
  next
    case False
    have a: "2 * drop_bit 1 a + (a AND 1) = a"
      using bits_ident [of 1 a] by (simp add: push_bit_eq_mult take_bit_eq_mask mask_eq_exp_minus_1 ac_simps)
    have "muldi3_loop a b acc = (if a AND 1 \<noteq> 0 then acc + b else acc) + drop_bit 1 a * push_bit 1 b"
      using False 1 by (subst muldi3_loop.simps) simp
    also have "\<dots> = acc + (a AND 1) * b + (2 * drop_bit 1 a) * b"
      by (simp add: push_bit_eq_mult and_one_eq)
    also have "\<dots> = acc + (2 * drop_bit 1 a + (a AND 1)) * b"
      by (simp add: algebra_simps)
    finally show ?thesis using a by simp
  qed
qed

lemma muldi3_eq: "muldi3 a b = a * b"
  by (simp add: muldi3_def muldi3_loop_eq)

subsection \<open>The 32-bit division\<close>

lemma unat_push_bit_1: "2 * unat a < 2 ^ LENGTH('a) \<Longrightarrow> unat (push_bit 1 (a :: 'a::len word)) = 2 * unat a"
  by (subst unsigned_push_bit_eq) (simp add: push_bit_eq_mult take_bit_nat_eq_self ac_simps)

lemma bit_msb: "bit (a :: 'a::len word) (LENGTH('a) - 1) \<longleftrightarrow> 2 ^ (LENGTH('a) - 1) \<le> unat a"
proof -
  have l: "2 * 2 ^ (LENGTH('a) - 1) = (2 :: nat) ^ LENGTH('a)"
    by (metis power_Suc Suc_diff_1 len_gt_0)
  then have "unat a div 2 ^ (LENGTH('a) - 1) < 2"
    using unsigned_less [of a, where 'a = nat] by (intro less_mult_imp_div_less) simp
  then have "odd (unat a div 2 ^ (LENGTH('a) - 1)) \<longleftrightarrow> unat a div 2 ^ (LENGTH('a) - 1) \<noteq> 0"
    by (metis One_nat_def even_zero less_2_cases odd_one)
  moreover have "bit a (LENGTH('a) - 1) \<longleftrightarrow> bit (unat a) (LENGTH('a) - 1)"
    by (simp add: bit_unsigned_iff)
  ultimately show ?thesis by (simp add: bit_iff_odd div_eq_0_iff not_less)
qed

text \<open>
  After the first loop \<open>r4\<close> is the divisor shifted by \<open>k\<close>, \<open>r9\<close> is the quotient bit \<open>2 ^ k\<close>, and
  the dividend is below twice \<open>r4\<close>.
\<close>

lemma udivmodsi4_up_aligned:
  assumes "unat r4 = unat b * 2 ^ j" "unat r9 = 2 ^ j" "b \<noteq> 0" "33 - j \<le> ctr" "j < 32"
  shows "\<exists>k < 32. unat (fst (udivmodsi4_up ctr a r4 r9)) = unat b * 2 ^ k
      \<and> unat (snd (udivmodsi4_up ctr a r4 r9)) = 2 ^ k
      \<and> unat a < 2 * unat b * 2 ^ k"
  using assms
proof (induction ctr arbitrary: j r4 r9)
  case 0
  then show ?case by simp
next
  case (Suc ctr)
  have a: "unat a < 2 ^ 32" using unsigned_less [of a, where 'a = nat] by simp
  show ?case
  proof (cases "a \<le> r4 \<or> bit r4 31")
    case True
    have "0 < unat r4" using Suc.prems(1,3) by (simp add: unat_gt_0)
    moreover have "unat a \<le> unat r4 \<or> 2 ^ 31 \<le> unat r4"
      using True bit_msb [of r4] by (auto simp: word_le_nat_alt)
    ultimately have "unat a < 2 * unat r4" using a by auto
    then have "unat a < 2 * unat b * 2 ^ j" using Suc.prems(1) by simp
    moreover have "udivmodsi4_up (Suc ctr) a r4 r9 = (r4, r9)"
      using True Suc.prems(4,5) by (subst udivmodsi4_up.simps) auto
    ultimately show ?thesis using Suc.prems by auto
  next
    case False
    then have lt: "unat r4 < 2 ^ 31" using bit_msb [of r4] by simp
    have "(2 :: nat) ^ j \<le> unat b * 2 ^ j" using Suc.prems(3) by (simp add: Suc_le_eq unat_gt_0)
    then have "(2 :: nat) ^ j < 2 ^ 31" using lt Suc.prems(1) by linarith
    then have j: "j < 31" by (simp del: power_numeral)
    have r: "udivmodsi4_up (Suc ctr) a r4 r9 = udivmodsi4_up ctr a (push_bit 1 r4) (push_bit 1 r9)"
      using False j Suc.prems(4) by (subst udivmodsi4_up.simps) auto
    have "unat (push_bit 1 r4) = unat b * 2 ^ Suc j"
      using lt Suc.prems(1) by (subst unat_push_bit_1) auto
    moreover have "unat (push_bit 1 r9) = 2 ^ Suc j"
      using \<open>2 ^ j < 2 ^ 31\<close> Suc.prems(2) by (subst unat_push_bit_1) auto
    ultimately show ?thesis
      unfolding r using Suc.prems(3,4) j by (intro Suc.IH [of _ "Suc j"]) auto
  qed
qed

lemma unat_or_low_bit:
  assumes "2 ^ Suc k dvd unat x" "unat y = 2 ^ k"
  shows "unat (x OR y) = unat x + 2 ^ k"
proof -
  obtain m where "unat x = push_bit (Suc k) m"
    using assms(1) by (auto simp: dvd_def push_bit_eq_mult ac_simps)
  then have "unat x + 2 ^ k = unat x OR 2 ^ k"
    by (intro disjunctive_add) (auto simp: bit_simps bit_0)
  then show ?thesis using assms(2) by (simp add: unsigned_or_eq)
qed

lemma restore_arith:
  fixes r b p :: nat
  assumes "b * p \<le> r" "b \<noteq> 0"
  shows "(r - b * p) mod b = r mod b" "(r - b * p) div b + p = r div b"
proof -
  obtain d where "r = b * p + d" using assms le_Suc_ex by blast
  then show "(r - b * p) mod b = r mod b" by simp
  show "(r - b * p) div b + p = r div b"
    using \<open>r = b * p + d\<close> assms(2) by simp
qed

lemma udivmodsi4_down_step:
  assumes "unat r4 = unat b * 2 ^ k" "unat r9 = 2 ^ k" "b \<noteq> 0"
    and "unat r3 < 2 * unat b * 2 ^ k" "2 ^ Suc k dvd unat r10"
  obtains r3' r10' where
    "udivmodsi4_down r3 r4 r9 r10 = udivmodsi4_down r3' (drop_bit 1 r4) (drop_bit 1 r9) r10'"
    "unat r3' < unat b * 2 ^ k" "2 ^ k dvd unat r10'" "unat r3' mod unat b = unat r3 mod unat b"
    "unat r10' + unat r3' div unat b = unat r10 + unat r3 div unat b"
proof (cases "r3 < r4")
  case True
  have "r9 \<noteq> 0" using assms(2) by auto
  then have "udivmodsi4_down r3 r4 r9 r10 = udivmodsi4_down r3 (drop_bit 1 r4) (drop_bit 1 r9) r10"
    using True by (subst udivmodsi4_down.simps) simp
  moreover have "2 ^ k dvd unat r10" using power_le_dvd [OF assms(5), of k] by simp
  ultimately show ?thesis using True assms(1) that [of r3 r10] by (simp add: word_less_nat_alt)
next
  case False
  then have le: "unat b * 2 ^ k \<le> unat r3" using assms(1) by (simp add: word_less_nat_alt)
  then have s: "unat (r3 - r4) = unat r3 - unat b * 2 ^ k"
    using assms(1) by (subst unat_sub_le) auto
  note o = unat_or_low_bit [OF assms(5,2)]
  have "unat b \<noteq> 0" using assms(3) by (simp add: unat_eq_zero)
  note ra = restore_arith [OF le this]
  have "r9 \<noteq> 0" using assms(2) by auto
  then have "udivmodsi4_down r3 r4 r9 r10
      = udivmodsi4_down (r3 - r4) (drop_bit 1 r4) (drop_bit 1 r9) (r10 OR r9)"
    using False by (subst udivmodsi4_down.simps) simp
  moreover have "2 ^ k dvd unat (r10 OR r9)"
    unfolding o using power_le_dvd [OF assms(5), of k] by simp
  moreover have "unat (r3 - r4) < unat b * 2 ^ k" unfolding s using assms(4) le by linarith
  moreover have "unat (r10 OR r9) + unat (r3 - r4) div unat b = unat r10 + unat r3 div unat b"
    unfolding s o using ra(2) by simp
  ultimately show ?thesis using that [of "r3 - r4" "r10 OR r9"] ra(1) s by simp
qed

lemma udivmodsi4_down_divides:
  assumes "unat r4 = unat b * 2 ^ k" "unat r9 = 2 ^ k" "b \<noteq> 0"
    and "unat r3 < 2 * unat b * 2 ^ k" "2 ^ Suc k dvd unat r10"
  shows "unat (fst (udivmodsi4_down r3 r4 r9 r10)) = unat r3 mod unat b
    \<and> unat (snd (udivmodsi4_down r3 r4 r9 r10)) = unat r10 + unat r3 div unat b"
  using assms
proof (induction k arbitrary: r3 r4 r9 r10)
  case 0
  obtain r3' r10' where *:
    "udivmodsi4_down r3 r4 r9 r10 = udivmodsi4_down r3' (drop_bit 1 r4) (drop_bit 1 r9) r10'"
    "unat r3' < unat b * 2 ^ 0" "unat r3' mod unat b = unat r3 mod unat b"
    "unat r10' + unat r3' div unat b = unat r10 + unat r3 div unat b"
    by (rule udivmodsi4_down_step [OF 0])
  have "unat (drop_bit 1 r9) = 0" unfolding unat_drop_bit_1 using 0 by simp
  then have "drop_bit 1 r9 = 0" by (simp only: unat_eq_zero)
  then have "udivmodsi4_down r3' (drop_bit 1 r4) (drop_bit 1 r9) r10' = (r3', r10')"
    by (subst udivmodsi4_down.simps) simp
  then show ?case using * by simp
next
  case (Suc k)
  obtain r3' r10' where *:
    "udivmodsi4_down r3 r4 r9 r10 = udivmodsi4_down r3' (drop_bit 1 r4) (drop_bit 1 r9) r10'"
    "unat r3' < unat b * 2 ^ Suc k" "2 ^ Suc k dvd unat r10'" "unat r3' mod unat b = unat r3 mod unat b"
    "unat r10' + unat r3' div unat b = unat r10 + unat r3 div unat b"
    by (rule udivmodsi4_down_step [OF Suc.prems])
  show ?case
    unfolding *(1) *(4,5) [symmetric] using Suc.prems *(2,3)
    by (intro Suc.IH) (simp_all only: unat_drop_bit_1, simp_all)
qed

lemma udivsi3_umodsi3:
  assumes "b \<noteq> 0"
  shows "udivsi3 a b = a div b" "umodsi3 a b = a mod b"
proof -
  define r4 r9 where "r4 = fst (udivmodsi4_up 33 a b 1)" "r9 = snd (udivmodsi4_up 33 a b 1)"
  obtain k where k: "unat r4 = unat b * 2 ^ k" "unat r9 = 2 ^ k" "unat a < 2 * unat b * 2 ^ k"
    using udivmodsi4_up_aligned [of b b 0 1 33 a] assms by (auto simp: r4_r9_def)
  have "unat (fst (udivmodsi4_down a r4 r9 0)) = unat a mod unat b
      \<and> unat (snd (udivmodsi4_down a r4 r9 0)) = unat a div unat b"
    using udivmodsi4_down_divides [OF k(1,2) assms k(3), of 0] by simp
  then show "udivsi3 a b = a div b" "umodsi3 a b = a mod b"
    by (simp_all add: udivsi3_def umodsi3_def udivmodsi4_def split_beta word_unat_eq_iff
        unat_div unat_mod flip: r4_r9_def)
qed

subsection \<open>Signed division by division of the magnitudes\<close>

definition magnitude :: "'a::len word \<Rightarrow> 'a word" where
  "magnitude x = (if x <s 0 then - x else x)"

lemma sless_0: "x <s 0 \<longleftrightarrow> sint x < 0"
  by (simp add: word_sless_alt)

lemma magnitude_of_int: "magnitude x = word_of_int \<bar>sint x\<bar>"
  by (simp add: magnitude_def sless_0 abs_if)

lemma uint_magnitude: "uint (magnitude (x :: 'a::len word)) = \<bar>sint x\<bar>"
proof -
  have "(2 :: int) ^ (LENGTH('a) - 1) < 2 ^ LENGTH('a)" by simp
  then have "\<bar>sint x\<bar> < 2 ^ LENGTH('a)" using sint_ge [of x] sint_lt [of x] by linarith
  then show ?thesis by (simp add: magnitude_of_int unsigned_of_int take_bit_int_eq_self)
qed

lemma magnitude_eq_0: "magnitude x = 0 \<longleftrightarrow> x = 0"
  by (simp add: magnitude_def)

lemma sign_quotient:
  "(if (u <s 0) \<noteq> (v <s 0) then - (magnitude u div magnitude v) else magnitude u div magnitude v)
    = word_of_int (sint u sdiv sint v)"
proof -
  have "magnitude u div magnitude v = word_of_int (\<bar>sint u\<bar> div \<bar>sint v\<bar>)"
    by (simp add: word_div_def uint_magnitude)
  then show ?thesis
    by (auto simp: sless_0 signed_divide_int_def sgn_if)
qed

lemma sign_remainder:
  "(if u <s 0 then - (magnitude u mod magnitude v) else magnitude u mod magnitude v)
    = word_of_int (sint u smod sint v)"
proof -
  have "magnitude u mod magnitude v = word_of_int (\<bar>sint u\<bar> mod \<bar>sint v\<bar>)"
    by (simp add: word_mod_def uint_magnitude)
  then show ?thesis
    by (auto simp: sless_0 signed_modulo_int_def sgn_if)
qed

lemma has_flag_sign: "has_flag a 0x80000000 \<longleftrightarrow> (a :: u32) <s 0"
proof -
  have "a AND 0x80000000 \<noteq> 0 \<longleftrightarrow> bit a 31"
    using bit_iff_and_push_bit_not_eq_0 [of a 31] by simp
  moreover have "bit a 31 \<longleftrightarrow> sint a < 0"
    using bit_last_iff [of a] by simp
  ultimately show ?thesis by (simp add: has_flag_def sless_0)
qed

lemma divsi3_eq:
  assumes "b \<noteq> 0"
  shows "divsi3 a b = word_of_int (sint a sdiv sint b)"
proof -
  have "NOT x + 1 = - x" for x :: u32 by (simp add: minus_eq_not_plus_1)
  then have "divsi3 a b = (if (a <s 0) \<noteq> (b <s 0) then - udivsi3 (magnitude a) (magnitude b)
      else udivsi3 (magnitude a) (magnitude b))"
    by (simp add: divsi3_def has_flag_sign magnitude_def)
  then show ?thesis
    using assms sign_quotient [of a b] by (simp add: udivsi3_umodsi3 magnitude_eq_0 split: if_splits)
qed

subsection \<open>The 64-bit division\<close>

lemma cntlzw_bounds:
  assumes "w \<noteq> 0"
  shows "cntlzw w < 32 \<and> 2 ^ (31 - cntlzw w) \<le> unat w \<and> unat w < 2 ^ (32 - cntlzw w)"
proof -
  define k where "k = cntlzw w"
  obtain j where "bit w j" "j < 32" using assms by (auto simp: bit_eq_iff dest: bit_imp_le_length)
  then have lt: "k < 32" using clz_below_min [of 32 j w] by (simp add: k_def cntlzw_def)
  then have top: "bit w (31 - k)" using clz_below_bit [of 32 w] by (simp add: k_def cntlzw_def)
  have above: "\<not> bit w i" if "31 - k < i" for i
    using that lt clz_below_min [of 32 i w] bit_imp_le_length [of w i]
    by (auto simp: k_def cntlzw_def)
  have "2 ^ (31 - k) \<le> unat w"
  proof (rule ccontr)
    assume "\<not> 2 ^ (31 - k) \<le> unat w"
    then have "\<not> bit (unat w) (31 - k)" by (simp add: bit_iff_odd)
    then show False using top by (simp add: bit_unsigned_iff)
  qed
  moreover have "unat w < 2 ^ (32 - k)"
  proof -
    have "n < 32 - k" if "bit w n" for n
      using above [of n] that lt by fastforce
    then have "take_bit (32 - k) (unat w) = unat w"
      by (intro bit_eqI) (auto simp: bit_simps)
    then show ?thesis by (simp add: take_bit_nat_eq_self_iff)
  qed
  ultimately show ?thesis using lt by (simp flip: k_def)
qed

lemma leading_zeros_bounds:
  assumes "x \<noteq> 0"
  shows "leading_zeros x < 64 \<and> 2 ^ (63 - leading_zeros x) \<le> unat x \<and> unat x < 2 ^ (64 - leading_zeros x)"
proof (cases "word0 x = 0")
  case True
  then have "unat x = unat (word1 x)" using unat_halves [of x] by simp
  moreover from this have "word1 x \<noteq> 0" using assms by (metis unat_eq_zero)
  ultimately show ?thesis
    using cntlzw_bounds [of "word1 x"] True by (simp add: leading_zeros_def)
next
  case False
  define k where "k = cntlzw (word0 x)"
  have k: "k < 32" "2 ^ (31 - k) \<le> unat (word0 x)" "unat (word0 x) < 2 ^ (32 - k)"
    using cntlzw_bounds [OF False] by (simp_all add: k_def)
  have w: "unat (word1 x) < 2 ^ 32" using unsigned_less [of "word1 x", where 'a = nat] by simp
  have "(2 :: nat) ^ (63 - k) = 2 ^ (31 - k) * 2 ^ 32" "(2 :: nat) ^ (64 - k) = 2 ^ (32 - k) * 2 ^ 32"
    using k(1) by (simp_all only: flip: power_add) (rule arg_cong, linarith)+
  moreover have "(unat (word0 x) + 1) * 2 ^ 32 \<le> 2 ^ (32 - k) * 2 ^ 32"
    using k(3) by (intro mult_right_mono) auto
  moreover have "2 ^ (31 - k) * 2 ^ 32 \<le> unat (word0 x) * 2 ^ 32"
    using k(2) by (intro mult_right_mono) auto
  ultimately show ?thesis
    using False k(1) w unat_halves [of x] by (simp add: leading_zeros_def flip: k_def)
qed

text \<open>
  The invariant of the shift-and-subtract loop with \<open>m\<close> bits of the dividend \<open>U\<close> left to bring
  down: \<open>tmp\<close> is the remainder of the bits consumed so far, and the register pair \<open>dvdnd\<close> holds
  the bits to come above the quotient so far, whose last bit is in the carry.
\<close>

definition div_inv :: "nat \<Rightarrow> nat \<Rightarrow> nat \<Rightarrow> u64 \<Rightarrow> u64 \<Rightarrow> bool \<Rightarrow> bool" where
  "div_inv U V m tmp dvdnd ca \<longleftrightarrow>
     (let X = U div 2 ^ m; q = X div V
      in unat tmp = X mod V \<and> unat dvdnd = (U mod 2 ^ m) * 2 ^ (64 - m) + q div 2 \<and> ca = odd q)"

lemma adde64_unat:
  "adde64 x ca = (y, c) \<Longrightarrow> 2 * unat x + of_bool ca = of_bool c * 2 ^ 64 + unat y"
proof -
  assume a: "adde64 x ca = (y, c)"
  have x: "unat x < 2 ^ 64" using unsigned_less [of x, where 'a = nat] by simp
  have c: "c \<longleftrightarrow> 2 ^ 63 \<le> unat x" using a bit_msb [of x] by (simp add: adde64_def)
  have "unat y = (2 * unat x + of_bool ca) mod 2 ^ 64"
    using a by (auto simp: adde64_def unat_word_ariths mod_simps)
  moreover have "(2 * unat x + of_bool ca) mod 2 ^ 64 = 2 * unat x + of_bool ca - of_bool c * 2 ^ 64"
    using x by (cases c) (auto simp: c le_mod_geq)
  ultimately show ?thesis using c by auto
qed

lemma split_low_bit:
  fixes U :: nat
  shows "U div 2 ^ m = 2 * (U div 2 ^ Suc m) + U div 2 ^ m mod 2"
    and "U mod 2 ^ Suc m = (U div 2 ^ m mod 2) * 2 ^ m + U mod 2 ^ m"
  by (simp_all add: div_mult2_eq mod_mult2_eq power_Suc2 del: power_Suc)

lemma double_div:
  fixes X V b :: nat
  assumes "V > 0" "b < 2"
  shows "(2 * X + b) div V = 2 * (X div V) + of_bool (V \<le> 2 * (X mod V) + b)"
    and "(2 * X + b) mod V = 2 * (X mod V) + b - V * of_bool (V \<le> 2 * (X mod V) + b)"
proof -
  define q r where "q = X div V" "r = X mod V"
  have "X = q * V + r" "r < V" using assms(1) by (simp_all add: q_r_def)
  then have e: "2 * X + b = 2 * q * V + (2 * r + b)" and lt: "2 * r + b < 2 * V"
    using assms(2) by auto
  have d: "(2 * r + b) div V = of_bool (V \<le> 2 * r + b)"
    and m: "(2 * r + b) mod V = 2 * r + b - V * of_bool (V \<le> 2 * r + b)"
    using lt by (auto simp: le_div_geq le_mod_geq)
  show "(2 * X + b) div V = 2 * (X div V) + of_bool (V \<le> 2 * (X mod V) + b)"
    using assms(1) d unfolding e q_r_def [symmetric] by simp
  show "(2 * X + b) mod V = 2 * (X mod V) + b - V * of_bool (V \<le> 2 * (X mod V) + b)"
    using m unfolding e q_r_def [symmetric] by simp
qed

lemma dividend_shift:
  assumes "div_inv U V (Suc m) tmp dvdnd ca" "m < 64" "U < 2 ^ 64" "adde64 dvdnd ca = (dvdnd', c)"
  shows "of_bool c = U div 2 ^ m mod 2"
    and "unat dvdnd' = (U mod 2 ^ m) * 2 ^ (64 - m) + U div 2 ^ Suc m div V"
proof -
  define b q L where "b = U div 2 ^ m mod 2" "q = U div 2 ^ Suc m div V" "L = U mod 2 ^ m"
  define p :: nat where "p = 2 ^ (64 - m)"
  have p2: "p = 2 * 2 ^ (63 - m)" and pm: "2 ^ m * p = 2 ^ 64"
    using assms(2) by (simp_all add: p_def Suc_diff_le flip: power_Suc power_add)
  have "q \<le> U div 2 ^ Suc m" unfolding b_q_L_def by (rule div_le_dividend)
  also have "\<dots> < 2 ^ (63 - m)"
    using assms(2,3) by (intro less_mult_imp_div_less) (simp flip: power_Suc power_add)
  finally have qp: "q < p" unfolding p2 by linarith
  have Lp: "L * p + p \<le> 2 ^ 64"
    using mult_right_mono [of "L + 1" "2 ^ m" p] pm by (simp add: b_q_L_def Suc_le_eq)
  have "unat dvdnd = (U mod 2 ^ Suc m) * 2 ^ (63 - m) + q div 2" "ca = odd q"
    using assms(1) by (simp_all add: div_inv_def Let_def b_q_L_def)
  moreover have "2 * (q div 2) + of_bool (odd q) = q" by (cases "odd q") auto
  ultimately have "2 * unat dvdnd + of_bool ca = (U mod 2 ^ Suc m) * p + q"
    by (simp add: p2)
  also have "\<dots> = b * 2 ^ 64 + (L * p + q)"
    unfolding split_low_bit(2) [of U m] b_q_L_def [symmetric] pm [symmetric] by (simp add: algebra_simps)
  finally have "of_bool c * 2 ^ 64 + unat dvdnd' = b * 2 ^ 64 + (L * p + q)"
    using adde64_unat [OF assms(4)] by simp
  moreover have "unat dvdnd' < 2 ^ 64" using unsigned_less [of dvdnd', where 'a = nat] by simp
  moreover have "b = 0 \<or> b = 1" by (auto simp: b_q_L_def)
  moreover have "L * p + q < 2 ^ 64" using Lp qp by simp
  ultimately have "of_bool c = b \<and> unat dvdnd' = L * p + q"
    by (elim disjE; cases c; simp only: of_bool_eq mult_0 mult_1) linarith+
  then show "of_bool c = U div 2 ^ m mod 2"
    and "unat dvdnd' = (U mod 2 ^ m) * 2 ^ (64 - m) + U div 2 ^ Suc m div V"
    by (simp_all add: b_q_L_def p_def)
qed

lemma bit_63_diff:
  fixes x v :: u64
  assumes "unat v \<le> 2 ^ 63 + unat x" "unat x < 2 ^ 63 + unat v"
  shows "bit (x - v) 63 \<longleftrightarrow> x < v"
proof (cases "x < v")
  case True
  then have "unat (x - v) = 2 ^ 64 + unat x - unat v"
    by (simp add: unat_sub_if' word_le_nat_alt word_less_nat_alt)
  then show ?thesis using True assms bit_msb [of "x - v"] by simp
next
  case False
  then have "unat (x - v) = unat x - unat v"
    by (intro unat_sub_le) (simp add: word_less_nat_alt)
  then show ?thesis using False assms bit_msb [of "x - v"] by (auto simp: word_less_nat_alt)
qed

lemma udiv64_step:
  assumes inv: "div_inv U (unat v) (Suc m) tmp dvdnd ca" and m: "m < 64" and U: "U < 2 ^ 64"
    and V: "v \<noteq> 0" and big: "unat v \<le> 2 ^ 63 \<or> m = 0 \<and> 2 ^ 63 \<le> U"
  obtains tmp' dvdnd' ca' where
    "udiv64_loop (Suc n) v tmp dvdnd ca = udiv64_loop n v tmp' dvdnd' ca'"
    "div_inv U (unat v) m tmp' dvdnd' ca'"
proof -
  define V where "V = unat v"
  obtain dvdnd' c where d: "adde64 dvdnd ca = (dvdnd', c)" by (cases "adde64 dvdnd ca")
  obtain t c' where t: "adde64 tmp c = (t, c')" by (cases "adde64 tmp c")
  note ds = dividend_shift [OF inv m U d]
  define X b r where "X = U div 2 ^ Suc m" "b = U div 2 ^ m mod 2" "r = X mod V"
  have V0: "V > 0" using V by (simp add: V_def unat_gt_0)
  have b: "b < 2" by (simp add: X_b_r_def)
  have "X < 2 ^ 63" unfolding X_b_r_def using U
    by (intro less_mult_imp_div_less) (simp add: less_le_trans)
  then have r: "r < 2 ^ 63" "r < V" using V0 by (auto simp: X_b_r_def intro: le_less_trans [OF mod_less_eq_dividend])
  have X': "U div 2 ^ m = 2 * X + b" using split_low_bit(1) [of U m] by (simp add: X_b_r_def)
  have "of_bool c' * 2 ^ 64 + unat t = 2 * r + b"
    using adde64_unat [OF t] inv ds(1) by (simp add: div_inv_def Let_def X_b_r_def V_def)
  then have T: "unat t = 2 * r + b" using r(1) b by (cases c') auto
  have "V \<le> 2 ^ 63 + (2 * r + b)"
  proof (cases "V \<le> 2 ^ 63")
    case False
    then have "2 ^ 63 \<le> 2 * X + b" "r = X" using big X' \<open>X < 2 ^ 63\<close> by (auto simp: V_def X_b_r_def)
    moreover have "V < 2 ^ 64" using unsigned_less [of v, where 'a = nat] by (simp add: V_def)
    ultimately show ?thesis by simp
  qed simp
  then have sgn: "bit (t - v) 63 \<longleftrightarrow> t < v"
    using r b by (intro bit_63_diff) (auto simp: T V_def)
  note dd = double_div [OF V0 b, of X, folded X_b_r_def(3) X']
  have q2: "(2 * (X div V) + of_bool P) div 2 = X div V" for P by (cases P) auto
  show ?thesis
  proof (rule that)
    show "udiv64_loop (Suc n) v tmp dvdnd ca
        = udiv64_loop n v (if t < v then t else t - v) dvdnd' (v \<le> t)"
      using sgn by (auto simp: d t Let_def not_less)
    show "div_inv U (unat v) m (if t < v then t else t - v) dvdnd' (v \<le> t)"
      using ds(2) T unat_sub_le [of v t]
      by (auto simp: div_inv_def Let_def dd q2 X_b_r_def(1) word_less_nat_alt word_le_nat_alt
          simp flip: V_def)
  qed
qed

lemma udiv64_loop_divides:
  assumes "div_inv U (unat v) m tmp dvdnd ca" "m \<le> 64" "U < 2 ^ 64" "v \<noteq> 0"
    and "unat v \<le> 2 ^ 63 \<or> m \<le> 1 \<and> 2 ^ 63 \<le> U"
    and "udiv64_loop m v tmp dvdnd ca = (tmp', dvdnd', ca')"
  shows "unat (fst (adde64 dvdnd' ca')) = U div unat v \<and> unat tmp' = U mod unat v"
  using assms
proof (induction m arbitrary: tmp dvdnd ca)
  case 0
  then have i: "unat tmp' = U mod unat v" "unat dvdnd' = U div unat v div 2" "ca' = odd (U div unat v)"
    by (simp_all add: div_inv_def Let_def)
  obtain y c where y: "adde64 dvdnd' ca' = (y, c)" by (cases "adde64 dvdnd' ca'")
  have "2 * (U div unat v div 2) + of_bool (odd (U div unat v)) = U div unat v"
    by (cases "odd (U div unat v)") auto
  then have "of_bool c * 2 ^ 64 + unat y = U div unat v"
    using adde64_unat [OF y] i by simp
  moreover have "U div unat v < 2 ^ 64" using 0 by (meson div_le_dividend le_less_trans)
  ultimately show ?case using i y by (cases c) auto
next
  case (Suc m)
  have "m < 64" "unat v \<le> 2 ^ 63 \<or> m = 0 \<and> 2 ^ 63 \<le> U" using Suc.prems by auto
  then obtain tmp1 dvdnd1 ca1 where s:
    "udiv64_loop (Suc m) v tmp dvdnd ca = udiv64_loop m v tmp1 dvdnd1 ca1"
    "div_inv U (unat v) m tmp1 dvdnd1 ca1"
    using udiv64_step [OF Suc.prems(1) _ Suc.prems(3,4), of m] by metis
  have "unat v \<le> 2 ^ 63 \<or> m \<le> 1 \<and> 2 ^ 63 \<le> U" using Suc.prems(5) by auto
  then show ?case using Suc.IH [OF s(2)] Suc.prems(2-4,6) s(1) by simp
qed

lemma ppe42_udiv64_eq:
  assumes "v \<noteq> 0"
  shows "ppe42_udiv64 u v = (u div v, u mod v)"
proof -
  define lu lv where "lu = leading_zeros u" "lv = leading_zeros v"
  define U V where "U = unat u" "V = unat v"
  have V: "lv < 64" "2 ^ (63 - lv) \<le> V" "V < 2 ^ (64 - lv)"
    using leading_zeros_bounds [OF assms] by (simp_all add: lu_lv_def U_V_def)
  have U64: "U < 2 ^ 64" using unsigned_less [of u, where 'a = nat] by (simp add: U_V_def)
  have U: "U < 2 ^ (64 - lu)"
    using leading_zeros_bounds [of u] by (cases "u = 0") (simp_all add: lu_lv_def U_V_def)
  show ?thesis
  proof (cases "lu > lv")
    case True
    then have "(2 :: nat) ^ (64 - lu) \<le> 2 ^ (63 - lv)" by (intro power_increasing) auto
    then have "unat u < unat v" using U V(2) unfolding U_V_def by linarith
    then have "u div v = 0" "u mod v = u" by (simp_all add: word_unat_eq_iff unat_div unat_mod)
    then show ?thesis using True assms by (simp add: ppe42_udiv64_def flip: lu_lv_def)
  next
    case False
    define n where "n = lv - lu + 1"
    have n: "64 - lu - (64 - (lv + 1)) = n" "lu + (64 - (lv + 1)) = 64 - n" "0 < n" "n \<le> 64"
      using False V(1) by (auto simp: n_def)
    have "(63 - lv) + n = 64 - lu" using False V(1) by (simp add: n_def)
    then have "U div 2 ^ n < 2 ^ (63 - lv)"
      using U by (intro less_mult_imp_div_less) (simp flip: power_add)
    then have X: "U div 2 ^ n < V" using V(2) by simp
    have s: "lshrdi3 u n = drop_bit n u"
    proof (cases "n < 64")
      case False
      then have "n = 64" using n(4) by simp
      then show ?thesis
        by (intro bit_word_eqI) (auto simp: lshrdi3_def halves_bits bit_drop_bit_eq dest: bit_imp_le_length)
    qed (rule lshrdi3_eq)
    have t: "unat (lshrdi3 u n) = U div 2 ^ n"
      unfolding s U_V_def
      by (subst unsigned_drop_bit_eq) (simp only: take_bit_nat_eq_self [OF unsigned_less] drop_bit_eq_div)
    have "unat (push_bit (64 - n) u) = (U * 2 ^ (64 - n)) mod 2 ^ LENGTH(64)"
      by (subst unsigned_push_bit_eq) (simp only: take_bit_eq_mod push_bit_eq_mult U_V_def)
    moreover have "(2 :: nat) ^ LENGTH(64) = 2 ^ n * 2 ^ (64 - n)"
      using n(4) by (simp flip: power_add)
    moreover have "ashldi3 u (64 - n) = push_bit (64 - n) u"
      by (rule ashldi3_eq) (use n in simp)
    ultimately have "unat (ashldi3 u (64 - n)) = (U * 2 ^ (64 - n)) mod (2 ^ n * 2 ^ (64 - n))"
      by (simp only:)
    then have d: "unat (ashldi3 u (64 - n)) = (U mod 2 ^ n) * 2 ^ (64 - n)"
      by (simp only: mult_mod_left)
    have i: "div_inv U (unat v) n (lshrdi3 u n) (ashldi3 u (64 - n)) False"
      using X by (simp add: div_inv_def t d flip: U_V_def)
    have "V \<le> 2 ^ 63 \<or> n \<le> 1 \<and> 2 ^ 63 \<le> U"
    proof (cases "lv = 0")
      case True
      then have "lu = 0" "u \<noteq> 0" using False by (auto simp: lu_lv_def leading_zeros_def word0_def)
      then show ?thesis
        using True leading_zeros_bounds [of u] by (simp add: n_def lu_lv_def U_V_def)
    next
      case False
      then have "(2 :: nat) ^ (64 - lv) \<le> 2 ^ 63" by (intro power_increasing) auto
      then show ?thesis using V(3) by linarith
    qed
    then have b: "unat v \<le> 2 ^ 63 \<or> n \<le> 1 \<and> 2 ^ 63 \<le> U" by (simp add: U_V_def)
    obtain tmp' dvdnd' ca' where
      l: "udiv64_loop n v (lshrdi3 u n) (ashldi3 u (64 - n)) False = (tmp', dvdnd', ca')"
      by (cases "udiv64_loop n v (lshrdi3 u n) (ashldi3 u (64 - n)) False")
    have "ppe42_udiv64 u v = (fst (adde64 dvdnd' ca'), tmp')"
      unfolding ppe42_udiv64_def Let_def lu_lv_def [symmetric] n(1,2) l
      using False assms by simp
    then show ?thesis
      using udiv64_loop_divides [OF i n(4) U64 assms b l]
      by (simp add: word_unat_eq_iff unat_div unat_mod U_V_def)
  qed
qed

lemma ppe42_sdiv64_eq:
  assumes "v \<noteq> 0"
  shows "ppe42_sdiv64 u v = (word_of_int (sint u sdiv sint v), word_of_int (sint u smod sint v))"
proof -
  have "ppe42_udiv64 (magnitude u) (magnitude v) = (magnitude u div magnitude v, magnitude u mod magnitude v)"
    using assms by (simp add: ppe42_udiv64_eq magnitude_eq_0)
  then show ?thesis
    unfolding ppe42_sdiv64_def Let_def magnitude_def [symmetric]
    using sign_quotient [of u v] sign_remainder [of u v] by simp
qed

text \<open>
  Property C29. Every arithmetic routine of the run time computes the operation the compiler
  asks for: the 64-bit shifts for counts below 64, the three-way comparison, the products modulo
  the width, and quotient and remainder, unsigned and signed (truncating), for every non-zero
  divisor; the most negative dividend is included, where the quotient wraps.
\<close>

theorem runtime_arithmetic_correct:
  assumes "i < 64" "b \<noteq> 0" "v \<noteq> 0"
  shows "lshrdi3 x i = drop_bit i x \<and> ashldi3 x i = push_bit i x \<and> ashrdi3 x i = signed_drop_bit i x
    \<and> ucmpdi2 x y = (if x < y then 0 else if x = y then 1 else 2)
    \<and> umulsi3 a b = a * b \<and> mulsi3 a b = a * b \<and> muldi3 u v = u * v
    \<and> udivsi3 a b = a div b \<and> umodsi3 a b = a mod b
    \<and> divsi3 a b = word_of_int (sint a sdiv sint b)
    \<and> udivdi3 u v = u div v \<and> umoddi3 u v = u mod v
    \<and> divdi3 u v = word_of_int (sint u sdiv sint v)
    \<and> moddi3 u v = word_of_int (sint u smod sint v)"
  using assms
  by (simp add: lshrdi3_eq ashldi3_eq ashrdi3_eq ucmpdi2_eq umulsi3_eq mulsi3_eq muldi3_eq
      udivsi3_umodsi3 divsi3_eq udivdi3_def umoddi3_def ppe42_udiv64_eq divdi3_def moddi3_def
      ppe42_sdiv64_eq)

theorem runtime_arithmetic_correct_witness:
  "udivdi3 1000 7 = 142 \<and> umoddi3 1000 7 = 6 \<and> divsi3 (- 7) 2 = - 3 \<and> ashrdi3 (- 8) 2 = - 2"
  using runtime_arithmetic_correct [of 2 2 7 "- 8" 0 "- 7" 1000] by simp

subsection \<open>Division by zero\<close>

lemma udivmodsi4_up_zero: "a \<noteq> 0 \<Longrightarrow> udivmodsi4_up ctr a 0 r9 = (0, 0)"
proof (induction ctr arbitrary: r9)
  case (Suc ctr)
  show ?case
    using Suc.IH [OF Suc.prems, of "push_bit 1 r9"] Suc.prems
    by (subst udivmodsi4_up.simps) (auto simp: not_le word_gt_0)
qed (auto simp: udivmodsi4_up.simps not_le word_gt_0)

lemma udivmodsi4_down_r9_zero: "udivmodsi4_down r3 r4 0 r10 = (r3, r10)"
  by (subst udivmodsi4_down.simps) simp

lemma udivmodsi4_down_zero_zero: "udivmodsi4_down 0 0 1 0 = (0, 1)"
  by (subst udivmodsi4_down.simps) (simp add: udivmodsi4_down_r9_zero)

text \<open>
  A zero divisor does not trap. The 64-bit routine leaves all ones in quotient
  and remainder, where the comments in \<open>ppe42_gcc.c\<close> and \<open>div64.S\<close> announce zero; the 32-bit
  routine leaves the dividend as the remainder and the quotient 0, except that 0 / 0 is 1.
\<close>

lemma division_by_zero:
  "ppe42_udiv64 u 0 = (- 1, - 1) \<and> umodsi3 a 0 = a \<and> udivsi3 a 0 = (if a = 0 then 1 else 0)"
proof (cases "a = 0")
  case True
  have "udivmodsi4_up 33 0 0 1 = (0, 1)" by (simp add: udivmodsi4_up.simps)
  then show ?thesis
    using True
    by (simp add: ppe42_udiv64_def umodsi3_def udivsi3_def udivmodsi4_def udivmodsi4_down_zero_zero)
next
  case False
  then show ?thesis
    by (simp add: ppe42_udiv64_def umodsi3_def udivsi3_def udivmodsi4_def udivmodsi4_up_zero
        udivmodsi4_down_r9_zero)
qed

end
