(* ===== verification/Ppe_String.thy ===== *)
theory Ppe_String
  imports Sbe_Prelude
begin

text \<open>
  The memory and string routines of the PPE42 run time (\<open>ppe42_string.c\<close>) over a byte memory
  with 32-bit addresses that wrap. Words are stored most significant byte first. \<open>char\<close> is
  unsigned on this processor. A \<open>size_t\<close> that the code only counts down, or up to the end of a
  string, is a natural number; the length of \<open>strncpy\<close>, which it also counts past the limit, is
  kept at 32 bits. A loop that ends only at a NUL byte is a \<open>partial_function\<close>: its value is
  \<open>None\<close> when it does not return.
\<close>

type_synonym memory = "u32 \<Rightarrow> u8"

subsection \<open>memset\<close>

fun memset_align :: "nat \<Rightarrow> u32 \<Rightarrow> u8 \<Rightarrow> memory \<Rightarrow> nat \<times> u32 \<times> memory" where
  "memset_align 0 addr ch m = (0, addr, m)"
| "memset_align (Suc len) addr ch m =
     (if addr AND 7 \<noteq> 0 then memset_align len (addr + 1) ch (m(addr := ch)) else (Suc len, addr, m))"

fun store_bytes :: "u32 \<Rightarrow> u8 list \<Rightarrow> memory \<Rightarrow> memory" where
  "store_bytes a [] m = m"
| "store_bytes a (b # bs) m = store_bytes (a + 1) bs (m(a := b))"

definition be64_bytes :: "u64 \<Rightarrow> u8 list" where
  "be64_bytes v = map (\<lambda>i. ucast (drop_bit (56 - 8 * i) v)) [0..<8]"

definition replicate_byte :: "u8 \<Rightarrow> u64" where
  "replicate_byte ch =
     (let lch = ucast ch; lch = lch OR push_bit 8 lch; lch = lch OR push_bit 16 lch
      in lch OR push_bit 32 lch)"

function memset_dwords :: "nat \<Rightarrow> u32 \<Rightarrow> u64 \<Rightarrow> memory \<Rightarrow> nat \<times> u32 \<times> memory" where
  "memset_dwords len addr lch m =
     (if 8 \<le> len then memset_dwords (len - 8) (addr + 8) lch (store_bytes addr (be64_bytes lch) m)
      else (len, addr, m))"
  by pat_completeness auto

termination memset_dwords by (relation "measure fst") auto

declare memset_dwords.simps [simp del]

fun memset_tail :: "nat \<Rightarrow> u32 \<Rightarrow> u8 \<Rightarrow> memory \<Rightarrow> memory" where
  "memset_tail 0 addr ch m = m"
| "memset_tail (Suc len) addr ch m = memset_tail len (addr + 1) ch (m(addr := ch))"

definition memset :: "u32 \<Rightarrow> u8 \<Rightarrow> nat \<Rightarrow> memory \<Rightarrow> memory" where
  "memset vdest ch len m =
     (let (len, addr, m) = memset_align len vdest ch m;
          (len, addr, m) = (if 8 \<le> len then memset_dwords len addr (replicate_byte ch) m
                            else (len, addr, m))
      in memset_tail len addr ch m)"

subsection \<open>memcpy and memmove\<close>

definition load_bytes :: "u32 \<Rightarrow> nat \<Rightarrow> memory \<Rightarrow> u8 list" where
  "load_bytes a n m = map (\<lambda>i. m (a + of_nat i)) [0..<n]"

function memcpy_words :: "u32 \<Rightarrow> u32 \<Rightarrow> nat \<Rightarrow> memory \<Rightarrow> u32 \<times> u32 \<times> nat \<times> memory" where
  "memcpy_words ldest lsrc len m =
     (if 4 \<le> len
      then memcpy_words (ldest + 4) (lsrc + 4) (len - 4) (store_bytes ldest (load_bytes lsrc 4 m) m)
      else (ldest, lsrc, len, m))"
  by pat_completeness auto

termination memcpy_words by (relation "measure (\<lambda>(d, s, len, m). len)") auto

declare memcpy_words.simps [simp del]

fun memcpy_bytes :: "nat \<Rightarrow> u32 \<Rightarrow> u32 \<Rightarrow> nat \<Rightarrow> memory \<Rightarrow> memory" where
  "memcpy_bytes 0 cdest csrc i m = m"
| "memcpy_bytes (Suc k) cdest csrc i m =
     memcpy_bytes k cdest csrc (Suc i) (m(cdest + of_nat i := m (csrc + of_nat i)))"

definition memcpy :: "u32 \<Rightarrow> u32 \<Rightarrow> nat \<Rightarrow> memory \<Rightarrow> memory" where
  "memcpy vdest vsrc len m =
     (let (cdest, csrc, len, m) = memcpy_words vdest vsrc len m
      in memcpy_bytes len cdest csrc 0 m)"

fun memmove_down :: "nat \<Rightarrow> u32 \<Rightarrow> u32 \<Rightarrow> memory \<Rightarrow> memory" where
  "memmove_down 0 dest src m = m"
| "memmove_down (Suc i) dest src m =
     memmove_down i dest src (m(dest + of_nat i := m (src + of_nat i)))"

definition memmove :: "u32 \<Rightarrow> u32 \<Rightarrow> nat \<Rightarrow> memory \<Rightarrow> memory" where
  "memmove vdest vsrc len m =
     (if vdest \<le> vsrc then memcpy vdest vsrc len m else memmove_down len vdest vsrc m)"

subsection \<open>memcmp and memmem\<close>

fun memcmp_from :: "nat \<Rightarrow> nat \<Rightarrow> memory \<Rightarrow> u32 \<Rightarrow> u32 \<Rightarrow> int" where
  "memcmp_from 0 i m c1 c2 = 0"
| "memcmp_from (Suc k) i m c1 c2 =
     (let n = uint (m (c1 + of_nat i)) - uint (m (c2 + of_nat i))
      in if n \<noteq> 0 then n else memcmp_from k (Suc i) m c1 c2)"

definition memcmp :: "memory \<Rightarrow> u32 \<Rightarrow> u32 \<Rightarrow> nat \<Rightarrow> int" where
  "memcmp m p1 p2 len = memcmp_from len 0 m p1 p2"

fun memmem_match :: "nat \<Rightarrow> nat \<Rightarrow> memory \<Rightarrow> u32 \<Rightarrow> u32 \<Rightarrow> bool" where
  "memmem_match 0 j m h n = True"
| "memmem_match (Suc k) j m h n =
     (if m (h + of_nat j) \<noteq> m (n + of_nat j) then False else memmem_match k (Suc j) m h n)"

text \<open>\<open>k\<close> is the number of candidate positions left; the result is \<open>None\<close> for a null pointer.\<close>

fun memmem_from :: "nat \<Rightarrow> nat \<Rightarrow> memory \<Rightarrow> u32 \<Rightarrow> u32 \<Rightarrow> nat \<Rightarrow> u32 option" where
  "memmem_from 0 i m haystack needle needlelen = None"
| "memmem_from (Suc k) i m haystack needle needlelen =
     (if memmem_match needlelen 0 m (haystack + of_nat i) needle then Some (haystack + of_nat i)
      else memmem_from k (Suc i) m haystack needle needlelen)"

definition memmem :: "memory \<Rightarrow> u32 \<Rightarrow> nat \<Rightarrow> u32 \<Rightarrow> nat \<Rightarrow> u32 option" where
  "memmem m haystack haystacklen needle needlelen =
     (if needlelen \<le> haystacklen
      then memmem_from (haystacklen - needlelen + 1) 0 m haystack needle needlelen
      else None)"

subsection \<open>Strings\<close>

partial_function (option) strcpy_loop :: "u32 \<Rightarrow> u32 \<Rightarrow> memory \<Rightarrow> memory option" where
  "strcpy_loop d1 s m =
     (let c = m s; m = m(d1 := c)
      in if m s = 0 then Some m else strcpy_loop (d1 + 1) (s + 1) m)"

definition strcpy :: "u32 \<Rightarrow> u32 \<Rightarrow> memory \<Rightarrow> memory option" where
  "strcpy d s m = strcpy_loop d s m"

function strncpy_copy :: "u32 \<Rightarrow> u32 \<Rightarrow> u32 \<Rightarrow> u32 \<Rightarrow> memory \<Rightarrow> u32 \<times> u32 \<times> memory" where
  "strncpy_copy l len d1 s m =
     (if l \<le> len then (d1, len + 1, m)
      else let m = m(d1 := m s)
           in if m s = 0 then (d1, len + 1, m) else strncpy_copy l (len + 1) (d1 + 1) (s + 1) m)"
  by pat_completeness auto

lemma unat_less_inc: "\<not> l \<le> len \<Longrightarrow> unat (len + 1) = unat len + 1" for l len :: u32
  using unsigned_less [of l, where 'a = nat]
  by (simp add: unat_word_ariths not_le word_less_nat_alt)

termination strncpy_copy
  by (relation "measure (\<lambda>(l, len, d1, s, m). unat l - unat len)")
    (auto simp: unat_less_inc not_le word_less_nat_alt)

declare strncpy_copy.simps [simp del]

function strncpy_pad :: "u32 \<Rightarrow> u32 \<Rightarrow> u32 \<Rightarrow> memory \<Rightarrow> memory" where
  "strncpy_pad l len d1 m =
     (if \<not> l \<le> len then strncpy_pad l (len + 1) d1 (m(d1 + len := 0)) else m)"
  by pat_completeness auto

termination strncpy_pad
  by (relation "measure (\<lambda>(l, len, d1, m). unat l - unat len)")
    (auto simp: unat_less_inc not_le word_less_nat_alt)

declare strncpy_pad.simps [simp del]

definition strncpy :: "u32 \<Rightarrow> u32 \<Rightarrow> u32 \<Rightarrow> memory \<Rightarrow> memory" where
  "strncpy d s l m =
     (let (d1, len, m) = strncpy_copy l 0 d s m in strncpy_pad l len d1 m)"

partial_function (option) strcmp_loop :: "memory \<Rightarrow> u32 \<Rightarrow> u32 \<Rightarrow> int option" where
  "strcmp_loop m a b =
     (if m a \<noteq> 0 \<and> m b \<noteq> 0
      then if m a = m b then strcmp_loop m (a + 1) (b + 1) else Some (if m a > m b then 1 else - 1)
      else if m a = m b then Some 0
      else if m a = 0 then Some (- 1) else Some 1)"

definition strcmp :: "memory \<Rightarrow> u32 \<Rightarrow> u32 \<Rightarrow> int option" where
  "strcmp m a b = strcmp_loop m a b"

partial_function (option) strlen_loop :: "memory \<Rightarrow> u32 \<Rightarrow> nat \<Rightarrow> nat option" where
  "strlen_loop m a len = (if m a \<noteq> 0 then strlen_loop m (a + 1) (Suc len) else Some len)"

definition strlen :: "memory \<Rightarrow> u32 \<Rightarrow> nat option" where
  "strlen m a = strlen_loop m a 0"

fun strnlen_loop :: "nat \<Rightarrow> memory \<Rightarrow> u32 \<Rightarrow> nat \<Rightarrow> nat" where
  "strnlen_loop 0 m s len = len"
| "strnlen_loop (Suc n) m s len = (if m s \<noteq> 0 then strnlen_loop n m (s + 1) (Suc len) else len)"

definition strnlen :: "memory \<Rightarrow> u32 \<Rightarrow> nat \<Rightarrow> nat" where
  "strnlen m s n = strnlen_loop n m s 0"

partial_function (option) str_end :: "memory \<Rightarrow> u32 \<Rightarrow> u32 option" where
  "str_end m d = (if m d \<noteq> 0 then str_end m (d + 1) else Some d)"

partial_function (option) strcat_loop :: "u32 \<Rightarrow> u32 \<Rightarrow> memory \<Rightarrow> memory option" where
  "strcat_loop d s m =
     (if m s \<noteq> 0 then strcat_loop (d + 1) (s + 1) (m(d := m s)) else Some (m(d := 0)))"

definition strcat :: "u32 \<Rightarrow> u32 \<Rightarrow> memory \<Rightarrow> memory option" where
  "strcat d s m = (case str_end m d of None \<Rightarrow> None | Some e \<Rightarrow> strcat_loop e s m)"

fun strncat_loop :: "nat \<Rightarrow> u32 \<Rightarrow> u32 \<Rightarrow> memory \<Rightarrow> memory" where
  "strncat_loop 0 d s m = m(d := 0)"
| "strncat_loop (Suc n) d s m =
     (if m s \<noteq> 0 then strncat_loop n (d + 1) (s + 1) (m(d := m s)) else m(d := 0))"

definition strncat :: "u32 \<Rightarrow> u32 \<Rightarrow> nat \<Rightarrow> memory \<Rightarrow> memory option" where
  "strncat d s n m = (case str_end m d of None \<Rightarrow> None | Some e \<Rightarrow> Some (strncat_loop n e s m))"

partial_function (option) strchr_loop :: "memory \<Rightarrow> u32 \<Rightarrow> int \<Rightarrow> u32 option" where
  "strchr_loop m s c =
     (if m s \<noteq> 0 \<and> uint (m s) \<noteq> c then strchr_loop m (s + 1) c else Some s)"

text \<open>The outer option says whether the call returns, the inner one is the pointer or null.\<close>

definition strchr :: "memory \<Rightarrow> u32 \<Rightarrow> int \<Rightarrow> u32 option option" where
  "strchr m s c =
     (case strchr_loop m s c of None \<Rightarrow> None
      | Some p \<Rightarrow> Some (if uint (m p) = c then Some p else None))"

declare strcpy_loop.simps [code] strcmp_loop.simps [code] strlen_loop.simps [code]
  str_end.simps [code] strcat_loop.simps [code] strchr_loop.simps [code]

subsection \<open>Filled and copied areas\<close>

text \<open>
  \<open>off d a\<close> is the offset of address \<open>a\<close> from \<open>d\<close>, modulo \<open>2 ^ 32\<close>. The reference definitions
  of the block operations are the memory \<open>fill\<close> with one byte, and \<open>copied\<close> from the memory
  before the call.
\<close>

definition off :: "u32 \<Rightarrow> u32 \<Rightarrow> nat" where
  "off d a = unat (a - d)"

definition fill :: "u32 \<Rightarrow> nat \<Rightarrow> u8 \<Rightarrow> memory \<Rightarrow> memory" where
  "fill d n ch m = (\<lambda>a. if off d a < n then ch else m a)"

definition copied :: "u32 \<Rightarrow> u32 \<Rightarrow> nat \<Rightarrow> memory \<Rightarrow> memory" where
  "copied d s n m = (\<lambda>a. if off d a < n then m (s + of_nat (off d a)) else m a)"

lemma off_less: "off d a < 2 ^ 32"
  using unsigned_less [of "a - d", where 'a = nat] by (simp add: off_def)

lemma off_add:
  assumes "n < 2 ^ 32"
  shows "off (d + of_nat n) a = (if n \<le> off d a then off d a - n else off d a + 2 ^ 32 - n)"
proof -
  have "unat (of_nat n :: u32) = n" using assms by (simp add: unat_of_nat)
  then show ?thesis
    unfolding off_def diff_diff_add [symmetric] by (simp add: unat_sub_if')
qed

lemma off_add_less:
  assumes "n + k \<le> 2 ^ 32"
  shows "off (d + of_nat n) a < k \<longleftrightarrow> n \<le> off d a \<and> off d a < n + k"
proof (cases "n < 2 ^ 32")
  case True
  then show ?thesis using assms off_less [of d a] by (auto simp: off_add)
next
  case False
  then show ?thesis using assms off_less [of d a] by auto
qed

lemma off_add_self: "n < 2 ^ 32 \<Longrightarrow> off d (d + of_nat n) = n"
  by (simp add: off_def unat_of_nat)

lemma off_self [simp]: "off d d = 0"
  by (simp add: off_def)

lemma off_eq_0: "off d a = 0 \<longleftrightarrow> a = d"
  by (auto simp: off_def unat_eq_zero)

lemma add_off [simp]: "d + of_nat (off d a) = a"
  by (simp add: off_def)

lemma fill_0 [simp]: "fill d 0 ch m = m"
  by (simp add: fill_def)

lemma fill_fill:
  "n + k \<le> 2 ^ 32 \<Longrightarrow> fill (d + of_nat n) k ch (fill d n ch m) = fill d (n + k) ch m"
  by (auto simp: fill_def off_add_less fun_eq_iff)

lemma fill_upd: "fill d 1 ch m = m(d := ch)"
  by (auto simp: fill_def fun_eq_iff off_eq_0 less_Suc_eq)

lemma fill_Suc: "n < 2 ^ 32 \<Longrightarrow> fill (d + 1) n ch (m(d := ch)) = fill d (Suc n) ch m"
  using fill_fill [of 1 n d ch m] by (simp add: fill_upd plus_1_eq_Suc del: One_nat_def)

lemma store_bytes_apply:
  "length bs < 2 ^ 32 \<Longrightarrow>
    store_bytes a bs m x = (if off a x < length bs then bs ! off a x else m x)"
proof (induction bs arbitrary: a m)
  case (Cons b bs)
  show ?case
  proof (cases "x = a")
    case True
    then have "\<not> off (a + 1) x < length bs"
      using Cons.prems off_add_less [of 1 "length bs" a x] by simp
    then show ?thesis using Cons True by simp
  next
    case False
    then have "off a x > 0" by (simp add: off_eq_0 [of a x, symmetric] del: off_eq_0)
    moreover from this have "off (a + 1) x = off a x - 1" using off_add [of 1 a x] by simp
    ultimately show ?thesis using Cons False by (auto simp: nth_Cons')
  qed
qed simp

subsection \<open>memset fills\<close>

lemma memset_align_fill:
  assumes "memset_align len addr ch m = (len', addr', m')" "len < 2 ^ 32"
  obtains n where "len = n + len'" "addr' = addr + of_nat n" "m' = fill addr n ch m"
proof -
  have "\<exists>n. len = n + len' \<and> addr' = addr + of_nat n \<and> m' = fill addr n ch m"
    using assms
  proof (induction len arbitrary: addr m)
    case (Suc len)
    show ?case
    proof (cases "addr AND 7 \<noteq> 0")
      case True
      then obtain n where "len = n + len'" "addr' = addr + 1 + of_nat n" "m' = fill (addr + 1) n ch (m(addr := ch))"
        using Suc by auto
      then show ?thesis
        using Suc.prems by (intro exI [of _ "Suc n"]) (auto simp: fill_Suc)
    qed (use Suc.prems in auto)
  qed auto
  then show ?thesis using that by blast
qed

lemma bit_replicate_byte: "bit (replicate_byte ch) n \<longleftrightarrow> n < 64 \<and> bit ch (n mod 8)"
proof (cases "n < 64")
  case True
  have l: "bit (ucast ch :: u64) k \<longleftrightarrow> k < 8 \<and> bit ch k" for k
    using bit_imp_le_length [of ch k] by (auto simp: bit_simps)
  define d where "d = n div 8"
  have n: "n = 8 * d + n mod 8" "d < 8" using True by (auto simp: d_def)
  define r where "r = n mod 8"
  have r: "r < 8" "n = 8 * d + r" using n by (simp_all add: r_def)
  have p: "bit (push_bit k (x :: u64)) j \<longleftrightarrow> k \<le> j \<and> j < 64 \<and> bit x (j - k)" for k j x
    by (auto simp: bit_simps)
  have "d = 0 \<or> d = 1 \<or> d = 2 \<or> d = 3 \<or> d = 4 \<or> d = 5 \<or> d = 6 \<or> d = 7" using n(2) by arith
  then have "bit (replicate_byte ch) (8 * d + r) \<longleftrightarrow> bit ch r"
    using r(1) unfolding replicate_byte_def Let_def bit_or_iff p l by (elim disjE) auto
  then show ?thesis using True r by (simp add: r_def [symmetric])
qed (use bit_imp_le_length [of "replicate_byte ch" n] in auto)

lemma be64_bytes_replicate: "be64_bytes (replicate_byte ch) = replicate 8 ch"
proof -
  have "ucast (drop_bit (56 - 8 * i) (replicate_byte ch)) = ch" if "i < 8" for i
  proof (rule word_eqI_len)
    fix n
    assume "n < LENGTH(8)"
    moreover have "(56 - 8 * i + n) mod 8 = n mod 8"
    proof -
      have "56 - 8 * i + n = n + 8 * (7 - i)" using that by simp
      then show ?thesis by simp
    qed
    ultimately show "bit (ucast (drop_bit (56 - 8 * i) (replicate_byte ch)) :: u8) n = bit ch n"
      using that by (auto simp: bit_ucast_iff bit_drop_bit_eq bit_replicate_byte)
  qed
  then show ?thesis by (intro nth_equalityI) (simp_all add: be64_bytes_def)
qed

lemma store_dword_fill: "store_bytes a (be64_bytes (replicate_byte ch)) m = fill a 8 ch m"
  by (rule ext) (simp add: be64_bytes_replicate store_bytes_apply fill_def)

lemma memset_dwords_fill:
  assumes "memset_dwords len addr (replicate_byte ch) m = (len', addr', m')" "len < 2 ^ 32"
  obtains n where "len = n + len'" "addr' = addr + of_nat n" "m' = fill addr n ch m"
proof -
  have "\<exists>n. len = n + len' \<and> addr' = addr + of_nat n \<and> m' = fill addr n ch m"
    using assms
  proof (induction len addr "replicate_byte ch" m rule: memset_dwords.induct)
    case (1 len addr m)
    show ?case
    proof (cases "8 \<le> len")
      case True
      have "len - 8 < 2 ^ 32" using 1(3) by simp
      with True obtain n where "len - 8 = n + len'" "addr' = addr + 8 + of_nat n"
        "m' = fill (addr + 8) n ch (fill addr 8 ch m)"
        using 1 by (auto simp: memset_dwords.simps [of len] store_dword_fill)
      then show ?thesis
        using True 1(3) fill_fill [of 8 n addr ch m] by (intro exI [of _ "8 + n"]) auto
    qed (use 1 in \<open>auto simp: memset_dwords.simps\<close>)
  qed
  then show ?thesis using that by blast
qed

lemma memset_tail_fill: "len < 2 ^ 32 \<Longrightarrow> memset_tail len addr ch m = fill addr len ch m"
  by (induction len arbitrary: addr m) (simp_all add: fill_Suc)

text \<open>
  \<open>memset\<close>, which stores single bytes up to an 8-byte boundary, then double words,
  then the remaining bytes, sets exactly the \<open>len\<close> bytes from \<open>d\<close> to the given byte.
\<close>

lemma memset_correct:
  assumes "len < 2 ^ 32"
  shows "memset d ch len m = fill d len ch m"
proof -
  obtain len1 a1 m1 where 1: "memset_align len d ch m = (len1, a1, m1)"
    by (cases "memset_align len d ch m")
  obtain n1 where n1: "len = n1 + len1" "a1 = d + of_nat n1" "m1 = fill d n1 ch m"
    by (rule memset_align_fill [OF 1 assms])
  obtain len2 a2 m2 where 2: "(if 8 \<le> len1 then memset_dwords len1 a1 (replicate_byte ch) m1
      else (len1, a1, m1)) = (len2, a2, m2)"
    by (metis prod.exhaust)
  obtain n2 where n2: "len1 = n2 + len2" "a2 = a1 + of_nat n2" "m2 = fill a1 n2 ch m1"
  proof (cases "8 \<le> len1")
    case True
    then show ?thesis using memset_dwords_fill [of len1 a1 ch m1 len2 a2 m2] 2 n1(1) assms that by auto
  next
    case False
    then show ?thesis using 2 that [of 0] by auto
  qed
  have "memset d ch len m = fill a2 len2 ch m2"
    unfolding memset_def Let_def 1 prod.case 2
    using n1(1) n2(1) assms by (simp add: memset_tail_fill)
  also have "m2 = fill d (n1 + n2) ch m"
    using n1 n2 assms by (simp add: fill_fill)
  also have "a2 = d + of_nat (n1 + n2)" using n1 n2 by simp
  finally show ?thesis
    using n1(1) n2(1) assms fill_fill [of "n1 + n2" len2 d ch m] by (simp add: add.assoc)
qed

lemma memset_correct_witness:
  "memset 0x1003 0xAB 20 (\<lambda>_. 0) = fill 0x1003 20 0xAB (\<lambda>_. 0)"
  by (rule memset_correct) simp

subsection \<open>memcpy and memmove copy\<close>

text \<open>
  A copy from low to high addresses is right when no byte is overwritten before it is read:
  byte \<open>j\<close> of the source is not among the first \<open>j\<close> bytes of the destination.
\<close>

definition forward_safe :: "u32 \<Rightarrow> u32 \<Rightarrow> nat \<Rightarrow> bool" where
  "forward_safe d s n \<longleftrightarrow> (\<forall>j < n. j \<le> off d (s + of_nat j))"

lemma copied_0 [simp]: "copied d s 0 m = m"
  by (simp add: copied_def)

lemma copied_apply: "copied d s n m a = (if off d a < n then m (s + of_nat (off d a)) else m a)"
  by (simp add: copied_def)

lemma copy_chunk:
  assumes "forward_safe d s n" "i + k \<le> n" "n < 2 ^ 32"
  shows "store_bytes (d + of_nat i) (load_bytes (s + of_nat i) k (copied d s i m)) (copied d s i m)
    = copied d s (i + k) m"
proof
  fix a
  have read: "load_bytes (s + of_nat i) k (copied d s i m) ! j = m (s + of_nat (i + j))" if "j < k" for j
  proof -
    have "i + j < n" using that assms(2) by simp
    then have "i + j \<le> off d (s + of_nat (i + j))"
      using assms(1) unfolding forward_safe_def by blast
    then have "\<not> off d (s + of_nat (i + j)) < i" by simp
    then show ?thesis
      using that by (simp add: load_bytes_def copied_apply add.assoc)
  qed
  have len: "length (load_bytes (s + of_nat i) k (copied d s i m)) = k"
    by (simp add: load_bytes_def)
  show "store_bytes (d + of_nat i) (load_bytes (s + of_nat i) k (copied d s i m)) (copied d s i m) a
      = copied d s (i + k) m a"
  proof (cases "i \<le> off d a \<and> off d a < i + k")
    case True
    have "off (d + of_nat i) a = off d a - i" "off d a - i < k"
      using True assms off_add [of i d a] by auto
    then show ?thesis
      using True assms by (simp add: store_bytes_apply len read copied_apply)
  next
    case False
    then have "\<not> off (d + of_nat i) a < k" using assms off_add_less [of i k d a] by auto
    then show ?thesis
      using False assms by (simp add: store_bytes_apply len) (auto simp: copied_apply)
  qed
qed

lemma memcpy_words_copied:
  assumes "forward_safe d s n" "n < 2 ^ 32" "i + len = n"
    and "memcpy_words (d + of_nat i) (s + of_nat i) len (copied d s i m) = (d', s', len', m')"
  shows "\<exists>i'. i' + len' = n \<and> d' = d + of_nat i' \<and> s' = s + of_nat i' \<and> m' = copied d s i' m"
  using assms(3,4)
proof (induction len arbitrary: i rule: less_induct)
  case (less len)
  show ?case
  proof (cases "4 \<le> len")
    case True
    have "store_bytes (d + of_nat i) (load_bytes (s + of_nat i) 4 (copied d s i m)) (copied d s i m)
        = copied d s (i + 4) m"
      using True less.prems(1) assms(2) by (intro copy_chunk [OF assms(1)]) auto
    then have "memcpy_words (d + of_nat (i + 4)) (s + of_nat (i + 4)) (len - 4) (copied d s (i + 4) m)
        = (d', s', len', m')"
      using True less.prems(2) by (simp add: memcpy_words.simps [of _ _ len] add.assoc)
    then show ?thesis
      using True less.prems(1) by (intro less.IH [of "len - 4" "i + 4"]) auto
  next
    case False
    then show ?thesis using less.prems by (auto simp: memcpy_words.simps)
  qed
qed

lemma memcpy_bytes_copied:
  assumes "forward_safe d s n" "n < 2 ^ 32"
  shows "e + i + k = n \<Longrightarrow>
    memcpy_bytes k (d + of_nat e) (s + of_nat e) i (copied d s (e + i) m) = copied d s n m"
proof (induction k arbitrary: i)
  case (Suc k)
  have "(copied d s (e + i) m)(d + of_nat (e + i) := copied d s (e + i) m (s + of_nat (e + i)))
      = copied d s (e + i + 1) m"
    using copy_chunk [OF assms(1), of "e + i" 1 m] Suc.prems assms(2)
    by (simp add: load_bytes_def)
  then show ?case using Suc.IH [of "Suc i"] Suc.prems by (simp add: add.assoc)
qed simp

lemma memcpy_copied:
  assumes "forward_safe d s n" "n < 2 ^ 32"
  shows "memcpy d s n m = copied d s n m"
proof -
  obtain d' s' len' m' where w: "memcpy_words d s n m = (d', s', len', m')"
    by (cases "memcpy_words d s n m")
  then obtain e where "e + len' = n" "d' = d + of_nat e" "s' = s + of_nat e" "m' = copied d s e m"
    using memcpy_words_copied [OF assms, of 0 n m d' s' len' m'] by auto
  then show ?thesis
    using memcpy_bytes_copied [OF assms, of e 0 len' m] w by (simp add: memcpy_def)
qed

lemma off_nowrap:
  assumes "unat d + n \<le> 2 ^ 32"
  shows "off d a < n \<longleftrightarrow> unat d \<le> unat a \<and> unat a < unat d + n"
  using assms unsigned_less [of a, where 'a = nat] unsigned_less [of d, where 'a = nat]
  by (auto simp: off_def unat_sub_if')

lemma unat_add_nat: "unat s + j < 2 ^ 32 \<Longrightarrow> unat (s + of_nat j :: u32) = unat s + j"
  by (simp add: unat_word_ariths unat_of_nat mod_simps)

lemma forward_safe_below:
  assumes "d \<le> s" "unat s + n \<le> 2 ^ 32"
  shows "forward_safe d s n"
  unfolding forward_safe_def
proof (intro allI impI)
  fix j assume "j < n"
  then have "unat (s + of_nat j) = unat s + j" using assms(2) by (intro unat_add_nat) simp
  then show "j \<le> off d (s + of_nat j)"
    using assms(1) by (simp add: off_def unat_sub_if' word_le_nat_alt)
qed

lemma forward_safe_disjoint:
  assumes "unat s + n \<le> unat d" "unat d + n \<le> 2 ^ 32"
  shows "forward_safe d s n"
  unfolding forward_safe_def
proof (intro allI impI)
  fix j assume "j < n"
  then have "unat (s + of_nat j) = unat s + j" using assms by (intro unat_add_nat) simp
  then have "\<not> off d (s + of_nat j) < n" using assms \<open>j < n\<close> by (simp add: off_nowrap)
  then show "j \<le> off d (s + of_nat j)" using \<open>j < n\<close> by simp
qed

lemma memmove_down_copied:
  assumes "s < d" "unat d + n \<le> 2 ^ 32"
  shows "i \<le> n \<Longrightarrow> memmove_down i d s (\<lambda>a. if i \<le> off d a then copied d s n m a else m a)
    = copied d s n m"
proof (induction i)
  case (Suc i)
  have "unat (s + of_nat i) = unat s + i" "unat d \<ge> unat s + 1"
    using Suc.prems assms by (auto simp: word_less_nat_alt intro!: unat_add_nat)
  then have "off d (s + of_nat i) < n \<Longrightarrow> off d (s + of_nat i) < Suc i"
    using assms(2) Suc.prems off_nowrap [of d n "s + of_nat i"] off_nowrap [of d "Suc i" "s + of_nat i"]
    by auto
  then have read: "(if Suc i \<le> off d (s + of_nat i) then copied d s n m (s + of_nat i)
      else m (s + of_nat i)) = m (s + of_nat i)"
    by (auto simp: copied_apply)
  have o: "off d (d + of_nat i) = i" using Suc.prems assms(2) by (intro off_add_self) simp
  have "((\<lambda>a. if Suc i \<le> off d a then copied d s n m a else m a)(d + of_nat i := m (s + of_nat i))) x
      = (if i \<le> off d x then copied d s n m x else m x)" for x
  proof (cases "x = d + of_nat i")
    case True
    then show ?thesis using o Suc.prems by (simp add: copied_apply)
  next
    case False
    then have "off d x \<noteq> i" by (metis add_off)
    then show ?thesis using False by auto
  qed
  then have "(\<lambda>a. if Suc i \<le> off d a then copied d s n m a else m a)(d + of_nat i := m (s + of_nat i))
      = (\<lambda>a. if i \<le> off d a then copied d s n m a else m a)"
    by (rule ext)
  then show ?case using Suc read by simp
qed (simp add: copied_0)

text \<open>
  Property C40. \<open>memmove\<close> makes the destination equal to what the source was before the call,
  also when the areas overlap in either direction, and changes no other byte; when they do not
  overlap, so does \<open>memcpy\<close>.
\<close>

theorem memmove_correct:
  assumes "unat d + n \<le> 2 ^ 32" "unat s + n \<le> 2 ^ 32" "n < 2 ^ 32"
  shows "memmove d s n m = copied d s n m
    \<and> (unat s + n \<le> unat d \<or> unat d + n \<le> unat s \<longrightarrow> memcpy d s n m = copied d s n m)"
proof
  show "memmove d s n m = copied d s n m"
  proof (cases "d \<le> s")
    case True
    then show ?thesis
      using memcpy_copied [OF forward_safe_below [OF True assms(2)] assms(3)] by (simp add: memmove_def)
  next
    case False
    then have "s < d" by simp
    have "(\<lambda>a. if n \<le> off d a then copied d s n m a else m a) = m"
      by (auto simp: fun_eq_iff copied_apply)
    then show ?thesis
      using False memmove_down_copied [OF \<open>s < d\<close> assms(1) order.refl, of m]
      by (simp only: memmove_def if_False)
  qed
  show "unat s + n \<le> unat d \<or> unat d + n \<le> unat s \<longrightarrow> memcpy d s n m = copied d s n m"
    using assms memcpy_copied [OF forward_safe_disjoint] memcpy_copied [OF forward_safe_below]
    by (auto simp: word_le_nat_alt)
qed

theorem memmove_correct_witness:
  "memmove 0x102 0x100 6 (\<lambda>a. ucast a) = copied 0x102 0x100 6 (\<lambda>a. ucast a)
    \<and> memmove 0x102 0x100 6 (\<lambda>a. ucast a) 0x107 = 5"
  using memmove_correct [of "0x102" 6 "0x100" "\<lambda>a. ucast a"]
  by (simp add: copied_apply off_def)

subsection \<open>Comparison and search\<close>

lemma load_bytes_nth [simp]: "j < n \<Longrightarrow> load_bytes a n m ! j = m (a + of_nat j)"
  by (simp add: load_bytes_def)

lemma length_load_bytes [simp]: "length (load_bytes a n m) = n"
  by (simp add: load_bytes_def)

lemma load_bytes_eq_iff:
  "load_bytes a n m = load_bytes b n m \<longleftrightarrow> (\<forall>j < n. m (a + of_nat j) = m (b + of_nat j))"
  by (auto simp: list_eq_iff_nth_eq)

lemma uint_diff_eq_0: "uint (x :: u8) - uint y = 0 \<longleftrightarrow> x = y"
  by (simp add: word_uint_eq_iff)

text \<open>The scanning loops are searches for the first index with a property.\<close>

lemma memcmp_from_find:
  "memcmp_from k i m p q =
    (case find (\<lambda>j. m (p + of_nat j) \<noteq> m (q + of_nat j)) [i..<i + k] of
       None \<Rightarrow> 0 | Some j \<Rightarrow> uint (m (p + of_nat j)) - uint (m (q + of_nat j)))"
  by (induction k arbitrary: i) (simp_all add: upt_conv_Cons Let_def del: upt_Suc flip: word_uint_eq_iff)

lemma memmem_match_find:
  "memmem_match k i m h n \<longleftrightarrow> find (\<lambda>j. m (h + of_nat j) \<noteq> m (n + of_nat j)) [i..<i + k] = None"
  by (induction k arbitrary: i) (simp_all add: upt_conv_Cons del: upt_Suc)

lemma memmem_match_iff:
  "memmem_match k 0 m h n \<longleftrightarrow> load_bytes h k m = load_bytes n k m"
  by (auto simp: memmem_match_find find_None_iff load_bytes_eq_iff)

lemma memmem_from_find:
  "memmem_from k i m h n nl =
    map_option (\<lambda>j. h + of_nat j) (find (\<lambda>j. memmem_match nl 0 m (h + of_nat j) n) [i..<i + k])"
  by (induction k arbitrary: i) (simp_all add: upt_conv_Cons del: upt_Suc)

lemma find_upt_Some:
  "find P [0..<k] = Some j \<longleftrightarrow> j < k \<and> P j \<and> (\<forall>l < j. \<not> P l)"
  by (auto simp: find_Some_iff)

text \<open>
  \<open>memcmp\<close> returns the difference of the first pair of bytes that differ, and 0
  exactly when the two areas are equal.
\<close>

lemma memcmp_spec:
  "(memcmp m p q len = 0 \<longleftrightarrow> load_bytes p len m = load_bytes q len m)
    \<and> (memcmp m p q len \<noteq> 0 \<longleftrightarrow> (\<exists>j < len. load_bytes p j m = load_bytes q j m
        \<and> m (p + of_nat j) \<noteq> m (q + of_nat j)
        \<and> memcmp m p q len = uint (m (p + of_nat j)) - uint (m (q + of_nat j))))"
proof (cases "find (\<lambda>j. m (p + of_nat j) \<noteq> m (q + of_nat j)) [0..<len]")
  case None
  then have "memcmp m p q len = 0" by (simp add: memcmp_def memcmp_from_find)
  moreover have "load_bytes p len m = load_bytes q len m"
    using None by (auto simp: find_None_iff load_bytes_eq_iff)
  ultimately show ?thesis by (auto simp: load_bytes_eq_iff)
next
  case (Some j)
  then have j: "j < len" "m (p + of_nat j) \<noteq> m (q + of_nat j)" "load_bytes p j m = load_bytes q j m"
    by (auto simp: find_upt_Some load_bytes_eq_iff)
  have c: "memcmp m p q len = uint (m (p + of_nat j)) - uint (m (q + of_nat j))"
    using Some by (simp add: memcmp_def memcmp_from_find)
  then have "memcmp m p q len \<noteq> 0" using j(2) by (simp only: uint_diff_eq_0 not_False_eq_True)
  moreover have "load_bytes p len m \<noteq> load_bytes q len m" using j by (auto simp: load_bytes_eq_iff)
  ultimately show ?thesis using j c by blast
qed

text \<open>
  \<open>memmem\<close> returns the first position at which the needle occurs in the haystack,
  and the null pointer exactly when it does not occur.
\<close>

lemma memmem_spec:
  "(memmem m h hl n nl = None \<longleftrightarrow>
      (\<nexists>i. i + nl \<le> hl \<and> load_bytes (h + of_nat i) nl m = load_bytes n nl m))
    \<and> (memmem m h hl n nl = Some p \<longleftrightarrow>
      (\<exists>i. p = h + of_nat i \<and> i + nl \<le> hl \<and> load_bytes (h + of_nat i) nl m = load_bytes n nl m
        \<and> (\<forall>j < i. load_bytes (h + of_nat j) nl m \<noteq> load_bytes n nl m)))"
proof (cases "nl \<le> hl")
  case True
  define P where "P = (\<lambda>j. load_bytes (h + of_nat j) nl m = load_bytes n nl m)"
  have r: "memmem m h hl n nl = map_option (\<lambda>j. h + of_nat j) (find P [0..<hl - nl + 1])"
    using True by (simp only: memmem_def memmem_from_find memmem_match_iff P_def if_True add_0)
  have b: "i < hl - nl + 1 \<longleftrightarrow> i + nl \<le> hl" for i using True by auto
  show ?thesis
  proof
    show "memmem m h hl n nl = None \<longleftrightarrow>
        (\<nexists>i. i + nl \<le> hl \<and> load_bytes (h + of_nat i) nl m = load_bytes n nl m)"
      unfolding r option.map_disc_iff find_None_iff set_upt atLeastLessThan_iff b P_def by simp
    have "memmem m h hl n nl = Some p \<longleftrightarrow> (\<exists>i. p = h + of_nat i \<and> find P [0..<hl - nl + 1] = Some i)"
      unfolding r by auto
    then show "memmem m h hl n nl = Some p \<longleftrightarrow>
      (\<exists>i. p = h + of_nat i \<and> i + nl \<le> hl \<and> load_bytes (h + of_nat i) nl m = load_bytes n nl m
        \<and> (\<forall>j < i. load_bytes (h + of_nat j) nl m \<noteq> load_bytes n nl m))"
      unfolding find_upt_Some b P_def by blast
  qed
qed (auto simp: memmem_def)

text \<open>
  \<open>memcmp\<close> returns 0 exactly for equal areas and otherwise the difference of the first
  pair of bytes that differ; \<open>memmem\<close> returns the first position at which the needle occurs in the
  haystack, and the null pointer exactly when it does not occur.
\<close>

lemma memory_compare_correct:
  "(memcmp m p q len = 0 \<longleftrightarrow> load_bytes p len m = load_bytes q len m) \<and>
   (memcmp m p q len \<noteq> 0 \<longleftrightarrow> (\<exists>j < len. load_bytes p j m = load_bytes q j m
      \<and> m (p + of_nat j) \<noteq> m (q + of_nat j)
      \<and> memcmp m p q len = uint (m (p + of_nat j)) - uint (m (q + of_nat j)))) \<and>
   (memmem m h hl n nl = None \<longleftrightarrow>
      (\<nexists>i. i + nl \<le> hl \<and> load_bytes (h + of_nat i) nl m = load_bytes n nl m)) \<and>
   (memmem m h hl n nl = Some r \<longleftrightarrow>
      (\<exists>i. r = h + of_nat i \<and> i + nl \<le> hl \<and> load_bytes (h + of_nat i) nl m = load_bytes n nl m
        \<and> (\<forall>j < i. load_bytes (h + of_nat j) nl m \<noteq> load_bytes n nl m)))"
  by (intro conjI memcmp_spec [THEN conjunct1] memcmp_spec [THEN conjunct2]
      memmem_spec [THEN conjunct1] memmem_spec [THEN conjunct2])

definition sample :: memory where
  "sample a = (if a = 0x101 \<or> a = 0x201 then 7 else if a = 0x102 then 9 else if a = 0x202 then 4 else 0)"

lemma memory_compare_correct_witness:
  "memcmp sample 0x101 0x201 2 \<noteq> 0 \<and> memmem sample 0x100 8 0x201 1 = Some 0x101"
proof -
  have "load_bytes 0x101 2 sample \<noteq> load_bytes 0x201 2 sample" by code_simp
  moreover have "load_bytes (0x100 + of_nat 1) 1 sample = load_bytes 0x201 1 sample"
    "load_bytes (0x100 + of_nat 0) 1 sample \<noteq> load_bytes 0x201 1 sample" by code_simp+
  then have "0x101 = 0x100 + of_nat 1 \<and> 1 + 1 \<le> (8 :: nat)
      \<and> load_bytes (0x100 + of_nat 1) 1 sample = load_bytes 0x201 1 sample
      \<and> (\<forall>j < 1. load_bytes (0x100 + of_nat j) 1 sample \<noteq> load_bytes 0x201 1 sample)"
    by simp
  ultimately show ?thesis
    using memory_compare_correct [of sample "0x101" "0x201" 2 "0x100" 8 "0x201" 1 "0x101"] by blast
qed

subsection \<open>NUL-terminated strings\<close>

text \<open>\<open>cstring m a xs\<close>: the characters \<open>xs\<close>, none of them NUL, stand at \<open>a\<close>, then a NUL.\<close>

fun cstring :: "memory \<Rightarrow> u32 \<Rightarrow> u8 list \<Rightarrow> bool" where
  "cstring m a [] \<longleftrightarrow> m a = 0"
| "cstring m a (x # xs) \<longleftrightarrow> x \<noteq> 0 \<and> m a = x \<and> cstring m (a + 1) xs"

lemma strlen_loop_cstring: "cstring m a xs \<Longrightarrow> strlen_loop m a len = Some (len + length xs)"
  by (induction xs arbitrary: a len) (simp_all add: strlen_loop.simps)

lemma strnlen_loop_cstring: "cstring m a xs \<Longrightarrow> strnlen_loop n m a len = len + min n (length xs)"
proof (induction xs arbitrary: a n len)
  case Nil
  then show ?case by (cases n) auto
next
  case (Cons x xs)
  then show ?case by (cases n) auto
qed

lemma strcmp_loop_cstring:
  "cstring m a xs \<Longrightarrow> cstring m b ys \<Longrightarrow>
    strcmp_loop m a b =
      Some (if xs = ys then 0 else if (xs, ys) \<in> lexord {(x, y). x < y} then - 1 else 1)"
proof (induction xs arbitrary: a b ys)
  case Nil
  then show ?case by (cases ys) (auto simp: strcmp_loop.simps)
next
  case (Cons x xs)
  show ?case
  proof (cases ys)
    case Nil
    then show ?thesis using Cons.prems by (auto simp: strcmp_loop.simps)
  next
    case (Cons y ys')
    then show ?thesis
      using Cons.prems Cons.IH [of "a + 1" "b + 1" ys'] by (auto simp: strcmp_loop.simps)
  qed
qed

lemma strchr_loop_cstring:
  "cstring m s xs \<Longrightarrow>
    strchr_loop m s c = Some (s + of_nat (length (takeWhile (\<lambda>x. uint x \<noteq> c) xs)))"
  by (induction xs arbitrary: s) (simp_all add: strchr_loop.simps add.assoc)

lemma cstring_nth:
  "cstring m s xs \<Longrightarrow> k \<le> length xs \<Longrightarrow> m (s + of_nat k) = (xs @ [0]) ! k"
proof (induction xs arbitrary: s k)
  case (Cons x xs)
  then show ?case using Cons.IH [of "s + 1" "k - 1"] by (cases k) (auto simp: add.assoc)
qed simp

text \<open>
  On NUL-terminated strings the scanning routines return: \<open>strlen\<close> gives the length,
  \<open>strnlen\<close> the length or the limit, \<open>strcmp\<close> the lexicographic order of the unsigned
  characters, and \<open>strchr\<close> the first occurrence of the character, where the terminating NUL can
  be searched for, or the null pointer.
\<close>

lemma string_scans_return:
  assumes "cstring m a xs" "cstring m b ys"
  shows "strlen m a = Some (length xs) \<and> strnlen m a n = min n (length xs)
    \<and> strcmp m a b = Some (if xs = ys then 0 else if (xs, ys) \<in> lexord {(x, y). x < y} then - 1 else 1)
    \<and> strchr m a c =
        (if c \<in> uint ` set xs \<or> c = 0 then Some (Some (a + of_nat (length (takeWhile (\<lambda>x. uint x \<noteq> c) xs))))
         else Some None)"
proof -
  define k where "k = length (takeWhile (\<lambda>x. uint x \<noteq> c) xs)"
  have k: "k \<le> length xs" by (simp add: k_def length_takeWhile_le)
  have "uint ((xs @ [0]) ! k) = c \<longleftrightarrow> c \<in> uint ` set xs \<or> c = 0"
  proof (cases "c \<in> uint ` set xs")
    case True
    then have "takeWhile (\<lambda>x. uint x \<noteq> c) xs \<noteq> xs" by (auto simp: takeWhile_eq_all_conv)
    then have "k < length xs"
      using k unfolding k_def by (metis le_neq_implies_less order_refl take_all takeWhile_eq_take)
    then show ?thesis using True nth_length_takeWhile [of "\<lambda>x. uint x \<noteq> c" xs]
      by (simp add: nth_append k_def)
  next
    case False
    then have "takeWhile (\<lambda>x. uint x \<noteq> c) xs = xs" by (intro takeWhile_eq_all_conv [THEN iffD2]) auto
    then have "k = length xs" by (metis k_def)
    then show ?thesis using False by auto
  qed
  then show ?thesis
    using assms k cstring_nth [OF assms(1) k]
    by (simp add: strlen_def strnlen_def strcmp_def strchr_def strlen_loop_cstring
        strnlen_loop_cstring strcmp_loop_cstring strchr_loop_cstring flip: k_def)
qed

lemma string_scans_return_witness:
  "strlen sample 0x101 = Some 2 \<and> strcmp sample 0x101 0x201 = Some 1 \<and> strchr sample 0x101 9 = Some (Some 0x102)"
proof -
  have "cstring sample 0x101 [7, 9] \<and> cstring sample 0x201 [7, 4]" by code_simp
  then show ?thesis
    using string_scans_return [of sample "0x101" "[7, 9]" "0x201" "[7, 4]" 5 9] by simp
qed

subsection \<open>Copying and appending strings\<close>

text \<open>The first \<open>n\<close> bytes at \<open>s\<close> are outside the \<open>n\<close> bytes at \<open>d\<close>.\<close>

definition apart :: "u32 \<Rightarrow> u32 \<Rightarrow> nat \<Rightarrow> bool" where
  "apart d s n \<longleftrightarrow> (\<forall>j < n. n \<le> off d (s + of_nat j))"

lemma apart_above:
  assumes "unat d + n \<le> unat s" "unat s + n \<le> 2 ^ 32"
  shows "apart d s n"
  unfolding apart_def
proof (intro allI impI)
  fix j assume "j < n"
  then have "unat (s + of_nat j) = unat s + j" using assms(2) by (intro unat_add_nat) simp
  then show "n \<le> off d (s + of_nat j)" using assms(1) by (simp add: off_def unat_sub_if')
qed

lemma apart_below:
  assumes "unat s + n \<le> unat d" "unat d + n \<le> 2 ^ 32"
  shows "apart d s n"
  unfolding apart_def
proof (intro allI impI)
  fix j assume "j < n"
  then have "unat (s + of_nat j) = unat s + j" using assms by (intro unat_add_nat) simp
  then show "n \<le> off d (s + of_nat j)" using assms \<open>j < n\<close> by (simp add: off_def unat_sub_if')
qed

lemma copied_Suc:
  assumes "i < 2 ^ 32"
  shows "(copied d s i m)(d + of_nat i := m (s + of_nat i)) = copied d s (Suc i) m"
proof
  fix x
  show "((copied d s i m)(d + of_nat i := m (s + of_nat i))) x = copied d s (Suc i) m x"
  proof (cases "x = d + of_nat i")
    case True
    then show ?thesis using assms by (simp add: copied_apply off_add_self)
  next
    case False
    then have "off d x \<noteq> i" by (metis add_off)
    then show ?thesis using False by (auto simp: copied_apply less_Suc_eq)
  qed
qed

lemma copied_read: "apart d s n \<Longrightarrow> i \<le> n \<Longrightarrow> j < n \<Longrightarrow> copied d s i m (s + of_nat j) = m (s + of_nat j)"
  by (fastforce simp: apart_def copied_apply)

lemma cstring_set: "cstring m a ys \<Longrightarrow> 0 \<notin> set ys"
  by (induction ys arbitrary: a) auto

lemma cstring_end: "cstring m s xs \<Longrightarrow> m (s + of_nat (length xs)) = 0"
  using cstring_nth [of m s xs "length xs"] by simp

lemma cstring_nonzero: "cstring m s xs \<Longrightarrow> i < length xs \<Longrightarrow> m (s + of_nat i) \<noteq> 0"
  using cstring_nth [of m s xs i] cstring_set [of m s xs] by (simp add: nth_append) (metis nth_mem)

lemma cstringI:
  "0 \<notin> set zs \<Longrightarrow> (\<And>k. k < length zs \<Longrightarrow> m (a + of_nat k) = zs ! k) \<Longrightarrow>
    m (a + of_nat (length zs)) = 0 \<Longrightarrow> cstring m a zs"
proof (induction zs arbitrary: a)
  case (Cons z zs)
  have "m (a + 1 + of_nat k) = zs ! k" if "k < length zs" for k
    using Cons.prems(2) [of "Suc k"] that by (simp add: add.assoc)
  then show ?case
    using Cons.prems(1,3) Cons.prems(2) [of 0] Cons.IH [of "a + 1"] by (simp add: add.assoc)
qed simp

lemma strcpy_loop_copied:
  assumes "apart d s (Suc (length xs))" "cstring m s xs" "length xs < 2 ^ 32 - 1"
  shows "i \<le> length xs \<Longrightarrow>
    strcpy_loop (d + of_nat i) (s + of_nat i) (copied d s i m) = Some (copied d s (Suc (length xs)) m)"
proof (induction "length xs - i" arbitrary: i)
  case 0
  then have i: "i = length xs" by simp
  have u: "(copied d s i m)(d + of_nat i := m (s + of_nat i)) = copied d s (Suc i) m"
    using assms(3) i by (intro copied_Suc) simp
  have r: "copied d s i m (s + of_nat i) = m (s + of_nat i)"
    "copied d s (Suc i) m (s + of_nat i) = m (s + of_nat i)"
    using copied_read [OF assms(1)] i by auto
  show ?case
    unfolding strcpy_loop.simps [of "d + of_nat i"] Let_def r u
    using cstring_end [OF assms(2)] i by simp
next
  case (Suc k)
  then have i: "i < length xs" by auto
  have u: "(copied d s i m)(d + of_nat i := m (s + of_nat i)) = copied d s (Suc i) m"
    using assms(3) i by (intro copied_Suc) simp
  have r: "copied d s i m (s + of_nat i) = m (s + of_nat i)"
    "copied d s (Suc i) m (s + of_nat i) = m (s + of_nat i)"
    using copied_read [OF assms(1)] i by auto
  have "strcpy_loop (d + of_nat i) (s + of_nat i) (copied d s i m)
      = strcpy_loop (d + of_nat (Suc i)) (s + of_nat (Suc i)) (copied d s (Suc i) m)"
    unfolding strcpy_loop.simps [of "d + of_nat i"] Let_def r u
    using cstring_nonzero [OF assms(2) i] by (simp add: ac_simps)
  then show ?case using Suc.hyps(1) [of "Suc i"] Suc.hyps(2) i by simp
qed

lemma str_end_cstring: "cstring m d xs \<Longrightarrow> str_end m d = Some (d + of_nat (length xs))"
  by (induction xs arbitrary: d) (simp_all add: str_end.simps add.assoc)

lemma strncat_loop_copied:
  assumes "apart e s (Suc (length ys))" "cstring m s ys" "length ys < 2 ^ 32 - 1"
  shows "i \<le> length ys \<Longrightarrow>
    strncat_loop n (e + of_nat i) (s + of_nat i) (copied e s i m)
      = (copied e s (min (i + n) (length ys)) m)(e + of_nat (min (i + n) (length ys)) := 0)"
proof (induction n arbitrary: i)
  case (Suc n)
  have r: "copied e s i m (s + of_nat i) = m (s + of_nat i)"
    using copied_read [OF assms(1), of i i m] Suc.prems by simp
  show ?case
  proof (cases "i = length ys")
    case True
    then show ?thesis using cstring_end [OF assms(2)] r by simp
  next
    case False
    then have i: "i < length ys" using Suc.prems by simp
    have "(copied e s i m)(e + of_nat i := m (s + of_nat i)) = copied e s (Suc i) m"
      using assms(3) i by (intro copied_Suc) simp
    then have "strncat_loop (Suc n) (e + of_nat i) (s + of_nat i) (copied e s i m)
        = strncat_loop n (e + of_nat (Suc i)) (s + of_nat (Suc i)) (copied e s (Suc i) m)"
      using cstring_nonzero [OF assms(2) i] r by (simp add: ac_simps)
    then show ?thesis using Suc.IH [of "Suc i"] i by simp
  qed
qed (simp add: min_absorb1)

lemma strcat_loop_copied:
  assumes "apart e s (Suc (length ys))" "cstring m s ys" "length ys < 2 ^ 32 - 1"
  shows "i \<le> length ys \<Longrightarrow>
    strcat_loop (e + of_nat i) (s + of_nat i) (copied e s i m)
      = Some (strncat_loop (length ys - i) (e + of_nat i) (s + of_nat i) (copied e s i m))"
proof (induction "length ys - i" arbitrary: i)
  case 0
  then have i: "i = length ys" by simp
  have r: "copied e s i m (s + of_nat i) = m (s + of_nat i)"
    using copied_read [OF assms(1), of i i m] 0 by simp
  show ?case using cstring_end [OF assms(2)] i r by (simp add: strcat_loop.simps fun_upd_def)
next
  case (Suc k)
  then have i: "i < length ys" by simp
  have r: "copied e s i m (s + of_nat i) = m (s + of_nat i)"
    using copied_read [OF assms(1), of i i m] i by simp
  have u: "(copied e s i m)(e + of_nat i := m (s + of_nat i)) = copied e s (Suc i) m"
    using assms(3) i by (intro copied_Suc) simp
  have nz: "m (s + of_nat i) \<noteq> 0" by (rule cstring_nonzero [OF assms(2) i])
  have "strcat_loop (e + of_nat i) (s + of_nat i) (copied e s i m)
      = strcat_loop (e + of_nat (Suc i)) (s + of_nat (Suc i)) (copied e s (Suc i) m)"
    unfolding strcat_loop.simps [of "e + of_nat i"] r u using nz by (simp add: ac_simps)
  also have "\<dots> = Some (strncat_loop k (e + of_nat (Suc i)) (s + of_nat (Suc i)) (copied e s (Suc i) m))"
    using Suc.hyps(1) [of "Suc i"] Suc.hyps(2) i by (simp add: Suc_diff_Suc [symmetric])
  also have "strncat_loop k (e + of_nat (Suc i)) (s + of_nat (Suc i)) (copied e s (Suc i) m)
      = strncat_loop (Suc k) (e + of_nat i) (s + of_nat i) (copied e s i m)"
    using r u nz by (simp add: ac_simps)
  finally show ?case using Suc.hyps(2) by simp
qed

lemma cstring_append:
  assumes "cstring m d xs" "cstring m s ys" "length xs + length ys < 2 ^ 32" "k = min n (length ys)"
    and e: "e = d + of_nat (length xs)"
  shows "cstring ((copied e s k m)(e + of_nat k := 0)) d (xs @ take n ys)"
proof (rule cstringI)
  show "0 \<notin> set (xs @ take n ys)"
    using cstring_set [OF assms(1)] cstring_set [OF assms(2)] set_take_subset [of n ys] by auto
  have len: "length (take n ys) = k" using assms(4) by simp
  show "((copied e s k m)(e + of_nat k := 0)) (d + of_nat (length (xs @ take n ys))) = 0"
    using len by (simp add: e add.assoc)
  fix j assume j: "j < length (xs @ take n ys)"
  then have jk: "j < length xs + k" using len by simp
  have o: "off d (d + of_nat j) = j" using jk assms(3,4) by (intro off_add_self) simp
  have n: "d + of_nat j \<noteq> e + of_nat k"
  proof
    assume "d + of_nat j = e + of_nat k"
    then have "off d (d + of_nat (length xs + k)) = j" using o by (simp add: e add.assoc)
    moreover have "off d (d + of_nat (length xs + k)) = length xs + k"
      using assms(3,4) by (intro off_add_self) simp
    ultimately show False using jk by simp
  qed
  have oe: "off e (d + of_nat j) < k \<longleftrightarrow> length xs \<le> j"
    using off_add_less [of "length xs" k d "d + of_nat j"] o jk assms(3,4) by (simp add: e)
  show "((copied e s k m)(e + of_nat k := 0)) (d + of_nat j) = (xs @ take n ys) ! j"
  proof (cases "length xs \<le> j")
    case False
    then show ?thesis
      using n oe cstring_nth [OF assms(1), of j] by (simp add: copied_apply nth_append)
  next
    case True
    have "off e (d + of_nat j) = j - length xs"
      using off_add [of "length xs" d "d + of_nat j"] o True assms(3) by (simp add: e)
    then show ?thesis
      using n oe True jk assms(4) cstring_nth [OF assms(2), of "j - length xs"]
      by (simp add: copied_apply nth_append)
  qed
qed

text \<open>
  Appending returns: when the source stands apart from the area written, \<open>strcat\<close>
  leaves the concatenation of the two strings at the destination, \<open>strncat\<close> at most \<open>n\<close>
  characters of the second, always terminated; \<open>strcpy\<close> copies the string with its NUL and
  nothing else.
\<close>

lemma string_append_correct:
  assumes "cstring m d xs" "cstring m s ys" "length xs + length ys < 2 ^ 32 - 1"
    and "apart (d + of_nat (length xs)) s (Suc (length ys))" "apart d s (Suc (length ys))"
  shows "(\<exists>m'. strcat d s m = Some m' \<and> cstring m' d (xs @ ys))
    \<and> (\<exists>m'. strncat d s n m = Some m' \<and> cstring m' d (xs @ take n ys))
    \<and> strcpy d s m = Some (copied d s (Suc (length ys)) m)"
proof (intro conjI)
  let ?e = "d + of_nat (length xs)"
  have l: "length ys < 2 ^ 32 - 1" "length xs + length ys < 2 ^ 32" using assms(3) by auto
  note cp = strncat_loop_copied [OF assms(4,2) l(1), of 0, simplified]
  show "\<exists>m'. strncat d s n m = Some m' \<and> cstring m' d (xs @ take n ys)"
    using cstring_append [OF assms(1,2) l(2) refl refl, of n] str_end_cstring [OF assms(1)] cp
    by (simp add: strncat_def)
  show "\<exists>m'. strcat d s m = Some m' \<and> cstring m' d (xs @ ys)"
    using cstring_append [OF assms(1,2) l(2) refl refl, of "length ys"] str_end_cstring [OF assms(1)] cp
      strcat_loop_copied [OF assms(4,2) l(1), of 0]
    by (simp add: strcat_def)
  show "strcpy d s m = Some (copied d s (Suc (length ys)) m)"
    using strcpy_loop_copied [OF assms(5,2) l(1), of 0] by (simp add: strcpy_def)
qed

lemma string_append_correct_witness:
  "\<exists>m'. strcat 0x101 0x201 sample = Some m' \<and> cstring m' 0x101 [7, 9, 7, 4]"
proof -
  have "cstring sample 0x101 [7, 9]" "cstring sample 0x201 [7, 4]"
    by code_simp+
  moreover have "apart (0x101 + of_nat (length [7 :: u8, 9])) 0x201 (Suc (length [7 :: u8, 4]))"
    "apart 0x101 0x201 (Suc (length [7 :: u8, 4]))"
    by (rule apart_above; simp)+
  ultimately show ?thesis
    using string_append_correct [of sample "0x101" "[7, 9]" "0x201" "[7, 4]" 0] by simp
qed

subsection \<open>strncpy pads the wrong bytes\<close>

lemma of_nat_le_u32: "k < 2 ^ 32 \<Longrightarrow> l \<le> of_nat k \<longleftrightarrow> unat l \<le> k" for l :: u32
  by (simp add: word_le_nat_alt unat_of_nat)

lemma strncpy_copy_copied:
  assumes "apart d s (Suc (length xs))" "cstring m s xs" "length xs < unat l"
  shows "i \<le> length xs \<Longrightarrow>
    strncpy_copy l (of_nat i) (d + of_nat i) (s + of_nat i) (copied d s i m)
      = (d + of_nat (length xs), of_nat (Suc (length xs)), copied d s (Suc (length xs)) m)"
proof (induction "length xs - i" arbitrary: i)
  case 0
  then have i: "i = length xs" by simp
  have b: "i < 2 ^ 32" "\<not> l \<le> of_nat i"
    using i assms(3) unsigned_less [of l, where 'a = nat] by (auto simp: of_nat_le_u32)
  have r: "copied d s i m (s + of_nat i) = m (s + of_nat i)"
    "copied d s (Suc i) m (s + of_nat i) = m (s + of_nat i)"
    using copied_read [OF assms(1)] i by auto
  show ?case
    unfolding strncpy_copy.simps [of l "of_nat i"] Let_def r copied_Suc [OF b(1)]
    using cstring_end [OF assms(2)] i b(2) by (simp add: ac_simps)
next
  case (Suc k)
  then have i: "i < length xs" by auto
  have b: "i < 2 ^ 32" "\<not> l \<le> of_nat i"
    using i assms(3) unsigned_less [of l, where 'a = nat] by (auto simp: of_nat_le_u32)
  have r: "copied d s i m (s + of_nat i) = m (s + of_nat i)"
    "copied d s (Suc i) m (s + of_nat i) = m (s + of_nat i)"
    using copied_read [OF assms(1)] i by auto
  have "strncpy_copy l (of_nat i) (d + of_nat i) (s + of_nat i) (copied d s i m)
      = strncpy_copy l (of_nat (Suc i)) (d + of_nat (Suc i)) (s + of_nat (Suc i)) (copied d s (Suc i) m)"
    unfolding strncpy_copy.simps [of l "of_nat i"] Let_def r copied_Suc [OF b(1)]
    using cstring_nonzero [OF assms(2) i] b(2) by (simp add: ac_simps)
  then show ?case using Suc.hyps(1) [of "Suc i"] Suc.hyps(2) i by simp
qed

lemma strncpy_pad_fill:
  "k \<le> unat l \<Longrightarrow>
    strncpy_pad l (of_nat k) d1 m = fill (d1 + of_nat k) (unat l - k) 0 m"
proof (induction "unat l - k" arbitrary: k m)
  case 0
  then have "k = unat l" by simp
  then show ?case by (simp add: strncpy_pad.simps)
next
  case (Suc n)
  have l: "unat l < 2 ^ 32" using unsigned_less [of l, where 'a = nat] by simp
  have k: "k < unat l" "\<not> l \<le> of_nat k" using Suc l by (auto simp: of_nat_le_u32)
  have "strncpy_pad l (of_nat k) d1 m = strncpy_pad l (of_nat (Suc k)) d1 (m(d1 + of_nat k := 0))"
    using k by (subst strncpy_pad.simps) (simp add: ac_simps)
  also have "\<dots> = fill (d1 + of_nat k + 1) (unat l - Suc k) 0 (m(d1 + of_nat k := 0))"
    using Suc.hyps(1) [of "Suc k" "m(d1 + of_nat k := 0)"] Suc.hyps(2) k by (simp add: ac_simps)
  also have "\<dots> = fill (d1 + of_nat k) (unat l - k) 0 m"
    using l k fill_Suc [of "unat l - Suc k" "d1 + of_nat k" 0 m] by (simp add: Suc_diff_Suc)
  finally show ?case .
qed

text \<open>
  \<open>strncpy\<close> pads with \<open>d1[len]\<close> although \<open>d1\<close> already points at the NUL it copied:
  for a string of \<open>n > 0\<close> characters the zeros start \<open>n\<close> bytes too far, so the last of them
  is stored \<open>n - 1\<close> bytes behind the end of the buffer of \<open>l\<close> bytes, and the \<open>n\<close> bytes after the
  copied string keep their old value.
\<close>

lemma strncpy_pads_past_buffer:
  assumes "cstring m s xs" "0 < length xs" "length xs + 1 < unat l" "apart d s (Suc (length xs))"
    and "length xs + unat l \<le> 2 ^ 32"
  shows "strncpy d s l m
      = fill (d + of_nat (2 * length xs + 1)) (unat l - length xs - 1) 0 (copied d s (Suc (length xs)) m)
    \<and> strncpy d s l m (d + of_nat (length xs + unat l - 1)) = 0
    \<and> unat l \<le> off d (d + of_nat (length xs + unat l - 1))
    \<and> strncpy d s l m (d + of_nat (length xs + 1)) = m (d + of_nat (length xs + 1))"
proof -
  let ?n = "length xs"
  have r: "strncpy d s l m = fill (d + of_nat (2 * ?n + 1)) (unat l - ?n - 1) 0 (copied d s (Suc ?n) m)"
    using strncpy_copy_copied [OF assms(4,1), of l 0] strncpy_pad_fill [of "Suc ?n" l] assms(3)
    by (simp add: strncpy_def ac_simps)
  have o: "off d (d + of_nat j) = j" if "j < ?n + unat l" for j
    using that assms(5) by (intro off_add_self) simp
  have f: "off (d + of_nat (2 * ?n + 1)) a < unat l - ?n - 1
      \<longleftrightarrow> 2 * ?n + 1 \<le> off d a \<and> off d a < ?n + unat l" for a
    using off_add_less [of "2 * ?n + 1" "unat l - ?n - 1" d a] assms(3,5) by auto
  have o1: "off d (d + of_nat (?n + unat l - 1)) = ?n + unat l - 1"
    and o2: "off d (d + of_nat (?n + 1)) = ?n + 1"
    using assms(2,3) by (intro o; simp)+
  have "strncpy d s l m (d + of_nat (?n + unat l - 1)) = 0"
  proof -
    have "2 * ?n + 1 \<le> ?n + unat l - 1 \<and> ?n + unat l - 1 < ?n + unat l" using assms(3) by linarith
    then show ?thesis unfolding r fill_def f o1 by (simp only: simp_thms if_True)
  qed
  moreover have "strncpy d s l m (d + of_nat (?n + 1)) = m (d + of_nat (?n + 1))"
    unfolding r fill_def f copied_apply o2 using assms(2) by simp
  moreover have "unat l \<le> off d (d + of_nat (?n + unat l - 1))"
    unfolding o1 using assms(2) by linarith
  ultimately show ?thesis using r by blast
qed

lemma strncpy_pads_past_buffer_witness:
  "strncpy 0x400 0x101 8 sample 0x409 = 0"
proof -
  have "cstring sample 0x101 [7, 9]" by code_simp
  moreover have "apart 0x400 0x101 (Suc (length [7 :: u8, 9]))"
    by (rule apart_below) simp_all
  ultimately show ?thesis using strncpy_pads_past_buffer [of sample "0x101" "[7, 9]" 8 "0x400"]
    by (simp; metis)
qed

end
