(* ===== verification/Sbe_MemAccess.thy ===== *)
theory Sbe_MemAccess
  imports Sbe_Prelude
begin

text \<open>
  The memory access interface of the SBE firmware (\<open>sbeMemAccessInterface.C\<close>): a buffered
  stream of bytes over the PBA or the ADU, which transfer memory in granules. The hardware
  procedures that set up the interface and move one granule (\<open>p9_pba_setup\<close>, \<open>p9_pba_access\<close>,
  \<open>p9_adu_setup\<close> and \<open>p9_adu_access\<close> under \<open>src/import\<close>) drive the registers of the chip and are not
  modelled; they are the arguments \<open>setup_hwp\<close> and \<open>access_hwp\<close> of the record \<open>mem_hwp\<close>, over a hardware
  state of any type, and may fail. Where a property needs them to succeed it says for which
  addresses: a set \<open>S\<close>, since they refuse, for instance, every address above the limit of the
  fabric. A failed assertion is the result \<open>None\<close>.
\<close>

type_synonym fapi_rc = u32

definition FAPI2_RC_SUCCESS :: fapi_rc where
  "FAPI2_RC_SUCCESS = 0"

datatype sbeMemAccessMode = SBE_MEM_ACCESS_READ | SBE_MEM_ACCESS_WRITE
datatype sbeMemAccessInterfaceType = SBE_MEM_ACCESS_PBA | SBE_MEM_ACCESS_ADU

definition MEM_INTERFACE_SIZE_BYTES :: nat where
  "MEM_INTERFACE_SIZE_BYTES = 128"

definition PBA_GRAN_SIZE_BYTES :: nat where
  "PBA_GRAN_SIZE_BYTES = 128"

definition ADU_GRAN_SIZE_BYTES :: nat where
  "ADU_GRAN_SIZE_BYTES = 8"

text \<open>\<open>iv_ecc\<close> and \<open>iv_itag\<close> are the two mode bits of the ADU flags that the class reads.\<close>

record sbeMemAccessInterface =
  iv_addr :: u64
  iv_interface :: sbeMemAccessInterfaceType
  iv_ecc :: bool
  iv_itag :: bool
  iv_mode :: sbeMemAccessMode
  iv_maxGranule :: u32
  iv_iterator :: nat
  iv_currGranule :: u32
  iv_granuleSize :: nat
  iv_buffer :: "u8 list"
  iv_intfCleanedUp :: bool

text \<open>
  \<open>setup_hwp interface addr is_read\<close> returns a code and the number of granules that may follow;
  \<open>access_hwp interface addr is_read first last buffer\<close> moves one granule from or into the buffer.
\<close>

record 'h mem_hwp =
  setup_hwp :: "sbeMemAccessInterfaceType \<Rightarrow> u64 \<Rightarrow> bool \<Rightarrow> 'h \<Rightarrow> fapi_rc \<times> u32 \<times> 'h"
  access_hwp :: "sbeMemAccessInterfaceType \<Rightarrow> u64 \<Rightarrow> bool \<Rightarrow> bool \<Rightarrow> bool \<Rightarrow> u8 list \<Rightarrow> 'h
    \<Rightarrow> fapi_rc \<times> u8 list \<times> 'h"

definition mem_interface_create ::
    "sbeMemAccessInterfaceType \<Rightarrow> u64 \<Rightarrow> bool \<Rightarrow> bool \<Rightarrow> sbeMemAccessMode \<Rightarrow> nat \<Rightarrow> u8 list
      \<Rightarrow> sbeMemAccessInterface" where
  "mem_interface_create interface addr ecc itag mode granuleSize buffer =
     \<lparr> iv_addr = addr, iv_interface = interface, iv_ecc = ecc, iv_itag = itag, iv_mode = mode,
       iv_maxGranule = 0, iv_iterator = 0, iv_currGranule = 0, iv_granuleSize = granuleSize,
       iv_buffer = buffer, iv_intfCleanedUp = True \<rparr>"

definition getBuffer :: "sbeMemAccessInterface \<Rightarrow> sbeMemAccessInterface \<times> u8 list" where
  "getBuffer I = (I\<lparr> iv_iterator := iv_granuleSize I \<rparr>, iv_buffer I)"

definition MEM_AVAILABLE_CHECK :: "u32 \<Rightarrow> u32 \<Rightarrow> bool \<Rightarrow> u32 \<times> u32 \<times> bool" where
  "MEM_AVAILABLE_CHECK available_len len_to_send is_last_access =
     (let (len_to_send, is_last_access) =
            (if len_to_send > available_len then (available_len, True)
             else (len_to_send, is_last_access))
      in (available_len - len_to_send, len_to_send, is_last_access))"

definition is_read :: "sbeMemAccessInterface \<Rightarrow> bool" where
  "is_read I \<longleftrightarrow> iv_mode I = SBE_MEM_ACCESS_READ"

definition mem_setup :: "'h mem_hwp \<Rightarrow> sbeMemAccessInterface \<Rightarrow> 'h
    \<Rightarrow> (fapi_rc \<times> sbeMemAccessInterface \<times> 'h) option" where
  "mem_setup hwp I h =
     (let I = I\<lparr> iv_currGranule := 0, iv_intfCleanedUp := False \<rparr>;
          (rc, maxGranule, h) = setup_hwp hwp (iv_interface I) (iv_addr I) (is_read I) h;
          I = I\<lparr> iv_maxGranule := maxGranule \<rparr>
      in if rc \<noteq> FAPI2_RC_SUCCESS then Some (rc, I, h)
         else if maxGranule = 0 then None
         else Some (rc, I, h))"

definition accessGranule_ready :: "'h mem_hwp \<Rightarrow> bool \<Rightarrow> sbeMemAccessInterface \<Rightarrow> 'h
    \<Rightarrow> fapi_rc \<times> sbeMemAccessInterface \<times> 'h" where
  "accessGranule_ready hwp i_isLastAccess I h =
     (let I = I\<lparr> iv_intfCleanedUp := (i_isLastAccess \<or> iv_maxGranule I = 1) \<rparr>;
          (rc, buffer, h) = access_hwp hwp (iv_interface I) (iv_addr I) (is_read I)
             (iv_currGranule I = 0) (iv_intfCleanedUp I) (iv_buffer I) h;
          I = I\<lparr> iv_buffer := buffer \<rparr>
      in if rc \<noteq> FAPI2_RC_SUCCESS then (rc, I, h)
         else (rc, I\<lparr> iv_maxGranule := iv_maxGranule I - 1, iv_currGranule := iv_currGranule I + 1,
                     iv_addr := iv_addr I + of_nat (iv_granuleSize I),
                     iv_iterator := (if is_read I then iv_granuleSize I else 0) \<rparr>, h))"

definition accessGranule :: "'h mem_hwp \<Rightarrow> bool \<Rightarrow> sbeMemAccessInterface \<Rightarrow> 'h
    \<Rightarrow> (fapi_rc \<times> sbeMemAccessInterface \<times> 'h) option" where
  "accessGranule hwp i_isLastAccess I h =
     (if iv_intfCleanedUp I
      then (case mem_setup hwp I h of
              None \<Rightarrow> None
            | Some (rc, I, h) \<Rightarrow>
                if rc \<noteq> FAPI2_RC_SUCCESS then Some (rc, I, h)
                else Some (accessGranule_ready hwp i_isLastAccess I h))
      else Some (accessGranule_ready hwp i_isLastAccess I h))"

text \<open>The caller's buffer \<open>io_buffer\<close> is a function of the index; the length is separate, as in the code.\<close>

type_synonym io_buffer = "nat \<Rightarrow> u8"

definition put_byte :: "u8 \<Rightarrow> sbeMemAccessInterface \<Rightarrow> sbeMemAccessInterface" where
  "put_byte b I =
     I\<lparr> iv_buffer := (iv_buffer I)[iv_iterator I := b], iv_iterator := Suc (iv_iterator I) \<rparr>"

text \<open>The fill loop; \<open>k\<close> is \<open>i_len - iterator\<close>.\<close>

fun fill_write :: "nat \<Rightarrow> io_buffer \<Rightarrow> nat \<Rightarrow> sbeMemAccessInterface \<Rightarrow> nat \<times> sbeMemAccessInterface" where
  "fill_write 0 buf iterator I = (iterator, I)"
| "fill_write (Suc k) buf iterator I =
     (if iv_iterator I < iv_granuleSize I
      then fill_write k buf (Suc iterator) (put_byte (buf iterator) I)
      else (iterator, I))"

fun zero_fill :: "nat \<Rightarrow> sbeMemAccessInterface \<Rightarrow> sbeMemAccessInterface" where
  "zero_fill 0 I = I"
| "zero_fill (Suc k) I = zero_fill k (put_byte 0 I)"

definition alignAccessWithBuffer :: "sbeMemAccessInterface \<Rightarrow> sbeMemAccessInterface" where
  "alignAccessWithBuffer I =
     (if iv_iterator I \<noteq> 0 then zero_fill (iv_granuleSize I - iv_iterator I) I else I)"

fun fill_read :: "nat \<Rightarrow> io_buffer \<Rightarrow> nat \<Rightarrow> sbeMemAccessInterface \<Rightarrow> io_buffer \<times> nat \<times> sbeMemAccessInterface" where
  "fill_read 0 buf iterator I = (buf, iterator, I)"
| "fill_read (Suc k) buf iterator I =
     (if iv_iterator I > 0
      then fill_read k (buf(iterator := iv_buffer I ! (iv_granuleSize I - iv_iterator I))) (Suc iterator)
             (I\<lparr> iv_iterator := iv_iterator I - 1 \<rparr>)
      else (buf, iterator, I))"

definition write_phase :: "io_buffer \<Rightarrow> nat \<Rightarrow> nat \<Rightarrow> sbeMemAccessInterface \<Rightarrow> nat \<times> sbeMemAccessInterface" where
  "write_phase buf len iterator I =
     (if is_read I then (iterator, I)
      else let (iterator, I) = fill_write (len - iterator) buf iterator I;
               adu = (iv_interface I = SBE_MEM_ACCESS_ADU);
               (iterator, I) = (if adu \<and> iv_ecc I then (Suc iterator, put_byte (buf iterator) I)
                                else (iterator, I));
               (iterator, I) = (if adu \<and> iv_itag I then (Suc iterator, put_byte (buf iterator) I)
                                else (iterator, I))
           in (iterator, I))"

text \<open>\<open>i_len - iterator\<close> is computed at 32 bits, where it wraps when the iterator is past the end.\<close>

definition last_phase :: "bool \<Rightarrow> nat \<Rightarrow> nat \<Rightarrow> bool \<Rightarrow> sbeMemAccessInterface \<Rightarrow> bool \<times> sbeMemAccessInterface" where
  "last_phase i_isLastAccess len iterator is_lastGranule I =
     (if i_isLastAccess
      then if \<not> is_read I \<and> len \<le> iterator then (True, alignAccessWithBuffer I)
           else if is_read I \<and> unat (of_nat len - of_nat iterator :: u32) \<le> iv_granuleSize I
           then (True, I\<lparr> iv_iterator := 0 \<rparr>)
           else (is_lastGranule, I)
      else (is_lastGranule, I))"

definition read_phase :: "io_buffer \<Rightarrow> nat \<Rightarrow> nat \<Rightarrow> sbeMemAccessInterface \<Rightarrow> io_buffer \<times> nat \<times> sbeMemAccessInterface" where
  "read_phase buf len iterator I =
     (if is_read I
      then let (buf, iterator, I) = fill_read (len - iterator) buf iterator I;
               adu = (iv_interface I = SBE_MEM_ACCESS_ADU);
               index = iv_granuleSize I;
               (buf, iterator, index) =
                 (if adu \<and> iv_ecc I then (buf(iterator := iv_buffer I ! index), Suc iterator, Suc index)
                  else (buf, iterator, index));
               (buf, iterator) =
                 (if adu \<and> iv_itag I then (buf(iterator := iv_buffer I ! index), Suc iterator)
                  else (buf, iterator))
           in (buf, iterator, I)
      else (buf, iterator, I))"

definition needs_granule :: "sbeMemAccessInterface \<Rightarrow> bool" where
  "needs_granule I \<longleftrightarrow>
     \<not> is_read I \<and> iv_granuleSize I \<le> iv_iterator I \<or> is_read I \<and> iv_iterator I = 0"

text \<open>
  One pass of the \<open>do ... while(true)\<close> loop. The first component says whether the loop is left;
  the others are the return code, \<open>is_lastGranule\<close>, the caller's buffer and iterator, and the
  object and hardware state.
\<close>

definition access_pass ::
    "'h mem_hwp \<Rightarrow> nat \<Rightarrow> bool \<Rightarrow> bool \<Rightarrow> io_buffer \<Rightarrow> nat \<Rightarrow> sbeMemAccessInterface \<Rightarrow> 'h
      \<Rightarrow> (bool \<times> fapi_rc \<times> bool \<times> io_buffer \<times> nat \<times> sbeMemAccessInterface \<times> 'h) option" where
  "access_pass hwp len i_isLastAccess is_lastGranule buf iterator I h =
     (let (iterator, I) = write_phase buf len iterator I;
          (is_lastGranule, I) = last_phase i_isLastAccess len iterator is_lastGranule I
      in case (if needs_granule I then accessGranule hwp is_lastGranule I h
               else Some (FAPI2_RC_SUCCESS, I, h)) of
           None \<Rightarrow> None
         | Some (rc, I, h) \<Rightarrow>
             if rc \<noteq> FAPI2_RC_SUCCESS then Some (True, rc, is_lastGranule, buf, iterator, I, h)
             else let (buf, iterator, I) = read_phase buf len iterator I
                  in Some (len \<le> iterator, rc, is_lastGranule, buf, iterator, I, h))"

partial_function (option) access_loop ::
    "'h mem_hwp \<Rightarrow> nat \<Rightarrow> bool \<Rightarrow> bool \<Rightarrow> io_buffer \<Rightarrow> nat \<Rightarrow> sbeMemAccessInterface \<Rightarrow> 'h
      \<Rightarrow> (fapi_rc \<times> io_buffer \<times> sbeMemAccessInterface \<times> 'h) option" where
  "access_loop hwp len i_isLastAccess is_lastGranule buf iterator I h =
     (case access_pass hwp len i_isLastAccess is_lastGranule buf iterator I h of
        None \<Rightarrow> None
      | Some (fin, rc, is_lastGranule, buf, iterator, I, h) \<Rightarrow>
          if fin then Some (rc, buf, I, h)
          else access_loop hwp len i_isLastAccess is_lastGranule buf iterator I h)"

declare access_loop.simps [code]

definition accessWithBuffer ::
    "'h mem_hwp \<Rightarrow> io_buffer \<Rightarrow> nat \<Rightarrow> bool \<Rightarrow> sbeMemAccessInterface \<Rightarrow> 'h
      \<Rightarrow> (fapi_rc \<times> io_buffer \<times> sbeMemAccessInterface \<times> 'h) option" where
  "accessWithBuffer hwp buf len i_isLastAccess I h =
     access_loop hwp len i_isLastAccess False buf 0 I h"

subsection \<open>Writing is appending\<close>

definition mem_store :: "u64 \<Rightarrow> u8 list \<Rightarrow> (u64 \<Rightarrow> u8) \<Rightarrow> (u64 \<Rightarrow> u8)" where
  "mem_store a bs m = (\<lambda>x. if unat (x - a) < length bs then bs ! unat (x - a) else m x)"

text \<open>
  What the writing side relies on of the hardware procedures, at the addresses \<open>S\<close> they serve, as far as
  these are multiples of the granule: they succeed, the setup grants at least one granule and leaves
  the memory \<open>memof\<close> alone, and an access stores the first \<open>g\<close> bytes of the buffer at the address. About
  other addresses nothing is said. \<open>serves g S a n\<close>: the granules of \<open>n\<close> bytes from \<open>a\<close> on are served.
\<close>

definition writes_memory :: "'h mem_hwp \<Rightarrow> ('h \<Rightarrow> u64 \<Rightarrow> u8) \<Rightarrow> sbeMemAccessInterfaceType \<Rightarrow> nat \<Rightarrow> u64 set \<Rightarrow> bool" where
  "writes_memory hwp memof i g S \<longleftrightarrow>
     (\<forall>a h. g dvd unat a \<longrightarrow> a \<in> S \<longrightarrow>
        (\<exists>n h'. setup_hwp hwp i a False h = (FAPI2_RC_SUCCESS, n, h') \<and> n \<noteq> 0 \<and> memof h' = memof h))
   \<and> (\<forall>a f l buf h. g dvd unat a \<longrightarrow> a \<in> S \<longrightarrow> (\<exists>h'. access_hwp hwp i a False f l buf h = (FAPI2_RC_SUCCESS, buf, h')
        \<and> memof h' = mem_store a (take g buf) (memof h)))"

definition serves :: "nat \<Rightarrow> u64 set \<Rightarrow> u64 \<Rightarrow> nat \<Rightarrow> bool" where
  "serves g S a n \<longleftrightarrow> (\<forall>k. k * g < n \<longrightarrow> a + of_nat (k * g) \<in> S)"

lemma serves_first: "serves g S a n \<Longrightarrow> 0 < n \<Longrightarrow> a \<in> S"
  by (auto simp: serves_def dest: spec [of _ 0])

lemma serves_0 [simp]: "serves g S a 0"
  by (simp add: serves_def)

lemma serves_mono: "serves g S a n \<Longrightarrow> m \<le> n \<Longrightarrow> serves g S a m"
  by (simp add: serves_def)

lemma serves_skip:
  assumes "serves g S a (m + n)" "g dvd m"
  shows "serves g S (a + of_nat m) n"
proof -
  obtain j where m: "m = g * j" using assms(2) by (elim dvdE)
  have "a + of_nat m + of_nat (k * g) \<in> S" if "k * g < n" for k
  proof -
    have "(j + k) * g < m + n" using that m by (simp add: algebra_simps)
    then have "a + of_nat ((j + k) * g) \<in> S" using assms(1) unfolding serves_def by blast
    then show ?thesis by (simp add: m algebra_simps)
  qed
  then show ?thesis by (simp add: serves_def)
qed

text \<open>The range of the fabric: the procedures refuse an address beyond it.\<close>

definition P9_FBC_UTILS_FBC_MAX_ADDRESS :: u64 where
  "P9_FBC_UTILS_FBC_MAX_ADDRESS = push_bit 56 1 - 1"

definition fabric_range :: "u64 set" where
  "fabric_range = {a. a \<le> P9_FBC_UTILS_FBC_MAX_ADDRESS}"

lemma serves_fabric:
  assumes "unat a + n \<le> 2 ^ 56"
  shows "serves g fabric_range a n"
proof -
  have m: "unat P9_FBC_UTILS_FBC_MAX_ADDRESS = 2 ^ 56 - 1"
    by (simp add: P9_FBC_UTILS_FBC_MAX_ADDRESS_def push_bit_eq_mult unat_sub_if')
  have "unat (a + of_nat j) < 2 ^ 56" if "j < n" for j
  proof -
    have j: "unat (of_nat j :: u64) = j" using that assms by (simp add: unat_of_nat)
    then show ?thesis using that assms unat_word_ariths(1) [of a "of_nat j"] by simp
  qed
  then show ?thesis by (fastforce simp: serves_def fabric_range_def word_le_nat_alt m)
qed

text \<open>An object that writes plain data, without the extra ECC and tag bytes of the ADU, whole granules apart.\<close>

definition writing :: "nat \<Rightarrow> sbeMemAccessInterface \<Rightarrow> bool" where
  "writing g I \<longleftrightarrow>
     \<not> is_read I \<and> (iv_interface I = SBE_MEM_ACCESS_ADU \<longrightarrow> \<not> iv_ecc I \<and> \<not> iv_itag I)
   \<and> iv_granuleSize I = g \<and> 0 < g \<and> g \<le> length (iv_buffer I) \<and> iv_iterator I \<le> g
   \<and> g dvd 2 ^ 64 \<and> g dvd unat (iv_addr I)"

lemma next_granule:
  assumes "g dvd 2 ^ 64" "g dvd unat (a :: u64)"
  shows "g dvd unat (a + of_nat g)"
proof -
  have "g dvd unat (of_nat g :: u64)" using assms(1) by (simp add: unat_of_nat dvd_mod)
  then have "g dvd (unat a + unat (of_nat g :: u64)) mod 2 ^ 64" using assms by (simp add: dvd_mod)
  then show ?thesis by (simp add: unat_word_ariths)
qed

definition pending :: "sbeMemAccessInterface \<Rightarrow> u8 list" where
  "pending I = take (iv_iterator I) (iv_buffer I)"

lemma length_pending [simp]: "writing g I \<Longrightarrow> length (pending I) = iv_iterator I"
  by (auto simp: pending_def writing_def)

lemma mem_store_append:
  assumes "length xs + length ys \<le> 2 ^ 64"
  shows "mem_store (a + of_nat (length xs)) ys (mem_store a xs m) = mem_store a (xs @ ys) m"
proof
  fix x
  let ?n = "length xs"
  show "mem_store (a + of_nat ?n) ys (mem_store a xs m) x = mem_store a (xs @ ys) m x"
  proof (cases "ys = []")
    case True
    then show ?thesis by (simp add: mem_store_def)
  next
    case False
    then have n: "?n < 2 ^ 64" using assms by (cases ys) auto
    then have u: "unat (of_nat ?n :: u64) = ?n" by (simp add: unat_of_nat)
    define z where "z = x - a"
    have z: "unat z < 2 ^ 64" using unsigned_less [of z, where 'a = nat] by simp
    have "x - (a + of_nat ?n) = z - of_nat ?n" by (simp add: z_def)
    moreover have "unat (z - of_nat ?n) = (if ?n \<le> unat z then unat z - ?n else unat z + 2 ^ 64 - ?n)"
      using u by (simp add: unat_sub_if')
    ultimately have e: "unat (x - (a + of_nat ?n))
        = (if ?n \<le> unat z then unat z - ?n else unat z + 2 ^ 64 - ?n)" by (simp only:)
    show ?thesis
      unfolding mem_store_def e z_def [symmetric] using assms z by (auto simp: nth_append)
  qed
qed

lemma mem_store_Nil [simp]: "mem_store a [] m = m"
  by (simp add: mem_store_def)

lemma writing_put_byte:
  "writing g I \<Longrightarrow> iv_iterator I < g \<Longrightarrow>
    writing g (put_byte b I) \<and> pending (put_byte b I) = pending I @ [b]
    \<and> iv_addr (put_byte b I) = iv_addr I \<and> iv_iterator (put_byte b I) = Suc (iv_iterator I)
    \<and> iv_interface (put_byte b I) = iv_interface I"
  by (auto simp: writing_def put_byte_def pending_def is_read_def take_Suc_conv_app_nth)

lemma fill_write_appends:
  assumes "fill_write k buf it I = (it', I')" "writing g I"
  shows "writing g I' \<and> pending I' = pending I @ map buf [it..<it'] \<and> iv_addr I' = iv_addr I
    \<and> iv_interface I' = iv_interface I
    \<and> it' = it + min k (g - iv_iterator I) \<and> iv_iterator I' = iv_iterator I + (it' - it)"
  using assms
proof (induction k arbitrary: it I)
  case (Suc k)
  show ?case
  proof (cases "iv_iterator I < g")
    case True
    note p = writing_put_byte [OF Suc.prems(2) True, of "buf it"]
    have f: "fill_write k buf (Suc it) (put_byte (buf it) I) = (it', I')"
      using Suc.prems True by (simp add: writing_def)
    have "it < it'" using Suc.IH [OF f] p by auto
    then have "map buf [it..<it'] = buf it # map buf [Suc it..<it']" by (simp add: upt_conv_Cons)
    moreover have "g - iv_iterator I = Suc (g - Suc (iv_iterator I))" using True by simp
    ultimately show ?thesis using Suc.IH [OF f] p by auto
  next
    case False
    then show ?thesis using Suc.prems by (auto simp: writing_def)
  qed
qed simp

lemma zero_fill_appends:
  "writing g I \<Longrightarrow> iv_iterator I + k \<le> g \<Longrightarrow>
    writing g (zero_fill k I) \<and> pending (zero_fill k I) = pending I @ replicate k 0
    \<and> iv_addr (zero_fill k I) = iv_addr I \<and> iv_iterator (zero_fill k I) = iv_iterator I + k
    \<and> iv_interface (zero_fill k I) = iv_interface I"
proof (induction k arbitrary: I)
  case (Suc k)
  then show ?case
    using writing_put_byte [of g I 0] Suc.IH [of "put_byte 0 I"] by (simp add: replicate_append_same)
qed simp

lemma accessGranule_ready_write:
  assumes "writes_memory hwp memof (iv_interface I) g S" "writing g I" "iv_iterator I = g" "iv_addr I \<in> S"
  obtains I' h' where "accessGranule_ready hwp l I h = (FAPI2_RC_SUCCESS, I', h')"
    "writing g I'" "pending I' = []" "iv_iterator I' = 0" "iv_interface I' = iv_interface I"
    "iv_addr I' = iv_addr I + of_nat g"
    "memof h' = mem_store (iv_addr I) (pending I) (memof h)"
proof -
  have r: "\<not> is_read I" "g dvd 2 ^ 64" "g dvd unat (iv_addr I)" using assms(2) by (simp_all add: writing_def)
  obtain h' where h: "access_hwp hwp (iv_interface I) (iv_addr I) False (iv_currGranule I = 0)
      (l \<or> iv_maxGranule I = 1) (iv_buffer I) h = (FAPI2_RC_SUCCESS, iv_buffer I, h')"
    "memof h' = mem_store (iv_addr I) (take g (iv_buffer I)) (memof h)"
    using assms(1,4) r(3) unfolding writes_memory_def by blast
  show ?thesis
    by (rule that [of "I\<lparr> iv_intfCleanedUp := (l \<or> iv_maxGranule I = 1), iv_maxGranule := iv_maxGranule I - 1,
          iv_currGranule := iv_currGranule I + 1, iv_addr := iv_addr I + of_nat g, iv_iterator := 0 \<rparr>" h'])
      (use assms r(1) h next_granule [OF r(2,3)] in \<open>simp_all add: accessGranule_ready_def Let_def is_read_def writing_def pending_def\<close>)
qed

lemma accessGranule_write:
  assumes "writes_memory hwp memof (iv_interface I) g S" "writing g I" "iv_iterator I = g" "iv_addr I \<in> S"
  obtains I' h' where "accessGranule hwp l I h = Some (FAPI2_RC_SUCCESS, I', h')"
    "writing g I'" "pending I' = []" "iv_iterator I' = 0" "iv_interface I' = iv_interface I"
    "iv_addr I' = iv_addr I + of_nat g"
    "memof h' = mem_store (iv_addr I) (pending I) (memof h)"
proof (cases "iv_intfCleanedUp I")
  case False
  then show ?thesis
    using accessGranule_ready_write [OF assms, of l h] that by (simp add: accessGranule_def) metis
next
  case True
  have r: "\<not> is_read I" "g dvd unat (iv_addr I)" using assms(2) by (simp_all add: writing_def)
  obtain n h1 where s: "setup_hwp hwp (iv_interface I) (iv_addr I) False h = (FAPI2_RC_SUCCESS, n, h1)"
    "n \<noteq> 0" "memof h1 = memof h"
    using assms(1,4) r(2) unfolding writes_memory_def by blast
  define J where "J = I\<lparr> iv_currGranule := 0, iv_intfCleanedUp := False, iv_maxGranule := n \<rparr>"
  have J: "writing g J" "iv_iterator J = g" "iv_interface J = iv_interface I" "iv_addr J = iv_addr I"
    "pending J = pending I"
    using assms(2,3) by (simp_all add: J_def writing_def is_read_def pending_def)
  have "mem_setup hwp I h = Some (FAPI2_RC_SUCCESS, J, h1)"
    using s r(1) by (simp add: mem_setup_def Let_def J_def is_read_def)
  then have "accessGranule hwp l I h = Some (accessGranule_ready hwp l J h1)"
    using True by (simp add: accessGranule_def)
  then show ?thesis
    using accessGranule_ready_write [of hwp memof J g S l h1] J s(3) assms(1,4) that by metis
qed

text \<open>
  The bytes that reach memory when \<open>d\<close> is pending: all full granules, and with the last access
  the rest padded with zeros; and the bytes left in the buffer.
\<close>

definition flushed :: "nat \<Rightarrow> bool \<Rightarrow> u8 list \<Rightarrow> u8 list" where
  "flushed g l d =
     (if l then d @ replicate ((g - length d mod g) mod g) 0 else take (length d - length d mod g) d)"

definition kept :: "nat \<Rightarrow> bool \<Rightarrow> u8 list \<Rightarrow> u8 list" where
  "kept g l d = (if l then [] else drop (length d - length d mod g) d)"

lemma flushed_granule:
  assumes "0 < g" "length xs = g"
  shows "flushed g l (xs @ ys) = xs @ flushed g l ys" "kept g l (xs @ ys) = kept g l ys"
proof -
  have m: "length (xs @ ys) mod g = length ys mod g" using assms by simp
  define c where "c = length ys - length ys mod g"
  have k: "length (xs @ ys) - length (xs @ ys) mod g = g + c"
    using m assms mod_less_eq_dividend [of "length ys" g] by (simp add: c_def)
  have "flushed g False (xs @ ys) = xs @ flushed g False ys" "kept g False (xs @ ys) = kept g False ys"
    unfolding flushed_def kept_def k if_False c_def [symmetric] using assms by simp_all
  moreover have "flushed g True (xs @ ys) = xs @ flushed g True ys" "kept g True (xs @ ys) = kept g True ys"
    unfolding flushed_def kept_def m by simp_all
  ultimately show "flushed g l (xs @ ys) = xs @ flushed g l ys" "kept g l (xs @ ys) = kept g l ys"
    by (cases l; simp)+
qed

lemma flushed_short:
  assumes "length d < g"
  shows "flushed g False d = []" "kept g False d = d"
    "flushed g True d = (if d = [] then [] else d @ replicate (g - length d) 0)"
  using assms by (auto simp: flushed_def kept_def)

lemma write_phase_appends:
  assumes "writing g I" "iv_iterator I < g" "it \<le> len"
  obtains it' I' where "write_phase buf len it I = (it', I')" "writing g I'"
    "it' = it + min (len - it) (g - iv_iterator I)" "iv_interface I' = iv_interface I"
    "iv_addr I' = iv_addr I" "pending I' = pending I @ map buf [it..<it']"
    "iv_iterator I' = iv_iterator I + (it' - it)"
proof -
  obtain it' I' where f: "fill_write (len - it) buf it I = (it', I')" by (cases "fill_write (len - it) buf it I")
  note a = fill_write_appends [OF f assms(1)]
  then have "write_phase buf len it I = (it', I')"
    using f assms(1) by (auto simp: write_phase_def writing_def Let_def)
  then show ?thesis using a that by blast
qed

lemma read_phase_write: "writing g I \<Longrightarrow> read_phase buf len it I = (buf, it, I)"
  by (simp add: read_phase_def writing_def)

lemma write_pass_granule:
  assumes hw: "writes_memory hwp memof (iv_interface I) g S" and w: "writing g I" "iv_iterator I < g"
    and it: "it \<le> len" and d: "d = pending I @ map buf [it..<len]" "g \<le> length d" and sv: "iv_addr I \<in> S"
  obtains it' I' h' lg' where
    "access_pass hwp len l lg buf it I h = Some (len \<le> it', FAPI2_RC_SUCCESS, lg', buf, it', I', h')"
    "writing g I'" "iv_interface I' = iv_interface I" "iv_iterator I' = 0" "it < it'" "it' \<le> len"
    "d = take g d @ map buf [it'..<len]" "pending I' = []" "iv_addr I' = iv_addr I + of_nat g"
    "memof h' = mem_store (iv_addr I) (take g d) (memof h)"
proof -
  obtain it' I1 where 1: "write_phase buf len it I = (it', I1)" "writing g I1"
    "it' = it + min (len - it) (g - iv_iterator I)" "iv_interface I1 = iv_interface I"
    "iv_addr I1 = iv_addr I" "pending I1 = pending I @ map buf [it..<it']"
    "iv_iterator I1 = iv_iterator I + (it' - it)"
    by (rule write_phase_appends [OF w it])
  have l: "g \<le> iv_iterator I + (len - it)" using d w by simp
  then have it': "it' = it + (g - iv_iterator I)" "it' \<le> len" "it < it'" using 1(3) w(2) by auto
  then have full: "iv_iterator I1 = g" using 1(7) w(2) by simp
  have "map buf [it..<len] = map buf [it..<it'] @ map buf [it'..<len]"
    using it' upt_add_eq_append [of it it' "len - it'"] by simp
  then have dd: "d = pending I1 @ map buf [it'..<len]" using d(1) 1(6) by simp
  have tk: "take g d = pending I1" using dd full length_pending [OF 1(2)] by simp
  have "snd (last_phase l len it' lg I1) = I1"
    using 1(2) full by (auto simp: last_phase_def alignAccessWithBuffer_def writing_def)
  then obtain lg' where lp: "last_phase l len it' lg I1 = (lg', I1)" by (metis prod.collapse)
  have hw1: "writes_memory hwp memof (iv_interface I1) g S" using hw 1(4) by simp
  obtain I' h' where 2: "accessGranule hwp lg' I1 h = Some (FAPI2_RC_SUCCESS, I', h')"
    "writing g I'" "pending I' = []" "iv_iterator I' = 0" "iv_interface I' = iv_interface I1"
    "iv_addr I' = iv_addr I1 + of_nat g" "memof h' = mem_store (iv_addr I1) (pending I1) (memof h)"
    by (rule accessGranule_write [OF hw1 1(2) full]) (use sv 1(5) in simp)
  have "needs_granule I1" using 1(2) full by (simp add: needs_granule_def writing_def)
  then have P: "access_pass hwp len l lg buf it I h = Some (len \<le> it', FAPI2_RC_SUCCESS, lg', buf, it', I', h')"
    using 1(1) lp 2 by (simp add: access_pass_def read_phase_write)
  show ?thesis
  proof (rule that [OF P 2(2) _ 2(4) it'(3,2) _ 2(3)])
    show "iv_interface I' = iv_interface I" using 2(5) 1(4) by simp
    show "d = take g d @ map buf [it'..<len]" using dd tk by simp
    show "iv_addr I' = iv_addr I + of_nat g" using 2(6) 1(5) by simp
    show "memof h' = mem_store (iv_addr I) (take g d) (memof h)" using 2(7) 1(5) tk by simp
  qed
qed

lemma write_pass_rest:
  assumes hw: "writes_memory hwp memof (iv_interface I) g S" and w: "writing g I" "iv_iterator I < g"
    and it: "it \<le> len" and d: "d = pending I @ map buf [it..<len]" "length d < g"
    and sv: "serves g S (iv_addr I) (length (flushed g l d))"
  obtains I' h' lg' where
    "access_pass hwp len l lg buf it I h = Some (True, FAPI2_RC_SUCCESS, lg', buf, len, I', h')"
    "writing g I'" "iv_interface I' = iv_interface I" "iv_iterator I' < g"
    "pending I' = kept g l d" "iv_addr I' = iv_addr I + of_nat (length (flushed g l d))"
    "memof h' = mem_store (iv_addr I) (flushed g l d) (memof h)"
proof -
  obtain it' I1 where 1: "write_phase buf len it I = (it', I1)" "writing g I1"
    "it' = it + min (len - it) (g - iv_iterator I)" "iv_interface I1 = iv_interface I"
    "iv_addr I1 = iv_addr I" "pending I1 = pending I @ map buf [it..<it']"
    "iv_iterator I1 = iv_iterator I + (it' - it)"
    by (rule write_phase_appends [OF w it])
  have it': "it' = len" using 1(3) d w it by auto
  then have p: "pending I1 = d" using 1(6) d by simp
  then have i: "iv_iterator I1 = length d" using length_pending [OF 1(2)] by simp
  have nr: "\<not> is_read I1" using 1(2) by (simp add: writing_def)
  show ?thesis
  proof (cases "l \<and> d \<noteq> []")
    case False
    then have "last_phase l len it' lg I1 = (l \<or> lg, I1)"
      using nr i it' by (auto simp: last_phase_def alignAccessWithBuffer_def)
    moreover have "\<not> needs_granule I1" using nr i d(2) 1(2) by (simp add: needs_granule_def writing_def)
    ultimately have P: "access_pass hwp len l lg buf it I h
        = Some (True, FAPI2_RC_SUCCESS, l \<or> lg, buf, len, I1, h)"
      using 1(1,2) it' by (simp add: access_pass_def read_phase_write)
    have f: "flushed g l d = []" "kept g l d = d"
      using False flushed_short [OF d(2)] by (cases l; simp add: kept_def)+
    show ?thesis
      by (rule that [OF P 1(2,4)]) (simp_all add: f i d(2) p 1(5))
  next
    case True
    define I2 where "I2 = zero_fill (g - length d) I1"
    have 2: "writing g I2" "pending I2 = d @ replicate (g - length d) 0" "iv_addr I2 = iv_addr I"
      "iv_iterator I2 = g" "iv_interface I2 = iv_interface I"
      using zero_fill_appends [OF 1(2), of "g - length d"] i p d(2) 1 by (simp_all add: I2_def)
    have lp: "last_phase l len it' lg I1 = (True, I2)"
      using nr i it' True 1(2) by (simp add: last_phase_def alignAccessWithBuffer_def I2_def writing_def)
    have hw2: "writes_memory hwp memof (iv_interface I2) g S" using hw 2 by simp
    obtain I' h' where 3: "accessGranule hwp True I2 h = Some (FAPI2_RC_SUCCESS, I', h')"
      "writing g I'" "pending I' = []" "iv_iterator I' = 0" "iv_interface I' = iv_interface I2"
      "iv_addr I' = iv_addr I2 + of_nat g" "memof h' = mem_store (iv_addr I2) (pending I2) (memof h)"
      by (rule accessGranule_write [OF hw2 2(1,4)])
        (use serves_first [OF sv] True flushed_short [OF d(2)] 2(3) in simp)
    have "needs_granule I2" using 2 by (simp add: needs_granule_def writing_def)
    then have P: "access_pass hwp len l lg buf it I h = Some (True, FAPI2_RC_SUCCESS, True, buf, len, I', h')"
      using 1(1) lp 3 it' by (simp add: access_pass_def read_phase_write)
    have f: "flushed g l d = d @ replicate (g - length d) 0" "kept g l d = []"
      using True flushed_short [OF d(2)] by (simp_all add: kept_def)
    show ?thesis
      by (rule that [OF P 3(2)]) (use 3 2 d(2) f in simp_all)
  qed
qed

lemma access_loop_writes:
  assumes "writes_memory hwp memof (iv_interface I) g S" "writing g I" "iv_iterator I < g" "it \<le> len"
    and "d = pending I @ map buf [it..<len]" "length d + g \<le> 2 ^ 64"
    and "serves g S (iv_addr I) (length (flushed g l d))"
  shows "\<exists>I' h'. access_loop hwp len l lg buf it I h = Some (FAPI2_RC_SUCCESS, buf, I', h')
    \<and> writing g I' \<and> iv_interface I' = iv_interface I \<and> iv_iterator I' < g \<and> pending I' = kept g l d
    \<and> iv_addr I' = iv_addr I + of_nat (length (flushed g l d))
    \<and> memof h' = mem_store (iv_addr I) (flushed g l d) (memof h)"
  using assms
proof (induction "len - it" arbitrary: it I h d lg rule: less_induct)
  case less
  note p = less.prems
  show ?case
  proof (cases "g \<le> length d")
    case False
    then have "length d < g" by simp
    from write_pass_rest [OF p(1-5) this p(7), of lg h]
    show ?thesis by (subst access_loop.simps) fastforce
  next
    case True
    have g: "0 < g" "length (take g d) = g" using p(2) True by (simp_all add: writing_def)
    have "flushed g l d = take g d @ flushed g l (drop g d)" using flushed_granule(1) [OF g, of l "drop g d"] by simp
    then have lf: "length (flushed g l d) = g + length (flushed g l (drop g d))" using g(2) by (metis length_append)
    then have sv: "iv_addr I \<in> S" using serves_first [OF p(7)] g(1) by simp
    obtain it' I1 h1 lg' where 1:
      "access_pass hwp len l lg buf it I h = Some (len \<le> it', FAPI2_RC_SUCCESS, lg', buf, it', I1, h1)"
      "writing g I1" "iv_interface I1 = iv_interface I" "iv_iterator I1 = 0" "it < it'" "it' \<le> len"
      "d = take g d @ map buf [it'..<len]" "pending I1 = []" "iv_addr I1 = iv_addr I + of_nat g"
      "memof h1 = mem_store (iv_addr I) (take g d) (memof h)"
      by (rule write_pass_granule [OF p(1-5) True sv])
    define e where "e = map buf [it'..<len]"
    have f: "flushed g l d = take g d @ flushed g l e" "kept g l d = kept g l e"
      using flushed_granule [OF g, of l e] 1(7) by (simp_all add: e_def)
    have le: "length d = g + length e" using 1(7) g by (metis e_def length_append)
    show ?thesis
    proof (cases "len \<le> it'")
      case True
      then have "e = []" "access_loop hwp len l lg buf it I h = Some (FAPI2_RC_SUCCESS, buf, I1, h1)"
        using 1(1) by (simp_all add: e_def access_loop.simps)
      then show ?thesis using 1 f g by (auto simp: flushed_def kept_def)
    next
      case False
      have r: "access_loop hwp len l lg buf it I h = access_loop hwp len l lg' buf it' I1 h1"
        using 1(1) False by (subst access_loop.simps) simp
      have hw: "writes_memory hwp memof (iv_interface I1) g S" using p(1) 1(3) by simp
      have "drop g d = e" using arg_cong [OF 1(7), of "drop g"] g(2) by (simp add: e_def)
      then have sv1: "serves g S (iv_addr I1) (length (flushed g l e))"
        using serves_skip [of g S "iv_addr I" g "length (flushed g l e)"] p(7) lf 1(9) by simp
      have "\<exists>I' h'. access_loop hwp len l lg' buf it' I1 h1 = Some (FAPI2_RC_SUCCESS, buf, I', h')
        \<and> writing g I' \<and> iv_interface I' = iv_interface I1 \<and> iv_iterator I' < g \<and> pending I' = kept g l e
        \<and> iv_addr I' = iv_addr I1 + of_nat (length (flushed g l e))
        \<and> memof h' = mem_store (iv_addr I1) (flushed g l e) (memof h1)"
        using 1 False g le p(6) sv1 by (intro less.hyps [OF _ hw 1(2)]) (auto simp: e_def)
      moreover have "length (flushed g l e) \<le> length e + g"
        using g(1) by (auto simp: flushed_def intro: le_trans [OF mod_le_divisor])
      then have "mem_store (iv_addr I + of_nat g) (flushed g l e) (mem_store (iv_addr I) (take g d) (memof h))
          = mem_store (iv_addr I) (take g d @ flushed g l e) (memof h)"
        using mem_store_append [of "take g d" "flushed g l e" "iv_addr I" "memof h"] g le p(6) by simp
      ultimately show ?thesis unfolding r f using 1 g by (auto simp: add.assoc)
    qed
  qed
qed

lemmas accessWithBuffer_writes =
  access_loop_writes [where it = 0 and lg = False, folded accessWithBuffer_def]

text \<open>
  Property C31. Writing plain data through the interface (over the PBA, or over the ADU without the extra
  bytes for ECC and tag) is appending to memory, as long as the procedures serve the granules that are
  written: whatever is still buffered
  from earlier calls followed by the new data reaches memory in order from the current address,
  in whole granules, and what does not fill a granule stays buffered; the last access pads it
  with zeros and leaves nothing behind. The call always returns.
\<close>

theorem accessWithBuffer_appends:
  assumes "writes_memory hwp memof (iv_interface I) g S" "writing g I" "iv_iterator I < g"
    and "d = pending I @ map buf [0..<len]" "length d + g \<le> 2 ^ 64"
    and "serves g S (iv_addr I) (length (flushed g l d))"
  shows "\<exists>I' h'. accessWithBuffer hwp buf len l I h = Some (FAPI2_RC_SUCCESS, buf, I', h')
    \<and> writing g I' \<and> iv_interface I' = iv_interface I \<and> iv_iterator I' < g \<and> pending I' = kept g l d
    \<and> iv_addr I' = iv_addr I + of_nat (length (flushed g l d))
    \<and> memof h' = mem_store (iv_addr I) (flushed g l d) (memof h)"
  unfolding accessWithBuffer_def by (rule access_loop_writes) (use assms in auto)

text \<open>
  A memory behind the interface, with sixteen granules for every setup, that refuses the addresses beyond
  the fabric.
\<close>

definition plain_memory :: "nat \<Rightarrow> (u64 \<Rightarrow> u8) mem_hwp" where
  "plain_memory g =
     \<lparr> setup_hwp = (\<lambda>i a r m. if a \<le> P9_FBC_UTILS_FBC_MAX_ADDRESS then (FAPI2_RC_SUCCESS, 16, m) else (1, 0, m)),
       access_hwp = (\<lambda>i a r f l buf m.
          if r then (FAPI2_RC_SUCCESS, map (\<lambda>k. m (a + of_nat k)) [0..<g], m)
          else (FAPI2_RC_SUCCESS, buf, mem_store a (take g buf) m)) \<rparr>"

lemma plain_memory_writes: "writes_memory (plain_memory g) id i g fabric_range"
  by (simp add: writes_memory_def plain_memory_def fabric_range_def)

lemma flushed_bound:
  assumes "serves g S a (length d)" "0 < g"
  shows "serves g S a (length (flushed g l d))"
  unfolding serves_def
proof (intro allI impI)
  fix k
  assume k: "k * g < length (flushed g l d)"
  have "k * g < length d"
  proof (rule ccontr)
    assume n: "\<not> k * g < length d"
    then have l: "l" "k * g < length d + (g - length d mod g) mod g" using k by (simp_all add: flushed_def split: if_splits)
    define q where "q = length d div g"
    have d: "length d = q * g + length d mod g" by (simp add: q_def)
    show False
    proof (cases "length d mod g = 0")
      case True
      then show ?thesis using l(2) n by simp
    next
      case False
      have "length d mod g < g" using assms(2) by simp
      then have "length d + (g - length d mod g) mod g = (q + 1) * g" using False d by simp
      then have "k < q + 1" using l(2) by (metis mult_less_cancel2)
      then have "k * g \<le> q * g" by simp
      then show ?thesis using n d False by linarith
    qed
  qed
  then show "a + of_nat (k * g) \<in> S" using assms(1) by (simp add: serves_def)
qed

theorem accessWithBuffer_appends_witness:
  "\<exists>I' m'. accessWithBuffer (plain_memory 8) (\<lambda>i. of_nat i + 1) 10 True
      (mem_interface_create SBE_MEM_ACCESS_PBA 0x1000 False False SBE_MEM_ACCESS_WRITE 8 (replicate 128 0))
      (\<lambda>_. 0xFF) = Some (FAPI2_RC_SUCCESS, (\<lambda>i. of_nat i + 1), I', m')
    \<and> m' = mem_store 0x1000 [1, 2, 3, 4, 5, 6, 7, 8, 9, 10, 0, 0, 0, 0, 0, 0] (\<lambda>_. 0xFF)"
proof -
  let ?I = "mem_interface_create SBE_MEM_ACCESS_PBA 0x1000 False False SBE_MEM_ACCESS_WRITE 8 (replicate 128 0)"
  have w: "writing 8 ?I" "iv_iterator ?I < 8"
    by (simp_all add: mem_interface_create_def writing_def is_read_def)
  have d: "map (\<lambda>i. of_nat i + 1) [0..<10] = pending ?I @ map (\<lambda>i. of_nat i + 1 :: u8) [0..<10]"
    by (simp add: mem_interface_create_def pending_def)
  have f: "flushed 8 True (map (\<lambda>i. of_nat i + 1) [0..<10])
      = [1, 2, 3, 4, 5, 6, 7, 8, 9, 10, 0, 0, 0, 0, 0, 0]"
    by code_simp
  have sv: "serves 8 fabric_range (iv_addr ?I) (length (flushed 8 True (map (\<lambda>i. of_nat i + 1 :: u8) [0..<10])))"
    unfolding f by (rule serves_fabric) (simp add: mem_interface_create_def)
  show ?thesis
    using accessWithBuffer_appends [OF plain_memory_writes w d _ sv, of "\<lambda>_. 0xFF"] f
    by (auto simp: mem_interface_create_def)
qed

subsection \<open>The last read starts a new granule\<close>

lemma fill_read_copies:
  assumes "fill_read k buf it I = (buf', it', I')" "k \<le> iv_iterator I" "iv_iterator I \<le> iv_granuleSize I"
  shows "it' = it + k \<and> iv_iterator I' = iv_iterator I - k
    \<and> (\<forall>j. buf' j = (if it \<le> j \<and> j < it + k
         then iv_buffer I ! (iv_granuleSize I - iv_iterator I + (j - it)) else buf j))"
  using assms
proof (induction k arbitrary: buf it I)
  case (Suc k)
  let ?I = "I\<lparr> iv_iterator := iv_iterator I - 1 \<rparr>"
  have f: "fill_read k (buf(it := iv_buffer I ! (iv_granuleSize I - iv_iterator I))) (Suc it) ?I = (buf', it', I')"
    using Suc.prems by simp
  have ih: "it' = Suc it + k" "iv_iterator I' = iv_iterator I - 1 - k"
    "\<And>j. buf' j = (if Suc it \<le> j \<and> j < Suc it + k
         then iv_buffer I ! (iv_granuleSize I - (iv_iterator I - 1) + (j - Suc it))
         else (buf(it := iv_buffer I ! (iv_granuleSize I - iv_iterator I))) j)"
    using Suc.IH [OF f] Suc.prems(2,3) by simp_all
  have "iv_granuleSize I - (iv_iterator I - 1) + (j - Suc it) = iv_granuleSize I - iv_iterator I + (j - it)"
    if "Suc it \<le> j" for j using that Suc.prems(2,3) by linarith
  then have "buf' j = (if it \<le> j \<and> j < it + Suc k
      then iv_buffer I ! (iv_granuleSize I - iv_iterator I + (j - it)) else buf j)" for j
    unfolding ih(3) by (cases "j = it") auto
  then show ?case using ih(1,2) by auto
qed auto

lemma fill_read_interface: "fill_read k buf it I = (buf', it', I') \<Longrightarrow> iv_interface I' = iv_interface I"
  by (induction k buf it I rule: fill_read.induct) (auto split: if_splits)

text \<open>
  A read that is announced as the last one and fits a granule does not start with the
  bytes that an earlier, shorter read left in the buffer: they are dropped, and the data come
  from the next granule in memory.
\<close>

lemma last_read_drops_buffered:
  assumes "iv_mode I = SBE_MEM_ACCESS_READ" "iv_interface I = SBE_MEM_ACCESS_PBA" "iv_granuleSize I = 128"
    and "0 < iv_iterator I" "\<not> iv_intfCleanedUp I" "0 < len" "len \<le> 128" "j < len"
  shows "\<exists>buf' I'. accessWithBuffer (plain_memory 128) buf len True I m = Some (FAPI2_RC_SUCCESS, buf', I', m)
    \<and> buf' j = m (iv_addr I + of_nat j)"
proof -
  let ?I0 = "I\<lparr> iv_iterator := 0 \<rparr>"
  have r: "is_read I" using assms(1) by (simp add: is_read_def)
  have l: "last_phase True len 0 False I = (True, ?I0)"
    using r assms(3,7) by (simp add: last_phase_def unat_of_nat)
  define bs where "bs = map (\<lambda>k. m (iv_addr I + of_nat k)) [0..<128]"
  define I1 where "I1 = ?I0\<lparr> iv_intfCleanedUp := True, iv_buffer := bs,
      iv_maxGranule := iv_maxGranule I - 1, iv_currGranule := iv_currGranule I + 1,
      iv_addr := iv_addr I + 128, iv_iterator := 128 \<rparr>"
  have a: "accessGranule (plain_memory 128) True ?I0 m = Some (FAPI2_RC_SUCCESS, I1, m)"
    using assms(1-5) by (simp add: accessGranule_def accessGranule_ready_def plain_memory_def is_read_def
        Let_def I1_def bs_def)
  obtain buf' it' I2 where f: "fill_read len buf 0 I1 = (buf', it', I2)" by (cases "fill_read len buf 0 I1")
  have I1: "iv_iterator I1 = 128" "iv_granuleSize I1 = 128" "iv_buffer I1 = bs" "is_read I1"
    using assms(1,3) by (simp_all add: I1_def is_read_def)
  have c: "it' = len" "buf' j = bs ! j"
    using fill_read_copies [OF f] I1 assms(7,8) by simp_all
  have "iv_interface I2 = SBE_MEM_ACCESS_PBA"
    using fill_read_interface [OF f] assms(2) by (simp add: I1_def)
  then have "access_pass (plain_memory 128) len True False buf 0 I m
      = Some (True, FAPI2_RC_SUCCESS, True, buf', len, I2, m)"
    using r l a f c I1 by (simp add: access_pass_def write_phase_def needs_granule_def is_read_def read_phase_def)
  then show ?thesis
    using c assms(7,8) by (simp add: accessWithBuffer_def access_loop.simps bs_def)
qed

lemma last_read_drops_buffered_witness:
  "\<exists>buf' I'. accessWithBuffer (plain_memory 128) (\<lambda>_. 0) 8 True
      (mem_interface_create SBE_MEM_ACCESS_PBA 0x1080 False False SBE_MEM_ACCESS_READ 128 (replicate 128 7)
        \<lparr> iv_iterator := 120, iv_intfCleanedUp := False \<rparr>)
      (\<lambda>a. if a < 0x1080 then 7 else 9) = Some (FAPI2_RC_SUCCESS, buf', I', \<lambda>a. if a < 0x1080 then 7 else 9)
    \<and> buf' 0 = 9"
  using last_read_drops_buffered [of "mem_interface_create SBE_MEM_ACCESS_PBA 0x1080 False False
      SBE_MEM_ACCESS_READ 128 (replicate 128 7) \<lparr> iv_iterator := 120, iv_intfCleanedUp := False \<rparr>" 8 0
      "\<lambda>_. 0" "\<lambda>a. if a < 0x1080 then 7 else 9"]
  by (simp add: mem_interface_create_def)

end
