(* ===== verification/Sbe_Security.thy ===== *)
theory Sbe_Security
  imports Sbe_MemAccess "HOL-Library.Monad_Syntax"
begin

text \<open>
  The register access lists of the SBE (\<open>securityAlgo.C\<close>, \<open>sbeSecurity.C\<close>): white, black and grey
  lists packed into tables by \<open>securityRegListGen.py\<close>, searched by \<open>_is_present\<close>, sent to hostboot
  through the memory interface and rebuilt there by \<open>securityAccessTablesInit\<close>. A read outside a
  table is the result \<open>None\<close>. All integers of the search are far below the range of \<open>int32_t\<close>.
\<close>

subsection \<open>Tables\<close>

record t1_t =
  t1_key_start :: u8
  t1_key_end :: u8
  t1_value :: u8

record t2_t =
  t2_key :: u8
  t2_value :: u16

record t3_t =
  t3_value :: u16

record gl_t1_t =
  gl_key :: u32
  gl_value :: u64

record 'e sec_table =
  tbl_size :: u32
  tbl_mask :: u32
  tbl_entries :: "'e list"

record GenSecurityListTables =
  wl_t1 :: "t1_t sec_table"
  wl_t2 :: "t2_t sec_table"
  wl_t3 :: "t3_t sec_table"
  bl_t1 :: "t1_t sec_table"
  bl_t2 :: "t2_t sec_table"
  bl_t3 :: "t3_t sec_table"
  gl_t1 :: "gl_t1_t sec_table"

definition LIST_TABLE1_MASK :: u32 where "LIST_TABLE1_MASK = 0xFF000000"
definition LIST_TABLE2_MASK :: u32 where "LIST_TABLE2_MASK = 0x00FF0000"
definition LIST_TABLE3_MASK :: u32 where "LIST_TABLE3_MASK = 0x0000FFFF"
definition GREYLIST_TABLE1_MASK :: u32 where "GREYLIST_TABLE1_MASK = 0xFFFFFFFF"

datatype secAccessType = READ_ACCESS | WRITE_ACCESS

definition entry :: "'e sec_table \<Rightarrow> int \<Rightarrow> 'e option" where
  "entry t i = (if 0 \<le> i \<and> nat i < length (tbl_entries t) then Some (tbl_entries t ! nat i) else None)"

subsection \<open>Search\<close>

text \<open>The recursion of \<open>get_shift_len\<close> is evaluated by the compiler; a zero mask has no shift.\<close>

function get_shift_len :: "u32 \<Rightarrow> nat \<Rightarrow> nat" where
  "get_shift_len m shifts =
     (if 32 \<le> shifts then shifts
      else if drop_bit shifts m AND 1 \<noteq> 0 then shifts
      else get_shift_len m (Suc shifts))"
  by pat_completeness auto

termination get_shift_len by (relation "measure (\<lambda>(m, s). 32 - s)") auto

declare get_shift_len.simps [simp del]

function binary_search :: "u32 \<Rightarrow> (int \<Rightarrow> u32 option) \<Rightarrow> int \<Rightarrow> int \<Rightarrow> int option option" where
  "binary_search search_key get_element range_start range_end =
     (if range_start \<le> range_end
      then let midpoint = (range_start + range_end) div 2
           in case get_element midpoint of
                None \<Rightarrow> None
              | Some ele \<Rightarrow>
                  if search_key = ele then Some (Some midpoint)
                  else if search_key < ele
                  then binary_search search_key get_element range_start (midpoint - 1)
                  else binary_search search_key get_element (midpoint + 1) range_end
      else Some None)"
  by pat_completeness auto

termination binary_search
  by (relation "measure (\<lambda>(k, g, s, e). nat (e - s + 1))") auto

declare binary_search.simps [simp del]

definition search_key :: "u32 \<Rightarrow> u32 \<Rightarrow> u32" where
  "search_key addr m = drop_bit (get_shift_len m 0) (addr AND m)"

text \<open>The loop of \<open>_is_present\<close> from index \<open>i\<close> with \<open>k\<close> entries left.\<close>

fun is_present_from :: "nat \<Rightarrow> nat \<Rightarrow> t1_t sec_table \<Rightarrow> t2_t sec_table \<Rightarrow> t3_t sec_table \<Rightarrow> u32
    \<Rightarrow> bool option" where
  "is_present_from 0 i table1 table2 table3 addr = Some False"
| "is_present_from (Suc k) i table1 table2 table3 addr =
     do { e1 \<leftarrow> entry table1 (int i);
          if ucast (t1_key_start e1) \<le> search_key addr (tbl_mask table1)
             \<and> search_key addr (tbl_mask table1) \<le> ucast (t1_key_end e1)
          then do {
            s2 \<leftarrow> (if i \<noteq> 0 then map_option (\<lambda>e. uint (t1_value e)) (entry table1 (int i - 1)) else Some 0);
            r2 \<leftarrow> binary_search (search_key addr (tbl_mask table2))
                    (\<lambda>m. map_option (\<lambda>e. ucast (t2_key e)) (entry table2 m)) s2 (uint (t1_value e1) - 1);
            case r2 of
              None \<Rightarrow> is_present_from k (Suc i) table1 table2 table3 addr
            | Some v \<Rightarrow> do {
                s3 \<leftarrow> (if v \<noteq> 0 then map_option (\<lambda>e. uint (t2_value e)) (entry table2 (v - 1)) else Some 0);
                e2 \<leftarrow> entry table2 v;
                r3 \<leftarrow> binary_search (search_key addr (tbl_mask table3))
                        (\<lambda>m. map_option (\<lambda>e. ucast (t3_value e)) (entry table3 m)) s3 (uint (t2_value e2) - 1);
                case r3 of
                  None \<Rightarrow> is_present_from k (Suc i) table1 table2 table3 addr
                | Some _ \<Rightarrow> Some True } }
          else is_present_from k (Suc i) table1 table2 table3 addr }"

definition is_present :: "t1_t sec_table \<Rightarrow> t2_t sec_table \<Rightarrow> t3_t sec_table \<Rightarrow> u32 \<Rightarrow> bool option" where
  "is_present table1 table2 table3 addr =
     is_present_from (unat (tbl_size table1)) 0 table1 table2 table3 addr"

fun is_present_grey_from :: "nat \<Rightarrow> nat \<Rightarrow> gl_t1_t sec_table \<Rightarrow> u32 \<Rightarrow> u64 \<Rightarrow> bool option" where
  "is_present_grey_from 0 i table1 addr m = Some False"
| "is_present_grey_from (Suc k) i table1 addr m =
     do { e \<leftarrow> entry table1 (int i);
          if gl_key e = addr \<and> m AND NOT (gl_value e) = 0 then Some True
          else is_present_grey_from k (Suc i) table1 addr m }"

definition is_present_grey :: "gl_t1_t sec_table \<Rightarrow> u32 \<Rightarrow> u64 \<Rightarrow> bool option" where
  "is_present_grey table1 addr m = is_present_grey_from (unat (tbl_size table1)) 0 table1 addr m"

text \<open>
  \<open>SBE_SECURITY::isAllowed\<close>, with the generated tables of the image and the flag
  \<open>sbeFWSecurityEnabled\<close> as arguments.
\<close>

definition isAllowed :: "bool \<Rightarrow> GenSecurityListTables \<Rightarrow> u32 \<Rightarrow> u64 \<Rightarrow> secAccessType \<Rightarrow> bool option" where
  "isAllowed sbeFWSecurityEnabled T addr m type =
     (if sbeFWSecurityEnabled
      then case type of
             WRITE_ACCESS \<Rightarrow> do {
               ret \<leftarrow> is_present (wl_t1 T) (wl_t2 T) (wl_t3 T) addr;
               if ret = False \<and> m \<noteq> 0xffffffffffffffff then is_present_grey (gl_t1 T) addr m
               else Some ret }
           | READ_ACCESS \<Rightarrow> do {
               ret \<leftarrow> is_present (bl_t1 T) (bl_t2 T) (bl_t3 T) addr;
               Some (\<not> ret) }
      else Some True)"

text \<open>The state of the host side: whether the tables are read in, and the tables.\<close>

record sec_host =
  isSecurityListInitDone :: bool
  secListTableSupport :: GenSecurityListTables

definition isAccessAllowed_host :: "sec_host \<Rightarrow> u32 \<Rightarrow> u64 \<Rightarrow> secAccessType \<Rightarrow> bool option" where
  "isAccessAllowed_host S addr m type =
     (if \<not> isSecurityListInitDone S then Some False
      else let T = secListTableSupport S
           in case type of
                WRITE_ACCESS \<Rightarrow> do {
                  ret \<leftarrow> is_present (wl_t1 T) (wl_t2 T) (wl_t3 T) addr;
                  if ret = False \<and> m \<noteq> 0xffffffffffffffff then is_present_grey (gl_t1 T) addr m
                  else Some ret }
              | READ_ACCESS \<Rightarrow> do {
                  ret \<leftarrow> is_present (bl_t1 T) (bl_t2 T) (bl_t3 T) addr;
                  Some (\<not> ret) })"

subsection \<open>Sending the lists to hostboot\<close>

text \<open>
  \<open>be_bytes n w\<close>: the \<open>n\<close> bytes of a big-endian field, as both processors lay it out. \<open>send\<close> is
  \<open>accessWithBuffer\<close> on the bytes of one variable; \<open>send_fields\<close> the loops of the dump functions,
  which send field after field and are left at the first error, with the return code that was
  current when nothing is sent.
\<close>

definition be_bytes :: "nat \<Rightarrow> 'w::len word \<Rightarrow> u8 list" where
  "be_bytes n w = map (\<lambda>i. ucast (drop_bit (8 * (n - 1 - i)) w)) [0..<n]"

definition send :: "'h mem_hwp \<Rightarrow> u8 list \<Rightarrow> bool \<Rightarrow> sbeMemAccessInterface \<times> 'h
    \<Rightarrow> (fapi_rc \<times> sbeMemAccessInterface \<times> 'h) option" where
  "send hwp bs isLast st =
     (case accessWithBuffer hwp (\<lambda>i. if i < length bs then bs ! i else 0) (length bs) isLast (fst st) (snd st) of
        None \<Rightarrow> None | Some (rc, buf, st) \<Rightarrow> Some (rc, st))"

fun send_fields :: "'h mem_hwp \<Rightarrow> u8 list list \<Rightarrow> fapi_rc \<Rightarrow> sbeMemAccessInterface \<times> 'h
    \<Rightarrow> (fapi_rc \<times> sbeMemAccessInterface \<times> 'h) option" where
  "send_fields hwp [] rc st = Some (rc, st)"
| "send_fields hwp (f # fs) rc st =
     do { (rc, st) \<leftarrow> send hwp f False st;
          if rc \<noteq> FAPI2_RC_SUCCESS then Some (rc, st) else send_fields hwp fs rc st }"

definition toc_header :: "GenSecurityListTables \<Rightarrow> u8 list" where
  "toc_header T = concat (map (be_bytes 2)
     [ucast (tbl_size (wl_t1 T)) :: u16, ucast (tbl_size (wl_t2 T)), ucast (tbl_size (wl_t3 T)),
      ucast (tbl_size (bl_t1 T)), ucast (tbl_size (bl_t2 T)), ucast (tbl_size (bl_t3 T)),
      ucast (tbl_size (gl_t1 T))])"

definition updateAndSendSecTOCHdr :: "'h mem_hwp \<Rightarrow> GenSecurityListTables \<Rightarrow> sbeMemAccessInterface \<times> 'h
    \<Rightarrow> (fapi_rc \<times> sbeMemAccessInterface \<times> 'h) option" where
  "updateAndSendSecTOCHdr hwp T st = send hwp (toc_header T) False st"

definition t1_fields :: "t1_t \<Rightarrow> u8 list list" where
  "t1_fields e = [be_bytes 1 (t1_key_start e), be_bytes 1 (t1_key_end e), be_bytes 1 (t1_value e)]"

definition t2_fields :: "t2_t \<Rightarrow> u8 list list" where
  "t2_fields e = [be_bytes 1 (t2_key e), be_bytes 2 (t2_value e)]"

definition t3_fields :: "t3_t \<Rightarrow> u8 list list" where
  "t3_fields e = [be_bytes 2 (t3_value e)]"

definition gl_fields :: "gl_t1_t \<Rightarrow> u8 list list" where
  "gl_fields e = [be_bytes 4 (gl_key e), be_bytes 8 (gl_value e)]"

definition sent_entries :: "'e sec_table \<Rightarrow> 'e list" where
  "sent_entries t = take (unat (tbl_size t)) (tbl_entries t)"

definition sbeSecurityWhiteBlackListDump ::
    "'h mem_hwp \<Rightarrow> t1_t sec_table \<Rightarrow> t2_t sec_table \<Rightarrow> t3_t sec_table \<Rightarrow> sbeMemAccessInterface \<times> 'h
      \<Rightarrow> (fapi_rc \<times> sbeMemAccessInterface \<times> 'h) option" where
  "sbeSecurityWhiteBlackListDump hwp table1 table2 table3 st =
     do { (rc, st) \<leftarrow> send_fields hwp (concat (map t1_fields (sent_entries table1))) FAPI2_RC_SUCCESS st;
          (rc, st) \<leftarrow> send_fields hwp (concat (map t2_fields (sent_entries table2))) rc st;
          send_fields hwp (concat (map t3_fields (sent_entries table3))) rc st }"

definition sbeSecurityGreyListDump :: "'h mem_hwp \<Rightarrow> gl_t1_t sec_table \<Rightarrow> sbeMemAccessInterface \<times> 'h
    \<Rightarrow> (fapi_rc \<times> sbeMemAccessInterface \<times> 'h) option" where
  "sbeSecurityGreyListDump hwp table1 st =
     send_fields hwp (concat (map gl_fields (sent_entries table1))) FAPI2_RC_SUCCESS st"

definition sendSecurityListDumpToHB :: "'h mem_hwp \<Rightarrow> GenSecurityListTables \<Rightarrow> sbeMemAccessInterface \<times> 'h
    \<Rightarrow> (fapi_rc \<times> sbeMemAccessInterface \<times> 'h) option" where
  "sendSecurityListDumpToHB hwp T st =
     do { (rc, st) \<leftarrow> updateAndSendSecTOCHdr hwp T st;
          if rc \<noteq> FAPI2_RC_SUCCESS then Some (rc, st)
          else do {
            (rc, st) \<leftarrow> sbeSecurityWhiteBlackListDump hwp (wl_t1 T) (wl_t2 T) (wl_t3 T) st;
            if rc \<noteq> FAPI2_RC_SUCCESS then Some (rc, st)
            else do {
              (rc, st) \<leftarrow> sbeSecurityWhiteBlackListDump hwp (bl_t1 T) (bl_t2 T) (bl_t3 T) st;
              if rc \<noteq> FAPI2_RC_SUCCESS then Some (rc, st)
              else do {
                (rc, st) \<leftarrow> sbeSecurityGreyListDump hwp (gl_t1 T) st;
                if rc \<noteq> FAPI2_RC_SUCCESS then Some (rc, st)
                else send hwp [0] True st } } } }"

subsection \<open>Reading the lists on the host\<close>

text \<open>The buffer is a function of the offset; entries are packed.\<close>

fun be_read :: "nat \<Rightarrow> (nat \<Rightarrow> u8) \<Rightarrow> nat \<Rightarrow> 'w::len word" where
  "be_read 0 buf p = 0"
| "be_read (Suc n) buf p = push_bit 8 (be_read n buf p) OR ucast (buf (p + n))"

fun read_entries :: "((nat \<Rightarrow> u8) \<Rightarrow> nat \<Rightarrow> 'e) \<Rightarrow> nat \<Rightarrow> (nat \<Rightarrow> u8) \<Rightarrow> nat \<Rightarrow> nat \<Rightarrow> 'e list" where
  "read_entries rd w buf p 0 = []"
| "read_entries rd w buf p (Suc n) = rd buf p # read_entries rd w buf (p + w) n"

definition read_t1 :: "(nat \<Rightarrow> u8) \<Rightarrow> nat \<Rightarrow> t1_t" where
  "read_t1 buf p = \<lparr> t1_key_start = be_read 1 buf p, t1_key_end = be_read 1 buf (p + 1),
     t1_value = be_read 1 buf (p + 2) \<rparr>"

definition read_t2 :: "(nat \<Rightarrow> u8) \<Rightarrow> nat \<Rightarrow> t2_t" where
  "read_t2 buf p = \<lparr> t2_key = be_read 1 buf p, t2_value = be_read 2 buf (p + 1) \<rparr>"

definition read_t3 :: "(nat \<Rightarrow> u8) \<Rightarrow> nat \<Rightarrow> t3_t" where
  "read_t3 buf p = \<lparr> t3_value = be_read 2 buf p \<rparr>"

definition read_gl :: "(nat \<Rightarrow> u8) \<Rightarrow> nat \<Rightarrow> gl_t1_t" where
  "read_gl buf p = \<lparr> gl_key = be_read 4 buf p, gl_value = be_read 8 buf (p + 4) \<rparr>"

definition read_table :: "u32 \<Rightarrow> ((nat \<Rightarrow> u8) \<Rightarrow> nat \<Rightarrow> 'e) \<Rightarrow> nat \<Rightarrow> (nat \<Rightarrow> u8) \<Rightarrow> nat \<Rightarrow> u16 \<Rightarrow> 'e sec_table" where
  "read_table m rd w buf p count =
     \<lparr> tbl_size = ucast count, tbl_mask = m, tbl_entries = read_entries rd w buf p (unat count) \<rparr>"

definition SEC_LIST_TABLE_HDR_SIZE :: nat where
  "SEC_LIST_TABLE_HDR_SIZE = 14"

definition securityAccessTablesInit :: "(nat \<Rightarrow> u8) \<Rightarrow> sec_host \<Rightarrow> bool \<times> sec_host" where
  "securityAccessTablesInit buf S =
     (if isSecurityListInitDone S then (False, S)
      else let wl_t1_count = be_read 2 buf 0; wl_t2_count = be_read 2 buf 2; wl_t3_count = be_read 2 buf 4;
               bl_t1_count = be_read 2 buf 6; bl_t2_count = be_read 2 buf 8; bl_t3_count = be_read 2 buf 10;
               gl_t1_count = be_read 2 buf 12;
               p1 = SEC_LIST_TABLE_HDR_SIZE;
               p2 = p1 + 3 * unat wl_t1_count;
               p3 = p2 + 3 * unat wl_t2_count;
               p4 = p3 + 2 * unat wl_t3_count;
               p5 = p4 + 3 * unat bl_t1_count;
               p6 = p5 + 3 * unat bl_t2_count;
               p7 = p6 + 2 * unat bl_t3_count
           in (True, \<lparr> isSecurityListInitDone = True, secListTableSupport =
                \<lparr> wl_t1 = read_table LIST_TABLE1_MASK read_t1 3 buf p1 wl_t1_count,
                  wl_t2 = read_table LIST_TABLE2_MASK read_t2 3 buf p2 wl_t2_count,
                  wl_t3 = read_table LIST_TABLE3_MASK read_t3 2 buf p3 wl_t3_count,
                  bl_t1 = read_table LIST_TABLE1_MASK read_t1 3 buf p4 bl_t1_count,
                  bl_t2 = read_table LIST_TABLE2_MASK read_t2 3 buf p5 bl_t2_count,
                  bl_t3 = read_table LIST_TABLE3_MASK read_t3 2 buf p6 bl_t3_count,
                  gl_t1 = read_table GREYLIST_TABLE1_MASK read_gl 12 buf p7 gl_t1_count \<rparr> \<rparr>))"

subsection \<open>Generation of the tables\<close>

text \<open>
  Step 4 of \<open>get_tables\<close>: a list is given per range of chiplets as pairs of a middle byte and its
  16-bit addresses; the tables hold running counts.
\<close>

type_synonym sec_list = "((u8 \<times> u8) \<times> (u8 \<times> u16 list) list) list"

fun gen_table1 :: "nat \<Rightarrow> sec_list \<Rightarrow> t1_t list" where
  "gen_table1 c [] = []"
| "gen_table1 c (((s, e), tree) # L) =
     \<lparr> t1_key_start = s, t1_key_end = e, t1_value = of_nat (c + length tree) \<rparr>
       # gen_table1 (c + length tree) L"

definition temp_keys :: "u16 list \<Rightarrow> u16 list" where
  "temp_keys vs = sort (remdups vs)"

fun gen_table2 :: "nat \<Rightarrow> (u8 \<times> u16 list) list \<Rightarrow> t2_t list" where
  "gen_table2 c [] = []"
| "gen_table2 c ((key, vs) # ts) =
     \<lparr> t2_key = key, t2_value = of_nat (c + length (temp_keys vs)) \<rparr>
       # gen_table2 (c + length (temp_keys vs)) ts"

definition trees :: "sec_list \<Rightarrow> (u8 \<times> u16 list) list" where
  "trees L = concat (map snd L)"

definition gen_table3 :: "(u8 \<times> u16 list) list \<Rightarrow> t3_t list" where
  "gen_table3 ts = map (\<lambda>v. \<lparr> t3_value = v \<rparr>) (concat (map (\<lambda>(k, vs). temp_keys vs) ts))"

definition mk_table :: "u32 \<Rightarrow> 'e list \<Rightarrow> 'e sec_table" where
  "mk_table m es = \<lparr> tbl_size = of_nat (length es), tbl_mask = m, tbl_entries = es \<rparr>"

definition gen_t1 :: "sec_list \<Rightarrow> t1_t sec_table" where
  "gen_t1 L = mk_table LIST_TABLE1_MASK (gen_table1 0 L)"

definition gen_t2 :: "sec_list \<Rightarrow> t2_t sec_table" where
  "gen_t2 L = mk_table LIST_TABLE2_MASK (gen_table2 0 (trees L))"

definition gen_t3 :: "sec_list \<Rightarrow> t3_t sec_table" where
  "gen_t3 L = mk_table LIST_TABLE3_MASK (gen_table3 (trees L))"

subsection \<open>The binary search\<close>

lemma binary_search_finds:
  assumes "\<And>m. s \<le> m \<Longrightarrow> m \<le> e \<Longrightarrow> get m = Some (f m)"
    and "\<And>m n. s \<le> m \<Longrightarrow> m < n \<Longrightarrow> n \<le> e \<Longrightarrow> f m < (f n :: u32)"
  shows "(\<exists>m. binary_search key get s e = Some (Some m) \<and> s \<le> m \<and> m \<le> e \<and> f m = key)
    \<or> binary_search key get s e = Some None \<and> (\<forall>m. s \<le> m \<and> m \<le> e \<longrightarrow> f m \<noteq> key)"
  using assms
proof (induction "nat (e - s + 1)" arbitrary: s e rule: less_induct)
  case less
  show ?case
  proof (cases "s \<le> e")
    case False
    then show ?thesis by (auto simp: binary_search.simps)
  next
    case True
    define mid where "mid = (s + e) div 2"
    have m: "s \<le> mid" "mid \<le> e" using True by (auto simp: mid_def)
    have g: "get mid = Some (f mid)" using less.prems(1) m by simp
    have bs: "binary_search key get s e =
        (if key = f mid then Some (Some mid)
         else if key < f mid then binary_search key get s (mid - 1)
         else binary_search key get (mid + 1) e)"
      using True g by (subst binary_search.simps) (simp add: mid_def Let_def)
    consider "key = f mid" | "key < f mid" | "f mid < key" by (meson linorder_less_linear)
    then show ?thesis
    proof cases
      case 1
      then show ?thesis using bs m by auto
    next
      case 2
      then have r: "binary_search key get s e = binary_search key get s (mid - 1)" using bs by auto
      have "f x \<noteq> key" if "mid \<le> x" "x \<le> e" for x
        using less.prems(2) [of mid x] m that 2 by (cases "x = mid") auto
      moreover have "(\<exists>x. binary_search key get s (mid - 1) = Some (Some x) \<and> s \<le> x \<and> x \<le> mid - 1 \<and> f x = key)
        \<or> binary_search key get s (mid - 1) = Some None \<and> (\<forall>x. s \<le> x \<and> x \<le> mid - 1 \<longrightarrow> f x \<noteq> key)"
        using m less.prems by (intro less.hyps) auto
      ultimately show ?thesis unfolding r using m by (smt (verit))
    next
      case 3
      then have r: "binary_search key get s e = binary_search key get (mid + 1) e" using bs by auto
      have "f x \<noteq> key" if "s \<le> x" "x \<le> mid" for x
        using less.prems(2) [of x mid] m that 3 by (cases "x = mid") auto
      moreover have "(\<exists>x. binary_search key get (mid + 1) e = Some (Some x) \<and> mid + 1 \<le> x \<and> x \<le> e \<and> f x = key)
        \<or> binary_search key get (mid + 1) e = Some None \<and> (\<forall>x. mid + 1 \<le> x \<and> x \<le> e \<longrightarrow> f x \<noteq> key)"
        using m less.prems by (intro less.hyps) auto
      ultimately show ?thesis unfolding r using m by (smt (verit))
    qed
  qed
qed

text \<open>\<open>seg xss i\<close> is the index at which list \<open>i\<close> of \<open>xss\<close> starts in their concatenation.\<close>

definition seg :: "'x list list \<Rightarrow> nat \<Rightarrow> nat" where
  "seg xss i = length (concat (take i xss))"

lemma seg_0 [simp]: "seg xss 0 = 0"
  by (simp add: seg_def)

lemma seg_Suc: "i < length xss \<Longrightarrow> seg xss (Suc i) = seg xss i + length (xss ! i)"
  by (simp add: seg_def take_Suc_conv_app_nth)

lemma seg_le: "seg xss i \<le> length (concat xss)"
  by (metis seg_def append_take_drop_id concat_append length_append le_add1)

lemma nth_concat_seg:
  assumes "i < length xss" "j < length (xss ! i)"
  shows "concat xss ! (seg xss i + j) = xss ! i ! j" "seg xss i + j < length (concat xss)"
proof -
  have "concat xss = concat (take i xss) @ xss ! i @ concat (drop (Suc i) xss)"
    using assms(1) by (metis concat.simps(2) concat_append id_take_nth_drop)
  then show "concat xss ! (seg xss i + j) = xss ! i ! j" "seg xss i + j < length (concat xss)"
    using assms(2) by (simp_all add: seg_def nth_append)
qed

lemma segment_search:
  assumes "i < length xss" "sorted_wrt (\<lambda>x y. f x < (f y :: u32)) (xss ! i)"
    and get: "\<And>m. m < length (concat xss) \<Longrightarrow> get (int m) = Some (f (concat xss ! m))"
  shows "(\<exists>j < length (xss ! i). f (xss ! i ! j) = key
      \<and> binary_search key get (int (seg xss i)) (int (seg xss (Suc i)) - 1) = Some (Some (int (seg xss i + j))))
    \<or> binary_search key get (int (seg xss i)) (int (seg xss (Suc i)) - 1) = Some None
      \<and> (\<forall>x \<in> set (xss ! i). f x \<noteq> key)"
proof -
  define g where "g = (\<lambda>m. f (xss ! i ! (nat m - seg xss i)))"
  let ?s = "int (seg xss i)" and ?e = "int (seg xss (Suc i)) - 1"
  have j: "nat m = seg xss i + (nat m - seg xss i)" "nat m - seg xss i < length (xss ! i)" "m = int (nat m)"
    if "?s \<le> m" "m \<le> ?e" for m
    using that seg_Suc [OF assms(1)] by auto
  have 1: "get m = Some (g m)" if "?s \<le> m" "m \<le> ?e" for m
    using get [of "nat m"] nth_concat_seg [OF assms(1) j(2) [OF that]] j [OF that] by (simp add: g_def)
  have 2: "g m < g n" if "?s \<le> m" "m < n" "n \<le> ?e" for m n
  proof -
    have "nat m - seg xss i < nat n - seg xss i" using that by auto
    then show ?thesis
      using sorted_wrt_nth_less [OF assms(2)] j(2) [of n] that by (simp add: g_def)
  qed
  have "(\<exists>m. binary_search key get ?s ?e = Some (Some m) \<and> ?s \<le> m \<and> m \<le> ?e \<and> g m = key)
    \<or> binary_search key get ?s ?e = Some None \<and> (\<forall>m. ?s \<le> m \<and> m \<le> ?e \<longrightarrow> g m \<noteq> key)"
    by (rule binary_search_finds) (fact 1, fact 2)
  then show ?thesis
  proof (elim disjE exE conjE)
    fix m assume m: "binary_search key get ?s ?e = Some (Some m)" "?s \<le> m" "m \<le> ?e" "g m = key"
    then show ?thesis
      using j [OF m(2,3)] by (intro disjI1 exI [of _ "nat m - seg xss i"]) (auto simp: g_def)
  next
    assume n: "binary_search key get ?s ?e = Some None" "\<forall>m. ?s \<le> m \<and> m \<le> ?e \<longrightarrow> g m \<noteq> key"
    have "f (xss ! i ! j) \<noteq> key" if "j < length (xss ! i)" for j
      using n(2) [rule_format, of "int (seg xss i + j)"] that seg_Suc [OF assms(1)] by (simp add: g_def nat_int_add)
    then show ?thesis using n(1) by (metis in_set_conv_nth)
  qed
qed

subsection \<open>The tables represent the list\<close>

definition addr_chiplet :: "u32 \<Rightarrow> u8" where "addr_chiplet a = ucast (drop_bit 24 a)"
definition addr_mid :: "u32 \<Rightarrow> u8" where "addr_mid a = ucast (drop_bit 16 a)"
definition addr_low :: "u32 \<Rightarrow> u16" where "addr_low a = ucast a"

definition listed_in :: "(u8 \<times> u8) \<times> (u8 \<times> u16 list) list \<Rightarrow> u32 \<Rightarrow> bool" where
  "listed_in x addr \<longleftrightarrow>
     fst (fst x) \<le> addr_chiplet addr \<and> addr_chiplet addr \<le> snd (fst x)
   \<and> (\<exists>(k, vs) \<in> set (snd x). k = addr_mid addr \<and> addr_low addr \<in> set vs)"

definition listed :: "sec_list \<Rightarrow> u32 \<Rightarrow> bool" where
  "listed L addr \<longleftrightarrow> (\<exists>x \<in> set L. listed_in x addr)"

text \<open>The keys of a range ascend, and the running counts fit their fields.\<close>

definition sec_list_ok :: "sec_list \<Rightarrow> bool" where
  "sec_list_ok L \<longleftrightarrow>
     (\<forall>x \<in> set L. sorted_wrt (<) (map fst (snd x))) \<and> length L < 2 ^ 16
   \<and> length (trees L) < 2 ^ 8 \<and> length (gen_table3 (trees L)) < 2 ^ 16"

lemma search_keys:
  "search_key addr LIST_TABLE1_MASK = ucast (addr_chiplet addr)"
  "search_key addr LIST_TABLE2_MASK = ucast (addr_mid addr)"
  "search_key addr LIST_TABLE3_MASK = ucast (addr_low addr)"
proof -
  have s: "get_shift_len LIST_TABLE1_MASK 0 = 24" "get_shift_len LIST_TABLE2_MASK 0 = 16"
    "get_shift_len LIST_TABLE3_MASK 0 = 0" by code_simp+
  have m: "LIST_TABLE1_MASK = push_bit 24 (mask 8)" "LIST_TABLE2_MASK = push_bit 16 (mask 8)"
    "LIST_TABLE3_MASK = mask 16"
    by code_simp+
  show "search_key addr LIST_TABLE1_MASK = ucast (addr_chiplet addr)"
    unfolding search_key_def s(1) addr_chiplet_def unfolding m(1)
    by (rule bit_word_eqI) (auto simp: bit_simps dest: bit_imp_le_length)
  show "search_key addr LIST_TABLE2_MASK = ucast (addr_mid addr)"
    unfolding search_key_def s(2) addr_mid_def unfolding m(2)
    by (rule bit_word_eqI) (auto simp: bit_simps dest: bit_imp_le_length)
  show "search_key addr LIST_TABLE3_MASK = ucast (addr_low addr)"
    unfolding search_key_def s(3) addr_low_def unfolding m(3)
    by (rule bit_word_eqI) (auto simp: bit_simps dest: bit_imp_le_length)
qed

lemma unat_ucast_small:
  "unat (ucast (x :: u8) :: u32) = unat x" "unat (ucast (y :: u16) :: u32) = unat y"
  using unsigned_less [of x, where 'a = nat] unsigned_less [of y, where 'a = nat]
  by (simp_all add: unsigned_ucast_eq take_bit_nat_eq_self_iff)

lemma ucast_u8_mono: "ucast (x :: u8) \<le> (ucast y :: u32) \<longleftrightarrow> x \<le> y" "ucast x < (ucast y :: u32) \<longleftrightarrow> x < y"
  "ucast x = (ucast y :: u32) \<longleftrightarrow> x = y"
  by (simp_all add: word_le_nat_alt word_less_nat_alt word_unat_eq_iff unat_ucast_small)

lemma ucast_u16_mono: "ucast (x :: u16) < (ucast y :: u32) \<longleftrightarrow> x < y" "ucast x = (ucast y :: u32) \<longleftrightarrow> x = y"
  by (simp_all add: word_less_nat_alt word_unat_eq_iff unat_ucast_small)

lemma gen_table1_nth:
  "i < length L \<Longrightarrow> gen_table1 c L ! i = \<lparr> t1_key_start = fst (fst (L ! i)), t1_key_end = snd (fst (L ! i)),
     t1_value = of_nat (c + seg (map snd L) (Suc i)) \<rparr>"
proof (induction c L arbitrary: i rule: gen_table1.induct)
  case (2 c s e tree L)
  then show ?case by (cases i) (auto simp: seg_def)
qed simp

lemma length_gen_table1 [simp]: "length (gen_table1 c L) = length L"
  by (induction c L rule: gen_table1.induct) auto

definition low_lists :: "(u8 \<times> u16 list) list \<Rightarrow> u16 list list" where
  "low_lists ts = map (\<lambda>(k, vs). temp_keys vs) ts"

lemma gen_table2_nth:
  "i < length ts \<Longrightarrow> gen_table2 c ts ! i = \<lparr> t2_key = fst (ts ! i),
     t2_value = of_nat (c + seg (low_lists ts) (Suc i)) \<rparr>"
proof (induction c ts arbitrary: i rule: gen_table2.induct)
  case (2 c key vs ts)
  then show ?case by (cases i) (auto simp: seg_def low_lists_def)
qed simp

lemma length_gen_table2 [simp]: "length (gen_table2 c ts) = length ts"
  by (induction c ts rule: gen_table2.induct) auto

lemma sorted_temp_keys: "sorted_wrt (<) (temp_keys vs)" "set (temp_keys vs) = set vs"
  by (simp_all add: temp_keys_def strict_sorted_iff)

lemma entry_mk: "entry (mk_table m es) (int i) = (if i < length es then Some (es ! i) else None)"
  by (simp add: entry_def mk_table_def)

lemma uint_of_nat_u8: "n < 2 ^ 8 \<Longrightarrow> uint (of_nat n :: u8) = int n"
  by (simp add: unsigned_of_nat take_bit_nat_eq_self)

lemma uint_of_nat_u16: "n < 2 ^ 16 \<Longrightarrow> uint (of_nat n :: u16) = int n"
  by (simp add: unsigned_of_nat take_bit_nat_eq_self)

lemma uint_t1_value:
  assumes "sec_list_ok L" "i < length L"
  shows "uint (t1_value (gen_table1 0 L ! i)) = int (seg (map snd L) (Suc i))"
proof -
  have "seg (map snd L) (Suc i) \<le> length (trees L)" unfolding trees_def by (rule seg_le)
  then show ?thesis
    using assms by (simp add: gen_table1_nth uint_of_nat_u8 sec_list_ok_def del: of_nat_add)
qed

lemma concat_low_lists: "gen_table3 ts = map (\<lambda>v. \<lparr> t3_value = v \<rparr>) (concat (low_lists ts))"
  by (simp add: gen_table3_def low_lists_def)

lemma uint_t2_value:
  assumes "sec_list_ok L" "v < length (trees L)"
  shows "uint (t2_value (gen_table2 0 (trees L) ! v)) = int (seg (low_lists (trees L)) (Suc v))"
proof -
  have "seg (low_lists (trees L)) (Suc v) \<le> length (concat (low_lists (trees L)))" by (rule seg_le)
  then have "seg (low_lists (trees L)) (Suc v) < 2 ^ 16"
    using assms(1) by (simp add: sec_list_ok_def concat_low_lists)
  then show ?thesis using assms(2) by (simp add: gen_table2_nth uint_of_nat_u16 del: of_nat_add)
qed

text \<open>The lower bounds of the two searches are the starts of the segments.\<close>

lemma search2_start:
  assumes "sec_list_ok L" "i < length L"
  shows "(if i \<noteq> 0 then map_option (\<lambda>e. uint (t1_value e)) (entry (gen_t1 L) (int i - 1)) else Some 0)
    = Some (int (seg (map snd L) i))"
proof (cases i)
  case (Suc j)
  then have "entry (gen_t1 L) (int i - 1) = Some (gen_table1 0 L ! j)"
    using assms(2) entry_mk [of LIST_TABLE1_MASK "gen_table1 0 L" j] by (simp add: gen_t1_def)
  then show ?thesis using Suc assms uint_t1_value [of L j] by simp
qed simp

lemma search3_start:
  assumes "sec_list_ok L" "v < length (trees L)"
  shows "(if int v \<noteq> 0 then map_option (\<lambda>e. uint (t2_value e)) (entry (gen_t2 L) (int v - 1)) else Some 0)
    = Some (int (seg (low_lists (trees L)) v))"
proof (cases v)
  case (Suc j)
  then have "entry (gen_t2 L) (int v - 1) = Some (gen_table2 0 (trees L) ! j)"
    using assms(2) entry_mk [of LIST_TABLE2_MASK "gen_table2 0 (trees L)" j] by (simp add: gen_t2_def)
  then show ?thesis using Suc assms uint_t2_value [of L j] by simp
qed simp

lemma search2:
  assumes "sec_list_ok L" "i < length L"
  shows "(\<exists>j < length (snd (L ! i)). fst (snd (L ! i) ! j) = addr_mid addr
      \<and> binary_search (ucast (addr_mid addr)) (\<lambda>m. map_option (\<lambda>e. ucast (t2_key e)) (entry (gen_t2 L) m))
          (int (seg (map snd L) i)) (int (seg (map snd L) (Suc i)) - 1) = Some (Some (int (seg (map snd L) i + j))))
    \<or> binary_search (ucast (addr_mid addr)) (\<lambda>m. map_option (\<lambda>e. ucast (t2_key e)) (entry (gen_t2 L) m))
          (int (seg (map snd L) i)) (int (seg (map snd L) (Suc i)) - 1) = Some None
      \<and> (\<forall>x \<in> set (snd (L ! i)). fst x \<noteq> addr_mid addr)"
proof -
  have "sorted_wrt (<) (map fst (snd (L ! i)))" using assms by (auto simp: sec_list_ok_def)
  then have s: "sorted_wrt (\<lambda>x y. ucast (fst x) < (ucast (fst y) :: u32)) (map snd L ! i)"
    using assms(2) by (simp add: sorted_wrt_map ucast_u8_mono)
  have g: "map_option (\<lambda>e. ucast (t2_key e)) (entry (gen_t2 L) (int m))
      = Some (ucast (fst (concat (map snd L) ! m)) :: u32)" if "m < length (concat (map snd L))" for m
    using that by (simp add: gen_t2_def entry_mk gen_table2_nth trees_def)
  show ?thesis
    using segment_search [OF _ s g, of "ucast (addr_mid addr)"] assms(2) by (simp add: ucast_u8_mono)
qed

lemma search3:
  assumes "sec_list_ok L" "v < length (trees L)"
  shows "(\<exists>m. binary_search (ucast (addr_low addr)) (\<lambda>m. map_option (\<lambda>e. ucast (t3_value e)) (entry (gen_t3 L) m))
          (int (seg (low_lists (trees L)) v)) (int (seg (low_lists (trees L)) (Suc v)) - 1) = Some (Some m)
        \<and> addr_low addr \<in> set (snd (trees L ! v)))
    \<or> binary_search (ucast (addr_low addr)) (\<lambda>m. map_option (\<lambda>e. ucast (t3_value e)) (entry (gen_t3 L) m))
          (int (seg (low_lists (trees L)) v)) (int (seg (low_lists (trees L)) (Suc v)) - 1) = Some None
      \<and> addr_low addr \<notin> set (snd (trees L ! v))"
proof -
  let ?W = "low_lists (trees L)"
  have v: "v < length ?W" "?W ! v = temp_keys (snd (trees L ! v))"
    using assms(2) by (simp_all add: low_lists_def split_beta)
  have s: "sorted_wrt (\<lambda>x y. ucast x < (ucast y :: u32)) (?W ! v)"
    unfolding v(2) by (simp add: ucast_u16_mono sorted_temp_keys)
  have g: "map_option (\<lambda>e. ucast (t3_value e)) (entry (gen_t3 L) (int m)) = Some (ucast (concat ?W ! m) :: u32)"
    if "m < length (concat ?W)" for m
    using that by (simp add: gen_t3_def entry_mk concat_low_lists)
  show ?thesis
    using segment_search [OF v(1) s g, of "ucast (addr_low addr)"] v(2) sorted_temp_keys(2) [of "snd (trees L ! v)"]
    by (auto simp: ucast_u16_mono in_set_conv_nth)
qed

lemma unique_key:
  assumes "sec_list_ok L" "i < length L" "j < length (snd (L ! i))" "fst (snd (L ! i) ! j) = k"
  shows "(\<exists>(k', vs) \<in> set (snd (L ! i)). k' = k \<and> x \<in> set vs) \<longleftrightarrow> x \<in> set (snd (snd (L ! i) ! j))"
proof -
  have "distinct (map fst (snd (L ! i)))"
    using assms(1,2) by (auto simp: sec_list_ok_def strict_sorted_iff)
  then have "p = snd (L ! i) ! j" if "p \<in> set (snd (L ! i))" "fst p = k" for p
    using that assms(3,4) by (metis eq_key_imp_eq_value nth_mem prod.collapse)
  moreover have "snd (L ! i) ! j \<in> set (snd (L ! i))" using assms(3) by (rule nth_mem)
  ultimately show ?thesis using assms(4) unfolding split_beta by blast
qed

lemma is_present_step:
  assumes ok: "sec_list_ok L" and i: "i < length L"
  shows "is_present_from (Suc k) i (gen_t1 L) (gen_t2 L) (gen_t3 L) addr =
    (if listed_in (L ! i) addr then Some True
     else is_present_from k (Suc i) (gen_t1 L) (gen_t2 L) (gen_t3 L) addr)"
proof -
  have m: "tbl_mask (gen_t1 L) = LIST_TABLE1_MASK" "tbl_mask (gen_t2 L) = LIST_TABLE2_MASK"
    "tbl_mask (gen_t3 L) = LIST_TABLE3_MASK"
    by (simp_all add: gen_t1_def gen_t2_def gen_t3_def mk_table_def)
  have e: "entry (gen_t1 L) (int i) = Some (gen_table1 0 L ! i)"
    using i by (simp add: gen_t1_def entry_mk)
  have r: "ucast (t1_key_start (gen_table1 0 L ! i)) \<le> (ucast (addr_chiplet addr) :: u32)
      \<and> ucast (addr_chiplet addr) \<le> (ucast (t1_key_end (gen_table1 0 L ! i)) :: u32)
    \<longleftrightarrow> fst (fst (L ! i)) \<le> addr_chiplet addr \<and> addr_chiplet addr \<le> snd (fst (L ! i))"
    using i by (simp add: gen_table1_nth ucast_u8_mono)
  note step = is_present_from.simps(2) [of k i "gen_t1 L" "gen_t2 L" "gen_t3 L" addr,
      unfolded m search_keys e bind.bind_lunit r search2_start [OF ok i] uint_t1_value [OF ok i]]
  show ?thesis
  proof (cases "fst (fst (L ! i)) \<le> addr_chiplet addr \<and> addr_chiplet addr \<le> snd (fst (L ! i))")
    case False
    then show ?thesis unfolding step by (auto simp: listed_in_def)
  next
    case True
    show ?thesis
      using search2 [OF ok i, of addr]
    proof (elim disjE exE conjE)
      assume n: "binary_search (ucast (addr_mid addr)) (\<lambda>m. map_option (\<lambda>e. ucast (t2_key e)) (entry (gen_t2 L) m))
          (int (seg (map snd L) i)) (int (seg (map snd L) (Suc i)) - 1) = Some None"
        and nm: "\<forall>x \<in> set (snd (L ! i)). fst x \<noteq> addr_mid addr"
      then have "\<not> listed_in (L ! i) addr" by (auto simp: listed_in_def)
      then show ?thesis unfolding step n using True by simp
    next
      fix j
      assume j: "j < length (snd (L ! i))" "fst (snd (L ! i) ! j) = addr_mid addr"
        and f: "binary_search (ucast (addr_mid addr)) (\<lambda>m. map_option (\<lambda>e. ucast (t2_key e)) (entry (gen_t2 L) m))
          (int (seg (map snd L) i)) (int (seg (map snd L) (Suc i)) - 1) = Some (Some (int (seg (map snd L) i + j)))"
      define v where "v = seg (map snd L) i + j"
      have v: "v < length (trees L)" "trees L ! v = snd (L ! i) ! j"
        using nth_concat_seg [of i "map snd L" j] i j by (simp_all add: v_def trees_def)
      have e2: "entry (gen_t2 L) (int v) = Some (gen_table2 0 (trees L) ! v)"
        using v by (simp add: gen_t2_def entry_mk)
      have u: "listed_in (L ! i) addr \<longleftrightarrow> addr_low addr \<in> set (snd (trees L ! v))"
        using unique_key [OF ok i j] True v(2) by (simp add: listed_in_def)
      note step3 = step [unfolded f v_def [symmetric] bind.bind_lunit option.case
          search3_start [OF ok v(1)] e2 uint_t2_value [OF ok v(1)]]
      show ?thesis
        unfolding step3 using search3 [OF ok v(1), of addr] True u by auto
    qed
  qed
qed

text \<open>
  Property C30. On the tables generated from a register list the three-level search never reads
  outside a table and finds exactly the addresses of the list.
\<close>

theorem is_present_correct:
  assumes "sec_list_ok L"
  shows "is_present (gen_t1 L) (gen_t2 L) (gen_t3 L) addr = Some (listed L addr)"
proof -
  have "is_present_from k i (gen_t1 L) (gen_t2 L) (gen_t3 L) addr = Some (\<exists>x \<in> set (drop i L). listed_in x addr)"
    if "k + i = length L" for k i
    using that
  proof (induction k arbitrary: i)
    case (Suc k)
    then have "drop i L = L ! i # drop (Suc i) L" by (simp add: Cons_nth_drop_Suc)
    then show ?case
      using Suc.IH [of "Suc i"] Suc.prems is_present_step [OF assms, of i k addr] by simp
  qed simp
  moreover have "unat (tbl_size (gen_t1 L)) = length L"
    using assms by (simp add: gen_t1_def mk_table_def sec_list_ok_def unat_of_nat)
  ultimately show ?thesis by (simp add: is_present_def listed_def)
qed

definition doc_list :: sec_list where
  "doc_list = [((1, 2), [(0xAB, [0xCD, 0xEF])]), ((4, 5), [(0xAB, [0xEF, 0xCD]), (0xCD, [0x10, 0x11])])]"

theorem is_present_correct_witness:
  "is_present (gen_t1 doc_list) (gen_t2 doc_list) (gen_t3 doc_list) 0x05CD0011 = Some True
    \<and> is_present (gen_t1 doc_list) (gen_t2 doc_list) (gen_t3 doc_list) 0x01CD0011 = Some False"
proof -
  have "sec_list_ok doc_list"
    by (simp add: sec_list_ok_def doc_list_def trees_def gen_table3_def temp_keys_def)
  moreover have "listed doc_list 0x05CD0011 = True" "listed doc_list 0x01CD0011 = False" by code_simp+
  ultimately show ?thesis
    using is_present_correct [of doc_list "0x05CD0011"] is_present_correct [of doc_list "0x01CD0011"] by simp
qed

end
