(* ===== verification/Sbe_SecurityDump.thy ===== *)
theory Sbe_SecurityDump
  imports Sbe_Security
begin

text \<open>
  The hand-over of the security lists from the SBE to hostboot: what
  \<open>sendSecurityListDumpToHB\<close> leaves in memory, read back by \<open>securityAccessTablesInit\<close>, gives the
  same tables and so the same decisions; and what becomes of a transfer error on the way.
\<close>

subsection \<open>The bytes in flight\<close>

text \<open>
  \<open>in_stream g memof base m0 bs st\<close>: since the stream was opened at \<open>base\<close> over the memory \<open>m0\<close>, the
  bytes \<open>bs\<close> were sent; all but the last, incomplete granule are in memory.
\<close>

definition in_stream :: "nat \<Rightarrow> ('h \<Rightarrow> u64 \<Rightarrow> u8) \<Rightarrow> u64 \<Rightarrow> (u64 \<Rightarrow> u8) \<Rightarrow> u8 list
    \<Rightarrow> sbeMemAccessInterface \<times> 'h \<Rightarrow> bool" where
  "in_stream g memof base m0 bs st \<longleftrightarrow>
     (\<exists>pre. bs = pre @ pending (fst st) \<and> g dvd length pre \<and> iv_addr (fst st) = base + of_nat (length pre)
       \<and> memof (snd st) = mem_store base pre m0)
   \<and> writing g (fst st) \<and> iv_iterator (fst st) < g \<and> iv_interface (fst st) = SBE_MEM_ACCESS_PBA"

lemma map_nth_buf: "map (\<lambda>i. if i < length bs then bs ! i else z) [0..<length bs] = bs"
  by (rule nth_equalityI) auto

lemma flushed_kept: "flushed g False d @ kept g False d = d"
  by (simp add: flushed_def kept_def)

lemma send_stream:
  assumes "writes_memory hwp memof SBE_MEM_ACCESS_PBA g S" "in_stream g memof base m0 bs st"
    and "length bs + length xs + 2 * g \<le> 2 ^ 64" "serves g S base (length bs + length xs)"
  shows "\<exists>st'. send hwp xs l st = Some (FAPI2_RC_SUCCESS, st')
    \<and> (if l then (\<exists>z. memof (snd st') = mem_store base (bs @ xs @ z) m0)
       else in_stream g memof base m0 (bs @ xs) st')"
proof -
  obtain I h where st: "st = (I, h)" by (cases st)
  obtain pre where pre: "bs = pre @ pending I" "iv_addr I = base + of_nat (length pre)"
    "memof h = mem_store base pre m0" "g dvd length pre" and w: "writing g I" "iv_iterator I < g"
    "iv_interface I = SBE_MEM_ACCESS_PBA"
    using assms(2) by (auto simp: in_stream_def st)
  let ?buf = "\<lambda>i. if i < length xs then xs ! i else 0"
  define d where "d = pending I @ xs"
  have hw: "writes_memory hwp memof (iv_interface I) g S" using assms(1) w(3) by simp
  have dd: "d = pending I @ map ?buf [0..<length xs]" by (simp add: d_def map_nth_buf)
  have ld: "length d + g \<le> 2 ^ 64" using assms(3) pre(1) by (simp add: d_def)
  have g0: "0 < g" using w(1) by (simp add: writing_def)
  have sv: "serves g S (iv_addr I) (length (flushed g l d))"
    using serves_skip [OF _ pre(4), of S base "length d"] assms(4) pre(1,2) g0 by (intro flushed_bound) (simp_all add: d_def add.assoc)
  obtain I' h' where r: "accessWithBuffer hwp ?buf (length xs) l I h = Some (FAPI2_RC_SUCCESS, ?buf, I', h')"
    "writing g I'" "iv_interface I' = iv_interface I" "iv_iterator I' < g" "pending I' = kept g l d"
    "iv_addr I' = iv_addr I + of_nat (length (flushed g l d))"
    "memof h' = mem_store (iv_addr I) (flushed g l d) (memof h)"
    using accessWithBuffer_writes [OF hw w(1,2) _ dd ld sv, of h] by auto
  have "length (flushed g l d) \<le> length d + g"
    using g0 by (auto simp: flushed_def intro: le_trans [OF mod_le_divisor])
  then have m: "memof h' = mem_store base (pre @ flushed g l d) m0"
    using r(7) pre mem_store_append [of pre "flushed g l d" base m0] assms(3) by (simp add: d_def)
  have s: "send hwp xs l st = Some (FAPI2_RC_SUCCESS, I', h')" using r(1) by (simp add: send_def st)
  show ?thesis
  proof (cases l)
    case False
    have "bs @ xs = (pre @ flushed g False d) @ pending I'"
      using pre(1) r(5) False flushed_kept [of g d] by (simp add: d_def)
    then have "in_stream g memof base m0 (bs @ xs) (I', h')"
      using r m False pre(2) w(3) unfolding in_stream_def
      using pre(4) by (intro conjI exI [of _ "pre @ flushed g False d"]) (simp_all add: add.assoc flushed_def minus_mod_eq_div_mult)
    then show ?thesis using s False by simp
  next
    case True
    obtain z where "flushed g l d = d @ z" using True by (simp add: flushed_def)
    then have "memof h' = mem_store base (bs @ xs @ z) m0" using m pre(1) by (simp add: d_def)
    then show ?thesis using s True by auto
  qed
qed

lemma send_fields_stream:
  assumes "writes_memory hwp memof SBE_MEM_ACCESS_PBA g S"
  shows "in_stream g memof base m0 bs st \<Longrightarrow> length bs + length (concat fs) + 2 * g \<le> 2 ^ 64 \<Longrightarrow>
    serves g S base (length bs + length (concat fs)) \<Longrightarrow>
    \<exists>st'. send_fields hwp fs FAPI2_RC_SUCCESS st = Some (FAPI2_RC_SUCCESS, st')
      \<and> in_stream g memof base m0 (bs @ concat fs) st'"
proof (induction fs arbitrary: bs st)
  case (Cons f fs)
  then obtain st1 where "send hwp f False st = Some (FAPI2_RC_SUCCESS, st1)"
    "in_stream g memof base m0 (bs @ f) st1"
    using send_stream [OF assms Cons.prems(1), of f False] serves_mono [OF Cons.prems(3), of "length bs + length f"] by auto
  then show ?case using Cons.IH [of "bs @ f" st1] Cons.prems(2,3) by (auto simp: add.assoc)
qed simp

definition table_bytes :: "('e \<Rightarrow> u8 list list) \<Rightarrow> 'e sec_table \<Rightarrow> u8 list" where
  "table_bytes fl t = concat (concat (map fl (sent_entries t)))"

lemma white_black_stream:
  assumes "writes_memory hwp memof SBE_MEM_ACCESS_PBA g S" "in_stream g memof base m0 bs st"
    and "length bs + length (table_bytes t1_fields a) + length (table_bytes t2_fields b)
      + length (table_bytes t3_fields c) + 2 * g \<le> 2 ^ 64"
    and "serves g S base n" "length bs + length (table_bytes t1_fields a) + length (table_bytes t2_fields b)
      + length (table_bytes t3_fields c) \<le> n"
  shows "\<exists>st'. sbeSecurityWhiteBlackListDump hwp a b c st = Some (FAPI2_RC_SUCCESS, st')
    \<and> in_stream g memof base m0 (bs @ table_bytes t1_fields a @ table_bytes t2_fields b @ table_bytes t3_fields c) st'"
proof -
  obtain s1 where 1: "send_fields hwp (concat (map t1_fields (sent_entries a))) FAPI2_RC_SUCCESS st
      = Some (FAPI2_RC_SUCCESS, s1)" "in_stream g memof base m0 (bs @ table_bytes t1_fields a) s1"
    using send_fields_stream [OF assms(1,2), of "concat (map t1_fields (sent_entries a))"] assms(3,5) serves_mono [OF assms(4)]
    by (auto simp: table_bytes_def)
  obtain s2 where 2: "send_fields hwp (concat (map t2_fields (sent_entries b))) FAPI2_RC_SUCCESS s1
      = Some (FAPI2_RC_SUCCESS, s2)" "in_stream g memof base m0 ((bs @ table_bytes t1_fields a) @ table_bytes t2_fields b) s2"
    using send_fields_stream [OF assms(1) 1(2), of "concat (map t2_fields (sent_entries b))"] assms(3,5) serves_mono [OF assms(4)]
    by (auto simp: table_bytes_def)
  obtain s3 where 3: "send_fields hwp (concat (map t3_fields (sent_entries c))) FAPI2_RC_SUCCESS s2
      = Some (FAPI2_RC_SUCCESS, s3)"
    "in_stream g memof base m0 (((bs @ table_bytes t1_fields a) @ table_bytes t2_fields b) @ table_bytes t3_fields c) s3"
    using send_fields_stream [OF assms(1) 2(2), of "concat (map t3_fields (sent_entries c))"] assms(3,5) serves_mono [OF assms(4)]
    by (auto simp: table_bytes_def)
  show ?thesis using 1(1) 2(1) 3 by (simp add: sbeSecurityWhiteBlackListDump_def)
qed

definition dump_bytes :: "GenSecurityListTables \<Rightarrow> u8 list" where
  "dump_bytes T = toc_header T
     @ table_bytes t1_fields (wl_t1 T) @ table_bytes t2_fields (wl_t2 T) @ table_bytes t3_fields (wl_t3 T)
     @ table_bytes t1_fields (bl_t1 T) @ table_bytes t2_fields (bl_t2 T) @ table_bytes t3_fields (bl_t3 T)
     @ table_bytes gl_fields (gl_t1 T)"

lemma dump_stream:
  assumes "writes_memory hwp memof SBE_MEM_ACCESS_PBA g S" "in_stream g memof base m0 [] st"
    and "length (dump_bytes T) + 1 + 2 * g \<le> 2 ^ 64" "serves g S base (length (dump_bytes T) + 1)"
  shows "\<exists>st' z. sendSecurityListDumpToHB hwp T st = Some (FAPI2_RC_SUCCESS, st')
    \<and> memof (snd st') = mem_store base (dump_bytes T @ z) m0"
proof -
  have len: "length (dump_bytes T) = length (toc_header T) + length (table_bytes t1_fields (wl_t1 T))
    + length (table_bytes t2_fields (wl_t2 T)) + length (table_bytes t3_fields (wl_t3 T))
    + length (table_bytes t1_fields (bl_t1 T)) + length (table_bytes t2_fields (bl_t2 T))
    + length (table_bytes t3_fields (bl_t3 T)) + length (table_bytes gl_fields (gl_t1 T))"
    by (simp add: dump_bytes_def)
  obtain s1 where 1: "updateAndSendSecTOCHdr hwp T st = Some (FAPI2_RC_SUCCESS, s1)"
    "in_stream g memof base m0 (toc_header T) s1"
    using send_stream [OF assms(1,2), of "toc_header T" False] assms(3) serves_mono [OF assms(4)] len
    by (auto simp: updateAndSendSecTOCHdr_def)
  obtain s2 where 2: "sbeSecurityWhiteBlackListDump hwp (wl_t1 T) (wl_t2 T) (wl_t3 T) s1 = Some (FAPI2_RC_SUCCESS, s2)"
    "in_stream g memof base m0 (toc_header T @ table_bytes t1_fields (wl_t1 T) @ table_bytes t2_fields (wl_t2 T)
      @ table_bytes t3_fields (wl_t3 T)) s2" (is "in_stream _ _ _ _ ?b2 _")
    using white_black_stream [OF assms(1) 1(2) _ assms(4), of "wl_t1 T" "wl_t2 T" "wl_t3 T"] assms(3) len by auto
  obtain s3 where 3: "sbeSecurityWhiteBlackListDump hwp (bl_t1 T) (bl_t2 T) (bl_t3 T) s2 = Some (FAPI2_RC_SUCCESS, s3)"
    "in_stream g memof base m0 (?b2 @ table_bytes t1_fields (bl_t1 T) @ table_bytes t2_fields (bl_t2 T)
      @ table_bytes t3_fields (bl_t3 T)) s3" (is "in_stream _ _ _ _ ?b3 _")
    using white_black_stream [OF assms(1) 2(2) _ assms(4), of "bl_t1 T" "bl_t2 T" "bl_t3 T"] assms(3) len by auto
  obtain s4 where 4: "sbeSecurityGreyListDump hwp (gl_t1 T) s3 = Some (FAPI2_RC_SUCCESS, s4)"
    "in_stream g memof base m0 (?b3 @ table_bytes gl_fields (gl_t1 T)) s4"
    using send_fields_stream [OF assms(1) 3(2), of "concat (map gl_fields (sent_entries (gl_t1 T)))"] assms(3) serves_mono [OF assms(4)] len
    by (auto simp: sbeSecurityGreyListDump_def table_bytes_def)
  have "in_stream g memof base m0 (dump_bytes T) s4" using 4(2) by (simp add: dump_bytes_def)
  then obtain s5 z where 5: "send hwp [0] True s4 = Some (FAPI2_RC_SUCCESS, s5)"
    "memof (snd s5) = mem_store base (dump_bytes T @ [0] @ z) m0"
    using send_stream [OF assms(1), of base m0 "dump_bytes T" s4 "[0]" True] assms(3,4) by auto
  have "sendSecurityListDumpToHB hwp T st = Some (FAPI2_RC_SUCCESS, s5)"
    using 1(1) 2(1) 3(1) 4(1) 5(1) by (simp add: sendSecurityListDumpToHB_def)
  then show ?thesis using 5(2) by blast
qed

subsection \<open>Reading the bytes back\<close>

definition agree :: "(nat \<Rightarrow> u8) \<Rightarrow> nat \<Rightarrow> u8 list \<Rightarrow> bool" where
  "agree buf p bs \<longleftrightarrow> (\<forall>k < length bs. buf (p + k) = bs ! k)"

lemma agree_append: "agree buf p (xs @ ys) \<longleftrightarrow> agree buf p xs \<and> agree buf (p + length xs) ys"
proof
  assume a: "agree buf p (xs @ ys)"
  have "buf (p + length xs + k) = ys ! k" if "k < length ys" for k
    using a that unfolding agree_def by (auto simp: nth_append add.assoc dest: spec [of _ "length xs + k"])
  then show "agree buf p xs \<and> agree buf (p + length xs) ys"
    using a by (auto simp: agree_def nth_append)
next
  assume a: "agree buf p xs \<and> agree buf (p + length xs) ys"
  show "agree buf p (xs @ ys)"
    unfolding agree_def
  proof (intro allI impI)
    fix k assume k: "k < length (xs @ ys)"
    show "buf (p + k) = (xs @ ys) ! k"
    proof (cases "k < length xs")
      case True
      then show ?thesis using a by (simp add: agree_def nth_append)
    next
      case False
      then have "buf (p + length xs + (k - length xs)) = ys ! (k - length xs)"
        using a k unfolding agree_def by (metis add_diff_inverse_nat length_append nat_add_left_cancel_less)
      then show ?thesis using False by (simp add: nth_append)
    qed
  qed
qed

lemma length_be_bytes [simp]: "length (be_bytes n w) = n"
  by (simp add: be_bytes_def)

lemma be_read_prefix:
  assumes "agree buf p (be_bytes n w)" "LENGTH('w) = 8 * n" "k \<le> n"
  shows "be_read k buf p = drop_bit (8 * (n - k)) (w :: 'w::len word)"
  using assms(3)
proof (induction k)
  case 0
  show ?case using assms(2) by (auto intro!: bit_word_eqI simp: bit_simps dest: bit_imp_le_length)
next
  case (Suc k)
  have b: "buf (p + k) = ucast (drop_bit (8 * (n - Suc k)) w)"
    using assms(1) Suc.prems by (auto simp: agree_def be_bytes_def)
  have e: "8 * (n - k) = 8 + 8 * (n - Suc k)" using Suc.prems by simp
  have "be_read (Suc k) buf p = push_bit 8 (drop_bit (8 * (n - k)) w) OR ucast (ucast (drop_bit (8 * (n - Suc k)) w) :: u8)"
    using Suc b by simp
  also have "\<dots> = drop_bit (8 * (n - Suc k)) w"
    unfolding e by (rule bit_word_eqI) (auto simp: bit_simps not_less le_imp_diff_is_add add.commute dest: bit_imp_le_length)
  finally show ?case .
qed

lemma be_read_bytes:
  "agree buf p (be_bytes n w) \<Longrightarrow> LENGTH('w) = 8 * n \<Longrightarrow> be_read n buf p = (w :: 'w::len word)"
  using be_read_prefix [of buf p n w n] by simp

lemma read_fields:
  "agree buf p (concat (t1_fields e1)) \<Longrightarrow> read_t1 buf p = e1"
  "agree buf p (concat (t2_fields e2)) \<Longrightarrow> read_t2 buf p = e2"
  "agree buf p (concat (t3_fields e3)) \<Longrightarrow> read_t3 buf p = e3"
  "agree buf p (concat (gl_fields e4)) \<Longrightarrow> read_gl buf p = e4"
  by (simp_all add: t1_fields_def t2_fields_def t3_fields_def gl_fields_def read_t1_def read_t2_def
      read_t3_def read_gl_def agree_append be_read_bytes numeral_2_eq_2 numeral_eq_Suc del: be_read.simps)

text \<open>The four entry formats share one contract: their bytes have a fixed width and are read back.\<close>

locale entry_format =
  fixes fl :: "'e \<Rightarrow> u8 list list"
    and rd :: "(nat \<Rightarrow> u8) \<Rightarrow> nat \<Rightarrow> 'e"
    and w :: nat
  assumes width: "length (concat (fl e)) = w"
    and read_back: "agree buf p (concat (fl e)) \<Longrightarrow> rd buf p = e"
begin

lemma read_entries_back:
  "agree buf p (concat (concat (map fl es))) \<Longrightarrow> read_entries rd w buf p (length es) = es"
proof (induction es arbitrary: p)
  case (Cons e es)
  then show ?case using read_back [of buf p e] width [of e] by (simp add: agree_append)
qed simp

lemma length_entries: "length (concat (concat (map fl es))) = w * length es"
  by (induction es) (simp_all add: width)

end

interpretation t1_format: entry_format t1_fields read_t1 3
  by unfold_locales (simp_all add: read_fields, simp add: t1_fields_def)

interpretation t2_format: entry_format t2_fields read_t2 3
  by unfold_locales (simp_all add: read_fields, simp add: t2_fields_def)

interpretation t3_format: entry_format t3_fields read_t3 2
  by unfold_locales (simp_all add: read_fields, simp add: t3_fields_def)

interpretation gl_format: entry_format gl_fields read_gl 12
  by unfold_locales (simp_all add: read_fields, simp add: gl_fields_def)

definition table_ok :: "u32 \<Rightarrow> 'e sec_table \<Rightarrow> bool" where
  "table_ok m t \<longleftrightarrow> tbl_mask t = m \<and> length (tbl_entries t) < 2 ^ 16 \<and> tbl_size t = of_nat (length (tbl_entries t))"

lemma table_ok_size:
  assumes "table_ok m t"
  shows "unat (ucast (tbl_size t) :: u16) = length (tbl_entries t)" "sent_entries t = tbl_entries t"
    "ucast (ucast (tbl_size t) :: u16) = tbl_size t"
proof -
  have "unat (tbl_size t) = length (tbl_entries t)" using assms by (simp add: table_ok_def unat_of_nat)
  then show 1: "unat (ucast (tbl_size t) :: u16) = length (tbl_entries t)" "sent_entries t = tbl_entries t"
    using assms by (simp_all add: table_ok_def unsigned_ucast_eq take_bit_nat_eq_self sent_entries_def)
  then show "ucast (ucast (tbl_size t) :: u16) = tbl_size t"
    using assms unat_ucast_small(2) [of "ucast (tbl_size t)"]
    by (simp add: word_unat_eq_iff table_ok_def unat_of_nat)
qed

context entry_format
begin

lemma read_table_back:
  assumes "table_ok m t" "agree buf p (table_bytes fl t)"
  shows "read_table m rd w buf p (ucast (tbl_size t)) = t"
  using assms read_entries_back [of buf p "tbl_entries t"] table_ok_size [OF assms(1)]
  by (simp add: read_table_def table_bytes_def table_ok_def)

lemma length_table_bytes: "table_ok m t \<Longrightarrow> length (table_bytes fl t) = w * unat (ucast (tbl_size t) :: u16)"
  using length_entries [of "tbl_entries t"] table_ok_size [of m t] by (simp add: table_bytes_def)

lemma table_bytes_bound:
  assumes "table_ok m t"
  shows "length (table_bytes fl t) \<le> w * 2 ^ 16"
proof -
  have "unat (ucast (tbl_size t) :: u16) < 2 ^ LENGTH(16)" by (rule unsigned_less)
  then show ?thesis unfolding length_table_bytes [OF assms] by (intro mult_le_mono2) simp
qed

end

definition tables_ok :: "GenSecurityListTables \<Rightarrow> bool" where
  "tables_ok T \<longleftrightarrow>
     table_ok LIST_TABLE1_MASK (wl_t1 T) \<and> table_ok LIST_TABLE2_MASK (wl_t2 T) \<and> table_ok LIST_TABLE3_MASK (wl_t3 T)
   \<and> table_ok LIST_TABLE1_MASK (bl_t1 T) \<and> table_ok LIST_TABLE2_MASK (bl_t2 T) \<and> table_ok LIST_TABLE3_MASK (bl_t3 T)
   \<and> table_ok GREYLIST_TABLE1_MASK (gl_t1 T)"

lemma toc_counts:
  assumes "agree buf 0 (toc_header T)"
  shows "be_read 2 buf 0 = (ucast (tbl_size (wl_t1 T)) :: u16)" "be_read 2 buf 2 = (ucast (tbl_size (wl_t2 T)) :: u16)"
    "be_read 2 buf 4 = (ucast (tbl_size (wl_t3 T)) :: u16)" "be_read 2 buf 6 = (ucast (tbl_size (bl_t1 T)) :: u16)"
    "be_read 2 buf 8 = (ucast (tbl_size (bl_t2 T)) :: u16)" "be_read 2 buf 10 = (ucast (tbl_size (bl_t3 T)) :: u16)"
    "be_read 2 buf 12 = (ucast (tbl_size (gl_t1 T)) :: u16)"
proof -
  have l: "LENGTH(16) = 8 * 2" by simp
  show "be_read 2 buf 0 = (ucast (tbl_size (wl_t1 T)) :: u16)" "be_read 2 buf 2 = (ucast (tbl_size (wl_t2 T)) :: u16)"
    "be_read 2 buf 4 = (ucast (tbl_size (wl_t3 T)) :: u16)" "be_read 2 buf 6 = (ucast (tbl_size (bl_t1 T)) :: u16)"
    "be_read 2 buf 8 = (ucast (tbl_size (bl_t2 T)) :: u16)" "be_read 2 buf 10 = (ucast (tbl_size (bl_t3 T)) :: u16)"
    "be_read 2 buf 12 = (ucast (tbl_size (gl_t1 T)) :: u16)"
    using assms unfolding toc_header_def
    by (simp_all only: list.map concat.simps append_Nil2 agree_append length_be_bytes add_0
        flip: numeral_2_eq_2) (auto intro!: be_read_bytes [OF _ l])
qed

lemma length_toc_header: "length (toc_header T) = 14"
  by (simp add: toc_header_def)

lemma tables_init_back:
  assumes "tables_ok T" "agree buf 0 (dump_bytes T)" "\<not> isSecurityListInitDone S"
  shows "securityAccessTablesInit buf S = (True, \<lparr> isSecurityListInitDone = True, secListTableSupport = T \<rparr>)"
proof -
  note ok = assms(1) [unfolded tables_ok_def]
  note len = t1_format.length_table_bytes t2_format.length_table_bytes t3_format.length_table_bytes
  have a: "agree buf 0 (toc_header T)"
    "agree buf 14 (table_bytes t1_fields (wl_t1 T))"
    and b: "agree buf (14 + length (table_bytes t1_fields (wl_t1 T))) (table_bytes t2_fields (wl_t2 T))"
    "agree buf (14 + length (table_bytes t1_fields (wl_t1 T)) + length (table_bytes t2_fields (wl_t2 T)))
      (table_bytes t3_fields (wl_t3 T))"
    "agree buf (14 + length (table_bytes t1_fields (wl_t1 T)) + length (table_bytes t2_fields (wl_t2 T))
      + length (table_bytes t3_fields (wl_t3 T))) (table_bytes t1_fields (bl_t1 T))"
    "agree buf (14 + length (table_bytes t1_fields (wl_t1 T)) + length (table_bytes t2_fields (wl_t2 T))
      + length (table_bytes t3_fields (wl_t3 T)) + length (table_bytes t1_fields (bl_t1 T)))
      (table_bytes t2_fields (bl_t2 T))"
    "agree buf (14 + length (table_bytes t1_fields (wl_t1 T)) + length (table_bytes t2_fields (wl_t2 T))
      + length (table_bytes t3_fields (wl_t3 T)) + length (table_bytes t1_fields (bl_t1 T))
      + length (table_bytes t2_fields (bl_t2 T))) (table_bytes t3_fields (bl_t3 T))"
    "agree buf (14 + length (table_bytes t1_fields (wl_t1 T)) + length (table_bytes t2_fields (wl_t2 T))
      + length (table_bytes t3_fields (wl_t3 T)) + length (table_bytes t1_fields (bl_t1 T))
      + length (table_bytes t2_fields (bl_t2 T)) + length (table_bytes t3_fields (bl_t3 T)))
      (table_bytes gl_fields (gl_t1 T))"
    using assms(2) by (simp_all add: dump_bytes_def agree_append length_toc_header)
  have w1: "table_ok LIST_TABLE1_MASK (wl_t1 T)" and w2: "table_ok LIST_TABLE2_MASK (wl_t2 T)"
    and w3: "table_ok LIST_TABLE3_MASK (wl_t3 T)" and b1: "table_ok LIST_TABLE1_MASK (bl_t1 T)"
    and b2: "table_ok LIST_TABLE2_MASK (bl_t2 T)" and b3: "table_ok LIST_TABLE3_MASK (bl_t3 T)"
    and g1: "table_ok GREYLIST_TABLE1_MASK (gl_t1 T)"
    using ok by blast+
  note p = b [unfolded t1_format.length_table_bytes [OF w1] t2_format.length_table_bytes [OF w2]
      t3_format.length_table_bytes [OF w3] t1_format.length_table_bytes [OF b1]
      t2_format.length_table_bytes [OF b2] t3_format.length_table_bytes [OF b3]]
  show ?thesis
    using assms(3)
    by (simp add: securityAccessTablesInit_def Let_def toc_counts [OF a(1)] SEC_LIST_TABLE_HDR_SIZE_def
        t1_format.read_table_back [OF w1 a(2)] t2_format.read_table_back [OF w2 p(1)]
        t3_format.read_table_back [OF w3 p(2)] t1_format.read_table_back [OF b1 p(3)]
        t2_format.read_table_back [OF b2 p(4)] t3_format.read_table_back [OF b3 p(5)]
        gl_format.read_table_back [OF g1 p(6)])
qed

lemma mem_store_agree:
  assumes "length bs \<le> 2 ^ 64"
  shows "agree (\<lambda>k. mem_store base (bs @ z) m0 (base + of_nat k)) 0 bs"
proof -
  have "unat (of_nat k :: u64) = k" if "k < length bs" for k
    using that assms by (simp add: unat_of_nat)
  then show ?thesis by (simp add: agree_def mem_store_def nth_append)
qed

lemma length_dump_bytes:
  assumes "tables_ok T"
  shows "length (dump_bytes T) < 2 ^ 32"
proof -
  have "length (table_bytes t1_fields (wl_t1 T)) \<le> 3 * 2 ^ 16" "length (table_bytes t1_fields (bl_t1 T)) \<le> 3 * 2 ^ 16"
    using assms t1_format.table_bytes_bound unfolding tables_ok_def by blast+
  moreover have "length (table_bytes t2_fields (wl_t2 T)) \<le> 3 * 2 ^ 16" "length (table_bytes t2_fields (bl_t2 T)) \<le> 3 * 2 ^ 16"
    using assms t2_format.table_bytes_bound unfolding tables_ok_def by blast+
  moreover have "length (table_bytes t3_fields (wl_t3 T)) \<le> 2 * 2 ^ 16" "length (table_bytes t3_fields (bl_t3 T)) \<le> 2 * 2 ^ 16"
    using assms t3_format.table_bytes_bound unfolding tables_ok_def by blast+
  moreover have "length (table_bytes gl_fields (gl_t1 T)) \<le> 12 * 2 ^ 16"
    using assms gl_format.table_bytes_bound unfolding tables_ok_def by blast
  ultimately show ?thesis by (simp add: dump_bytes_def length_toc_header)
qed

text \<open>
  Over a PBA that serves the area, the dump of the security lists to a cache line succeeds, and hostboot, which
  reads it from memory, ends up with the same tables; from then on both sides take the same
  decision for every address, mask and kind of access.
\<close>

lemma security_list_roundtrip:
  assumes "writes_memory hwp memof SBE_MEM_ACCESS_PBA 128 S" "tables_ok T" "\<not> isSecurityListInitDone K"
    and "I = mem_interface_create SBE_MEM_ACCESS_PBA base False False SBE_MEM_ACCESS_WRITE
      PBA_GRAN_SIZE_BYTES buffer" "length buffer = 128" "128 dvd unat base"
    and "serves 128 S base (length (dump_bytes T) + 1)"
  shows "\<exists>I' h' S'. sendSecurityListDumpToHB hwp T (I, h) = Some (FAPI2_RC_SUCCESS, I', h')
    \<and> securityAccessTablesInit (\<lambda>k. memof h' (base + of_nat k)) K = (True, S')
    \<and> secListTableSupport S' = T
    \<and> (\<forall>addr m type. isAccessAllowed_host S' addr m type = isAllowed True T addr m type)"
proof -
  have st: "in_stream 128 memof base (memof h) [] (I, h)"
    using assms(4-6)
    by (simp add: in_stream_def mem_interface_create_def pending_def writing_def is_read_def PBA_GRAN_SIZE_BYTES_def)
  note len = length_dump_bytes [OF assms(2)]
  obtain I' h' z where d: "sendSecurityListDumpToHB hwp T (I, h) = Some (FAPI2_RC_SUCCESS, I', h')"
    "memof h' = mem_store base (dump_bytes T @ z) (memof h)"
    using dump_stream [OF assms(1) st _ assms(7)] len by auto
  have "securityAccessTablesInit (\<lambda>k. memof h' (base + of_nat k)) K
      = (True, \<lparr> isSecurityListInitDone = True, secListTableSupport = T \<rparr>)"
    using tables_init_back [OF assms(2) _ assms(3)] mem_store_agree [of "dump_bytes T" base z "memof h"] len d(2)
    by simp
  moreover have "isAccessAllowed_host \<lparr> isSecurityListInitDone = True, secListTableSupport = T \<rparr> addr m type
      = isAllowed True T addr m type" for addr m type
    by (simp add: isAccessAllowed_host_def isAllowed_def)
  ultimately show ?thesis using d(1) by simp
qed

definition sample_tables :: GenSecurityListTables where
  "sample_tables =
     \<lparr> wl_t1 = gen_t1 doc_list, wl_t2 = gen_t2 doc_list, wl_t3 = gen_t3 doc_list,
       bl_t1 = gen_t1 [], bl_t2 = gen_t2 [], bl_t3 = gen_t3 [],
       gl_t1 = mk_table GREYLIST_TABLE1_MASK [\<lparr> gl_key = 0x05012345, gl_value = 0xF0 \<rparr>] \<rparr>"

lemma sample_tables_ok: "tables_ok sample_tables"
  by (simp add: tables_ok_def table_ok_def sample_tables_def gen_t1_def gen_t2_def gen_t3_def mk_table_def
      doc_list_def trees_def gen_table3_def temp_keys_def)

lemma security_list_roundtrip_witness:
  "\<exists>I' m' S'. sendSecurityListDumpToHB (plain_memory 128) sample_tables
      (mem_interface_create SBE_MEM_ACCESS_PBA 0x10000 False False SBE_MEM_ACCESS_WRITE PBA_GRAN_SIZE_BYTES
        (replicate 128 0), \<lambda>_. 0) = Some (FAPI2_RC_SUCCESS, I', m')
    \<and> securityAccessTablesInit (\<lambda>k. id m' (0x10000 + of_nat k))
        \<lparr> isSecurityListInitDone = False, secListTableSupport = sample_tables \<rparr> = (True, S')
    \<and> secListTableSupport S' = sample_tables"
proof -
  have 1: "\<not> isSecurityListInitDone \<lparr> isSecurityListInitDone = False, secListTableSupport = sample_tables \<rparr>"
    "128 dvd unat (0x10000 :: u64)" by simp_all
  have "serves 128 fabric_range 0x10000 (length (dump_bytes sample_tables) + 1)"
    by (rule serves_fabric) (use length_dump_bytes [OF sample_tables_ok] in simp)
  from security_list_roundtrip [OF plain_memory_writes sample_tables_ok 1(1) refl length_replicate 1(2) this, of 0 "\<lambda>_. 0"]
  show ?thesis by auto
qed

subsection \<open>A lost error\<close>

lemma send_fields_rc: "fs \<noteq> [] \<Longrightarrow> send_fields hwp fs rc st = send_fields hwp fs rc' st"
  by (cases fs) auto

text \<open>
  The \<open>break\<close> on an error in the first loop of \<open>sbeSecurityWhiteBlackListDump\<close> leaves only
  that loop: the entries that follow in table 1 are not sent, the next loop overwrites the return
  code, and when the other tables go through the function reports success.
\<close>

lemma dump_error_lost:
  assumes "send_fields hwp (concat (map t1_fields (sent_entries a))) FAPI2_RC_SUCCESS st = Some (rc, st1)"
    and "rc \<noteq> FAPI2_RC_SUCCESS" "sent_entries b \<noteq> []"
    and "send_fields hwp (concat (map t2_fields (sent_entries b))) FAPI2_RC_SUCCESS st1 = Some (FAPI2_RC_SUCCESS, st2)"
    and "send_fields hwp (concat (map t3_fields (sent_entries c))) FAPI2_RC_SUCCESS st2 = Some (FAPI2_RC_SUCCESS, st3)"
  shows "sbeSecurityWhiteBlackListDump hwp a b c st = Some (FAPI2_RC_SUCCESS, st3)"
proof -
  have "concat (map t2_fields (sent_entries b)) \<noteq> []"
    using assms(3) by (cases "sent_entries b") (simp_all add: t2_fields_def)
  then show ?thesis
    using assms send_fields_rc [of "concat (map t2_fields (sent_entries b))" hwp rc st1 FAPI2_RC_SUCCESS]
    by (simp add: sbeSecurityWhiteBlackListDump_def)
qed

text \<open>Hardware that fails the first access and then stores what it is given in a log.\<close>

definition flaky :: "(bool \<times> u8 list) mem_hwp" where
  "flaky =
     \<lparr> setup_hwp = (\<lambda>i a r h. (FAPI2_RC_SUCCESS, 16, h)),
       access_hwp = (\<lambda>i a r f l buf h. if fst h then (1, buf, False, snd h)
          else (FAPI2_RC_SUCCESS, buf, False, snd h @ take 8 buf)) \<rparr>"

definition sample_t1 :: "t1_t sec_table" where
  "sample_t1 = mk_table LIST_TABLE1_MASK
     [\<lparr> t1_key_start = 1, t1_key_end = 2, t1_value = 3 \<rparr>, \<lparr> t1_key_start = 4, t1_key_end = 5, t1_value = 6 \<rparr>,
      \<lparr> t1_key_start = 7, t1_key_end = 8, t1_value = 9 \<rparr>, \<lparr> t1_key_start = 10, t1_key_end = 11, t1_value = 12 \<rparr>]"

definition sample_t2 :: "t2_t sec_table" where
  "sample_t2 = mk_table LIST_TABLE2_MASK [\<lparr> t2_key = 13, t2_value = 14 \<rparr>]"

definition sample_t3 :: "t3_t sec_table" where
  "sample_t3 = mk_table LIST_TABLE3_MASK [\<lparr> t3_value = 15 \<rparr>]"

definition adu_stream :: "sbeMemAccessInterface \<times> bool \<times> u8 list" where
  "adu_stream = (mem_interface_create SBE_MEM_ACCESS_ADU 0 False False SBE_MEM_ACCESS_WRITE 8 (replicate 8 0), True, [])"

lemma dump_error_lost_witness:
  "\<exists>st. sbeSecurityWhiteBlackListDump flaky sample_t1 sample_t2 sample_t3 adu_stream = Some (FAPI2_RC_SUCCESS, st)
    \<and> snd (snd st) @ pending (fst st) = [1, 2, 3, 4, 5, 6, 7, 8, 13, 0, 14, 0, 15]"
proof -
  let ?s1 = "the (send_fields flaky (concat (map t1_fields (sent_entries sample_t1))) FAPI2_RC_SUCCESS adu_stream)"
  let ?s2 = "the (send_fields flaky (concat (map t2_fields (sent_entries sample_t2))) FAPI2_RC_SUCCESS (snd ?s1))"
  let ?s3 = "the (send_fields flaky (concat (map t3_fields (sent_entries sample_t3))) FAPI2_RC_SUCCESS (snd ?s2))"
  have 1: "send_fields flaky (concat (map t1_fields (sent_entries sample_t1))) FAPI2_RC_SUCCESS adu_stream
      = Some (fst ?s1, snd ?s1)" "fst ?s1 \<noteq> FAPI2_RC_SUCCESS" "sent_entries sample_t2 \<noteq> []"
    by code_simp+
  have 2: "send_fields flaky (concat (map t2_fields (sent_entries sample_t2))) FAPI2_RC_SUCCESS (snd ?s1)
      = Some (FAPI2_RC_SUCCESS, snd ?s2)" by code_simp
  have 3: "send_fields flaky (concat (map t3_fields (sent_entries sample_t3))) FAPI2_RC_SUCCESS (snd ?s2)
      = Some (FAPI2_RC_SUCCESS, snd ?s3)" by code_simp
  have 4: "snd (snd (snd ?s3)) @ pending (fst (snd ?s3)) = [1, 2, 3, 4, 5, 6, 7, 8, 13, 0, 14, 0, 15]" by code_simp
  from dump_error_lost [OF 1 2 3] show ?thesis using 4 by (intro exI [of _ "snd ?s3"]) simp
qed

end
