(* ===== verification/Sbe_MemRegion.thy ===== *)
theory Sbe_MemRegion
  imports Sbe_Prelude
begin

text \<open>
  The windows through which memory may be accessed while security is enabled
  (\<open>sbeSecureMemRegionManager.C\<close>): opening and closing a region, and the check of an access
  against the open regions, which may be covered by several of them.
\<close>

datatype sbeSecondaryResponse =
    SBE_SEC_OPERATION_SUCCESSFUL
  | SBE_SEC_MEM_REGION_AMEND_ATTEMPTED
  | SBE_SEC_MAXIMUM_MEM_REGION_EXCEEDED
  | SBE_SEC_MEM_REGION_NOT_FOUND
  | SBE_SEC_BLACKLISTED_MEM_ACCESS

record secureMemRegion_t =
  reg_start :: u64
  reg_size :: u32
  reg_mode :: u32

definition MEM_REGION_READ :: u32 where "MEM_REGION_READ = 1"
definition MEM_REGION_WRITE :: u32 where "MEM_REGION_WRITE = 2"

definition OCC_CMD_ADDR :: u64 where "OCC_CMD_ADDR = 0xFFFBE000"
definition OCC_CMD_SIZE :: u32 where "OCC_CMD_SIZE = 0xFFFBEFFF - 0xFFFBE000"

text \<open>The array \<open>iv_memRegions\<close> has \<open>iv_maxRegions\<close> entries, of which the first are open.\<close>

record SBESecureMemRegionManager =
  iv_memRegions :: "secureMemRegion_t list"
  iv_maxRegions :: nat
  iv_regionsOpenCnt :: nat

definition no_region :: secureMemRegion_t where
  "no_region = \<lparr> reg_start = 0, reg_size = 0, reg_mode = 0 \<rparr>"

text \<open>The sum of the two sizes is computed at 32 bits, the rest at 64 bits.\<close>

definition regions_overlap :: "secureMemRegion_t \<Rightarrow> secureMemRegion_t \<Rightarrow> bool" where
  "regions_overlap i_region r =
     (let minStartAddr = (if reg_start i_region < reg_start r then reg_start i_region else reg_start r);
          iRegionEndAddress = reg_start i_region + ucast (reg_size i_region) - 1;
          existingRegionEndAddress = reg_start r + ucast (reg_size r) - 1;
          maxEndAddr = (if iRegionEndAddress \<ge> existingRegionEndAddress then iRegionEndAddress
                        else existingRegionEndAddress)
      in maxEndAddr - minStartAddr + 1 < ucast (reg_size i_region + reg_size r))"

definition starts_inside :: "secureMemRegion_t \<Rightarrow> secureMemRegion_t \<Rightarrow> bool" where
  "starts_inside i_region r \<longleftrightarrow>
     reg_start i_region \<ge> reg_start r \<and> reg_start i_region < reg_start r + ucast (reg_size r)"

definition clipped_region :: "secureMemRegion_t \<Rightarrow> secureMemRegion_t \<Rightarrow> secureMemRegion_t" where
  "clipped_region i_region r =
     (let sz = ucast (reg_start r + ucast (reg_size r) - reg_start i_region)
      in r\<lparr> reg_start := reg_start i_region,
            reg_size := (if sz > reg_size i_region then reg_size i_region else sz) \<rparr>)"

fun partial_region_loop :: "secureMemRegion_t \<Rightarrow> secureMemRegion_t list \<Rightarrow> secureMemRegion_t \<Rightarrow> secureMemRegion_t" where
  "partial_region_loop i_region [] ret = ret"
| "partial_region_loop i_region (r # rs) ret =
     (if regions_overlap i_region r
      then if starts_inside i_region r then clipped_region i_region r
           else partial_region_loop i_region rs r
      else partial_region_loop i_region rs ret)"

definition open_regions :: "SBESecureMemRegionManager \<Rightarrow> secureMemRegion_t list" where
  "open_regions M = take (iv_regionsOpenCnt M) (iv_memRegions M)"

definition getPartialRegionSize :: "SBESecureMemRegionManager \<Rightarrow> secureMemRegion_t \<Rightarrow> secureMemRegion_t" where
  "getPartialRegionSize M i_region = partial_region_loop i_region (open_regions M) no_region"

definition region_add :: "u64 \<Rightarrow> u32 \<Rightarrow> u8 \<Rightarrow> SBESecureMemRegionManager
    \<Rightarrow> sbeSecondaryResponse \<times> SBESecureMemRegionManager" where
  "region_add i_startAddr i_size i_mode M =
     (let r = \<lparr> reg_start = i_startAddr, reg_size = i_size, reg_mode = ucast i_mode \<rparr>
      in if reg_mode (getPartialRegionSize M r) \<noteq> 0 then (SBE_SEC_MEM_REGION_AMEND_ATTEMPTED, M)
         else if iv_regionsOpenCnt M \<ge> iv_maxRegions M then (SBE_SEC_MAXIMUM_MEM_REGION_EXCEEDED, M)
         else (SBE_SEC_OPERATION_SUCCESSFUL,
               M\<lparr> iv_memRegions := (iv_memRegions M)[iv_regionsOpenCnt M := r],
                  iv_regionsOpenCnt := Suc (iv_regionsOpenCnt M) \<rparr>))"

fun find_region :: "nat \<Rightarrow> nat \<Rightarrow> u64 \<Rightarrow> secureMemRegion_t list \<Rightarrow> nat" where
  "find_region 0 i a rs = i"
| "find_region (Suc k) i a rs = (if a = reg_start (rs ! i) then i else find_region k (Suc i) a rs)"

fun shift_down :: "nat \<Rightarrow> nat \<Rightarrow> secureMemRegion_t list \<Rightarrow> secureMemRegion_t list" where
  "shift_down 0 j rs = rs"
| "shift_down (Suc k) j rs = shift_down k (Suc j) (rs[j := rs ! Suc j])"

definition region_remove :: "u64 \<Rightarrow> SBESecureMemRegionManager
    \<Rightarrow> sbeSecondaryResponse \<times> SBESecureMemRegionManager" where
  "region_remove i_startAddr M =
     (let i = find_region (iv_regionsOpenCnt M) 0 i_startAddr (iv_memRegions M)
      in if i < iv_regionsOpenCnt M
         then (SBE_SEC_OPERATION_SUCCESSFUL,
               M\<lparr> iv_memRegions := shift_down (iv_regionsOpenCnt M - 1 - i) i (iv_memRegions M),
                  iv_regionsOpenCnt := iv_regionsOpenCnt M - 1 \<rparr>)
         else (SBE_SEC_MEM_REGION_NOT_FOUND, M))"

definition closeAllRegions :: "SBESecureMemRegionManager \<Rightarrow> SBESecureMemRegionManager" where
  "closeAllRegions M = M\<lparr> iv_regionsOpenCnt := 0 \<rparr>"

partial_function (option) access_check :: "SBESecureMemRegionManager \<Rightarrow> secureMemRegion_t
    \<Rightarrow> sbeSecondaryResponse option" where
  "access_check M i_region =
     (if reg_size i_region > 0
      then let found = getPartialRegionSize M i_region
           in if reg_mode i_region AND reg_mode found \<noteq> 0 \<and> reg_start i_region = reg_start found
              then access_check M (i_region\<lparr> reg_size := reg_size i_region - reg_size found,
                                             reg_start := reg_start i_region + ucast (reg_size found) \<rparr>)
              else Some SBE_SEC_BLACKLISTED_MEM_ACCESS
      else Some SBE_SEC_OPERATION_SUCCESSFUL)"

declare access_check.simps [code]

definition isAccessAllowed :: "bool \<Rightarrow> SBESecureMemRegionManager \<Rightarrow> secureMemRegion_t
    \<Rightarrow> sbeSecondaryResponse option" where
  "isAccessAllowed sbeFWSecurityEnabled M i_region =
     (if sbeFWSecurityEnabled then access_check M i_region else Some SBE_SEC_OPERATION_SUCCESSFUL)"

text \<open>The managers of main store and of the OCC SRAM; the latter opens its command buffer.\<close>

definition mainStoreSecMemRegionManager :: SBESecureMemRegionManager where
  "mainStoreSecMemRegionManager =
     \<lparr> iv_memRegions = replicate 8 no_region, iv_maxRegions = 8, iv_regionsOpenCnt = 0 \<rparr>"

definition occSramSecRegionManager :: SBESecureMemRegionManager where
  "occSramSecRegionManager = snd (region_add OCC_CMD_ADDR OCC_CMD_SIZE 3
     \<lparr> iv_memRegions = replicate 1 no_region, iv_maxRegions = 1, iv_regionsOpenCnt = 0 \<rparr>)"

subsection \<open>Regions as sets of addresses\<close>

definition covers :: "secureMemRegion_t \<Rightarrow> nat \<Rightarrow> bool" where
  "covers r a \<longleftrightarrow> unat (reg_start r) \<le> a \<and> a < unat (reg_start r) + unat (reg_size r)"

text \<open>
  Regions that the 32- and 64-bit arithmetic of the check handles: they end below \<open>2 ^ 64\<close>, and
  two sizes add up below \<open>2 ^ 32\<close>.
\<close>

definition region_ok :: "secureMemRegion_t \<Rightarrow> bool" where
  "region_ok r \<longleftrightarrow> unat (reg_start r) + unat (reg_size r) < 2 ^ 64 \<and> 0 < unat (reg_size r) \<and> unat (reg_size r) < 2 ^ 31"

definition disjoint_regions :: "secureMemRegion_t \<Rightarrow> secureMemRegion_t \<Rightarrow> bool" where
  "disjoint_regions r s \<longleftrightarrow> (\<nexists>a. covers r a \<and> covers s a)"

definition manager_inv :: "SBESecureMemRegionManager \<Rightarrow> bool" where
  "manager_inv M \<longleftrightarrow>
     length (iv_memRegions M) = iv_maxRegions M \<and> iv_regionsOpenCnt M \<le> iv_maxRegions M
   \<and> (\<forall>r \<in> set (open_regions M). region_ok r \<and> reg_mode r \<noteq> 0)
   \<and> sorted_wrt disjoint_regions (open_regions M)"

lemma unat_ucast_32_64: "unat (ucast (x :: u32) :: u64) = unat x"
  using unsigned_less [of x, where 'a = nat] by (simp add: unsigned_ucast_eq take_bit_nat_eq_self_iff)

lemma unat_end:
  assumes "region_ok r"
  shows "unat (reg_start r + ucast (reg_size r) - 1) = unat (reg_start r) + unat (reg_size r) - 1"
    and "unat (reg_start r + ucast (reg_size r)) = unat (reg_start r) + unat (reg_size r)"
proof -
  show s: "unat (reg_start r + ucast (reg_size r)) = unat (reg_start r) + unat (reg_size r)"
    using assms by (subst unat_add_no_wrap) (simp_all add: region_ok_def unat_ucast_32_64)
  show "unat (reg_start r + ucast (reg_size r) - 1) = unat (reg_start r) + unat (reg_size r) - 1"
    using assms s by (subst unat_sub_le) (simp_all add: region_ok_def)
qed

lemma disjoint_regions_iff:
  assumes "region_ok r" "region_ok s"
  shows "disjoint_regions r s \<longleftrightarrow>
    unat (reg_start r) + unat (reg_size r) \<le> unat (reg_start s)
    \<or> unat (reg_start s) + unat (reg_size s) \<le> unat (reg_start r)"
proof -
  have "covers r (max (unat (reg_start r)) (unat (reg_start s)))
      \<and> covers s (max (unat (reg_start r)) (unat (reg_start s)))"
    if "unat (reg_start s) < unat (reg_start r) + unat (reg_size r)"
      "unat (reg_start r) < unat (reg_start s) + unat (reg_size s)"
    using that assms by (auto simp: covers_def region_ok_def max_def)
  then show ?thesis unfolding disjoint_regions_def by (fastforce simp: covers_def not_le)
qed

lemma overlap_arith:
  fixes a n b m :: nat
  assumes "0 < n" "0 < m"
  shows "max (a + n) (b + m) - min a b < n + m \<longleftrightarrow> \<not> (a + n \<le> b \<or> b + m \<le> a)"
  using assms by (auto simp: max_def min_def)

lemma regions_overlap_iff:
  assumes "region_ok r" "region_ok s"
  shows "regions_overlap r s \<longleftrightarrow> \<not> disjoint_regions r s"
proof -
  define a n b m where "a = unat (reg_start r)" "n = unat (reg_size r)"
    "b = unat (reg_start s)" "m = unat (reg_size s)"
  have ok: "0 < n" "0 < m" "a + n < 2 ^ 64" "b + m < 2 ^ 64" "n < 2 ^ 31" "m < 2 ^ 31"
    using assms by (auto simp: region_ok_def a_n_b_m_def)
  define lo where "lo = (if reg_start r < reg_start s then reg_start r else reg_start s)"
  define er es where "er = reg_start r + ucast (reg_size r) - 1" "es = reg_start s + ucast (reg_size s) - 1"
  define hi where "hi = (if er \<ge> es then er else es)"
  have lo: "unat lo = min a b" by (simp add: lo_def a_n_b_m_def word_less_nat_alt min_def)
  have e: "unat er = a + n - 1" "unat es = b + m - 1"
    using unat_end(1) [OF assms(1)] unat_end(1) [OF assms(2)] by (simp_all add: er_es_def a_n_b_m_def)
  have hi: "unat hi = max (a + n) (b + m) - 1"
    using e ok by (auto simp: hi_def word_le_nat_alt max_def)
  have le: "unat lo \<le> unat hi" unfolding lo hi using ok by auto
  have d: "unat (hi - lo) = max (a + n) (b + m) - 1 - min a b"
    using unat_sub_le [OF le] lo hi by simp
  have "unat (hi - lo + 1) = unat (hi - lo) + 1"
    using d ok by (subst unat_add_no_wrap) (auto simp: max_def min_def)
  then have u: "unat (hi - lo + 1) = max (a + n) (b + m) - min a b" using d ok by (auto simp: max_def min_def)
  have "unat (reg_size r + reg_size s) = n + m"
    using ok by (subst unat_add_no_wrap) (simp_all add: a_n_b_m_def)
  moreover have "regions_overlap r s \<longleftrightarrow> hi - lo + 1 < ucast (reg_size r + reg_size s)"
    unfolding regions_overlap_def Let_def hi_def lo_def er_es_def by (rule refl)
  ultimately have "regions_overlap r s \<longleftrightarrow> max (a + n) (b + m) - min a b < n + m"
    using u by (simp add: word_less_nat_alt unat_ucast_32_64)
  then show ?thesis
    using overlap_arith [OF ok(1,2)] disjoint_regions_iff [OF assms] by (simp add: a_n_b_m_def)
qed

lemma starts_inside_iff:
  assumes "region_ok s"
  shows "starts_inside r s \<longleftrightarrow> covers s (unat (reg_start r))"
  using unat_end(2) [OF assms] by (simp add: starts_inside_def covers_def word_le_nat_alt word_less_nat_alt)

subsection \<open>The search for an overlapping region\<close>

text \<open>
  The loop finds the region in which the access starts, clipped to the access; otherwise what it
  returns has no mode or starts elsewhere.
\<close>

lemma partial_region_loop_inside:
  assumes "region_ok r" "\<forall>s \<in> set rs. region_ok s" "sorted_wrt disjoint_regions rs"
    and "s \<in> set rs" "covers s (unat (reg_start r))"
  shows "partial_region_loop r rs ret = clipped_region r s"
  using assms(2-5)
proof (induction rs arbitrary: ret)
  case (Cons x rs)
  show ?case
  proof (cases "x = s")
    case True
    have "regions_overlap r x"
      using Cons.prems True assms(1) regions_overlap_iff [OF assms(1), of x]
      by (auto simp: disjoint_regions_def covers_def region_ok_def)
    then show ?thesis using Cons.prems True by (simp add: starts_inside_iff)
  next
    case False
    then have "s \<in> set rs" using Cons.prems by simp
    moreover from this have "\<not> starts_inside r x"
      using Cons.prems by (auto simp: starts_inside_iff disjoint_regions_def)
    ultimately show ?thesis using Cons by simp
  qed
qed simp

lemma partial_region_loop_outside:
  assumes "region_ok r" "\<forall>s \<in> set rs. region_ok s" "\<forall>s \<in> set rs. \<not> covers s (unat (reg_start r))"
    and "reg_mode ret = 0 \<or> reg_start ret \<noteq> reg_start r"
  shows "reg_mode (partial_region_loop r rs ret) = 0 \<or> reg_start (partial_region_loop r rs ret) \<noteq> reg_start r"
  using assms(2-4)
proof (induction rs arbitrary: ret)
  case (Cons x rs)
  have "\<not> starts_inside r x" using Cons.prems by (simp add: starts_inside_iff)
  moreover have "reg_start x \<noteq> reg_start r" using Cons.prems by (auto simp: covers_def region_ok_def)
  ultimately show ?case using Cons by auto
qed simp

lemma partial_region_loop_mode:
  assumes "\<forall>s \<in> set rs. reg_mode s \<noteq> 0"
  shows "reg_mode (partial_region_loop r rs ret) \<noteq> 0 \<longleftrightarrow> reg_mode ret \<noteq> 0 \<or> (\<exists>s \<in> set rs. regions_overlap r s)"
  using assms by (induction rs arbitrary: ret) (auto simp: clipped_region_def Let_def)

lemma clipped_region_size:
  assumes "region_ok r" "region_ok s" "covers s (unat (reg_start r))"
  shows "unat (reg_size (clipped_region r s))
      = min (unat (reg_size r)) (unat (reg_start s) + unat (reg_size s) - unat (reg_start r))"
    and "reg_start (clipped_region r s) = reg_start r" "reg_mode (clipped_region r s) = reg_mode s"
proof -
  let ?d = "reg_start s + ucast (reg_size s) - reg_start r"
  have d: "unat ?d = unat (reg_start s) + unat (reg_size s) - unat (reg_start r)"
    using assms(3) unat_end(2) [OF assms(2)] by (subst unat_sub_le) (auto simp: covers_def)
  then have "unat ?d \<le> unat (reg_size s)" using assms(3) by (auto simp: covers_def)
  then have "unat ?d < 2 ^ 32" using assms(2) by (simp add: region_ok_def)
  then have "unat (ucast ?d :: u32) = unat ?d" by (simp add: unsigned_ucast_eq take_bit_nat_eq_self)
  then show "unat (reg_size (clipped_region r s))
      = min (unat (reg_size r)) (unat (reg_start s) + unat (reg_size s) - unat (reg_start r))"
    using d by (simp add: clipped_region_def Let_def word_less_nat_alt min_def)
qed (simp_all add: clipped_region_def Let_def)

definition permitted :: "SBESecureMemRegionManager \<Rightarrow> u32 \<Rightarrow> nat \<Rightarrow> bool" where
  "permitted M mode a \<longleftrightarrow> (\<exists>s \<in> set (open_regions M). covers s a \<and> mode AND reg_mode s \<noteq> 0)"

lemma sorted_wrt_pair: "sorted_wrt P xs \<Longrightarrow> x \<in> set xs \<Longrightarrow> y \<in> set xs \<Longrightarrow> x \<noteq> y \<Longrightarrow> P x y \<or> P y x"
  by (induction xs) auto

lemma permitted_unique:
  assumes "manager_inv M" "s \<in> set (open_regions M)" "covers s a"
  shows "permitted M mode a \<longleftrightarrow> mode AND reg_mode s \<noteq> 0"
proof -
  have "t = s" if "t \<in> set (open_regions M)" "covers t a" for t
  proof (rule ccontr)
    assume ne: "t \<noteq> s"
    have "sorted_wrt disjoint_regions (open_regions M)" using assms(1) by (simp add: manager_inv_def)
    then have "disjoint_regions t s \<or> disjoint_regions s t"
      by (rule sorted_wrt_pair [OF _ that(1) assms(2) ne])
    then show False using that(2) assms(3) unfolding disjoint_regions_def by blast
  qed
  then show ?thesis using assms(2,3) unfolding permitted_def by blast
qed

lemma access_check_permitted:
  assumes "manager_inv M" "unat (reg_start r) + unat (reg_size r) < 2 ^ 64" "unat (reg_size r) < 2 ^ 31"
  shows "access_check M r =
    Some (if \<forall>a. covers r a \<longrightarrow> permitted M (reg_mode r) a then SBE_SEC_OPERATION_SUCCESSFUL
          else SBE_SEC_BLACKLISTED_MEM_ACCESS)"
  using assms(2,3)
proof (induction "unat (reg_size r)" arbitrary: r rule: less_induct)
  case less
  have opn: "\<forall>s \<in> set (open_regions M). region_ok s" "sorted_wrt disjoint_regions (open_regions M)"
    using assms(1) by (auto simp: manager_inv_def)
  show ?case
  proof (cases "reg_size r = 0")
    case True
    then show ?thesis by (simp add: access_check.simps covers_def)
  next
    case False
    then have ok: "region_ok r" and pos: "reg_size r > 0" using less.prems by (simp_all add: region_ok_def unat_gt_0 word_gt_0)
    have cs: "covers r (unat (reg_start r))" using ok by (simp add: covers_def region_ok_def)
    show ?thesis
    proof (cases "\<exists>s \<in> set (open_regions M). covers s (unat (reg_start r))")
      case False
      then have f: "reg_mode (getPartialRegionSize M r) = 0 \<or> reg_start (getPartialRegionSize M r) \<noteq> reg_start r"
        unfolding getPartialRegionSize_def
        by (intro partial_region_loop_outside [OF ok opn(1)]) (auto simp: no_region_def)
      then have "access_check M r = Some SBE_SEC_BLACKLISTED_MEM_ACCESS"
        using pos by (subst access_check.simps) (auto simp: Let_def)
      moreover have "\<not> permitted M (reg_mode r) (unat (reg_start r))" using False by (auto simp: permitted_def)
      ultimately show ?thesis using cs by auto
    next
      case True
      then obtain s where s: "s \<in> set (open_regions M)" "covers s (unat (reg_start r))" by blast
      then have f: "getPartialRegionSize M r = clipped_region r s"
        unfolding getPartialRegionSize_def by (intro partial_region_loop_inside [OF ok opn])
      have sok: "region_ok s" using s opn by blast
      note c = clipped_region_size [OF ok sok s(2)]
      let ?m = "unat (reg_size (clipped_region r s))"
      define r' where "r' = r\<lparr> reg_size := reg_size r - reg_size (clipped_region r s),
          reg_start := reg_start r + ucast (reg_size (clipped_region r s)) \<rparr>"
      have m: "0 < ?m" "?m \<le> unat (reg_size r)" using c(1) ok s(2) by (auto simp: region_ok_def covers_def)
      have r': "unat (reg_size r') = unat (reg_size r) - ?m" "unat (reg_start r') = unat (reg_start r) + ?m"
        "reg_mode r' = reg_mode r"
        using m less.prems by (simp_all add: r'_def unat_sub_le unat_add_no_wrap unat_ucast_32_64)
      have split: "covers r a \<longleftrightarrow> covers r' a \<or> unat (reg_start r) \<le> a \<and> a < unat (reg_start r) + ?m" for a
        using m r' by (auto simp: covers_def)
      have in_s: "covers s a" if "unat (reg_start r) \<le> a" "a < unat (reg_start r) + ?m" for a
        using that c(1) s(2) by (auto simp: covers_def)
      show ?thesis
      proof (cases "reg_mode r AND reg_mode s \<noteq> 0")
        case True
        have "access_check M r = access_check M r'"
          using pos True f c by (subst access_check.simps) (simp add: Let_def r'_def)
        moreover have "access_check M r' =
          Some (if \<forall>a. covers r' a \<longrightarrow> permitted M (reg_mode r') a then SBE_SEC_OPERATION_SUCCESSFUL
            else SBE_SEC_BLACKLISTED_MEM_ACCESS)"
          using m r' less.prems by (intro less.hyps) simp_all
        moreover have "(\<forall>a. covers r a \<longrightarrow> permitted M (reg_mode r) a) \<longleftrightarrow> (\<forall>a. covers r' a \<longrightarrow> permitted M (reg_mode r') a)"
          using split in_s permitted_unique [OF assms(1) s(1)] True r'(3) by metis
        ultimately show ?thesis by simp
      next
        case False
        have "access_check M r = Some SBE_SEC_BLACKLISTED_MEM_ACCESS"
          using pos False f c by (subst access_check.simps) (simp add: Let_def)
        moreover have "\<not> permitted M (reg_mode r) (unat (reg_start r))"
          using permitted_unique [OF assms(1) s] False by simp
        ultimately show ?thesis using cs by auto
      qed
    qed
  qed
qed

text \<open>
  Property C32. As long as the open regions are well formed (a mode, not empty, shorter than \<open>2 ^ 31\<close> bytes,
  ending below \<open>2 ^ 64\<close>) and disjoint, an access of less than \<open>2 ^ 31\<close> bytes that ends below \<open>2 ^ 64\<close> is granted
  exactly when security is off or every byte of it lies in
  an open region whose mode allows it, also when several regions cover it together; the check
  returns. The operations keep the regions in this form when a request is well formed (C10);
  C20 shows what a request with an unknown mode does.
\<close>

theorem isAccessAllowed_exact:
  assumes "manager_inv M" "unat (reg_start r) + unat (reg_size r) < 2 ^ 64" "unat (reg_size r) < 2 ^ 31"
  shows "isAccessAllowed enabled M r =
    Some (if enabled \<longrightarrow> (\<forall>a. covers r a \<longrightarrow> permitted M (reg_mode r) a) then SBE_SEC_OPERATION_SUCCESSFUL
          else SBE_SEC_BLACKLISTED_MEM_ACCESS)"
  using access_check_permitted [OF assms] by (simp add: isAccessAllowed_def)

subsection \<open>Opening and closing regions\<close>

lemma region_add_cases:
  fixes a sz mode M
  defines "r \<equiv> \<lparr> reg_start = a, reg_size = sz, reg_mode = ucast (mode :: u8) \<rparr>"
  assumes "manager_inv M" "region_ok r" "mode \<noteq> 0"
  shows "region_add a sz mode M =
    (if \<exists>s \<in> set (open_regions M). \<not> disjoint_regions r s then (SBE_SEC_MEM_REGION_AMEND_ATTEMPTED, M)
     else if iv_regionsOpenCnt M = iv_maxRegions M then (SBE_SEC_MAXIMUM_MEM_REGION_EXCEEDED, M)
     else (SBE_SEC_OPERATION_SUCCESSFUL,
           M\<lparr> iv_memRegions := (iv_memRegions M)[iv_regionsOpenCnt M := r],
              iv_regionsOpenCnt := Suc (iv_regionsOpenCnt M) \<rparr>))"
proof -
  have opn: "\<forall>s \<in> set (open_regions M). region_ok s \<and> reg_mode s \<noteq> 0" using assms(2) by (simp add: manager_inv_def)
  then have "reg_mode (getPartialRegionSize M r) \<noteq> 0 \<longleftrightarrow> (\<exists>s \<in> set (open_regions M). regions_overlap r s)"
    unfolding getPartialRegionSize_def by (subst partial_region_loop_mode) (auto simp: no_region_def)
  also have "\<dots> \<longleftrightarrow> (\<exists>s \<in> set (open_regions M). \<not> disjoint_regions r s)"
    using opn regions_overlap_iff [OF assms(3)] by auto
  finally show ?thesis
    using assms(2) by (auto simp: region_add_def Let_def r_def [symmetric] manager_inv_def)
qed

lemma open_regions_added:
  assumes "length (iv_memRegions M) = iv_maxRegions M" "iv_regionsOpenCnt M < iv_maxRegions M"
  shows "open_regions (M\<lparr> iv_memRegions := (iv_memRegions M)[iv_regionsOpenCnt M := r],
      iv_regionsOpenCnt := Suc (iv_regionsOpenCnt M) \<rparr>) = open_regions M @ [r]"
  using assms by (simp add: open_regions_def take_Suc_conv_app_nth)

lemma disjoint_regions_sym: "disjoint_regions r s \<longleftrightarrow> disjoint_regions s r"
  by (auto simp: disjoint_regions_def)

text \<open>
  Opening a region keeps the open regions well formed and pairwise disjoint: a region
  that overlaps an open one is refused, a full table is reported, and otherwise exactly the new
  region is added.
\<close>

lemma region_add_correct:
  assumes "manager_inv M" "mode \<noteq> 0"
    and "region_ok \<lparr> reg_start = a, reg_size = sz, reg_mode = ucast (mode :: u8) \<rparr>" (is "region_ok ?r")
    and "region_add a sz mode M = (rc, M')"
  shows "manager_inv M'
    \<and> (rc = SBE_SEC_MEM_REGION_AMEND_ATTEMPTED \<longleftrightarrow> (\<exists>s \<in> set (open_regions M). \<not> disjoint_regions ?r s))
    \<and> (rc = SBE_SEC_OPERATION_SUCCESSFUL \<longleftrightarrow> open_regions M' = open_regions M @ [?r])
    \<and> (rc \<noteq> SBE_SEC_OPERATION_SUCCESSFUL \<longrightarrow> M' = M)"
proof -
  let ?N = "M\<lparr> iv_memRegions := (iv_memRegions M)[iv_regionsOpenCnt M := ?r],
      iv_regionsOpenCnt := Suc (iv_regionsOpenCnt M) \<rparr>"
  note c = region_add_cases [OF assms(1,3,2), unfolded assms(4)]
  have "unat (ucast mode :: u32) = unat mode"
    using unsigned_less [of mode, where 'a = nat] by (simp add: unsigned_ucast_eq take_bit_nat_eq_self_iff)
  then have md: "reg_mode ?r \<noteq> 0" using assms(2) by (metis secureMemRegion_t.select_convs(3) unat_eq_zero)
  show ?thesis
  proof (cases "(\<exists>s \<in> set (open_regions M). \<not> disjoint_regions ?r s) \<or> iv_regionsOpenCnt M = iv_maxRegions M")
    case True
    then show ?thesis using c assms(1) by (auto split: if_splits)
  next
    case False
    then have lt: "iv_regionsOpenCnt M < iv_maxRegions M" "length (iv_memRegions M) = iv_maxRegions M"
      using assms(1) by (auto simp: manager_inv_def)
    have o: "open_regions ?N = open_regions M @ [?r]" by (rule open_regions_added [OF lt(2,1)])
    have "manager_inv ?N"
      using assms(1,3) md False lt unfolding manager_inv_def o
      by (auto simp: sorted_wrt_append disjoint_regions_sym [of _ ?r])
    then show ?thesis using c False o by auto
  qed
qed

lemma find_region_eq:
  "i + k \<le> length rs \<Longrightarrow>
    find_region k i a rs = i + length (takeWhile (\<lambda>r. reg_start r \<noteq> a) (take k (drop i rs)))"
proof (induction k arbitrary: i)
  case (Suc k)
  then have "take (Suc k) (drop i rs) = rs ! i # take k (drop (Suc i) rs)"
    by (metis Cons_nth_drop_Suc Suc_le_lessD add_Suc_right le_add1 le_trans not_less_eq_eq order.strict_trans1 take_Suc_Cons)
  then show ?case using Suc by auto
qed simp

lemma shift_down_eq:
  "j + k < length rs \<Longrightarrow> shift_down k j rs = take j rs @ take k (drop (Suc j) rs) @ drop (j + k) rs"
proof (induction k arbitrary: j rs)
  case 0
  then show ?case by simp
next
  case (Suc k)
  have j: "Suc j < length rs" using Suc.prems by simp
  then have 1: "take (Suc j) (rs[j := rs ! Suc j]) = take j rs @ [rs ! Suc j]"
    by (subst take_Suc_conv_app_nth) simp_all
  have 2: "take (Suc k) (drop (Suc j) rs) = rs ! Suc j # take k (drop (Suc (Suc j)) rs)"
    using j by (metis Cons_nth_drop_Suc take_Suc_Cons)
  show ?case using Suc.IH [of "Suc j" "rs[j := rs ! Suc j]"] Suc.prems 1 2 by simp
qed

text \<open>
  Closing a region removes exactly the first open region with the given start address
  and keeps the others in order; an address at which no region starts is reported and changes
  nothing.
\<close>

lemma region_remove_correct:
  assumes "manager_inv M" "region_remove a M = (rc, M')"
  shows "manager_inv M'
    \<and> (rc = SBE_SEC_OPERATION_SUCCESSFUL \<longleftrightarrow> (\<exists>s \<in> set (open_regions M). reg_start s = a))
    \<and> (rc = SBE_SEC_OPERATION_SUCCESSFUL \<longrightarrow> (\<exists>xs s ys. open_regions M = xs @ s # ys \<and> reg_start s = a
        \<and> a \<notin> reg_start ` set xs \<and> open_regions M' = xs @ ys))
    \<and> (rc \<noteq> SBE_SEC_OPERATION_SUCCESSFUL \<longrightarrow> rc = SBE_SEC_MEM_REGION_NOT_FOUND \<and> M' = M)"
proof -
  let ?rs = "iv_memRegions M" and ?c = "iv_regionsOpenCnt M" and ?o = "open_regions M"
  define xs where "xs = takeWhile (\<lambda>r. reg_start r \<noteq> a) ?o"
  have c: "?c \<le> length ?rs" "length ?o = ?c" using assms(1) by (auto simp: manager_inv_def open_regions_def)
  have f: "find_region ?c 0 a ?rs = length xs"
    using find_region_eq [of 0 ?c ?rs a] c by (simp add: xs_def open_regions_def)
  show ?thesis
  proof (cases "\<exists>s \<in> set ?o. reg_start s = a")
    case False
    then have "xs = ?o" unfolding xs_def by (auto intro: takeWhile_eq_all_conv [THEN iffD2])
    then show ?thesis
      using assms False f c by (auto simp: region_remove_def)
  next
    case True
    define s ys where "s = hd (dropWhile (\<lambda>r. reg_start r \<noteq> a) ?o)" "ys = tl (dropWhile (\<lambda>r. reg_start r \<noteq> a) ?o)"
    have "dropWhile (\<lambda>r. reg_start r \<noteq> a) ?o \<noteq> []" using True by (auto simp: dropWhile_eq_Nil_conv)
    then have o: "?o = xs @ s # ys" "reg_start s = a"
      using takeWhile_dropWhile_id [of "\<lambda>r. reg_start r \<noteq> a" ?o] hd_dropWhile [of "\<lambda>r. reg_start r \<noteq> a" ?o]
      by (auto simp: xs_def s_ys_def)
    have nx: "a \<notin> reg_start ` set xs" unfolding xs_def by (auto dest: set_takeWhileD)
    have lt: "length xs < ?c" using arg_cong [OF o(1), of length] c(2) by simp
    have m: "rc = SBE_SEC_OPERATION_SUCCESSFUL"
      "M' = M\<lparr> iv_memRegions := shift_down (?c - 1 - length xs) (length xs) ?rs, iv_regionsOpenCnt := ?c - 1 \<rparr>"
      using assms(2) f lt by (auto simp: region_remove_def Let_def)
    have sh: "shift_down (?c - 1 - length xs) (length xs) ?rs
        = take (length xs) ?rs @ take (?c - 1 - length xs) (drop (Suc (length xs)) ?rs) @ drop (?c - 1) ?rs"
      using lt c(1) by (subst shift_down_eq) auto
    have t: "take ?c ?rs = xs @ s # ys" using o(1) by (simp add: open_regions_def)
    have tx: "take (length xs) ?rs = xs"
      using arg_cong [OF t, of "take (length xs)"] lt by (simp add: min_absorb1)
    have ty: "take (?c - 1 - length xs) (drop (Suc (length xs)) ?rs) = ys"
      using arg_cong [OF t, of "drop (Suc (length xs))"] by (simp add: drop_take)
    have l: "length xs + length ys = ?c - 1" using arg_cong [OF o(1), of length] c(2) by simp
    have o': "open_regions M' = xs @ ys" and len: "length (iv_memRegions M') = length ?rs"
    proof -
      have "iv_memRegions M' = shift_down (?c - 1 - length xs) (length xs) ?rs" using m(2) by simp
      also have "\<dots> = xs @ ys @ drop (?c - 1) ?rs" by (simp only: sh tx ty)
      finally have e: "iv_memRegions M' = xs @ ys @ drop (?c - 1) ?rs" .
      have "iv_regionsOpenCnt M' = length (xs @ ys)" using m(2) l by simp
      then show "open_regions M' = xs @ ys" by (simp add: open_regions_def e)
      show "length (iv_memRegions M') = length ?rs" unfolding e using l c(1) by simp
    qed
    have "manager_inv M'"
      using assms(1) o' len m o(1) lt unfolding manager_inv_def by (auto simp: sorted_wrt_append)
    then show ?thesis using m o o' nx by auto
  qed
qed

text \<open>Two adjacent windows in main store, for the witnesses.\<close>

definition two_windows :: SBESecureMemRegionManager where
  "two_windows = snd (region_add 0x2000 0x1000 1 (snd (region_add 0x1000 0x1000 3 mainStoreSecMemRegionManager)))"

lemma open_two_windows: "open_regions two_windows =
    [\<lparr> reg_start = 0x1000, reg_size = 0x1000, reg_mode = 3 \<rparr>, \<lparr> reg_start = 0x2000, reg_size = 0x1000, reg_mode = 1 \<rparr>]"
  "length (iv_memRegions two_windows) = 8" "iv_maxRegions two_windows = 8" "iv_regionsOpenCnt two_windows = 2"
  by code_simp+

lemma two_windows_inv: "manager_inv two_windows"
  by (auto simp: manager_inv_def open_two_windows region_ok_def disjoint_regions_def covers_def)

theorem isAccessAllowed_exact_witness:
  "isAccessAllowed True two_windows \<lparr> reg_start = 0x1800, reg_size = 0x1000, reg_mode = 1 \<rparr>
      = Some SBE_SEC_OPERATION_SUCCESSFUL
    \<and> isAccessAllowed True two_windows \<lparr> reg_start = 0x1800, reg_size = 0x1000, reg_mode = 2 \<rparr>
      = Some SBE_SEC_BLACKLISTED_MEM_ACCESS"
proof -
  have "\<forall>a. covers \<lparr> reg_start = 0x1800, reg_size = 0x1000, reg_mode = 1 \<rparr> a \<longrightarrow> permitted two_windows 1 a"
    by (auto simp: permitted_def open_two_windows covers_def)
  moreover have "\<not> permitted two_windows 2 0x2000" "covers \<lparr> reg_start = 0x1800, reg_size = 0x1000, reg_mode = 2 \<rparr> 0x2000"
    by (simp_all add: permitted_def open_two_windows covers_def)
  ultimately show ?thesis
    using isAccessAllowed_exact [OF two_windows_inv, of "\<lparr> reg_start = 0x1800, reg_size = 0x1000, reg_mode = 1 \<rparr>" True]
      isAccessAllowed_exact [OF two_windows_inv, of "\<lparr> reg_start = 0x1800, reg_size = 0x1000, reg_mode = 2 \<rparr>" True]
    by auto
qed

lemma region_add_correct_witness:
  "fst (region_add 0x1FFF 0x10 1 two_windows) = SBE_SEC_MEM_REGION_AMEND_ATTEMPTED
    \<and> manager_inv (snd (region_add 0x4000 0x10 1 two_windows))"
proof -
  have "\<not> disjoint_regions \<lparr> reg_start = 0x1FFF, reg_size = 0x10, reg_mode = ucast (1 :: u8) \<rparr>
      \<lparr> reg_start = 0x1000, reg_size = 0x1000, reg_mode = 3 \<rparr>"
    by (auto simp: disjoint_regions_def covers_def intro!: exI [of _ "0x1FFF"])
  then show ?thesis
    using region_add_correct [OF two_windows_inv, of 1 "0x1FFF" "0x10" "fst (region_add 0x1FFF 0x10 1 two_windows)"
        "snd (region_add 0x1FFF 0x10 1 two_windows)"]
      region_add_correct [OF two_windows_inv, of 1 "0x4000" "0x10" "fst (region_add 0x4000 0x10 1 two_windows)"
        "snd (region_add 0x4000 0x10 1 two_windows)"]
    by (simp add: region_ok_def open_two_windows)
qed

lemma region_remove_correct_witness:
  "manager_inv (snd (region_remove 0x1000 two_windows)) \<and> fst (region_remove 0x1000 two_windows) = SBE_SEC_OPERATION_SUCCESSFUL
    \<and> fst (region_remove 0x1001 two_windows) = SBE_SEC_MEM_REGION_NOT_FOUND"
  using region_remove_correct [OF two_windows_inv, of "0x1000" "fst (region_remove 0x1000 two_windows)"
      "snd (region_remove 0x1000 two_windows)"]
    region_remove_correct [OF two_windows_inv, of "0x1001" "fst (region_remove 0x1001 two_windows)"
      "snd (region_remove 0x1001 two_windows)"]
  by (simp add: open_two_windows)

subsection \<open>Where the arithmetic of the check fails\<close>

text \<open>
  The sizes of the two regions are added at 32 bits: when the sum wraps to zero no
  overlap is seen, and a region is opened a second time over itself with another mode.
\<close>

lemma region_add_size_wrap:
  assumes "open_regions M = [r]" "reg_size r + sz = 0" "iv_regionsOpenCnt M < iv_maxRegions M"
    and "length (iv_memRegions M) = iv_maxRegions M"
  shows "fst (region_add (reg_start r) sz mode M) = SBE_SEC_OPERATION_SUCCESSFUL
    \<and> open_regions (snd (region_add (reg_start r) sz mode M))
      = [r, \<lparr> reg_start = reg_start r, reg_size = sz, reg_mode = ucast mode \<rparr>]"
proof -
  have "\<not> regions_overlap \<lparr> reg_start = reg_start r, reg_size = sz, reg_mode = ucast mode \<rparr> r"
    using assms(2) by (simp add: regions_overlap_def Let_def add.commute)
  then have "getPartialRegionSize M \<lparr> reg_start = reg_start r, reg_size = sz, reg_mode = ucast mode \<rparr> = no_region"
    using assms(1) by (simp add: getPartialRegionSize_def)
  then show ?thesis
    using assms open_regions_added [OF assms(4,3)] by (simp add: region_add_def Let_def no_region_def)
qed

lemma region_add_size_wrap_witness:
  "fst (region_add 0 0x80000000 2 (snd (region_add 0 0x80000000 1 mainStoreSecMemRegionManager)))
    = SBE_SEC_OPERATION_SUCCESSFUL"
proof -
  let ?M = "snd (region_add 0 0x80000000 1 mainStoreSecMemRegionManager)"
  have "open_regions ?M = [\<lparr> reg_start = 0, reg_size = 0x80000000, reg_mode = 1 \<rparr>]"
    "iv_regionsOpenCnt ?M < iv_maxRegions ?M" "length (iv_memRegions ?M) = iv_maxRegions ?M"
    by code_simp+
  from region_add_size_wrap [OF this(1) _ this(2,3), of "0x80000000" 2] show ?thesis by simp
qed

text \<open>
  The window of the OCC command buffer is one byte short: the size is computed as the
  difference of the last and the first address, so the last byte is refused although the buffer
  is declared for read and write access.
\<close>

lemma occ_last_byte_refused:
  "isAccessAllowed True occSramSecRegionManager \<lparr> reg_start = 0xFFFBEFFE, reg_size = 1, reg_mode = MEM_REGION_READ \<rparr>
      = Some SBE_SEC_OPERATION_SUCCESSFUL
    \<and> isAccessAllowed True occSramSecRegionManager \<lparr> reg_start = 0xFFFBEFFF, reg_size = 1, reg_mode = MEM_REGION_READ \<rparr>
      = Some SBE_SEC_BLACKLISTED_MEM_ACCESS"
  by code_simp

end
