(* ===== verification/Sbe_Pib.thy ===== *)
theory Sbe_Pib
  imports Sbe_Prelude
begin

unbundle bit_operations_syntax

text \<open>
  The registers the firmware reaches over the PIB, the bit fields of its register images, and
  the response codes of \<open>sbe_sp_intf.H\<close>. The PPE numbers the bits of a register from the most
  significant one, so the field at offset \<open>p\<close> of width \<open>w\<close> in a C++ bit-field structure of 64
  bits is \<open>w\<close> bits starting \<open>64 - p - w\<close> bits above the least significant one.
\<close>

subsection \<open>Register access\<close>

text \<open>
  \<open>getscom_abs\<close> and \<open>putscom_abs\<close> are single load and store instructions to hardware; they are
  parameters, over a type \<open>'h\<close> of hardware states. \<open>pk_sleep_ms\<close> is the passage of time while the
  thread sleeps, which the firmware does between polls when it runs in the simulator.
\<close>

record 'h pib =
  getscom_abs :: "u32 \<Rightarrow> 'h \<Rightarrow> u32 \<times> u64 \<times> 'h"
  putscom_abs :: "u32 \<Rightarrow> u64 \<Rightarrow> 'h \<Rightarrow> u32 \<times> 'h"
  isSimicsRunning :: bool
  pk_sleep_ms :: "nat \<Rightarrow> 'h \<Rightarrow> 'h"

subsection \<open>Bit fields\<close>

definition bf_get :: "nat \<Rightarrow> nat \<Rightarrow> 'a::len word \<Rightarrow> 'a word" where
  "bf_get p w r = take_bit w (drop_bit (LENGTH('a) - p - w) r)"

definition bf_put :: "nat \<Rightarrow> nat \<Rightarrow> 'a::len word \<Rightarrow> 'a word \<Rightarrow> 'a word" where
  "bf_put p w v r =
     (r AND NOT (push_bit (LENGTH('a) - p - w) (mask w))) OR push_bit (LENGTH('a) - p - w) (take_bit w v)"

lemma bit_bf_get:
  "bit (bf_get p w (r :: 'a::len word)) n \<longleftrightarrow> n < w \<and> bit r (LENGTH('a) - p - w + n)"
  by (auto simp: bf_get_def bit_simps)

lemma bit_bf_put:
  "bit (bf_put p w v (r :: 'a::len word)) n \<longleftrightarrow> n < LENGTH('a) \<and>
     (if LENGTH('a) - p - w \<le> n \<and> n < LENGTH('a) - p - w + w
      then bit v (n - (LENGTH('a) - p - w)) else bit r n)"
  by (auto simp: bf_put_def bit_simps dest: bit_imp_le_length)

lemma bf_get_put_same:
  assumes "p + w \<le> LENGTH('a::len)"
  shows "bf_get p w (bf_put p w v (r :: 'a word)) = take_bit w v"
  by (rule bit_word_eqI) (use assms in \<open>auto simp: bit_bf_get bit_bf_put bit_simps\<close>)

lemma bf_get_put_other:
  assumes "p + w \<le> LENGTH('a::len)" "q + u \<le> LENGTH('a)" "p + w \<le> q \<or> q + u \<le> p"
  shows "bf_get p w (bf_put q u v (r :: 'a word)) = bf_get p w r"
proof (rule bit_word_eqI)
  fix n
  assume "n < LENGTH('a)"
  have "\<not> (LENGTH('a) - q - u \<le> LENGTH('a) - p - w + n \<and>
           LENGTH('a) - p - w + n < LENGTH('a) - q - u + u)" if "n < w"
    using assms that by linarith
  then show "bit (bf_get p w (bf_put q u v r)) n = bit (bf_get p w r) n"
    by (auto simp: bit_bf_get bit_bf_put dest: bit_imp_le_length)
qed

lemma bf_get_less: "unat (bf_get p w (r :: 'a::len word)) < 2 ^ w"
proof -
  have "unat (bf_get p w r) = take_bit w (unat (drop_bit (LENGTH('a) - p - w) r))"
    by (simp add: bf_get_def unsigned_take_bit_eq)
  then show ?thesis by (simp only: take_bit_nat_less_exp)
qed

lemma unat_of_nat_small: "n < 2 ^ LENGTH('a::len) \<Longrightarrow> unat (of_nat n :: 'a word) = n"
  by (simp add: unsigned_of_nat take_bit_nat_eq_self)

lemma unat_ucast_up:
  assumes "LENGTH('a::len) \<le> LENGTH('b::len)"
  shows "unat (ucast (x :: 'a word) :: 'b word) = unat x"
proof -
  have "unat x < 2 ^ LENGTH('a)" by (rule unsigned_less)
  also have "(2 :: nat) ^ LENGTH('a) \<le> 2 ^ LENGTH('b)" using assms by simp
  finally show ?thesis by (simp add: unsigned_ucast_eq take_bit_nat_eq_self)
qed

subsection \<open>Response codes\<close>

abbreviation "SBE_PRI_OPERATION_SUCCESSFUL \<equiv> 0x00 :: u32"
abbreviation "SBE_PRI_INVALID_COMMAND \<equiv> 0x01 :: u32"
abbreviation "SBE_PRI_INVALID_DATA \<equiv> 0x02 :: u32"
abbreviation "SBE_PRI_UNSECURE_ACCESS_DENIED \<equiv> 0x05 :: u32"
abbreviation "SBE_PRI_GENERIC_EXECUTION_FAILURE \<equiv> 0xFE :: u32"

abbreviation "SBE_SEC_OPERATION_SUCCESSFUL \<equiv> 0x00 :: u32"
abbreviation "SBE_SEC_COMMAND_CLASS_NOT_SUPPORTED \<equiv> 0x01 :: u32"
abbreviation "SBE_SEC_COMMAND_NOT_SUPPORTED \<equiv> 0x02 :: u32"
abbreviation "SBE_SEC_COMMAND_NOT_ALLOWED_IN_THIS_STATE \<equiv> 0x08 :: u32"
abbreviation "SBE_SEC_GENERIC_FAILURE_IN_EXECUTION \<equiv> 0x0A :: u32"
abbreviation "SBE_SEC_OS_FAILURE \<equiv> 0x0C :: u32"
abbreviation "SBE_SEC_FIFO_ACCESS_FAILURE \<equiv> 0x0D :: u32"
abbreviation "SBE_SEC_UNEXPECTED_EOT_INSUFFICIENT_DATA \<equiv> 0x0E :: u32"
abbreviation "SBE_SEC_UNEXPECTED_EOT_EXCESS_DATA \<equiv> 0x0F :: u32"
abbreviation "SBE_SEC_FIFO_PARITY_ERROR \<equiv> 0x12 :: u32"
abbreviation "SBE_SEC_BLACKLISTED_CHIPOP_ACCESS \<equiv> 0x20 :: u32"

end
