(* ===== verification/Sbe_State.thy ===== *)
theory Sbe_State
  imports Sbe_Pib
begin

unbundle bit_operations_syntax

text \<open>
  The register access singleton of \<open>sberegaccess.C\<close> and \<open>sberegaccess.H\<close>: the cached mailbox and
  messaging registers, the SBE state machine with its transition table and the index ranges of
  \<open>sbeevents.H\<close>, and the start-up reading of the registers.
\<close>

subsection \<open>States and events\<close>

abbreviation "SBE_STATE_UNKNOWN \<equiv> 0x0 :: u64"
abbreviation "SBE_STATE_IPLING \<equiv> 0x1 :: u64"
abbreviation "SBE_STATE_ISTEP \<equiv> 0x2 :: u64"
abbreviation "SBE_STATE_MPIPL \<equiv> 0x3 :: u64"
abbreviation "SBE_STATE_RUNTIME \<equiv> 0x4 :: u64"
abbreviation "SBE_STATE_DMT \<equiv> 0x5 :: u64"
abbreviation "SBE_STATE_DUMP \<equiv> 0x6 :: u64"
abbreviation "SBE_STATE_FAILURE \<equiv> 0x7 :: u64"
abbreviation "SBE_STATE_QUIESCE \<equiv> 0x8 :: u64"
abbreviation "SBE_MAX_STATE \<equiv> 0x9 :: u64"

abbreviation "SBE_RUNTIME_EVENT \<equiv> 0x0 :: u64"
abbreviation "SBE_ISTEP_EVENT \<equiv> 0x1 :: u64"
abbreviation "SBE_PLCK_EVENT \<equiv> 0x2 :: u64"
abbreviation "SBE_DUMP_FAILURE_EVENT \<equiv> 0x3 :: u64"
abbreviation "SBE_ENTER_MPIPL_EVENT \<equiv> 0x4 :: u64"
abbreviation "SBE_DMT_ENTER_EVENT \<equiv> 0x6 :: u64"
abbreviation "SBE_DMT_COMP_EVENT \<equiv> 0x7 :: u64"
abbreviation "SBE_FAILURE_EVENT \<equiv> 0x8 :: u64"
abbreviation "SBE_QUIESCE_EVENT \<equiv> 0x9 :: u64"

definition maxEventPerState :: "nat list" where
  "maxEventPerState = [4, 4, 3, 3, 5, 3, 0, 0, 0]"

definition entryToStateMap :: "nat list" where
  "entryToStateMap = map (\<lambda>i. sum_list (take i maxEventPerState)) [0..<9]"

text \<open>Pairs \<open>(start, end)\<close>; the code's \<open>end\<close> is the number of entries.\<close>

definition eventRangePerState :: "(nat \<times> nat) list" where
  "eventRangePerState = zip entryToStateMap maxEventPerState"

text \<open>Current state, event, final state.\<close>

definition stateTransMap :: "(u64 \<times> u64 \<times> u64) list" where
  "stateTransMap =
    [(SBE_STATE_UNKNOWN, SBE_FAILURE_EVENT, SBE_STATE_FAILURE),
     (SBE_STATE_UNKNOWN, SBE_RUNTIME_EVENT, SBE_STATE_RUNTIME),
     (SBE_STATE_UNKNOWN, SBE_ISTEP_EVENT, SBE_STATE_ISTEP),
     (SBE_STATE_UNKNOWN, SBE_PLCK_EVENT, SBE_STATE_IPLING),
     (SBE_STATE_IPLING, SBE_RUNTIME_EVENT, SBE_STATE_RUNTIME),
     (SBE_STATE_IPLING, SBE_DUMP_FAILURE_EVENT, SBE_STATE_DUMP),
     (SBE_STATE_IPLING, SBE_FAILURE_EVENT, SBE_STATE_FAILURE),
     (SBE_STATE_IPLING, SBE_QUIESCE_EVENT, SBE_STATE_QUIESCE),
     (SBE_STATE_ISTEP, SBE_RUNTIME_EVENT, SBE_STATE_RUNTIME),
     (SBE_STATE_ISTEP, SBE_FAILURE_EVENT, SBE_STATE_FAILURE),
     (SBE_STATE_ISTEP, SBE_QUIESCE_EVENT, SBE_STATE_QUIESCE),
     (SBE_STATE_MPIPL, SBE_RUNTIME_EVENT, SBE_STATE_RUNTIME),
     (SBE_STATE_MPIPL, SBE_DUMP_FAILURE_EVENT, SBE_STATE_DUMP),
     (SBE_STATE_MPIPL, SBE_QUIESCE_EVENT, SBE_STATE_QUIESCE),
     (SBE_STATE_RUNTIME, SBE_DUMP_FAILURE_EVENT, SBE_STATE_DUMP),
     (SBE_STATE_RUNTIME, SBE_ENTER_MPIPL_EVENT, SBE_STATE_MPIPL),
     (SBE_STATE_RUNTIME, SBE_DMT_ENTER_EVENT, SBE_STATE_DMT),
     (SBE_STATE_RUNTIME, SBE_FAILURE_EVENT, SBE_STATE_FAILURE),
     (SBE_STATE_RUNTIME, SBE_QUIESCE_EVENT, SBE_STATE_QUIESCE),
     (SBE_STATE_DMT, SBE_DMT_COMP_EVENT, SBE_STATE_RUNTIME),
     (SBE_STATE_DMT, SBE_QUIESCE_EVENT, SBE_STATE_QUIESCE),
     (SBE_STATE_DMT, SBE_DUMP_FAILURE_EVENT, SBE_STATE_DUMP)]"

subsection \<open>The cached registers\<close>

text \<open>\<open>l_initDone\<close> is the static variable of \<open>init\<close>, \<open>attr_is_mpipl\<close> the attribute \<open>setMpIplMode\<close> sets.\<close>

record SbeRegAccess =
  iv_mbx3 :: u64
  iv_mbx6 :: u64
  iv_messagingReg :: u64
  iv_mbx8 :: u64
  l_initDone :: bool
  attr_is_mpipl :: u8

definition getSbePrevState :: "SbeRegAccess \<Rightarrow> u64" where
  "getSbePrevState R = bf_get 4 4 (iv_messagingReg R)"

definition getSbeState :: "SbeRegAccess \<Rightarrow> u64" where
  "getSbeState R = bf_get 8 4 (iv_messagingReg R)"

definition getSbeMajorIstepNumber :: "SbeRegAccess \<Rightarrow> u64" where
  "getSbeMajorIstepNumber R = bf_get 12 8 (iv_messagingReg R)"

definition getSbeMinorIstepNumber :: "SbeRegAccess \<Rightarrow> u64" where
  "getSbeMinorIstepNumber R = bf_get 20 6 (iv_messagingReg R)"

definition isIstepMode :: "SbeRegAccess \<Rightarrow> bool" where
  "isIstepMode R = is_true (bf_get 0 1 (iv_mbx3 R))"

definition isDestBitRuntime :: "SbeRegAccess \<Rightarrow> bool" where
  "isDestBitRuntime R = is_true (bf_get 1 1 (iv_mbx3 R))"

definition isFspSystem :: "SbeRegAccess \<Rightarrow> bool" where
  "isFspSystem R = is_true (bf_get 3 1 (iv_mbx3 R))"

definition isCollectFFDCSet :: "SbeRegAccess \<Rightarrow> bool" where
  "isCollectFFDCSet R = is_true (bf_get 4 1 (iv_mbx3 R))"

definition isSendInternalFFDCSet :: "SbeRegAccess \<Rightarrow> bool" where
  "isSendInternalFFDCSet R = is_true (bf_get 5 1 (iv_mbx3 R))"

definition isSbeSlave :: "SbeRegAccess \<Rightarrow> bool" where
  "isSbeSlave R = is_true (bf_get 24 1 (iv_mbx6 R))"

text \<open>\<open>security_mode\<close> is the platform attribute \<open>ATTR_SECURITY_MODE\<close>.\<close>

definition isSbeRegressionBit :: "u8 \<Rightarrow> SbeRegAccess \<Rightarrow> bool" where
  "isSbeRegressionBit security_mode R =
     (is_true (bf_get 2 1 (iv_mbx8 R)) \<and> \<not> is_true security_mode \<and> is_true (bf_get 12 1 (iv_mbx3 R)))"

definition disableScomFiltering :: "u8 \<Rightarrow> SbeRegAccess \<Rightarrow> bool" where
  "disableScomFiltering security_mode R =
     (\<not> is_true security_mode \<and> is_true (bf_get 11 1 (iv_mbx3 R)))"

abbreviation "PERV_SB_MSG_SCOM \<equiv> 0x00050009 :: u32"
abbreviation "PERV_SCRATCH_REGISTER_3_SCOM \<equiv> 0x0005003A :: u32"
abbreviation "PERV_SCRATCH_REGISTER_6_SCOM \<equiv> 0x0005003D :: u32"
abbreviation "PERV_SCRATCH_REGISTER_8_SCOM \<equiv> 0x0005003F :: u32"
abbreviation "PERV_DEVICE_ID_REG \<equiv> 0x000F000F :: u32"

type_synonym 'h reg_result = "u32 \<times> SbeRegAccess \<times> 'h"

text \<open>Every update of the messaging register changes the cached image and writes it out.\<close>

definition write_messaging :: "'h pib \<Rightarrow> u64 \<Rightarrow> SbeRegAccess \<Rightarrow> 'h \<Rightarrow> 'h reg_result" where
  "write_messaging P v R h =
     (let (rc, h) = putscom_abs P PERV_SB_MSG_SCOM v h in (rc, R\<lparr> iv_messagingReg := v \<rparr>, h))"

definition updateSbeState :: "'h pib \<Rightarrow> u64 \<Rightarrow> SbeRegAccess \<Rightarrow> 'h \<Rightarrow> 'h reg_result" where
  "updateSbeState P i_state R h =
     write_messaging P (bf_put 8 4 i_state (bf_put 4 4 (getSbeState R) (iv_messagingReg R))) R h"

definition updateSbeStep :: "'h pib \<Rightarrow> u8 \<Rightarrow> u8 \<Rightarrow> SbeRegAccess \<Rightarrow> 'h \<Rightarrow> 'h reg_result" where
  "updateSbeStep P i_major i_minor R h =
     write_messaging P (bf_put 20 6 (ucast i_minor) (bf_put 12 8 (ucast i_major) (iv_messagingReg R))) R h"

definition setSbeReady :: "'h pib \<Rightarrow> SbeRegAccess \<Rightarrow> 'h \<Rightarrow> 'h reg_result" where
  "setSbeReady P R h = write_messaging P (bf_put 0 1 1 (iv_messagingReg R)) R h"

definition updateAsyncFFDCBit :: "'h pib \<Rightarrow> bool \<Rightarrow> SbeRegAccess \<Rightarrow> 'h \<Rightarrow> 'h reg_result" where
  "updateAsyncFFDCBit P i_on R h = write_messaging P (bf_put 1 1 (of_bool i_on) (iv_messagingReg R)) R h"

definition setMpIplMode :: "'h pib \<Rightarrow> bool \<Rightarrow> SbeRegAccess \<Rightarrow> 'h \<Rightarrow> 'h reg_result" where
  "setMpIplMode P i_set R h =
     (let (rc, scratch3Reg, h) = getscom_abs P PERV_SCRATCH_REGISTER_3_SCOM h;
          R = R\<lparr> iv_mbx3 := bf_put 2 1 (of_bool i_set) (iv_mbx3 R), attr_is_mpipl := of_bool i_set \<rparr>;
          scratch3Reg = (if i_set then scratch3Reg OR 0x2000000000000000
                         else scratch3Reg AND 0xDFFFFFFFFFFFFFFF);
          (rc, h) = putscom_abs P PERV_SCRATCH_REGISTER_3_SCOM scratch3Reg h
      in (rc, R, h))"

text \<open>
  The search of \<open>stateTransition\<close>. The array is indexed by the state read from the register: a
  value past the table is outside its bounds, \<open>None\<close>.
\<close>

function transition_loop :: "u64 \<Rightarrow> nat \<Rightarrow> nat \<Rightarrow> u64 option" where
  "transition_loop i_event limit l_startCnt =
     (if l_startCnt < limit
      then let (currState, event, finalState) = stateTransMap ! l_startCnt
           in if event = i_event then Some finalState
              else transition_loop i_event limit (Suc l_startCnt)
      else None)"
  by pat_completeness auto

termination transition_loop
  by (relation "measure (\<lambda>(e, l, k). l - k)") auto

declare transition_loop.simps [simp del]

definition stateTransition :: "'h pib \<Rightarrow> u64 \<Rightarrow> SbeRegAccess \<Rightarrow> 'h \<Rightarrow> (SbeRegAccess \<times> 'h) option" where
  "stateTransition P i_event R h =
     (let l_state = unat (getSbeState R)
      in if length eventRangePerState \<le> l_state then None
         else let (start, n) = eventRangePerState ! l_state
              in case transition_loop i_event (n + start) start of
                   Some finalState \<Rightarrow> Some (snd (updateSbeState P finalState R h))
                 | None \<Rightarrow> Some (R, h))"

subsection \<open>Start-up\<close>

abbreviation "SBE_DEV_ID_C4_PIN_MASK \<equiv> 0x0000000000800000 :: u64"

text \<open>
  \<open>boot_flags\<close> is the platform attribute \<open>ATTR_BOOT_FLAGS\<close>. The steps are those of the function,
  in order; a failing access ends them. The last step is the decision on the role: the masked pin
  bit is assigned to the one-bit field \<open>iv_isSlave\<close>.
\<close>

definition init_role :: "'h pib \<Rightarrow> SbeRegAccess \<Rightarrow> 'h \<Rightarrow> 'h reg_result" where
  "init_role P R h =
     (let (rc, l_sbeDevIdReg, h) = getscom_abs P PERV_DEVICE_ID_REG h
      in if rc \<noteq> 0 then (rc, R, h)
         else if bf_get 24 1 (iv_mbx6 R) = 0
         then (rc, R\<lparr> iv_mbx6 := bf_put 24 1 (l_sbeDevIdReg AND SBE_DEV_ID_C4_PIN_MASK) (iv_mbx6 R) \<rparr>, h)
         else (rc, R, h))"

definition init_mbx6 :: "'h pib \<Rightarrow> SbeRegAccess \<Rightarrow> 'h \<Rightarrow> 'h reg_result" where
  "init_mbx6 P R h =
     (if is_true (bf_get 5 1 (iv_mbx8 R))
      then let (rc, v, h) = getscom_abs P PERV_SCRATCH_REGISTER_6_SCOM h; R = R\<lparr> iv_mbx6 := v \<rparr>
           in if rc \<noteq> 0 then (rc, R, h) else init_role P R h
      else init_role P R h)"

definition init_mbx3 :: "'h pib \<Rightarrow> u32 \<Rightarrow> SbeRegAccess \<Rightarrow> 'h \<Rightarrow> 'h reg_result" where
  "init_mbx3 P boot_flags R h =
     (if is_true (bf_get 2 1 (iv_mbx8 R))
      then let (rc, v, h) = getscom_abs P PERV_SCRATCH_REGISTER_3_SCOM h; R = R\<lparr> iv_mbx3 := v \<rparr>
           in if rc \<noteq> 0 then (rc, R, h) else init_mbx6 P R h
      else init_mbx6 P (R\<lparr> iv_mbx3 := push_bit 32 (ucast boot_flags) \<rparr>) h)"

definition regaccess_init :: "'h pib \<Rightarrow> u32 \<Rightarrow> bool \<Rightarrow> SbeRegAccess \<Rightarrow> 'h \<Rightarrow> 'h reg_result" where
  "regaccess_init P boot_flags forced R h =
     (let (rc, R, h) =
        (if l_initDone R \<and> \<not> forced then (0, R, h)
         else let (rc, v, h) = getscom_abs P PERV_SB_MSG_SCOM h; R = R\<lparr> iv_messagingReg := v \<rparr>
              in if rc \<noteq> 0 then (rc, R, h)
                 else let (rc, v, h) = getscom_abs P PERV_SCRATCH_REGISTER_8_SCOM h; R = R\<lparr> iv_mbx8 := v \<rparr>
                      in if rc \<noteq> 0 then (rc, R, h) else init_mbx3 P boot_flags R h)
      in (rc, R\<lparr> l_initDone := True \<rparr>, h))"

subsection \<open>The state machine refines its table\<close>

text \<open>
  The abstract machine looks an event up in the whole table, by state and event, and ignores an
  event the table does not have.
\<close>

definition sbe_next :: "u64 \<Rightarrow> u64 \<Rightarrow> u64" where
  "sbe_next st ev =
     (case map_of (map (\<lambda>(s, e, f). ((s, e), f)) stateTransMap) (st, ev) of Some f \<Rightarrow> f | None \<Rightarrow> st)"

fun run_events :: "'h pib \<Rightarrow> u64 list \<Rightarrow> SbeRegAccess \<Rightarrow> 'h \<Rightarrow> (SbeRegAccess \<times> 'h) option" where
  "run_events P [] R h = Some (R, h)"
| "run_events P (ev # evs) R h =
     (case stateTransition P ev R h of None \<Rightarrow> None | Some (R, h) \<Rightarrow> run_events P evs R h)"

lemma length_eventRangePerState [simp]: "length eventRangePerState = 9"
  by (simp add: eventRangePerState_def entryToStateMap_def maxEventPerState_def)

lemma small_states:
  assumes "(st :: u64) < SBE_MAX_STATE"
  obtains "st = 0" | "st = 1" | "st = 2" | "st = 3" | "st = 4" | "st = 5" | "st = 6" | "st = 7" | "st = 8"
proof -
  have "unat st < 9" using assms by (simp add: word_less_nat_alt)
  then have "unat st \<in> {0, 1, 2, 3, 4, 5, 6, 7, 8}" by auto
  moreover have "st = of_nat (unat st)" by simp
  ultimately have "st \<in> of_nat ` {0, 1, 2, 3, 4, 5, 6, 7, 8}" by blast
  then show ?thesis using that by auto
qed

lemma state_ranges:
  "eventRangePerState = [(0, 4), (4, 4), (8, 3), (11, 3), (14, 5), (19, 3), (22, 0), (22, 0), (22, 0)]"
  by (simp add: eventRangePerState_def entryToStateMap_def maxEventPerState_def upt_rec)

text \<open>The search of a state's range is the search of the whole table for that state.\<close>

lemma transition_found:
  assumes "st < SBE_MAX_STATE"
  shows "(case eventRangePerState ! unat st of (start, n) \<Rightarrow> transition_loop ev (n + start) start)
    = map_of (map (\<lambda>(s, e, f). ((s, e), f)) stateTransMap) (st, ev)"
  using assms by (cases rule: small_states)
    (simp_all add: state_ranges transition_loop.simps stateTransMap_def)

lemma final_states:
  assumes "map_of (map (\<lambda>(s, e, f). ((s, e), f)) stateTransMap) (st, ev) = Some f"
  shows "f < SBE_MAX_STATE" "st < SBE_STATE_DUMP"
proof -
  have "(st, ev, f) \<in> set stateTransMap" using map_of_SomeD [OF assms] by auto
  moreover have "\<forall>(s, e, f) \<in> set stateTransMap. f < SBE_MAX_STATE \<and> s < SBE_STATE_DUMP"
    by (simp add: stateTransMap_def)
  ultimately show "f < SBE_MAX_STATE" "st < SBE_STATE_DUMP" by auto
qed

lemma next_valid:
  assumes "st < SBE_MAX_STATE"
  shows "sbe_next st ev < SBE_MAX_STATE"
  using assms by (auto simp: sbe_next_def dest: final_states(1) split: option.split)

lemma take_bit_valid:
  assumes "(st :: u64) < SBE_MAX_STATE"
  shows "take_bit 4 st = st"
proof -
  have "unat st < 2 ^ 4" using assms by (simp add: word_less_nat_alt)
  then have "unat (take_bit 4 st) = unat st"
    by (simp add: unsigned_take_bit_eq take_bit_nat_eq_self)
  then show ?thesis by (simp add: word_unat_eq_iff)
qed

lemma update_state_fields:
  assumes "st < SBE_MAX_STATE" "updateSbeState P st R h = (rc, R', h')"
  shows "getSbeState R' = st" "getSbePrevState R' = getSbeState R"
    "getSbeMajorIstepNumber R' = getSbeMajorIstepNumber R"
    "getSbeMinorIstepNumber R' = getSbeMinorIstepNumber R"
    "iv_mbx3 R' = iv_mbx3 R" "iv_mbx6 R' = iv_mbx6 R" "iv_mbx8 R' = iv_mbx8 R"
    "(rc, h') = putscom_abs P PERV_SB_MSG_SCOM (iv_messagingReg R') h"
proof -
  have "take_bit 4 (getSbeState R) = getSbeState R"
    by (simp add: getSbeState_def bf_get_def)
  with assms show "getSbeState R' = st" "getSbePrevState R' = getSbeState R"
    "getSbeMajorIstepNumber R' = getSbeMajorIstepNumber R"
    "getSbeMinorIstepNumber R' = getSbeMinorIstepNumber R"
    "iv_mbx3 R' = iv_mbx3 R" "iv_mbx6 R' = iv_mbx6 R" "iv_mbx8 R' = iv_mbx8 R"
    "(rc, h') = putscom_abs P PERV_SB_MSG_SCOM (iv_messagingReg R') h"
    by (auto simp: updateSbeState_def write_messaging_def getSbeState_def getSbePrevState_def
        getSbeMajorIstepNumber_def getSbeMinorIstepNumber_def bf_get_put_same bf_get_put_other
        take_bit_valid split: prod.splits)
qed

lemma stateTransition_step:
  assumes "getSbeState R < SBE_MAX_STATE"
  obtains R' h' where "stateTransition P ev R h = Some (R', h')"
    "getSbeState R' = sbe_next (getSbeState R) ev"
    "getSbeMajorIstepNumber R' = getSbeMajorIstepNumber R"
    "getSbeMinorIstepNumber R' = getSbeMinorIstepNumber R"
    "iv_mbx3 R' = iv_mbx3 R"
    "getSbeState R \<in> {SBE_STATE_DUMP, SBE_STATE_FAILURE, SBE_STATE_QUIESCE} \<Longrightarrow> R' = R \<and> h' = h"
proof -
  define st where "st = getSbeState R"
  define found where "found = map_of (map (\<lambda>(s, e, f). ((s, e), f)) stateTransMap) (st, ev)"
  have st: "st < SBE_MAX_STATE" using assms by (simp add: st_def)
  then have "unat st < 9" by (simp add: word_less_nat_alt)
  then have run: "stateTransition P ev R h =
      (case found of Some f \<Rightarrow> Some (snd (updateSbeState P f R h)) | None \<Rightarrow> Some (R, h))"
    using transition_found [OF st, of ev]
    by (simp add: stateTransition_def found_def flip: st_def split: prod.splits)
  have nxt: "sbe_next st ev = (case found of Some f \<Rightarrow> f | None \<Rightarrow> st)"
    by (simp add: sbe_next_def found_def)
  show ?thesis
  proof (cases found)
    case None
    with run nxt show ?thesis by (intro that [of R h]) (simp_all add: st_def)
  next
    case (Some f)
    obtain rc R' h' where u: "updateSbeState P f R h = (rc, R', h')" by (metis prod_cases3)
    have f: "f < SBE_MAX_STATE" using next_valid [OF st, of ev] Some nxt by simp
    have "st \<notin> {SBE_STATE_DUMP, SBE_STATE_FAILURE, SBE_STATE_QUIESCE}"
      using final_states(2) [OF Some [unfolded found_def]] by auto
    with run nxt u update_state_fields [OF f u] Some show ?thesis
      by (intro that [of R' h']) (simp_all add: st_def)
  qed
qed

text \<open>
  Property C36. The SBE state machine refines its table: from a state of the enumeration, any
  sequence of events is handled without an access outside the tables and ends in the state that
  the table alone determines, looked up by state and event, whatever the index ranges of
  \<open>sbeevents.H\<close>; the step numbers and the mailbox image are kept, and the states for dump,
  failure and quiesce are final.
\<close>

theorem state_machine_refines:
  assumes "getSbeState R < SBE_MAX_STATE"
  shows "\<exists>R' h'. run_events P evs R h = Some (R', h') \<and>
    getSbeState R' = foldl sbe_next (getSbeState R) evs \<and> getSbeState R' < SBE_MAX_STATE \<and>
    getSbeMajorIstepNumber R' = getSbeMajorIstepNumber R \<and>
    getSbeMinorIstepNumber R' = getSbeMinorIstepNumber R \<and> iv_mbx3 R' = iv_mbx3 R \<and>
    (getSbeState R \<in> {SBE_STATE_DUMP, SBE_STATE_FAILURE, SBE_STATE_QUIESCE} \<longrightarrow> R' = R \<and> h' = h)"
  using assms
proof (induction evs arbitrary: R h)
  case Nil
  then show ?case by simp
next
  case (Cons ev evs)
  obtain R1 h1 where 1: "stateTransition P ev R h = Some (R1, h1)"
    "getSbeState R1 = sbe_next (getSbeState R) ev"
    "getSbeMajorIstepNumber R1 = getSbeMajorIstepNumber R"
    "getSbeMinorIstepNumber R1 = getSbeMinorIstepNumber R" "iv_mbx3 R1 = iv_mbx3 R"
    "getSbeState R \<in> {SBE_STATE_DUMP, SBE_STATE_FAILURE, SBE_STATE_QUIESCE} \<Longrightarrow> R1 = R \<and> h1 = h"
    by (rule stateTransition_step [OF Cons.prems, of P ev h]) blast
  have "getSbeState R1 < SBE_MAX_STATE" using next_valid [OF Cons.prems] 1(2) by simp
  from Cons.IH [OF this, of h1] 1 show ?case by auto
qed

text \<open>A register file as the hardware: every access succeeds.\<close>

definition reg_file :: "(u32 \<Rightarrow> u64) pib" where
  "reg_file = \<lparr> getscom_abs = (\<lambda>a h. (0, h a, h)), putscom_abs = (\<lambda>a v h. (0, h(a := v))),
     isSimicsRunning = False, pk_sleep_ms = (\<lambda>n h. h) \<rparr>"

definition reset_regs :: SbeRegAccess where
  "reset_regs = \<lparr> iv_mbx3 = 0, iv_mbx6 = 0, iv_messagingReg = 0, iv_mbx8 = 0, l_initDone = False,
     attr_is_mpipl = 0 \<rparr>"

theorem state_machine_refines_witness:
  "\<exists>R' h'. run_events reg_file [SBE_PLCK_EVENT, SBE_RUNTIME_EVENT, SBE_ENTER_MPIPL_EVENT] reset_regs (\<lambda>_. 0)
      = Some (R', h') \<and> getSbeState R' = SBE_STATE_MPIPL"
proof -
  have "getSbeState reset_regs < SBE_MAX_STATE" and 0: "getSbeState reset_regs = 0"
    by (simp_all add: getSbeState_def reset_regs_def bf_get_def)
  from state_machine_refines [OF this(1), of reg_file
      "[SBE_PLCK_EVENT, SBE_RUNTIME_EVENT, SBE_ENTER_MPIPL_EVENT]" "\<lambda>_. 0"]
  show ?thesis unfolding 0 by (auto simp: sbe_next_def stateTransMap_def)
qed

subsection \<open>The role of the SBE\<close>

lemma c4_pin_field: "take_bit 1 (v AND SBE_DEV_ID_C4_PIN_MASK) = 0"
proof (rule bit_word_eqI)
  fix n :: nat
  have "\<not> bit SBE_DEV_ID_C4_PIN_MASK 0" by simp
  then show "bit (take_bit 1 (v AND SBE_DEV_ID_C4_PIN_MASK)) n = bit (0 :: u64) n"
    by (cases n) (simp_all add: bit_simps)
qed

lemma init_role_slave:
  assumes "init_role P R h = (rc, R', h')"
  shows "isSbeSlave R' = isSbeSlave R"
  using assms
  by (auto simp: init_role_def isSbeSlave_def bf_get_put_same c4_pin_field split: prod.splits if_splits)

text \<open>
  The pin that should make an SBE a slave is never taken over: when mailbox register
  6 is not valid, a first initialisation ends with the role of the reset value, master, for every
  value of the device id register, because \<open>init\<close> assigns the masked pin, bit 40 of the register, to
  a field of one bit.
\<close>

lemma c4_pin_ignored:
  assumes "\<not> l_initDone R" "\<not> isSbeSlave R"
    "getscom_abs P PERV_SB_MSG_SCOM h = (0, msg, h1)"
    "getscom_abs P PERV_SCRATCH_REGISTER_8_SCOM h1 = (0, mbx8, h2)"
    "bf_get 2 1 mbx8 = 0" "bf_get 5 1 mbx8 = 0"
    "getscom_abs P PERV_DEVICE_ID_REG h2 = (0, devid, h3)"
  shows "\<exists>R'. regaccess_init P boot_flags forced R h = (0, R', h3) \<and> \<not> isSbeSlave R' \<and> l_initDone R'"
proof -
  define R1 where "R1 = R\<lparr> iv_messagingReg := msg, iv_mbx8 := mbx8, iv_mbx3 := push_bit 32 (ucast boot_flags) \<rparr>"
  obtain rc R2 h4 where role: "init_role P R1 h2 = (rc, R2, h4)" by (metis prod_cases3)
  have "rc = 0 \<and> h4 = h3" using role assms(7) by (auto simp: init_role_def split: if_splits)
  moreover have "regaccess_init P boot_flags forced R h = (let (rc, R, h) = init_role P R1 h2 in (rc, R\<lparr> l_initDone := True \<rparr>, h))"
    using assms by (simp add: regaccess_init_def init_mbx3_def init_mbx6_def R1_def)
  moreover have "\<not> isSbeSlave R2"
    using init_role_slave [OF role] assms(2) by (simp add: R1_def isSbeSlave_def)
  ultimately show ?thesis using role by (simp add: isSbeSlave_def)
qed

definition c4_regs :: "u32 \<Rightarrow> u64" where
  "c4_regs = (\<lambda>_. 0)(PERV_DEVICE_ID_REG := SBE_DEV_ID_C4_PIN_MASK)"

lemma c4_pin_ignored_witness:
  "\<exists>R'. regaccess_init reg_file 0 False reset_regs c4_regs = (0, R', c4_regs) \<and>
     \<not> isSbeSlave R' \<and> l_initDone R'"
  by (rule c4_pin_ignored [where ?h1.0 = c4_regs and ?h2.0 = c4_regs and ?mbx8.0 = 0])
    (simp_all add: reg_file_def reset_regs_def isSbeSlave_def bf_get_def c4_regs_def)

end
