(* ===== verification/Sbe_Fifo.thy ===== *)
theory Sbe_Fifo
  imports Sbe_State "HOL-Library.Monad_Syntax"
begin

unbundle bit_operations_syntax

text \<open>
  The FIFO between the service processor and the SBE: \<open>sbefifo.H\<close>, \<open>sbeFifoMsgUtils.C\<close>, the FIFO
  part of \<open>sbeFFDC.C\<close> and the message headers of \<open>sbeSpMsg.H\<close>. A call that does not return, because
  it polls for ever or fails an assertion, is \<open>None\<close>. Buffers are functions of the index, \<open>None\<close>
  the null pointer.
\<close>

subsection \<open>FIFO registers\<close>

abbreviation "SBE_UPSTREAM_FIFO_DEQ_ADD \<equiv> 0x000B0000 :: u32"
abbreviation "SBE_UPSTREAM_FIFO_PERFORM_RESET \<equiv> 0x000B0004 :: u32"
abbreviation "SBE_UPSTREAM_FIFO_ACK_EOT \<equiv> 0x000B0005 :: u32"
abbreviation "SBE_DOWNSTREAM_FIFO_ENQ_ADD \<equiv> 0x000B0010 :: u32"
abbreviation "SBE_DOWNSTREAM_FIFO_STATUS \<equiv> 0x000B0011 :: u32"
abbreviation "SBE_DOWNSTREAM_FIFO_SIGNAL_EOT \<equiv> 0x000B0012 :: u32"

abbreviation "SBE_FIFO_RESET_RECEIVED \<equiv> 0xFA00 :: u32"
abbreviation "DOWNSTREAM_EOT_DATA \<equiv> 0x100000000 :: u64"

text \<open>
  An entry of the upstream FIFO is the data word and the status word; the status of the
  downstream FIFO is the high word of its register, and so is the data written to it.
\<close>

definition high_word :: "u64 \<Rightarrow> u32" where
  "high_word v = ucast (drop_bit 32 v)"

definition low_word :: "u64 \<Rightarrow> u32" where
  "low_word v = ucast v"

definition enq_data :: "u32 \<Rightarrow> u64" where
  "enq_data w = push_bit 32 (ucast w)"

definition status_flag :: "nat \<Rightarrow> u32 \<Rightarrow> bool" where
  "status_flag p st \<longleftrightarrow> bf_get p 1 st \<noteq> 0"

definition up_valid_flag :: "u32 \<Rightarrow> bool" where "up_valid_flag st = status_flag 0 st"
definition up_eot_flag :: "u32 \<Rightarrow> bool" where "up_eot_flag st = status_flag 1 st"
definition up_parity_err :: "u32 \<Rightarrow> bool" where "up_parity_err st = status_flag 2 st"
definition up_req_upfifo_reset :: "u32 \<Rightarrow> bool" where "up_req_upfifo_reset st = status_flag 6 st"
definition down_req_upfifo_reset :: "u32 \<Rightarrow> bool" where "down_req_upfifo_reset st = status_flag 7 st"
definition down_fifo_full :: "u32 \<Rightarrow> bool" where "down_fifo_full st = status_flag 10 st"

definition sbeUpFifoDeq :: "'h pib \<Rightarrow> 'h \<Rightarrow> u32 \<times> u64 \<times> 'h" where
  "sbeUpFifoDeq P h = getscom_abs P SBE_UPSTREAM_FIFO_DEQ_ADD h"

definition sbeUpFifoPerformReset :: "'h pib \<Rightarrow> 'h \<Rightarrow> u32 \<times> 'h" where
  "sbeUpFifoPerformReset P h = putscom_abs P SBE_UPSTREAM_FIFO_PERFORM_RESET (push_bit 32 1) h"

definition sbeUpFifoAckEot :: "'h pib \<Rightarrow> 'h \<Rightarrow> u32 \<times> 'h" where
  "sbeUpFifoAckEot P h = putscom_abs P SBE_UPSTREAM_FIFO_ACK_EOT (push_bit 32 1) h"

definition sbeDownFifoEnq :: "'h pib \<Rightarrow> u64 \<Rightarrow> 'h \<Rightarrow> u32 \<times> 'h" where
  "sbeDownFifoEnq P i_data h = putscom_abs P SBE_DOWNSTREAM_FIFO_ENQ_ADD i_data h"

definition sbeDownFifoGetStatus :: "'h pib \<Rightarrow> 'h \<Rightarrow> u32 \<times> u64 \<times> 'h" where
  "sbeDownFifoGetStatus P h = getscom_abs P SBE_DOWNSTREAM_FIFO_STATUS h"

text \<open>The wait between two polls.\<close>

definition fifo_wait :: "'h pib \<Rightarrow> 'h \<Rightarrow> 'h" where
  "fifo_wait P h = (if isSimicsRunning P then pk_sleep_ms P 1 h else h)"

subsection \<open>Receiving from the upstream FIFO\<close>

type_synonym fifo_buffer = "(nat \<Rightarrow> u32) option"

text \<open>
  One pass of the loop of \<open>sbeUpFifoDeq_mult\<close>: whether it leaves the loop by a \<open>break\<close>, the return
  code, the count, the buffer and the hardware.
\<close>

definition deq_pass :: "'h pib \<Rightarrow> u32 \<Rightarrow> bool \<Rightarrow> bool \<Rightarrow> u32 \<Rightarrow> fifo_buffer \<Rightarrow> 'h
    \<Rightarrow> bool \<times> u32 \<times> u32 \<times> fifo_buffer \<times> 'h" where
  "deq_pass P io_len i_isEotExpected i_flush l_len o_pData h =
     (let (l_rc, l_data, h) = sbeUpFifoDeq P h;
          status = low_word l_data
      in if l_rc \<noteq> 0 then (True, SBE_SEC_FIFO_ACCESS_FAILURE, l_len, o_pData, h)
         else if up_req_upfifo_reset status then (True, SBE_FIFO_RESET_RECEIVED, l_len, o_pData, h)
         else if up_eot_flag status
         then let (l_rc, h) = sbeUpFifoAckEot P h
              in if l_rc \<noteq> 0 then (True, SBE_SEC_FIFO_ACCESS_FAILURE, l_len, o_pData, h)
                 else if (\<not> i_isEotExpected \<or> l_len \<noteq> io_len) \<and> \<not> i_flush
                 then (True, if l_len < io_len then SBE_SEC_UNEXPECTED_EOT_INSUFFICIENT_DATA
                             else SBE_SEC_UNEXPECTED_EOT_EXCESS_DATA, l_len, o_pData, h)
                 else (True, l_rc, l_len, o_pData, h)
         else if \<not> up_valid_flag status
         then if up_parity_err status then (True, SBE_SEC_FIFO_PARITY_ERROR, l_len, o_pData, h)
              else (False, l_rc, l_len, o_pData, fifo_wait P h)
         else (False, l_rc, l_len + 1,
               if \<not> i_flush \<and> l_len < io_len
               then map_option (\<lambda>b. b(unat l_len := high_word l_data)) o_pData else o_pData, h))"

text \<open>A \<open>continue\<close> in the loop goes to its condition, as the end of the body does.\<close>

partial_function (option) deq_loop :: "'h pib \<Rightarrow> u32 \<Rightarrow> bool \<Rightarrow> bool \<Rightarrow> u32 \<Rightarrow> fifo_buffer \<Rightarrow> 'h
    \<Rightarrow> (u32 \<times> u32 \<times> fifo_buffer \<times> 'h) option" where
  "deq_loop P io_len i_isEotExpected i_flush l_len o_pData h =
     (case deq_pass P io_len i_isEotExpected i_flush l_len o_pData h of (brk, l_rc, l_len, o_pData, h) \<Rightarrow>
        if brk \<or> \<not> (i_flush \<or> i_isEotExpected \<or> l_len < io_len) then Some (l_rc, l_len, o_pData, h)
        else deq_loop P io_len i_isEotExpected i_flush l_len o_pData h)"

text \<open>The result is the return code, the new value of \<open>io_len\<close>, the buffer and the hardware.\<close>

definition sbeUpFifoDeq_mult :: "'h pib \<Rightarrow> u32 \<Rightarrow> fifo_buffer \<Rightarrow> bool \<Rightarrow> bool \<Rightarrow> 'h
    \<Rightarrow> (u32 \<times> u32 \<times> fifo_buffer \<times> 'h) option" where
  "sbeUpFifoDeq_mult P io_len o_pData i_isEotExpected i_flush h =
     (if \<not> i_flush \<and> io_len > 0 \<and> o_pData = None then None
      else deq_loop P io_len i_isEotExpected i_flush 0 o_pData h)"

subsection \<open>Sending to the downstream FIFO\<close>

definition enq_pass :: "'h pib \<Rightarrow> (nat \<Rightarrow> u32) \<Rightarrow> u32 \<Rightarrow> 'h \<Rightarrow> bool \<times> u32 \<times> u32 \<times> 'h" where
  "enq_pass P i_pData l_len h =
     (let (l_rc, l_status, h) = sbeDownFifoGetStatus P h; status = high_word l_status
      in if l_rc \<noteq> 0 then (True, SBE_SEC_FIFO_ACCESS_FAILURE, l_len, h)
         else if down_req_upfifo_reset status then (True, SBE_FIFO_RESET_RECEIVED, l_len, h)
         else if down_fifo_full status then (False, l_rc, l_len, fifo_wait P h)
         else let (l_rc, h) = sbeDownFifoEnq P (enq_data (i_pData (unat l_len))) h
              in if l_rc \<noteq> 0 then (True, SBE_SEC_FIFO_ACCESS_FAILURE, l_len, h)
                 else (False, l_rc, l_len + 1, h))"

partial_function (option) enq_loop :: "'h pib \<Rightarrow> u32 \<Rightarrow> (nat \<Rightarrow> u32) \<Rightarrow> u32 \<Rightarrow> 'h \<Rightarrow> (u32 \<times> u32 \<times> 'h) option" where
  "enq_loop P io_len i_pData l_len h =
     (case enq_pass P i_pData l_len h of (brk, l_rc, l_len, h) \<Rightarrow>
        if brk \<or> \<not> l_len < io_len then Some (l_rc, l_len, h)
        else enq_loop P io_len i_pData l_len h)"

definition sbeDownFifoEnq_mult :: "'h pib \<Rightarrow> u32 \<Rightarrow> (nat \<Rightarrow> u32) \<Rightarrow> 'h \<Rightarrow> (u32 \<times> u32 \<times> 'h) option" where
  "sbeDownFifoEnq_mult P io_len i_pData h = enq_loop P io_len i_pData 0 h"

partial_function (option) sbeDownFifoSignalEot :: "'h pib \<Rightarrow> 'h \<Rightarrow> (u32 \<times> 'h) option" where
  "sbeDownFifoSignalEot P h =
     (case sbeDownFifoGetStatus P h of (l_rc, l_status, h) \<Rightarrow>
        if l_rc \<noteq> 0 then Some (SBE_SEC_FIFO_ACCESS_FAILURE, h)
        else if down_fifo_full (high_word l_status) then sbeDownFifoSignalEot P (fifo_wait P h)
        else Some (putscom_abs P SBE_DOWNSTREAM_FIFO_SIGNAL_EOT DOWNSTREAM_EOT_DATA h))"

declare deq_loop.simps [code] enq_loop.simps [code] sbeDownFifoSignalEot.simps [code]

subsection \<open>Response headers\<close>

record sbeRespGenHdr_t =
  rh_magicCode :: u16
  rh_cmdClass :: u8
  rh_command :: u8
  rh_primaryStatus :: u16
  rh_secondaryStatus :: u16

record sbeResponseFfdc_t =
  rf_magicBytes :: u16
  rf_lenInWords :: u16
  rf_seqId :: u16
  rf_cmdClass :: u8
  rf_cmd :: u8
  rf_fapiRc :: u32

definition new_sbeResponseFfdc :: sbeResponseFfdc_t where
  "new_sbeResponseFfdc = \<lparr> rf_magicBytes = 0xFFDC, rf_lenInWords = 3, rf_seqId = 0, rf_cmdClass = 0,
     rf_cmd = 0, rf_fapiRc = 0 \<rparr>"

definition setCmdInfo :: "u16 \<Rightarrow> u8 \<Rightarrow> u8 \<Rightarrow> sbeResponseFfdc_t \<Rightarrow> sbeResponseFfdc_t" where
  "setCmdInfo i_seqId i_cmdClass i_cmd f = f\<lparr> rf_seqId := i_seqId, rf_cmdClass := i_cmdClass, rf_cmd := i_cmd \<rparr>"

definition word_of_halves :: "u16 \<Rightarrow> u16 \<Rightarrow> u32" where
  "word_of_halves a b = push_bit 16 (ucast a) OR ucast b"

definition word_of_half_bytes :: "u16 \<Rightarrow> u8 \<Rightarrow> u8 \<Rightarrow> u32" where
  "word_of_half_bytes a b c = push_bit 16 (ucast a) OR push_bit 8 (ucast b) OR ucast c"

text \<open>The structures as the words that are put into the FIFO.\<close>

definition resp_hdr_words :: "sbeRespGenHdr_t \<Rightarrow> u32 list" where
  "resp_hdr_words r = [word_of_half_bytes (rh_magicCode r) (rh_cmdClass r) (rh_command r),
     word_of_halves (rh_primaryStatus r) (rh_secondaryStatus r)]"

definition resp_ffdc_words :: "sbeResponseFfdc_t \<Rightarrow> u32 list" where
  "resp_ffdc_words f = [word_of_halves (rf_magicBytes f) (rf_lenInWords f),
     word_of_half_bytes (rf_seqId f) (rf_cmdClass f) (rf_cmd f), rf_fapiRc f]"

text \<open>
  What a response draws on besides the header: the hardware procedures' \<open>g_FfdcData\<close> (a length in
  bytes and words), the failure that \<open>setStatus\<close> recorded, the registers, and the blobs of
  \<open>sbeFFDCUserDataArray\<close>: identifier, length in bytes, words.
\<close>

record resp_env =
  ffdcLength :: u32
  ffdcData :: "nat \<Rightarrow> u32"
  failedPrimStatus :: u16
  failedSecStatus :: u16
  failedSeqId :: u16
  failedCmdClass :: u8
  failedCmd :: u8
  fwCommitID :: u32
  regAccess :: SbeRegAccess
  sbeFFDCUserDataArray :: "(u16 \<times> u16 \<times> (nat \<Rightarrow> u32)) list"

abbreviation "FAPI2_RC_SUCCESS_WORD \<equiv> 0 :: u32"
abbreviation "FAPI2_RC_PLAT_ERR_SEE_DATA \<equiv> 0x02000001 :: u32"
abbreviation "SBE_FFDC_ATTR_DUMP \<equiv> 0x0001 :: u32"
abbreviation "SBE_FFDC_TRACE_DUMP \<equiv> 0x0002 :: u32"
abbreviation "SBE_FFDC_ALL_DUMP \<equiv> 0xFFFF :: u32"
abbreviation "SBE_FFDC_DD2 \<equiv> 1 :: u32"

subsection \<open>The FFDC package\<close>

definition dump_fields_word :: "u32 \<Rightarrow> u32" where
  "dump_fields_word v = (if has_flag v SBE_FFDC_ATTR_DUMP then 0x80000000 else 0) OR
     (if has_flag v SBE_FFDC_TRACE_DUMP then 0x40000000 else 0)"

text \<open>\<open>updateUserDataHeader\<close> fills in both headers of the package; the length has 16 bits.\<close>

definition user_data_length :: "u32 \<Rightarrow> (u16 \<times> u16 \<times> (nat \<Rightarrow> u32)) list \<Rightarrow> u16" where
  "user_data_length i_fieldsConfig blobs =
     foldl (\<lambda>n (fieldId, fieldLen, d). if has_flag (ucast fieldId) i_fieldsConfig
                then n + ucast ((ucast fieldLen + 4 :: u32) div 4) else n) ((12 + 16) div 4) blobs"

definition package_headers :: "resp_env \<Rightarrow> u32 \<Rightarrow> u32 list \<times> u32 list" where
  "package_headers E i_fieldsConfig =
     (let iv_sbeFFDCHeader = setCmdInfo (failedSeqId E) (failedCmdClass E) (failedCmd E)
            (new_sbeResponseFfdc\<lparr> rf_fapiRc := FAPI2_RC_PLAT_ERR_SEE_DATA \<rparr>)
            \<lparr> rf_lenInWords := user_data_length i_fieldsConfig (sbeFFDCUserDataArray E) \<rparr>
      in (resp_ffdc_words iv_sbeFFDCHeader,
          [word_of_halves (failedPrimStatus E) (failedSecStatus E), fwCommitID E, SBE_FFDC_DD2,
           dump_fields_word i_fieldsConfig]))"

text \<open>Sending a structure: its words are the buffer, its size the count.\<close>

definition send_words :: "'h pib \<Rightarrow> u32 list \<Rightarrow> 'h \<Rightarrow> (u32 \<times> u32 \<times> 'h) option" where
  "send_words P ws h = sbeDownFifoEnq_mult P (of_nat (length ws)) (\<lambda>i. ws ! i) h"

fun send_blobs :: "'h pib \<Rightarrow> u32 \<Rightarrow> (u16 \<times> u16 \<times> (nat \<Rightarrow> u32)) list \<Rightarrow> u32 \<Rightarrow> 'h
    \<Rightarrow> (u32 \<times> u32 \<times> 'h) option" where
  "send_blobs P i_fieldsConfig [] o_bytesSent h = Some (0, o_bytesSent, h)"
| "send_blobs P i_fieldsConfig ((fieldId, fieldLen, d) # blobs) o_bytesSent h =
     (if has_flag (ucast fieldId) i_fieldsConfig
      then do {
        (rc, len, h) \<leftarrow> send_words P [word_of_halves fieldId fieldLen] h;
        if rc \<noteq> 0 then Some (rc, o_bytesSent, h)
        else do {
          let o_bytesSent = o_bytesSent + len;
          (rc, len, h) \<leftarrow> sbeDownFifoEnq_mult P (ucast (fieldLen div 4)) d h;
          if rc \<noteq> 0 then Some (rc, o_bytesSent, h)
          else send_blobs P i_fieldsConfig blobs (o_bytesSent + len) h
        }
      }
      else send_blobs P i_fieldsConfig blobs o_bytesSent h)"

definition sendOverFIFO :: "'h pib \<Rightarrow> resp_env \<Rightarrow> u32 \<Rightarrow> bool \<Rightarrow> 'h \<Rightarrow> (u32 \<times> u32 \<times> 'h) option" where
  "sendOverFIFO P E i_fieldsConfig i_skipffdcBitCheck h =
     (if \<not> i_skipffdcBitCheck \<and> \<not> isSendInternalFFDCSet (regAccess E) then Some (0, 0, h)
      else do {
        let hdrs = package_headers E i_fieldsConfig;
        (rc, len1, h) \<leftarrow> send_words P (fst hdrs) h;
        if rc \<noteq> 0 then Some (rc, 0, h)
        else do {
          (rc, len2, h) \<leftarrow> send_words P (snd hdrs) h;
          if rc \<noteq> 0 then Some (rc, len1, h)
          else send_blobs P i_fieldsConfig (sbeFFDCUserDataArray E) (len1 + len2) h
        }
      })"

subsection \<open>The response\<close>

text \<open>
  The steps of \<open>sbeDsSendRespHdr\<close> in order, each given the distance so far: the distance word, the
  internal FFDC, the FFDC of a hardware procedure.
\<close>

definition send_distance :: "'h pib \<Rightarrow> u32 \<Rightarrow> 'h \<Rightarrow> (u32 \<times> 'h) option" where
  "send_distance P distance h = do { (rc, len, h) \<leftarrow> send_words P [distance] h; Some (rc, h) }"

definition send_internal_ffdc :: "'h pib \<Rightarrow> resp_env \<Rightarrow> sbeRespGenHdr_t \<Rightarrow> u32 \<Rightarrow> 'h \<Rightarrow> (u32 \<times> 'h) option" where
  "send_internal_ffdc P E i_hdr distance h =
     (if rh_primaryStatus i_hdr \<noteq> 0 \<or> rh_secondaryStatus i_hdr \<noteq> 0
      then do {
        (rc, len, h) \<leftarrow> sendOverFIFO P E SBE_FFDC_ALL_DUMP False h;
        if rc \<noteq> 0 then Some (rc, h) else send_distance P (distance + len) h
      }
      else send_distance P distance h)"

definition command_ffdc :: "resp_env \<Rightarrow> sbeRespGenHdr_t \<Rightarrow> sbeResponseFfdc_t \<Rightarrow> sbeResponseFfdc_t" where
  "command_ffdc E i_hdr f =
     (let f = setCmdInfo 0 (rh_cmdClass i_hdr) (rh_command i_hdr) f
      in f\<lparr> rf_lenInWords := rf_lenInWords f + ucast (ffdcLength E div 4) \<rparr>)"

definition send_hwp_ffdc :: "'h pib \<Rightarrow> resp_env \<Rightarrow> sbeRespGenHdr_t \<Rightarrow> sbeResponseFfdc_t option \<Rightarrow> u32 \<Rightarrow> 'h
    \<Rightarrow> (u32 \<times> 'h) option" where
  "send_hwp_ffdc P E i_hdr i_ffdc distance h =
     (case i_ffdc of
        None \<Rightarrow> send_internal_ffdc P E i_hdr distance h
      | Some f \<Rightarrow>
          if rf_fapiRc f = FAPI2_RC_SUCCESS_WORD then send_internal_ffdc P E i_hdr distance h
          else if ffdcLength E mod 4 \<noteq> 0 then None
          else do {
            (rc, len, h) \<leftarrow> send_words P (resp_ffdc_words (command_ffdc E i_hdr f)) h;
            if rc \<noteq> 0 then Some (rc, h)
            else do {
              let distance = distance + len;
              (rc, ffdcDataLenInWords, h) \<leftarrow> sbeDownFifoEnq_mult P (ffdcLength E div 4) (ffdcData E) h;
              if rc \<noteq> 0 then Some (rc, h)
              else send_internal_ffdc P E i_hdr (distance + ffdcDataLenInWords) h
            }
          })"

definition sbeDsSendRespHdr :: "'h pib \<Rightarrow> resp_env \<Rightarrow> sbeRespGenHdr_t \<Rightarrow> sbeResponseFfdc_t option \<Rightarrow> 'h
    \<Rightarrow> (u32 \<times> 'h) option" where
  "sbeDsSendRespHdr P E i_hdr i_ffdc h = do {
     (rc, len, h) \<leftarrow> send_words P (resp_hdr_words i_hdr) h;
     if rc \<noteq> 0 then Some (rc, h) else send_hwp_ffdc P E i_hdr i_ffdc (1 + len) h
   }"

section \<open>Receiving a message\<close>

text \<open>
  The upstream FIFO as the hardware documents it: \<open>up h\<close> lists the entries the next reads return,
  and acknowledging an EOT and waiting do not consume any.
\<close>

definition fifo_feeds :: "'h pib \<Rightarrow> ('h \<Rightarrow> u64 list) \<Rightarrow> bool" where
  "fifo_feeds P up \<longleftrightarrow>
     (\<forall>h e es. up h = e # es \<longrightarrow> (\<exists>h'. getscom_abs P SBE_UPSTREAM_FIFO_DEQ_ADD h = (0, e, h') \<and> up h' = es)) \<and>
     (\<forall>h v. \<exists>h'. putscom_abs P SBE_UPSTREAM_FIFO_ACK_EOT v h = (0, h') \<and> up h' = up h) \<and>
     (\<forall>h n. up (pk_sleep_ms P n h) = up h)"

text \<open>Entries that carry a word or report an empty FIFO, without reset or parity error; the EOT entry.\<close>

definition plain_entry :: "u64 \<Rightarrow> bool" where
  "plain_entry e \<longleftrightarrow> \<not> up_req_upfifo_reset (low_word e) \<and> \<not> up_eot_flag (low_word e) \<and>
     (up_valid_flag (low_word e) \<or> \<not> up_parity_err (low_word e))"

definition eot_entry :: "u64 \<Rightarrow> bool" where
  "eot_entry e \<longleftrightarrow> \<not> up_req_upfifo_reset (low_word e) \<and> up_eot_flag (low_word e)"

definition words_of :: "u64 list \<Rightarrow> u32 list" where
  "words_of es = map high_word (filter (\<lambda>e. up_valid_flag (low_word e)) es)"

lemma words_of_simps [simp]:
  "words_of [] = []"
  "words_of (e # es) = (if up_valid_flag (low_word e) then high_word e # words_of es else words_of es)"
  "words_of (es @ fs) = words_of es @ words_of fs"
  by (simp_all add: words_of_def)

text \<open>The buffer with the words \<open>ws\<close> stored from index \<open>l\<close>, as far as the length \<open>n\<close> allows.\<close>

definition stored :: "nat \<Rightarrow> nat \<Rightarrow> u32 list \<Rightarrow> (nat \<Rightarrow> u32) \<Rightarrow> nat \<Rightarrow> u32" where
  "stored n l ws b i = (if l \<le> i \<and> i < l + length ws \<and> i < n then ws ! (i - l) else b i)"

lemma stored_Nil [simp]: "stored n l [] b = b"
  by (rule ext) (auto simp: stored_def)

lemma stored_Cons:
  "stored n (Suc l) ws (if l < n then b(l := w) else b) = stored n l (w # ws) b"
  by (rule ext) (auto simp: stored_def nth_Cons' Suc_le_eq)

definition keep_words :: "bool \<Rightarrow> u32 \<Rightarrow> u32 \<Rightarrow> u32 list \<Rightarrow> fifo_buffer \<Rightarrow> fifo_buffer" where
  "keep_words i_flush io_len l_len ws buf =
     (if i_flush then buf else map_option (stored (unat io_len) (unat l_len) ws) buf)"

lemma fifo_feeds_deq:
  assumes "fifo_feeds P up" "up h = e # es"
  obtains h' where "sbeUpFifoDeq P h = (0, e, h')" "up h' = es"
  using assms unfolding fifo_feeds_def sbeUpFifoDeq_def by blast

lemma fifo_feeds_ack:
  assumes "fifo_feeds P up"
  obtains h' where "sbeUpFifoAckEot P h = (0, h')" "up h' = up h"
  using assms unfolding fifo_feeds_def sbeUpFifoAckEot_def by blast

lemma fifo_feeds_wait: "fifo_feeds P up \<Longrightarrow> up (fifo_wait P h) = up h"
  by (simp add: fifo_feeds_def fifo_wait_def)

lemma plain_pass:
  assumes "fifo_feeds P up" "up h = e # es" "plain_entry e"
  obtains h' where "up h' = es"
    "deq_pass P io_len eot flush l buf h =
       (False, 0, if up_valid_flag (low_word e) then l + 1 else l,
        if up_valid_flag (low_word e) \<and> \<not> flush \<and> l < io_len
        then map_option (\<lambda>b. b(unat l := high_word e)) buf else buf, h')"
proof -
  obtain h1 where h1: "sbeUpFifoDeq P h = (0, e, h1)" "up h1 = es"
    by (rule fifo_feeds_deq [OF assms(1,2)])
  have "up (fifo_wait P h1) = es" using fifo_feeds_wait [OF assms(1)] h1(2) by simp
  with h1 assms(3) show ?thesis
    by (cases "up_valid_flag (low_word e)")
      (rule that, simp_all add: deq_pass_def plain_entry_def)+
qed

lemma keep_word:
  assumes "unat l + Suc (length ws) < 2 ^ 32"
  shows "keep_words flush io_len (l + 1) ws
      (if \<not> flush \<and> l < io_len then map_option (\<lambda>b. b(unat l := w)) buf else buf)
    = keep_words flush io_len l (w # ws) buf"
proof -
  have "unat (l + 1) = Suc (unat l)"
    using assms by (simp add: unat_add_no_wrap)
  then show ?thesis
    using stored_Cons [of "unat io_len" "unat l" ws _ w]
    by (cases buf) (auto simp: keep_words_def word_less_nat_alt split: if_splits)
qed

text \<open>Reading on to the EOT entry.\<close>

lemma deq_loop_eot:
  assumes "fifo_feeds P up" "up h = es @ e # rest" "\<forall>x \<in> set es. plain_entry x" "eot_entry e"
    "eot \<or> flush" "unat l + length (words_of es) < 2 ^ 32"
  shows "\<exists>h'. deq_loop P io_len eot flush l buf h =
      Some (if flush then 0 else
              if l + of_nat (length (words_of es)) = io_len \<and> eot then 0
              else if l + of_nat (length (words_of es)) < io_len then SBE_SEC_UNEXPECTED_EOT_INSUFFICIENT_DATA
              else SBE_SEC_UNEXPECTED_EOT_EXCESS_DATA,
            l + of_nat (length (words_of es)), keep_words flush io_len l (words_of es) buf, h')
      \<and> up h' = rest"
  using assms(2,3,6)
proof (induction es arbitrary: l buf h)
  case Nil
  obtain h1 where h1: "sbeUpFifoDeq P h = (0, e, h1)" "up h1 = rest"
    using Nil.prems(1) by (auto intro: fifo_feeds_deq [OF assms(1)])
  obtain h2 where h2: "sbeUpFifoAckEot P h1 = (0, h2)" "up h2 = up h1"
    by (rule fifo_feeds_ack [OF assms(1)])
  have "keep_words flush io_len l [] buf = buf"
    by (cases buf) (simp_all add: keep_words_def)
  with h1 h2 assms(4,5) show ?case
    by (subst deq_loop.simps) (auto simp: deq_pass_def eot_entry_def)
next
  case (Cons x es)
  have x: "plain_entry x" and es: "\<forall>y \<in> set es. plain_entry y" using Cons.prems(2) by simp_all
  obtain h1 where h1: "up h1 = es @ e # rest"
    "deq_pass P io_len eot flush l buf h =
       (False, 0, if up_valid_flag (low_word x) then l + 1 else l,
        if up_valid_flag (low_word x) \<and> \<not> flush \<and> l < io_len
        then map_option (\<lambda>b. b(unat l := high_word x)) buf else buf, h1)"
    using Cons.prems(1) by (auto intro: plain_pass [OF assms(1) _ x])
  note go = deq_loop.simps [of P io_len eot flush l buf h]
  show ?case
  proof (cases "up_valid_flag (low_word x)")
    case True
    let ?buf = "if \<not> flush \<and> l < io_len then map_option (\<lambda>b. b(unat l := high_word x)) buf else buf"
    have fits: "unat l + Suc (length (words_of es)) < 2 ^ 32" using Cons.prems(3) True by simp
    then have "unat (l + 1) + length (words_of es) < 2 ^ 32"
      by (simp add: unat_add_no_wrap)
    from Cons.IH [OF h1(1) es this, of ?buf] keep_word [OF fits, of flush io_len "high_word x" buf]
    show ?thesis using go h1(2) assms(5) True by (auto simp: add.assoc)
  next
    case False
    with Cons.prems(3) have "unat l + length (words_of es) < 2 ^ 32" by simp
    from Cons.IH [OF h1(1) es this, of buf] go h1(2) assms(5) False show ?thesis by auto
  qed
qed

text \<open>Reading exactly the words asked for.\<close>

lemma deq_loop_words:
  assumes "fifo_feeds P up" "up h = es @ rest" "\<forall>x \<in> set es. plain_entry x"
    "es \<noteq> []" "up_valid_flag (low_word (last es))" "unat l + length (words_of es) = unat io_len"
  shows "\<exists>h'. deq_loop P io_len False False l buf h =
      Some (0, io_len, keep_words False io_len l (words_of es) buf, h') \<and> up h' = rest"
  using assms(2-6)
proof (induction es arbitrary: l buf h)
  case Nil
  then show ?case by simp
next
  case (Cons x es)
  have x: "plain_entry x" and es: "\<forall>y \<in> set es. plain_entry y" using Cons.prems(2) by simp_all
  have up: "up h = x # (es @ rest)" using Cons.prems(1) by simp
  obtain h1 where h1: "up h1 = es @ rest"
    "deq_pass P io_len False False l buf h =
       (False, 0, if up_valid_flag (low_word x) then l + 1 else l,
        if up_valid_flag (low_word x) \<and> \<not> False \<and> l < io_len
        then map_option (\<lambda>b. b(unat l := high_word x)) buf else buf, h1)"
    by (rule plain_pass [OF assms(1) up x, of io_len False False l buf])
  note go = deq_loop.simps [of P io_len False False l buf h]
  have bound: "unat io_len < 2 ^ 32" using unsigned_less [of io_len] by simp
  show ?case
  proof (cases "up_valid_flag (low_word x)")
    case True
    let ?buf = "if \<not> False \<and> l < io_len then map_option (\<lambda>b. b(unat l := high_word x)) buf else buf"
    have len: "unat l + Suc (length (words_of es)) = unat io_len" using Cons.prems(5) True by simp
    then have fits: "unat l + Suc (length (words_of es)) < 2 ^ 32" using bound by simp
    then have l1: "unat (l + 1) = Suc (unat l)" by (simp add: unat_add_no_wrap)
    note kw = keep_word [OF fits, of False io_len "high_word x" buf]
    show ?thesis
    proof (cases "es = []")
      case Nil: True
      then have "l + 1 = io_len" using l1 len by (simp add: word_unat_eq_iff)
      moreover have "keep_words False io_len (l + 1) [] ?buf = ?buf"
        by (cases ?buf) (simp_all add: keep_words_def)
      ultimately show ?thesis using go h1 kw True Nil by auto
    next
      case False
      have "l + 1 < io_len"
      proof -
        have "words_of es \<noteq> []"
          using Cons.prems(4) False by (auto simp: words_of_def filter_empty_conv)
        then show ?thesis using l1 len by (cases "words_of es") (simp_all add: word_less_nat_alt)
      qed
      moreover have "unat (l + 1) + length (words_of es) = unat io_len" using l1 len by simp
      ultimately show ?thesis
        using Cons.IH [OF h1(1) es False, of "l + 1" ?buf] Cons.prems(4) False go h1(2) kw True by auto
    qed
  next
    case False
    then have "es \<noteq> []" "up_valid_flag (low_word (last es))" "unat l + length (words_of es) = unat io_len"
      using Cons.prems(4,5) by (auto split: if_splits)
    moreover have "l < io_len"
    proof -
      have "words_of es \<noteq> []"
        using calculation(1,2) by (auto simp: words_of_def filter_empty_conv)
      then show ?thesis using calculation(3) by (cases "words_of es") (simp_all add: word_less_nat_alt)
    qed
    ultimately show ?thesis
      using Cons.IH [OF h1(1) es, of l buf] go h1(2) False by auto
  qed
qed

lemma stored_all:
  assumes "length ws = n" "i < n"
  shows "stored n 0 ws b i = ws ! i"
  using assms by (simp add: stored_def)

lemma flush_to_eot:
  assumes "fifo_feeds P up" "up h = es @ e # rest" "\<forall>x \<in> set es. plain_entry x" "eot_entry e"
    "length (words_of es) < 2 ^ 32"
  shows "\<exists>h'. sbeUpFifoDeq_mult P n None True True h = Some (0, of_nat (length (words_of es)), None, h') \<and> up h' = rest"
  using deq_loop_eot [OF assms(1-4), of True True 0 n None] assms(5)
  by (auto simp: sbeUpFifoDeq_mult_def keep_words_def)

text \<open>
  Property C37. Receiving a message returns. A message arrives as words with empty reads in
  between and ends in an EOT. A first call that asks for the words of the header returns them and
  leaves the rest in the FIFO. A second call that expects the EOT returns the number of words that
  came, tells whether they were as many as expected, fewer or more, stores them in the buffer up
  to the expected number and changes nothing behind it, and a flush instead discards them; both
  consume exactly the message.
\<close>

theorem fifo_message_received:
  assumes "fifo_feeds P up" "up h = es1 @ es2 @ e # rest" "\<forall>x \<in> set (es1 @ es2). plain_entry x"
    "eot_entry e" "es1 \<noteq> []" "up_valid_flag (low_word (last es1))"
    "length (words_of es1) = unat n1" "length (words_of es2) < 2 ^ 32"
  shows "\<exists>h1 b1. sbeUpFifoDeq_mult P n1 (Some b) False False h = Some (0, n1, Some b1, h1) \<and>
      (\<forall>i. b1 i = (if i < unat n1 then words_of es1 ! i else b i)) \<and>
    (\<exists>h2 c2. sbeUpFifoDeq_mult P n2 (Some c) True False h1 =
        Some (if length (words_of es2) = unat n2 then SBE_SEC_OPERATION_SUCCESSFUL
              else if length (words_of es2) < unat n2 then SBE_SEC_UNEXPECTED_EOT_INSUFFICIENT_DATA
              else SBE_SEC_UNEXPECTED_EOT_EXCESS_DATA,
              of_nat (length (words_of es2)), Some c2, h2) \<and>
      (\<forall>i. c2 i = (if i < unat n2 \<and> i < length (words_of es2) then words_of es2 ! i else c i)) \<and>
      up h2 = rest) \<and>
    (\<exists>h3. sbeUpFifoDeq_mult P n2 None True True h1 =
        Some (SBE_SEC_OPERATION_SUCCESSFUL, of_nat (length (words_of es2)), None, h3) \<and> up h3 = rest)"
proof -
  have q1: "\<forall>x \<in> set es1. plain_entry x" and q2: "\<forall>x \<in> set es2. plain_entry x"
    using assms(3) by auto
  obtain h1 where h1: "deq_loop P n1 False False 0 (Some b) h =
      Some (0, n1, keep_words False n1 0 (words_of es1) (Some b), h1)" "up h1 = es2 @ e # rest"
    using deq_loop_words [OF assms(1,2) q1 assms(5,6), of 0 n1 "Some b"] assms(7) by auto
  define k where "k = (of_nat (length (words_of es2)) :: u32)"
  have k: "unat k = length (words_of es2)"
    using assms(8) by (simp add: k_def unat_of_nat_small)
  have small: "unat (0 :: u32) + length (words_of es2) < 2 ^ 32" using assms(8) by simp
  have eq: "(k = n2) = (length (words_of es2) = unat n2)" "(k < n2) = (length (words_of es2) < unat n2)"
    by (simp_all add: word_unat_eq_iff word_less_nat_alt k)
  note read = deq_loop_eot [OF assms(1) h1(2) q2 assms(4) _ small, of True False n2 "Some c", folded k_def]
  note flush = deq_loop_eot [OF assms(1) h1(2) q2 assms(4) _ small, of True True n2 None, folded k_def]
  show ?thesis
    using h1 read flush assms(7)
    by (auto simp: sbeUpFifoDeq_mult_def keep_words_def stored_def eq simp flip: k_def)
qed

text \<open>A FIFO in memory: entries to come, words sent, polls for which it stays full, EOTs signalled.\<close>

record fifo_sim =
  fs_up :: "u64 list"
  fs_sent :: "u32 list"
  fs_busy :: nat
  fs_eots :: nat

definition sim_get :: "u32 \<Rightarrow> fifo_sim \<Rightarrow> u32 \<times> u64 \<times> fifo_sim" where
  "sim_get a h =
     (if a = SBE_UPSTREAM_FIFO_DEQ_ADD
      then (case fs_up h of [] \<Rightarrow> (0, 0, h) | e # es \<Rightarrow> (0, e, h\<lparr> fs_up := es \<rparr>))
      else if a = SBE_DOWNSTREAM_FIFO_STATUS \<and> fs_busy h > 0
      then (0, 0x0020000000000000, h\<lparr> fs_busy := fs_busy h - 1 \<rparr>)
      else (0, 0, h))"

definition sim_put :: "u32 \<Rightarrow> u64 \<Rightarrow> fifo_sim \<Rightarrow> u32 \<times> fifo_sim" where
  "sim_put a v h =
     (if a = SBE_DOWNSTREAM_FIFO_ENQ_ADD then (0, h\<lparr> fs_sent := fs_sent h @ [high_word v] \<rparr>)
      else if a = SBE_DOWNSTREAM_FIFO_SIGNAL_EOT then (0, h\<lparr> fs_eots := Suc (fs_eots h) \<rparr>)
      else (0, h))"

definition sim_fifo :: "fifo_sim pib" where
  "sim_fifo = \<lparr> getscom_abs = sim_get, putscom_abs = sim_put, isSimicsRunning = False,
     pk_sleep_ms = (\<lambda>n h. h) \<rparr>"

lemma sim_fifo_feeds: "fifo_feeds sim_fifo fs_up"
  by (auto simp: fifo_feeds_def sim_fifo_def sim_get_def sim_put_def)

text \<open>One header word, an empty read, one more word, the EOT.\<close>

definition sample_up :: fifo_sim where
  "sample_up = \<lparr> fs_up = [0x0000000380000000, 0, 0x0000A20180000000, 0x40000000], fs_sent = [],
     fs_busy = 0, fs_eots = 0 \<rparr>"

lemmas entry_defs = plain_entry_def eot_entry_def low_word_def high_word_def up_valid_flag_def
  up_eot_flag_def up_parity_err_def up_req_upfifo_reset_def status_flag_def bf_get_def words_of_def

theorem fifo_message_received_witness:
  "\<exists>h1 b1. sbeUpFifoDeq_mult sim_fifo 1 (Some (\<lambda>_. 0)) False False sample_up = Some (0, 1, Some b1, h1) \<and>
    b1 0 = 3 \<and> (\<exists>h2 c2. sbeUpFifoDeq_mult sim_fifo 1 (Some (\<lambda>_. 0)) True False h1 = Some (0, 1, Some c2, h2) \<and>
      c2 0 = 0xA201 \<and> fs_up h2 = [])"
proof -
  have "words_of [0x0000000380000000] = [3]" "words_of [0, 0x0000A20180000000] = [0xA201]"
    by (simp_all add: entry_defs)
  then show ?thesis
    using fifo_message_received [OF sim_fifo_feeds, of sample_up "[0x0000000380000000]"
        "[0, 0x0000A20180000000]" "0x40000000" "[]" 1 "\<lambda>_. 0" 1 "\<lambda>_. 0"]
    by (auto simp: sample_up_def entry_defs)
qed

section \<open>Sending a response\<close>

text \<open>
  The downstream FIFO as the hardware documents it: no reset is requested, \<open>sent h\<close> are the words
  taken so far, a write to a FIFO that is not full adds one word, an EOT none, and a full FIFO is
  full for finitely many more polls, \<open>busy h\<close>.
\<close>

definition fifo_drains :: "'h pib \<Rightarrow> ('h \<Rightarrow> u32 list) \<Rightarrow> ('h \<Rightarrow> nat) \<Rightarrow> bool" where
  "fifo_drains P sent busy \<longleftrightarrow>
     (\<forall>h. \<exists>st h'. getscom_abs P SBE_DOWNSTREAM_FIFO_STATUS h = (0, st, h') \<and> sent h' = sent h \<and>
        \<not> down_req_upfifo_reset (high_word st) \<and>
        (if busy h = 0 then \<not> down_fifo_full (high_word st)
         else down_fifo_full (high_word st) \<and> busy (fifo_wait P h') < busy h)) \<and>
     (\<forall>h v. \<exists>h'. putscom_abs P SBE_DOWNSTREAM_FIFO_ENQ_ADD v h = (0, h') \<and> sent h' = sent h @ [high_word v]) \<and>
     (\<forall>h v. \<exists>h'. putscom_abs P SBE_DOWNSTREAM_FIFO_SIGNAL_EOT v h = (0, h') \<and> sent h' = sent h) \<and>
     (\<forall>h n. sent (pk_sleep_ms P n h) = sent h)"

lemma high_word_enq_data [simp]: "high_word (enq_data w) = w"
  by (rule bit_word_eqI) (auto simp: high_word_def enq_data_def bit_simps)

lemma drains_pass:
  assumes "fifo_drains P sent busy"
  obtains h' where "busy h = 0" "enq_pass P d l h = (False, 0, l + 1, h')" "sent h' = sent h @ [d (unat l)]"
  | h' where "busy h' < busy h" "enq_pass P d l h = (False, 0, l, h')" "sent h' = sent h"
proof -
  obtain st h1 where st: "sbeDownFifoGetStatus P h = (0, st, h1)" "sent h1 = sent h"
    "\<not> down_req_upfifo_reset (high_word st)"
    "if busy h = 0 then \<not> down_fifo_full (high_word st)
     else down_fifo_full (high_word st) \<and> busy (fifo_wait P h1) < busy h"
    using assms unfolding fifo_drains_def sbeDownFifoGetStatus_def by blast
  obtain h2 where h2: "sbeDownFifoEnq P (enq_data (d (unat l))) h1 = (0, h2)" "sent h2 = sent h1 @ [d (unat l)]"
    using assms unfolding fifo_drains_def sbeDownFifoEnq_def by (metis high_word_enq_data)
  have "sent (fifo_wait P h1) = sent h1" using assms by (simp add: fifo_drains_def fifo_wait_def)
  with st h2 show ?thesis
    by (cases "busy h = 0") (auto simp: enq_pass_def intro: that)
qed

lemma enq_word:
  assumes "fifo_drains P sent busy" "l < io_len"
  shows "\<exists>h'. sent h' = sent h @ [d (unat l)] \<and>
    enq_loop P io_len d l h = (if l + 1 < io_len then enq_loop P io_len d (l + 1) h' else Some (0, l + 1, h'))"
proof (induction "busy h" arbitrary: h rule: less_induct)
  case less
  show ?case
  proof (cases rule: drains_pass [OF assms(1), of h d l])
    case (1 h')
    then show ?thesis by (subst enq_loop.simps) auto
  next
    case (2 h')
    from less [OF 2(1)] 2 assms(2) show ?thesis by (subst enq_loop.simps) auto
  qed
qed

lemma enq_loop_sends:
  assumes "fifo_drains P sent busy" "l < io_len"
  shows "\<exists>h'. enq_loop P io_len d l h = Some (0, io_len, h') \<and>
    sent h' = sent h @ map d [unat l..<unat io_len]"
  using assms(2)
proof (induction "unat io_len - unat l" arbitrary: l h rule: less_induct)
  case less
  obtain h1 where h1: "sent h1 = sent h @ [d (unat l)]"
    "enq_loop P io_len d l h = (if l + 1 < io_len then enq_loop P io_len d (l + 1) h1 else Some (0, l + 1, h1))"
    using enq_word [OF assms(1) less.prems, of h d] by blast
  have lt: "unat l < unat io_len" using less.prems by (simp add: word_less_nat_alt)
  moreover have "unat io_len < 2 ^ 32" using unsigned_less [of io_len] by simp
  ultimately have l1: "unat (l + 1) = Suc (unat l)" by (simp add: unat_add_no_wrap)
  show ?case
  proof (cases "l + 1 < io_len")
    case True
    have "unat io_len - unat (l + 1) < unat io_len - unat l" using l1 lt by simp
    from less.hyps [OF this True, of h1] h1 True l1 lt show ?thesis
      by (auto simp: upt_conv_Cons)
  next
    case False
    then have "l + 1 = io_len" using l1 lt by (simp add: word_less_nat_alt word_unat_eq_iff)
    moreover from this have "unat io_len = Suc (unat l)" using l1 by simp
    ultimately show ?thesis using h1 False by auto
  qed
qed

text \<open>A call with a count of zero sends one word if the FIFO has room at once.\<close>

lemma enq_mult_zero:
  assumes "fifo_drains P sent busy"
  shows "\<exists>h'. sbeDownFifoEnq_mult P 0 d h =
      Some (0, if busy h = 0 then 1 else 0, h') \<and> sent h' = sent h @ (if busy h = 0 then [d 0] else [])"
  by (cases rule: drains_pass [OF assms, of h d 0])
    (auto simp: sbeDownFifoEnq_mult_def enq_loop.simps)

lemma enq_mult_sends:
  assumes "fifo_drains P sent busy" "0 < n"
  shows "\<exists>h'. sbeDownFifoEnq_mult P n d h = Some (0, n, h') \<and> sent h' = sent h @ map d [0..<unat n]"
  using enq_loop_sends [OF assms, of d h] by (simp add: sbeDownFifoEnq_mult_def)

lemma enq_mult_any:
  assumes "fifo_drains P sent busy"
  shows "\<exists>h' ws. sbeDownFifoEnq_mult P n d h = Some (0, of_nat (length ws), h') \<and> sent h' = sent h @ ws \<and>
    length ws \<le> max 1 (unat n) \<and> (0 < n \<longrightarrow> ws = map d [0..<unat n])"
proof (cases "n = 0")
  case True
  then show ?thesis using enq_mult_zero [OF assms, of d h]
    by (cases "busy h = 0") force+
next
  case False
  then show ?thesis using enq_mult_sends [OF assms, of n d h] by (auto simp: word_gt_0)
qed

lemma send_words_sends:
  assumes "fifo_drains P sent busy" "ws \<noteq> []" "length ws < 2 ^ 32"
  shows "\<exists>h'. send_words P ws h = Some (0, of_nat (length ws), h') \<and> sent h' = sent h @ ws"
proof -
  have n: "unat (of_nat (length ws) :: u32) = length ws"
    using assms(3) by (simp add: unat_of_nat_small)
  then have "(0 :: u32) < of_nat (length ws)" using assms(2) by (simp add: word_less_nat_alt)
  from enq_mult_sends [OF assms(1) this, of "(!) ws" h] show ?thesis
    by (simp add: send_words_def n map_nth)
qed

text \<open>Each part of a response: what it sends and how the distance grows with it.\<close>

lemma send_blobs_sends:
  assumes "fifo_drains P sent busy"
  shows "\<exists>h' ws. send_blobs P cfg blobs b h = Some (0, b + of_nat (length ws), h') \<and> sent h' = sent h @ ws \<and>
    length ws \<le> length blobs * 2 ^ 15"
proof (induction blobs arbitrary: b h)
  case Nil
  then show ?case by simp
next
  case (Cons blob blobs)
  obtain fieldId fieldLen d where blob: "blob = (fieldId, fieldLen, d)" by (rule prod_cases3)
  show ?case
  proof (cases "has_flag (ucast fieldId) cfg")
    case False
    with Cons.IH [of b h] show ?thesis by (auto simp: blob)
  next
    case True
    obtain h1 where 1: "send_words P [word_of_halves fieldId fieldLen] h = Some (0, 1, h1)"
      "sent h1 = sent h @ [word_of_halves fieldId fieldLen]"
      using send_words_sends [OF assms, of "[word_of_halves fieldId fieldLen]" h] by auto
    obtain h2 ws where 2: "sbeDownFifoEnq_mult P (ucast (fieldLen div 4)) d h1 = Some (0, of_nat (length ws), h2)"
      "sent h2 = sent h1 @ ws" "length ws \<le> max 1 (unat (ucast (fieldLen div 4) :: u32))"
      using enq_mult_any [OF assms] by blast
    have "unat (ucast (fieldLen div 4) :: u32) = unat fieldLen div 4"
      by (simp add: unat_ucast_up unat_div)
    moreover have "unat fieldLen < 2 ^ 16" using unsigned_less [of fieldLen] by simp
    ultimately have "length ws \<le> 2 ^ 14" using 2(3) by simp
    moreover obtain h3 vs where 3: "send_blobs P cfg blobs (b + 1 + of_nat (length ws)) h2 =
        Some (0, b + 1 + of_nat (length ws) + of_nat (length vs), h3)" "sent h3 = sent h2 @ vs"
      "length vs \<le> length blobs * 2 ^ 15"
      using Cons.IH by blast
    ultimately show ?thesis
      using True 1 2 3 by (intro exI [of _ h3] exI [of _ "word_of_halves fieldId fieldLen # ws @ vs"])
        (simp add: blob add.assoc)
  qed
qed

lemma package_header_lengths:
  "length (fst (package_headers E cfg)) = 3" "length (snd (package_headers E cfg)) = 4"
  by (simp_all add: package_headers_def Let_def resp_ffdc_words_def)

lemma sendOverFIFO_sends:
  assumes "fifo_drains P sent busy"
  shows "\<exists>h' ws. sendOverFIFO P E cfg skip h = Some (0, of_nat (length ws), h') \<and> sent h' = sent h @ ws \<and>
    length ws \<le> 7 + length (sbeFFDCUserDataArray E) * 2 ^ 15"
proof (cases "\<not> skip \<and> \<not> isSendInternalFFDCSet (regAccess E)")
  case True
  then show ?thesis by (auto simp: sendOverFIFO_def)
next
  case False
  let ?a = "fst (package_headers E cfg)" and ?b = "snd (package_headers E cfg)"
  have ne: "?a \<noteq> []" "?b \<noteq> []" using package_header_lengths [of E cfg] by auto
  obtain h1 where 1: "send_words P ?a h = Some (0, 3, h1)" "sent h1 = sent h @ ?a"
    using send_words_sends [OF assms ne(1), of h] by (auto simp: package_header_lengths)
  obtain h2 where 2: "send_words P ?b h1 = Some (0, 4, h2)" "sent h2 = sent h1 @ ?b"
    using send_words_sends [OF assms ne(2), of h1] by (auto simp: package_header_lengths)
  obtain h3 ws where 3: "send_blobs P cfg (sbeFFDCUserDataArray E) 7 h2 = Some (0, 7 + of_nat (length ws), h3)"
    "sent h3 = sent h2 @ ws" "length ws \<le> length (sbeFFDCUserDataArray E) * 2 ^ 15"
    using send_blobs_sends [OF assms] by blast
  show ?thesis
    using False 1 2 3 by (intro exI [of _ h3] exI [of _ "?a @ ?b @ ws"])
      (auto simp: sendOverFIFO_def package_header_lengths)
qed

lemma send_distance_sends:
  assumes "fifo_drains P sent busy"
  shows "\<exists>h'. send_distance P dist h = Some (0, h') \<and> sent h' = sent h @ [dist]"
  using send_words_sends [OF assms, of "[dist]" h] by (auto simp: send_distance_def)

lemma send_internal_sends:
  assumes "fifo_drains P sent busy"
  shows "\<exists>h' ws. send_internal_ffdc P E hdr dist h = Some (0, h') \<and>
    sent h' = sent h @ ws @ [dist + of_nat (length ws)] \<and>
    length ws \<le> 7 + length (sbeFFDCUserDataArray E) * 2 ^ 15 \<and>
    (rh_primaryStatus hdr = 0 \<and> rh_secondaryStatus hdr = 0 \<longrightarrow> ws = [])"
proof (cases "rh_primaryStatus hdr = 0 \<and> rh_secondaryStatus hdr = 0")
  case True
  then show ?thesis using send_distance_sends [OF assms, of dist h] by (auto simp: send_internal_ffdc_def)
next
  case False
  obtain h1 ws where 1: "sendOverFIFO P E SBE_FFDC_ALL_DUMP False h = Some (0, of_nat (length ws), h1)"
    "sent h1 = sent h @ ws" "length ws \<le> 7 + length (sbeFFDCUserDataArray E) * 2 ^ 15"
    using sendOverFIFO_sends [OF assms] by blast
  then show ?thesis using False send_distance_sends [OF assms, of "dist + of_nat (length ws)" h1]
    by (auto simp: send_internal_ffdc_def)
qed

lemma send_hwp_sends:
  assumes "fifo_drains P sent busy" "ffdcLength E mod 4 = 0"
  shows "\<exists>h' ws. send_hwp_ffdc P E hdr ffdc dist h = Some (0, h') \<and>
    sent h' = sent h @ ws @ [dist + of_nat (length ws)] \<and>
    length ws \<le> 2 ^ 31 + length (sbeFFDCUserDataArray E) * 2 ^ 15 \<and>
    (rh_primaryStatus hdr = 0 \<and> rh_secondaryStatus hdr = 0 \<and> ffdc = None \<longrightarrow> ws = []) \<and>
    (\<forall>f. ffdc = Some f \<and> rf_fapiRc f \<noteq> 0 \<and> 0 < ffdcLength E \<longrightarrow>
       (\<exists>vs. ws = resp_ffdc_words (command_ffdc E hdr f) @ map (ffdcData E) [0..<unat (ffdcLength E) div 4] @ vs))"
proof (cases "\<exists>f. ffdc = Some f \<and> rf_fapiRc f \<noteq> 0")
  case False
  then have "send_hwp_ffdc P E hdr ffdc dist h = send_internal_ffdc P E hdr dist h"
    by (auto simp: send_hwp_ffdc_def split: option.split)
  moreover have "\<exists>h' ws. send_internal_ffdc P E hdr dist h = Some (0, h') \<and>
    sent h' = sent h @ ws @ [dist + of_nat (length ws)] \<and>
    length ws \<le> 7 + length (sbeFFDCUserDataArray E) * 2 ^ 15 \<and>
    (rh_primaryStatus hdr = 0 \<and> rh_secondaryStatus hdr = 0 \<longrightarrow> ws = [])"
    by (rule send_internal_sends [OF assms(1)])
  ultimately show ?thesis using False by fastforce
next
  case True
  then obtain f where f: "ffdc = Some f" "rf_fapiRc f \<noteq> 0" by blast
  let ?f = "resp_ffdc_words (command_ffdc E hdr f)"
  have len: "length ?f = 3" by (simp add: resp_ffdc_words_def)
  then have "?f \<noteq> []" by auto
  then obtain h1 where 1: "send_words P ?f h = Some (0, 3, h1)" "sent h1 = sent h @ ?f"
    using send_words_sends [OF assms(1), of ?f h] len by auto
  obtain h2 ws where 2: "sbeDownFifoEnq_mult P (ffdcLength E div 4) (ffdcData E) h1 = Some (0, of_nat (length ws), h2)"
    "sent h2 = sent h1 @ ws" "length ws \<le> max 1 (unat (ffdcLength E div 4))"
    "0 < ffdcLength E div 4 \<longrightarrow> ws = map (ffdcData E) [0..<unat (ffdcLength E div 4)]"
    using enq_mult_any [OF assms(1)] by blast
  obtain h3 vs where 3: "send_internal_ffdc P E hdr (dist + 3 + of_nat (length ws)) h2 = Some (0, h3)"
    "sent h3 = sent h2 @ vs @ [dist + 3 + of_nat (length ws) + of_nat (length vs)]"
    "length vs \<le> 7 + length (sbeFFDCUserDataArray E) * 2 ^ 15"
    using send_internal_sends [OF assms(1)] by blast
  have n: "unat (ffdcLength E div 4) = unat (ffdcLength E) div 4" by (simp add: unat_div)
  have "unat (ffdcLength E) < 2 ^ 32" using unsigned_less [of "ffdcLength E"] by simp
  then have "length ws \<le> 2 ^ 30" using 2(3) n by simp
  moreover have "0 < ffdcLength E div 4" if "0 < ffdcLength E"
  proof -
    have "unat (ffdcLength E mod 4) = unat (ffdcLength E) mod 4" by (simp add: unat_mod)
    then have "unat (ffdcLength E) mod 4 = 0" using assms(2) by simp
    then show ?thesis using that n by (simp add: word_less_nat_alt) presburger
  qed
  ultimately show ?thesis
    using f 1 2 3 assms(2) n by (intro exI [of _ h3] exI [of _ "?f @ ws @ vs"])
      (auto simp: send_hwp_ffdc_def len add.assoc)
qed

text \<open>
  How a reader takes a response apart: the last word counts the words of the response, so it
  leads from the end of the message back to the header.
\<close>

definition parse_header :: "u32 \<Rightarrow> u32 \<Rightarrow> sbeRespGenHdr_t" where
  "parse_header a b = \<lparr> rh_magicCode = ucast (drop_bit 16 a), rh_cmdClass = ucast (drop_bit 8 a),
     rh_command = ucast a, rh_primaryStatus = ucast (drop_bit 16 b), rh_secondaryStatus = ucast b \<rparr>"

definition parse_response :: "u32 list \<Rightarrow> u32 list \<times> sbeRespGenHdr_t" where
  "parse_response ws =
     (let k = length ws - unat (last ws) in (take k ws, parse_header (ws ! k) (ws ! Suc k)))"

lemma parse_resp_hdr: "parse_header (resp_hdr_words r ! 0) (resp_hdr_words r ! 1) = r"
proof -
  have "(ucast (drop_bit 16 (word_of_half_bytes a b c)) :: u16) = a"
    "(ucast (drop_bit 8 (word_of_half_bytes a b c)) :: u8) = b"
    "(ucast (word_of_half_bytes a b c) :: u8) = c" for a b c
    by (rule bit_word_eqI, auto simp: word_of_half_bytes_def bit_simps dest: bit_imp_le_length)+
  moreover have "(ucast (drop_bit 16 (word_of_halves a b)) :: u16) = a"
    "(ucast (word_of_halves a b) :: u16) = b" for a b
    by (rule bit_word_eqI, auto simp: word_of_halves_def bit_simps dest: bit_imp_le_length)+
  ultimately show ?thesis by (simp add: parse_header_def resp_hdr_words_def)
qed

lemma send_resp_hdr_sends:
  assumes "fifo_drains P sent busy" "ffdcLength E mod 4 = 0" "length (sbeFFDCUserDataArray E) \<le> 2"
  shows "\<exists>h' body. sbeDsSendRespHdr P E hdr ffdc h = Some (0, h') \<and>
    sent h' = sent h @ resp_hdr_words hdr @ body @ [of_nat (length body + 3)] \<and>
    length body + 3 < 2 ^ 32 \<and>
    (rh_primaryStatus hdr = 0 \<and> rh_secondaryStatus hdr = 0 \<and> ffdc = None \<longrightarrow> body = []) \<and>
    (\<forall>f. ffdc = Some f \<and> rf_fapiRc f \<noteq> 0 \<and> 0 < ffdcLength E \<longrightarrow>
       (\<exists>vs. body = resp_ffdc_words (command_ffdc E hdr f) @
          map (ffdcData E) [0..<unat (ffdcLength E) div 4] @ vs))"
proof -
  have len: "length (resp_hdr_words hdr) = 2" by (simp add: resp_hdr_words_def)
  then have "resp_hdr_words hdr \<noteq> []" by auto
  then obtain h1 where 1: "send_words P (resp_hdr_words hdr) h = Some (0, 2, h1)"
    "sent h1 = sent h @ resp_hdr_words hdr"
    using send_words_sends [OF assms(1), of "resp_hdr_words hdr" h] len by auto
  obtain h2 ws where 2: "send_hwp_ffdc P E hdr ffdc 3 h1 = Some (0, h2)"
    "sent h2 = sent h1 @ ws @ [3 + of_nat (length ws)]"
    "length ws \<le> 2 ^ 31 + length (sbeFFDCUserDataArray E) * 2 ^ 15"
    "rh_primaryStatus hdr = 0 \<and> rh_secondaryStatus hdr = 0 \<and> ffdc = None \<longrightarrow> ws = []"
    "\<forall>f. ffdc = Some f \<and> rf_fapiRc f \<noteq> 0 \<and> 0 < ffdcLength E \<longrightarrow>
       (\<exists>vs. ws = resp_ffdc_words (command_ffdc E hdr f) @ map (ffdcData E) [0..<unat (ffdcLength E) div 4] @ vs)"
    using send_hwp_sends [OF assms(1,2), of hdr ffdc 3 h1] by (elim exE conjE) (rule that)
  have "length ws + 3 < 2 ^ 32" using 2(3) assms(3) by simp
  moreover have "sbeDsSendRespHdr P E hdr ffdc h = Some (0, h2)"
    using 1(1) 2(1) by (simp add: sbeDsSendRespHdr_def)
  moreover have "sent h2 = sent h @ resp_hdr_words hdr @ ws @ [of_nat (length ws + 3)]"
    using 1 2 by (simp add: add.commute)
  ultimately show ?thesis using 2(4,5) by blast
qed

lemma parse_sent:
  assumes "length body + 3 < 2 ^ 32"
  shows "parse_response (p @ resp_hdr_words hdr @ body @ [of_nat (length body + 3)]) = (p, hdr)"
proof -
  have len: "length (resp_hdr_words hdr) = 2" by (simp add: resp_hdr_words_def)
  have "length body + 3 < 2 ^ LENGTH(32)" using assms by simp
  then have d: "unat (of_nat (length body + 3) :: u32) = length body + 3" by (rule unat_of_nat_small)
  have "parse_response (p @ r @ body @ [dist]) = (p, parse_header (r ! 0) (r ! 1))"
    if "length r = 2" "unat dist = length body + 3" for r :: "u32 list" and dist
    using that by (simp add: parse_response_def nth_append)
  from this [OF len d] show ?thesis by (simp only: parse_resp_hdr)
qed

text \<open>
  Property C38. Whatever a chip operation has sent before, \<open>sbeDsSendRespHdr\<close> returns once the FIFO
  drains, and a reader that follows the last word of the message back finds the response header
  and separates it from the data. A successful response without FFDC is the header and the
  distance only; the data that a failed hardware procedure collected follows the header.
\<close>

theorem response_roundtrip:
  assumes "fifo_drains P sent busy" "ffdcLength E mod 4 = 0" "length (sbeFFDCUserDataArray E) \<le> 2"
  shows "\<exists>h' body. sbeDsSendRespHdr P E hdr ffdc h = Some (0, h') \<and>
    sent h' = sent h @ resp_hdr_words hdr @ body @ [of_nat (length body + 3)] \<and>
    parse_response (sent h') = (sent h, hdr) \<and>
    (rh_primaryStatus hdr = 0 \<and> rh_secondaryStatus hdr = 0 \<and> ffdc = None \<longrightarrow> body = []) \<and>
    (\<forall>f. ffdc = Some f \<and> rf_fapiRc f \<noteq> 0 \<and> 0 < ffdcLength E \<longrightarrow>
       (\<exists>vs. body = resp_ffdc_words (command_ffdc E hdr f) @
          map (ffdcData E) [0..<unat (ffdcLength E) div 4] @ vs))"
proof -
  obtain h' body where 1: "sbeDsSendRespHdr P E hdr ffdc h = Some (0, h')"
    "sent h' = sent h @ resp_hdr_words hdr @ body @ [of_nat (length body + 3)]" "length body + 3 < 2 ^ 32"
    "rh_primaryStatus hdr = 0 \<and> rh_secondaryStatus hdr = 0 \<and> ffdc = None \<longrightarrow> body = []"
    "\<forall>f. ffdc = Some f \<and> rf_fapiRc f \<noteq> 0 \<and> 0 < ffdcLength E \<longrightarrow>
       (\<exists>vs. body = resp_ffdc_words (command_ffdc E hdr f) @ map (ffdcData E) [0..<unat (ffdcLength E) div 4] @ vs)"
    using send_resp_hdr_sends [OF assms, of hdr ffdc h] by (elim exE conjE) (rule that)
  then have "parse_response (sent h') = (sent h, hdr)" by (simp only: parse_sent)
  with 1 show ?thesis by blast
qed

lemma sim_fifo_drains: "fifo_drains sim_fifo fs_sent fs_busy"
  by (auto simp: fifo_drains_def sim_fifo_def sim_get_def sim_put_def fifo_wait_def high_word_def
      down_req_upfifo_reset_def down_fifo_full_def status_flag_def bf_get_def)

text \<open>A failed GetScom with eight bytes of FFDC from the procedure; the FIFO is full for two polls.\<close>

definition sample_env :: resp_env where
  "sample_env = \<lparr> ffdcLength = 8, ffdcData = (\<lambda>i. of_nat i + 0x10), failedPrimStatus = 0xFE, failedSecStatus = 0x0A,
     failedSeqId = 0, failedCmdClass = 0xA2, failedCmd = 1, fwCommitID = 0x1234,
     regAccess = reset_regs\<lparr> iv_mbx3 := 0x0400000000000000 \<rparr>,
     sbeFFDCUserDataArray = [(2, 8, \<lambda>i. 7), (1, 4, \<lambda>i. 9)] \<rparr>"

definition sample_hdr :: sbeRespGenHdr_t where
  "sample_hdr = \<lparr> rh_magicCode = 0xC0DE, rh_cmdClass = 0xA2, rh_command = 1, rh_primaryStatus = 0xFE,
     rh_secondaryStatus = 0x0A \<rparr>"

theorem response_roundtrip_witness:
  "\<exists>h'. sbeDsSendRespHdr sim_fifo sample_env sample_hdr (Some (new_sbeResponseFfdc\<lparr> rf_fapiRc := 5 \<rparr>))
      (sample_up\<lparr> fs_sent := [1, 2], fs_busy := 2 \<rparr>) = Some (0, h') \<and>
    parse_response (fs_sent h') = ([1, 2], sample_hdr)"
proof -
  have "ffdcLength sample_env mod 4 = 0" "length (sbeFFDCUserDataArray sample_env) \<le> 2"
    by (simp_all add: sample_env_def)
  from response_roundtrip [OF sim_fifo_drains this, of sample_hdr "Some (new_sbeResponseFfdc\<lparr> rf_fapiRc := 5 \<rparr>)"
      "sample_up\<lparr> fs_sent := [1, 2], fs_busy := 2 \<rparr>"]
  show ?thesis by auto
qed

text \<open>
  Signalling the EOT returns once the FIFO drains. It does not look at the reset request: while the
  FIFO stays full it polls for ever, whatever the service processor asks for.
\<close>

lemma signal_eot_returns:
  assumes "fifo_drains P sent busy"
  shows "\<exists>h'. sbeDownFifoSignalEot P h = Some (0, h') \<and> sent h' = sent h"
proof (induction "busy h" arbitrary: h rule: less_induct)
  case less
  obtain st h1 where st: "sbeDownFifoGetStatus P h = (0, st, h1)" "sent h1 = sent h"
    "if busy h = 0 then \<not> down_fifo_full (high_word st)
     else down_fifo_full (high_word st) \<and> busy (fifo_wait P h1) < busy h"
    using assms unfolding fifo_drains_def sbeDownFifoGetStatus_def by blast
  have w: "sent (fifo_wait P h1) = sent h1" using assms by (simp add: fifo_drains_def fifo_wait_def)
  note go = sbeDownFifoSignalEot.simps [of P h]
  show ?case
  proof (cases "busy h = 0")
    case True
    moreover obtain h2 where "putscom_abs P SBE_DOWNSTREAM_FIFO_SIGNAL_EOT DOWNSTREAM_EOT_DATA h1 = (0, h2)"
      "sent h2 = sent h1"
      using assms unfolding fifo_drains_def by blast
    ultimately show ?thesis using st go by auto
  next
    case False
    with st have "busy (fifo_wait P h1) < busy h" "down_fifo_full (high_word st)" by simp_all
    with less [of "fifo_wait P h1"] st w go show ?thesis by simp
  qed
qed

lemma signal_eot_hangs:
  assumes "\<And>h. \<exists>st h'. sbeDownFifoGetStatus P h = (0, st, h') \<and> down_fifo_full (high_word st)"
  shows "sbeDownFifoSignalEot P h = None"
proof (cases "sbeDownFifoSignalEot P h")
  case (Some y)
  have "(case (P, h) of (Q, h) \<Rightarrow> Q = P \<longrightarrow> False)"
  proof (rule sbeDownFifoSignalEot.raw_induct [where Pa = "\<lambda>x y. case x of (Q, h) \<Rightarrow> Q = P \<longrightarrow> False", OF _ Some])
    fix f Q h y
    assume "\<And>h b y. f h b = Some y \<Longrightarrow> (case (h, b) of (Q, h) \<Rightarrow> Q = P \<longrightarrow> False)"
      "(case sbeDownFifoGetStatus Q h of (l_rc, l_status, h) \<Rightarrow>
        if l_rc \<noteq> 0 then Some (SBE_SEC_FIFO_ACCESS_FAILURE, h)
        else if down_fifo_full (high_word l_status) then f Q (fifo_wait Q h)
        else Some (putscom_abs Q SBE_DOWNSTREAM_FIFO_SIGNAL_EOT DOWNSTREAM_EOT_DATA h)) = Some y"
    with assms [of h] show "case (Q, h) of (Q, h) \<Rightarrow> Q = P \<longrightarrow> False"
      by (cases y) (fastforce split: if_splits)
  qed
  then show ?thesis by simp
qed simp

end
