(* ===== verification/Sbe_Chipop.thy ===== *)
theory Sbe_Chipop
  imports Sbe_State
begin

unbundle bit_operations_syntax

text \<open>
  The chip operations: the table of \<open>app/power/chipop_table.C\<close>, its lookup by command class and
  opcode and the checks of \<open>chipop_handler.C\<close>. A function pointer is the name of the function.
\<close>

datatype sbeCmdFunc =
    sbeHandleIstep | sbeHandleSuspendIO | sbeHandleFlushNVDIMM
  | sbeGetScom | sbePutScom | sbeModifyScom | sbePutScomUnderMask | sbeMultiScom
  | sbeGetRing | sbePutRing
  | sbeGetMem | sbePutMem | sbeGetOccSram | sbePutOccSram
  | sbeGetReg | sbePutReg
  | sbeControlFastArray | sbeControlTraceArray
  | sbeCntlInst
  | sbeGetCapabilities | sbeGetFfdc | sbeFifoQuiesce
  | sbeEnterMpipl | sbeContinueMpipl | sbeStopClocks | sbeCollectDumpMpipl
  | sbeControlDeadmanTimer
  | sbePutRingFromImagePSU
  | sbeCntrlTimer
  | sbeUpdateMemAccessRegion
  | sbePsuGetCapabilities | sbeReadMem | sbeSetFFDCAddr | sbePsuQuiesce | sbeSetSystemFabricMap
  | sbeStashKeyAddrPair | sbeSecurityListBinDump

record cmdStruct_t =
  cmd_func :: sbeCmdFunc
  cmd_opcode :: u8
  cmd_state_fence :: u16

abbreviation "SBE_NO_FENCE \<equiv> 0x0000 :: u16"
abbreviation "SBE_FENCE_AT_DUMPING \<equiv> 0x0001 :: u16"
abbreviation "SBE_FENCE_AT_MPIPL \<equiv> 0x0002 :: u16"
abbreviation "SBE_FENCE_AT_CONTINUOUS_IPL \<equiv> 0x0004 :: u16"
abbreviation "SBE_FENCE_AT_ISTEP \<equiv> 0x0008 :: u16"
abbreviation "SBE_FENCE_AT_RUNTIME \<equiv> 0x0010 :: u16"
abbreviation "SBE_FENCE_AT_QUIESCE \<equiv> 0x0020 :: u16"
abbreviation "SBE_FENCE_AT_DMT \<equiv> 0x0040 :: u16"
abbreviation "SBE_FENCE_AT_SECURE_MODE \<equiv> 0x0080 :: u16"

definition HARDWARE_FENCED_STATE :: u16 where
  "HARDWARE_FENCED_STATE = SBE_FENCE_AT_CONTINUOUS_IPL OR SBE_FENCE_AT_DMT"

definition PUT_HARDWARE_FENCED_STATE :: u16 where
  "PUT_HARDWARE_FENCED_STATE = HARDWARE_FENCED_STATE OR SBE_FENCE_AT_MPIPL"

definition cmd :: "sbeCmdFunc \<Rightarrow> u8 \<Rightarrow> u16 \<Rightarrow> cmdStruct_t" where
  "cmd f opc fence = \<lparr> cmd_func = f, cmd_opcode = opc, cmd_state_fence = fence \<rparr>"

subsection \<open>The table\<close>

definition cmdClassArr_A1 :: "cmdStruct_t list" where
  "cmdClassArr_A1 =
    [cmd sbeHandleIstep 0x01 (HARDWARE_FENCED_STATE OR SBE_FENCE_AT_DUMPING),
     cmd sbeHandleSuspendIO 0x02 SBE_FENCE_AT_DUMPING,
     cmd sbeHandleFlushNVDIMM 0x03 (HARDWARE_FENCED_STATE OR SBE_FENCE_AT_DUMPING)]"

definition cmdClassArr_A2 :: "cmdStruct_t list" where
  "cmdClassArr_A2 =
    [cmd sbeGetScom 0x01 HARDWARE_FENCED_STATE,
     cmd sbePutScom 0x02 HARDWARE_FENCED_STATE,
     cmd sbeModifyScom 0x03 HARDWARE_FENCED_STATE,
     cmd sbePutScomUnderMask 0x04 HARDWARE_FENCED_STATE,
     cmd sbeMultiScom 0x05 HARDWARE_FENCED_STATE]"

definition cmdClassArr_A3 :: "cmdStruct_t list" where
  "cmdClassArr_A3 =
    [cmd sbeGetRing 0x01 (SBE_FENCE_AT_CONTINUOUS_IPL OR SBE_FENCE_AT_QUIESCE),
     cmd sbePutRing 0x02 (HARDWARE_FENCED_STATE OR SBE_FENCE_AT_QUIESCE)]"

definition cmdClassArr_A4 :: "cmdStruct_t list" where
  "cmdClassArr_A4 =
    [cmd sbeGetMem 0x01 SBE_FENCE_AT_CONTINUOUS_IPL,
     cmd sbePutMem 0x02 PUT_HARDWARE_FENCED_STATE,
     cmd sbeGetOccSram 0x03 HARDWARE_FENCED_STATE,
     cmd sbePutOccSram 0x04 PUT_HARDWARE_FENCED_STATE]"

definition cmdClassArr_A5 :: "cmdStruct_t list" where
  "cmdClassArr_A5 =
    [cmd sbeGetReg 0x01 HARDWARE_FENCED_STATE,
     cmd sbePutReg 0x02 (PUT_HARDWARE_FENCED_STATE OR SBE_FENCE_AT_SECURE_MODE)]"

definition cmdClassArr_A6 :: "cmdStruct_t list" where
  "cmdClassArr_A6 =
    [cmd sbeControlFastArray 0x01 SBE_FENCE_AT_QUIESCE,
     cmd sbeControlTraceArray 0x02 SBE_FENCE_AT_QUIESCE]"

definition cmdClassArr_A7 :: "cmdStruct_t list" where
  "cmdClassArr_A7 = [cmd sbeCntlInst 0x01 HARDWARE_FENCED_STATE]"

definition cmdClassArr_A8 :: "cmdStruct_t list" where
  "cmdClassArr_A8 =
    [cmd sbeGetCapabilities 0x02 SBE_NO_FENCE,
     cmd sbeGetFfdc 0x01 SBE_NO_FENCE,
     cmd sbeFifoQuiesce 0x06 SBE_NO_FENCE]"

definition cmdClassArr_A9 :: "cmdStruct_t list" where
  "cmdClassArr_A9 =
    [cmd sbeEnterMpipl 0x01 (PUT_HARDWARE_FENCED_STATE OR SBE_FENCE_AT_ISTEP OR SBE_FENCE_AT_DUMPING),
     cmd sbeContinueMpipl 0x02
       (HARDWARE_FENCED_STATE OR SBE_FENCE_AT_ISTEP OR SBE_FENCE_AT_RUNTIME OR SBE_FENCE_AT_DUMPING),
     cmd sbeStopClocks 0x03 (HARDWARE_FENCED_STATE OR SBE_FENCE_AT_DUMPING),
     cmd sbeCollectDumpMpipl 0x04 (HARDWARE_FENCED_STATE OR SBE_FENCE_AT_DUMPING)]"

definition cmdClassArr_D1 :: "cmdStruct_t list" where
  "cmdClassArr_D1 = [cmd sbeControlDeadmanTimer 0x01
    (SBE_FENCE_AT_CONTINUOUS_IPL OR SBE_FENCE_AT_QUIESCE OR SBE_FENCE_AT_MPIPL OR SBE_FENCE_AT_ISTEP
     OR SBE_FENCE_AT_DUMPING)]"

definition cmdClassArr_D3 :: "cmdStruct_t list" where
  "cmdClassArr_D3 = [cmd sbePutRingFromImagePSU 0x01 (PUT_HARDWARE_FENCED_STATE OR SBE_FENCE_AT_QUIESCE)]"

definition cmdClassArr_D4 :: "cmdStruct_t list" where
  "cmdClassArr_D4 = [cmd sbeCntrlTimer 0x01
    (SBE_FENCE_AT_CONTINUOUS_IPL OR SBE_FENCE_AT_QUIESCE OR SBE_FENCE_AT_MPIPL OR SBE_FENCE_AT_DUMPING)]"

definition cmdClassArr_D6 :: "cmdStruct_t list" where
  "cmdClassArr_D6 = [cmd sbeUpdateMemAccessRegion 0x01 SBE_FENCE_AT_QUIESCE]"

definition cmdClassArr_D7 :: "cmdStruct_t list" where
  "cmdClassArr_D7 =
    [cmd sbePsuGetCapabilities 0x02 SBE_NO_FENCE,
     cmd sbeReadMem 0x03 SBE_NO_FENCE,
     cmd sbeSetFFDCAddr 0x04 SBE_NO_FENCE,
     cmd sbePsuQuiesce 0x05 SBE_NO_FENCE,
     cmd sbeSetSystemFabricMap 0x06 SBE_NO_FENCE,
     cmd sbeStashKeyAddrPair 0x07 SBE_NO_FENCE,
     cmd sbeSecurityListBinDump 0x08 SBE_NO_FENCE]"

text \<open>Classes and their tables; \<open>None\<close> is the null table of a class without commands.\<close>

definition cmdClassArr :: "(u8 \<times> cmdStruct_t list option) list" where
  "cmdClassArr =
    [(0xA1, Some cmdClassArr_A1), (0xA2, Some cmdClassArr_A2), (0xA3, Some cmdClassArr_A3),
     (0xA4, Some cmdClassArr_A4), (0xA5, Some cmdClassArr_A5), (0xA6, Some cmdClassArr_A6),
     (0xA7, Some cmdClassArr_A7), (0xA8, Some cmdClassArr_A8), (0xA9, Some cmdClassArr_A9),
     (0xD1, Some cmdClassArr_D1), (0xD2, None), (0xD3, Some cmdClassArr_D3), (0xD4, Some cmdClassArr_D4),
     (0xD5, None), (0xD6, Some cmdClassArr_D6), (0xD7, Some cmdClassArr_D7)]"

text \<open>The index of a class; a negative value becomes a large one when it is stored as \<open>size_t\<close>.\<close>

definition HASH_KEY :: "u8 \<Rightarrow> u32" where
  "HASH_KEY key = (if key < 0xD1 then ucast key - 0xA1 else ucast key - 0xD1 + 0x09)"

subsection \<open>The lookup\<close>

definition sbeGetCmdStructAttr :: "u8 \<Rightarrow> u8 \<times> cmdStruct_t list option" where
  "sbeGetCmdStructAttr i_cmdClass =
     (let cmdClassIndex = unat (HASH_KEY i_cmdClass)
      in if cmdClassIndex < length cmdClassArr
         then (case snd (cmdClassArr ! cmdClassIndex) of
                 None \<Rightarrow> (0, None)
               | Some t \<Rightarrow> (of_nat (length t), Some t))
         else (0, None))"

text \<open>The search of \<open>l_numCmds\<close> entries; the result is the pointer where the loop stops, as an index.\<close>

function cmd_search :: "u8 \<Rightarrow> cmdStruct_t list \<Rightarrow> u8 \<Rightarrow> nat \<Rightarrow> nat" where
  "cmd_search i_cmdOpcode t l_numCmds l_cnt =
     (if l_cnt < unat l_numCmds
      then if i_cmdOpcode = cmd_opcode (t ! l_cnt) then l_cnt
           else cmd_search i_cmdOpcode t l_numCmds (Suc l_cnt)
      else l_cnt)"
  by pat_completeness auto

termination cmd_search
  by (relation "measure (\<lambda>(c, t, n, k). unat n - k)") auto

declare cmd_search.simps [simp del]

definition sbeValidateCmdClass :: "u8 \<Rightarrow> u8 \<Rightarrow> u32" where
  "sbeValidateCmdClass i_cmdClass i_cmdOpcode =
     (case sbeGetCmdStructAttr i_cmdClass of (l_numCmds, l_pCmd) \<Rightarrow>
        if l_numCmds = 0 then SBE_SEC_COMMAND_CLASS_NOT_SUPPORTED
        else (case l_pCmd of
                None \<Rightarrow> SBE_SEC_COMMAND_NOT_SUPPORTED
              | Some t \<Rightarrow> if cmd_search i_cmdOpcode t l_numCmds 0 < unat l_numCmds
                          then SBE_SEC_OPERATION_SUCCESSFUL else SBE_SEC_COMMAND_NOT_SUPPORTED))"

text \<open>
  The pointer the loop leaves behind is dereferenced whether or not the opcode was found: \<open>None\<close> is
  a read past the end of the table, \<open>Some None\<close> the null pointer.
\<close>

definition sbeFindCmdFunc :: "u8 \<Rightarrow> u8 \<Rightarrow> sbeCmdFunc option option" where
  "sbeFindCmdFunc i_cmdClass i_cmdOpcode =
     (case sbeGetCmdStructAttr i_cmdClass of
        (l_numCmds, None) \<Rightarrow> Some None
      | (l_numCmds, Some t) \<Rightarrow>
          let k = cmd_search i_cmdOpcode t l_numCmds 0
          in if k < length t then Some (Some (cmd_func (t ! k))) else None)"

text \<open>The states in which a command is let through by its fence bits.\<close>

definition state_allows :: "u64 \<Rightarrow> u16 \<Rightarrow> bool" where
  "state_allows l_state fence =
     (if l_state = SBE_STATE_UNKNOWN \<or> l_state = SBE_STATE_FAILURE then True
      else if l_state = SBE_STATE_IPLING then \<not> has_flag fence SBE_FENCE_AT_CONTINUOUS_IPL
      else if l_state = SBE_STATE_ISTEP then \<not> has_flag fence SBE_FENCE_AT_ISTEP
      else if l_state = SBE_STATE_RUNTIME then \<not> has_flag fence SBE_FENCE_AT_RUNTIME
      else if l_state = SBE_STATE_DUMP then \<not> has_flag fence SBE_FENCE_AT_DUMPING
      else if l_state = SBE_STATE_MPIPL then \<not> has_flag fence SBE_FENCE_AT_MPIPL
      else if l_state = SBE_STATE_DMT then \<not> has_flag fence SBE_FENCE_AT_DMT
      else False)"

text \<open>\<open>secured\<close> is \<open>sbeFWSecurityEnabled\<close>, \<open>simics\<close> the simulator test. The result is the pair of statuses.\<close>

definition sbeIsCmdAllowed :: "u64 \<Rightarrow> bool \<Rightarrow> bool \<Rightarrow> u8 \<Rightarrow> u8 \<Rightarrow> u32 \<times> u32" where
  "sbeIsCmdAllowed l_state secured simics i_cmdClass i_cmdOpcode =
     (case sbeGetCmdStructAttr i_cmdClass of
        (l_numCmds, None) \<Rightarrow> (SBE_PRI_OPERATION_SUCCESSFUL, SBE_SEC_OPERATION_SUCCESSFUL)
      | (l_numCmds, Some t) \<Rightarrow>
          let k = cmd_search i_cmdOpcode t l_numCmds 0
          in if k < unat l_numCmds
             then if \<not> state_allows l_state (cmd_state_fence (t ! k))
                  then (SBE_PRI_INVALID_COMMAND, SBE_SEC_COMMAND_NOT_ALLOWED_IN_THIS_STATE)
                  else if secured \<and> has_flag SBE_FENCE_AT_SECURE_MODE (cmd_state_fence (t ! k)) \<and> \<not> simics
                  then (SBE_PRI_UNSECURE_ACCESS_DENIED, SBE_SEC_BLACKLISTED_CHIPOP_ACCESS)
                  else (SBE_PRI_OPERATION_SUCCESSFUL, SBE_SEC_OPERATION_SUCCESSFUL)
             else (SBE_PRI_OPERATION_SUCCESSFUL, SBE_SEC_OPERATION_SUCCESSFUL))"

subsection \<open>The lookup against the table\<close>

text \<open>
  The commands of a class, by the class and not by an index, and the class whose commands are found
  under a class byte: the index arithmetic maps the bytes between the two ranges of classes to the
  second range.
\<close>

definition class_commands :: "u8 \<Rightarrow> cmdStruct_t list" where
  "class_commands c = (case map_of cmdClassArr c of Some (Some t) \<Rightarrow> t | _ \<Rightarrow> [])"

definition class_of_byte :: "u8 \<Rightarrow> u8" where
  "class_of_byte c = (if 0xAA \<le> c \<and> c \<le> 0xB0 then c + 0x27 else c)"

definition lookup_command :: "u8 \<Rightarrow> u8 \<Rightarrow> cmdStruct_t option" where
  "lookup_command c opc = find (\<lambda>e. cmd_opcode e = opc) (class_commands (class_of_byte c))"

lemma cmd_search_find:
  assumes "unat n = length t" "k \<le> length t"
  shows "(if cmd_search opc t n k < length t then Some (t ! cmd_search opc t n k) else None)
    = find (\<lambda>e. cmd_opcode e = opc) (drop k t)" and "cmd_search opc t n k \<le> length t"
  using assms(2)
proof (induction "length t - k" arbitrary: k rule: less_induct)
  case less
  {
    case 1
    show ?case
    proof (cases "k < length t")
      case True
      then have d: "drop k t = t ! k # drop (Suc k) t" by (rule Cons_nth_drop_Suc [symmetric])
      show ?thesis using less(1) [of "Suc k"] True assms(1) d
        by (subst (1 2) cmd_search.simps) auto
    next
      case False
      with 1 show ?thesis using assms(1) by (simp add: cmd_search.simps)
    qed
  next
    case 2
    then show ?case using less(2) [of "Suc k"] assms(1)
      by (subst cmd_search.simps) auto
  }
qed

lemma unat_HASH_KEY:
  "unat (HASH_KEY c) = (if unat c < 0xD1 then if 0xA1 \<le> unat c then unat c - 0xA1 else 2 ^ 32 + unat c - 0xA1
     else unat c - 0xC8)"
proof -
  have c: "unat (ucast c :: u32) = unat c" by (simp add: unat_ucast_up)
  have less: "c < 0xD1 \<longleftrightarrow> unat c < 0xD1" by (simp add: word_less_nat_alt)
  have "unat (ucast c - 0xA1 :: u32) = (if 0xA1 \<le> unat c then unat c - 0xA1 else 2 ^ 32 + unat c - 0xA1)"
    by (simp add: unat_sub_if' c)
  moreover have "unat (ucast c - 0xD1 + 0x09 :: u32) = unat c - 0xC8" if "0xD1 \<le> unat c"
    using that by (simp add: unat_sub_if' c)
  ultimately show ?thesis by (simp add: HASH_KEY_def less)
qed

lemma length_cmdClassArr: "length cmdClassArr = 16"
  by (simp add: cmdClassArr_def)

lemmas class_tables = cmdClassArr_A1_def cmdClassArr_A2_def cmdClassArr_A3_def cmdClassArr_A4_def
  cmdClassArr_A5_def cmdClassArr_A6_def cmdClassArr_A7_def cmdClassArr_A8_def cmdClassArr_A9_def
  cmdClassArr_D1_def cmdClassArr_D3_def cmdClassArr_D4_def cmdClassArr_D6_def cmdClassArr_D7_def

lemma class_table_size:
  assumes "map_of cmdClassArr c = Some (Some t)"
  shows "0 < length t" "length t < 256"
  using map_of_SomeD [OF assms] by (auto simp: cmdClassArr_def class_tables)

text \<open>The entry at the index of a class byte is that of the class the byte stands for.\<close>

lemma class_entry:
  assumes "unat (HASH_KEY c) < 16"
  shows "map_of cmdClassArr (class_of_byte c) = Some (snd (cmdClassArr ! unat (HASH_KEY c)))"
proof -
  define i where "i = unat c"
  have rng: "0xA1 \<le> i \<and> i \<le> 0xB0 \<or> 0xD1 \<le> i \<and> i \<le> 0xD7"
    using assms unsigned_less [of c] by (auto simp: unat_HASH_KEY i_def split: if_splits)
  then have "i \<in> set ([0xA1..<0xB1] @ [0xD1..<0xD8])"
    unfolding set_append set_upt Un_iff atLeastLessThan_iff by linarith
  moreover have "list_all (\<lambda>i. map_of cmdClassArr (class_of_byte (of_nat i)) =
      Some (snd (cmdClassArr ! (if i < 0xD1 then i - 0xA1 else i - 0xC8)))) ([0xA1..<0xB1] @ [0xD1..<0xD8])"
    by code_simp
  ultimately have "map_of cmdClassArr (class_of_byte (of_nat i)) =
      Some (snd (cmdClassArr ! (if i < 0xD1 then i - 0xA1 else i - 0xC8)))"
    unfolding list_all_iff by blast
  moreover have "unat (HASH_KEY c) = (if i < 0xD1 then i - 0xA1 else i - 0xC8)"
    using rng by (auto simp: unat_HASH_KEY i_def)
  moreover have "of_nat i = c" by (simp add: i_def)
  ultimately show ?thesis by simp
qed

lemma no_class_entry:
  assumes "\<not> unat (HASH_KEY c) < 16"
  shows "map_of cmdClassArr (class_of_byte c) = None"
proof -
  have "class_of_byte c = c"
    using assms by (auto simp: unat_HASH_KEY class_of_byte_def word_le_nat_alt split: if_splits)
  moreover have "c \<notin> fst ` set cmdClassArr"
    using assms by (auto simp: unat_HASH_KEY cmdClassArr_def)
  ultimately show ?thesis by (simp add: map_of_eq_None_iff)
qed

lemma attr_table:
  "sbeGetCmdStructAttr c =
     (let t = class_commands (class_of_byte c)
      in if t = [] then (0, None) else (of_nat (length t), Some t))"
proof (cases "unat (HASH_KEY c) < 16")
  case True
  show ?thesis using class_entry [OF True] True
    by (auto simp: sbeGetCmdStructAttr_def class_commands_def length_cmdClassArr
        split: option.splits dest: class_table_size(1))
next
  case False
  with no_class_entry [OF False] show ?thesis
    by (simp add: sbeGetCmdStructAttr_def class_commands_def length_cmdClassArr)
qed

lemma commands_size: "length (class_commands c) < 256"
  using class_table_size(2) by (auto simp: class_commands_def split: option.splits)

lemma count_commands: "unat (of_nat (length (class_commands c)) :: u8) = length (class_commands c)"
  using commands_size [of c] by (simp add: unat_of_nat_small)

lemma search_command:
  fixes t :: "cmdStruct_t list"
  assumes "unat n = length t"
  shows "cmd_search opc t n 0 < length t \<longleftrightarrow> find (\<lambda>e. cmd_opcode e = opc) t \<noteq> None"
    "find (\<lambda>e. cmd_opcode e = opc) t = Some e \<Longrightarrow> t ! cmd_search opc t n 0 = e"
  using cmd_search_find(1) [OF assms, of 0 opc] by (auto split: if_splits dest: sym)

text \<open>The three searches in terms of the table.\<close>

lemma attr_lookup:
  "sbeGetCmdStructAttr c =
     (if class_commands (class_of_byte c) = [] then (0, None)
      else (of_nat (length (class_commands (class_of_byte c))), Some (class_commands (class_of_byte c))))"
  by (simp add: attr_table Let_def)

lemma count_zero: "(of_nat (length (class_commands c)) :: u8) = 0 \<longleftrightarrow> class_commands c = []"
  using count_commands [of c] by (simp add: word_unat_eq_iff)

lemma validate_lookup:
  "sbeValidateCmdClass c opc =
     (if class_commands (class_of_byte c) = [] then SBE_SEC_COMMAND_CLASS_NOT_SUPPORTED
      else if lookup_command c opc \<noteq> None then SBE_SEC_OPERATION_SUCCESSFUL else SBE_SEC_COMMAND_NOT_SUPPORTED)"
  using search_command(1) [OF count_commands, of opc "class_of_byte c"]
  by (simp add: sbeValidateCmdClass_def attr_lookup lookup_command_def count_zero count_commands)

lemma find_lookup:
  "sbeFindCmdFunc c opc =
     (if class_commands (class_of_byte c) = [] then Some None
      else case lookup_command c opc of None \<Rightarrow> None | Some e \<Rightarrow> Some (Some (cmd_func e)))"
  using search_command [OF count_commands, of opc "class_of_byte c"]
  by (auto simp: sbeFindCmdFunc_def attr_lookup lookup_command_def Let_def split: option.split)

lemma allowed_lookup:
  assumes "lookup_command c opc = Some e"
  shows "sbeIsCmdAllowed st secured simics c opc =
     (if \<not> state_allows st (cmd_state_fence e)
      then (SBE_PRI_INVALID_COMMAND, SBE_SEC_COMMAND_NOT_ALLOWED_IN_THIS_STATE)
      else if secured \<and> has_flag SBE_FENCE_AT_SECURE_MODE (cmd_state_fence e) \<and> \<not> simics
      then (SBE_PRI_UNSECURE_ACCESS_DENIED, SBE_SEC_BLACKLISTED_CHIPOP_ACCESS)
      else (SBE_PRI_OPERATION_SUCCESSFUL, SBE_SEC_OPERATION_SUCCESSFUL))"
  using search_command [OF count_commands, of opc "class_of_byte c"] assms
  by (cases "class_commands (class_of_byte c) = []")
    (auto simp: sbeIsCmdAllowed_def attr_lookup lookup_command_def Let_def count_commands)

lemma no_class_no_command: "class_commands (class_of_byte c) = [] \<Longrightarrow> lookup_command c opc = None"
  by (simp add: lookup_command_def)

text \<open>
  What the dispatch is for, without indexes and fence bits: for each command of the interface its
  function, the states in which it is refused and whether it is refused while security is on.
\<close>

definition command_spec :: "((u8 \<times> u8) \<times> sbeCmdFunc \<times> u64 list \<times> bool) list" where
  "command_spec =
    [((0xA1, 0x01), sbeHandleIstep, [SBE_STATE_IPLING, SBE_STATE_DMT, SBE_STATE_DUMP], False),
     ((0xA1, 0x02), sbeHandleSuspendIO, [SBE_STATE_DUMP], False),
     ((0xA1, 0x03), sbeHandleFlushNVDIMM, [SBE_STATE_IPLING, SBE_STATE_DMT, SBE_STATE_DUMP], False),
     ((0xA2, 0x01), sbeGetScom, [SBE_STATE_IPLING, SBE_STATE_DMT], False),
     ((0xA2, 0x02), sbePutScom, [SBE_STATE_IPLING, SBE_STATE_DMT], False),
     ((0xA2, 0x03), sbeModifyScom, [SBE_STATE_IPLING, SBE_STATE_DMT], False),
     ((0xA2, 0x04), sbePutScomUnderMask, [SBE_STATE_IPLING, SBE_STATE_DMT], False),
     ((0xA2, 0x05), sbeMultiScom, [SBE_STATE_IPLING, SBE_STATE_DMT], False),
     ((0xA3, 0x01), sbeGetRing, [SBE_STATE_IPLING], False),
     ((0xA3, 0x02), sbePutRing, [SBE_STATE_IPLING, SBE_STATE_DMT], False),
     ((0xA4, 0x01), sbeGetMem, [SBE_STATE_IPLING], False),
     ((0xA4, 0x02), sbePutMem, [SBE_STATE_IPLING, SBE_STATE_MPIPL, SBE_STATE_DMT], False),
     ((0xA4, 0x03), sbeGetOccSram, [SBE_STATE_IPLING, SBE_STATE_DMT], False),
     ((0xA4, 0x04), sbePutOccSram, [SBE_STATE_IPLING, SBE_STATE_MPIPL, SBE_STATE_DMT], False),
     ((0xA5, 0x01), sbeGetReg, [SBE_STATE_IPLING, SBE_STATE_DMT], False),
     ((0xA5, 0x02), sbePutReg, [SBE_STATE_IPLING, SBE_STATE_MPIPL, SBE_STATE_DMT], True),
     ((0xA6, 0x01), sbeControlFastArray, [], False),
     ((0xA6, 0x02), sbeControlTraceArray, [], False),
     ((0xA7, 0x01), sbeCntlInst, [SBE_STATE_IPLING, SBE_STATE_DMT], False),
     ((0xA8, 0x02), sbeGetCapabilities, [], False),
     ((0xA8, 0x01), sbeGetFfdc, [], False),
     ((0xA8, 0x06), sbeFifoQuiesce, [], False),
     ((0xA9, 0x01), sbeEnterMpipl, [SBE_STATE_IPLING, SBE_STATE_ISTEP, SBE_STATE_MPIPL, SBE_STATE_DMT, SBE_STATE_DUMP], False),
     ((0xA9, 0x02), sbeContinueMpipl, [SBE_STATE_IPLING, SBE_STATE_ISTEP, SBE_STATE_RUNTIME, SBE_STATE_DMT, SBE_STATE_DUMP], False),
     ((0xA9, 0x03), sbeStopClocks, [SBE_STATE_IPLING, SBE_STATE_DMT, SBE_STATE_DUMP], False),
     ((0xA9, 0x04), sbeCollectDumpMpipl, [SBE_STATE_IPLING, SBE_STATE_DMT, SBE_STATE_DUMP], False),
     ((0xD1, 0x01), sbeControlDeadmanTimer, [SBE_STATE_IPLING, SBE_STATE_ISTEP, SBE_STATE_MPIPL, SBE_STATE_DUMP], False),
     ((0xD3, 0x01), sbePutRingFromImagePSU, [SBE_STATE_IPLING, SBE_STATE_MPIPL, SBE_STATE_DMT], False),
     ((0xD4, 0x01), sbeCntrlTimer, [SBE_STATE_IPLING, SBE_STATE_MPIPL, SBE_STATE_DUMP], False),
     ((0xD6, 0x01), sbeUpdateMemAccessRegion, [], False),
     ((0xD7, 0x02), sbePsuGetCapabilities, [], False),
     ((0xD7, 0x03), sbeReadMem, [], False),
     ((0xD7, 0x04), sbeSetFFDCAddr, [], False),
     ((0xD7, 0x05), sbePsuQuiesce, [], False),
     ((0xD7, 0x06), sbeSetSystemFabricMap, [], False),
     ((0xD7, 0x07), sbeStashKeyAddrPair, [], False),
     ((0xD7, 0x08), sbeSecurityListBinDump, [], False)]"

text \<open>The states in which commands run at all; in quiesce, and in a state that is none, they are refused.\<close>

definition command_states :: "u64 list" where
  "command_states = [SBE_STATE_UNKNOWN, SBE_STATE_IPLING, SBE_STATE_ISTEP, SBE_STATE_MPIPL, SBE_STATE_RUNTIME,
     SBE_STATE_DMT, SBE_STATE_DUMP, SBE_STATE_FAILURE]"

definition spec_entry :: "cmdStruct_t \<Rightarrow> sbeCmdFunc \<times> u64 list \<times> bool" where
  "spec_entry e = (cmd_func e, filter (\<lambda>st. \<not> state_allows st (cmd_state_fence e)) command_states,
     has_flag SBE_FENCE_AT_SECURE_MODE (cmd_state_fence e))"

lemma command_spec_table:
  "command_spec = concat (map (\<lambda>(c, t). map (\<lambda>e. ((c, cmd_opcode e), spec_entry e)) (case t of None \<Rightarrow> [] | Some t \<Rightarrow> t)) cmdClassArr)"
  by code_simp

lemma map_of_commands:
  "map_of (map (\<lambda>e. ((k, cmd_opcode e), g e)) t) (c, opc) = (if k = c then map_option g (find (\<lambda>e. cmd_opcode e = opc) t) else None)"
  by (induction t) auto

lemma map_of_tables:
  "distinct (map fst cs) \<Longrightarrow>
   map_of (concat (map (\<lambda>(c, t). map (\<lambda>e. ((c, cmd_opcode e), g e)) (case t of None \<Rightarrow> [] | Some t \<Rightarrow> t)) cs)) (c, opc) =
   map_option g (find (\<lambda>e. cmd_opcode e = opc) (case map_of cs c of Some (Some t) \<Rightarrow> t | _ \<Rightarrow> []))"
proof (induction cs)
  case (Cons x cs)
  obtain k t where x: "x = (k, t)" by (cases x)
  show ?case
  proof (cases "k = c")
    case True
    then have "map_of cs c = None" using Cons.prems x by (simp add: map_of_eq_None_iff)
    then show ?thesis using Cons x True by (simp add: map_add_def map_of_commands split: option.split)
  next
    case False
    then show ?thesis using Cons x by (simp add: map_add_def map_of_commands split: option.split)
  qed
qed simp

lemma spec_lookup:
  assumes "class_of_byte c = c"
  shows "map_of command_spec (c, opc) = map_option spec_entry (lookup_command c opc)"
proof -
  have "distinct (map fst cmdClassArr)" by code_simp
  from map_of_tables [OF this, of spec_entry c opc] show ?thesis
    by (simp add: command_spec_table lookup_command_def class_commands_def assms)
qed

lemma spec_class: "class_commands c = [] \<longleftrightarrow> c \<notin> (fst \<circ> fst) ` set command_spec"
proof -
  have "(fst \<circ> fst) ` set command_spec = {0xA1, 0xA2, 0xA3, 0xA4, 0xA5, 0xA6, 0xA7, 0xA8, 0xA9, 0xD1, 0xD3, 0xD4, 0xD6, 0xD7}"
    by (auto simp: command_spec_def)
  moreover have "class_commands c = [] \<longleftrightarrow> c \<notin> {0xA1, 0xA2, 0xA3, 0xA4, 0xA5, 0xA6, 0xA7, 0xA8, 0xA9, 0xD1, 0xD3, 0xD4, 0xD6, 0xD7}"
    by (simp add: class_commands_def cmdClassArr_def class_tables)
  ultimately show ?thesis by simp
qed

lemma state_allows_spec:
  "state_allows st (cmd_state_fence e) \<longleftrightarrow> st \<in> set command_states \<and> st \<notin> set (fst (snd (spec_entry e)))"
  by (auto simp: spec_entry_def state_allows_def command_states_def split: if_splits)

lemma class_alias:
  assumes "0xAA \<le> c" "c \<le> 0xB0"
  shows "sbeGetCmdStructAttr c = sbeGetCmdStructAttr (c + 0x27)"
proof -
  have "unat (c + 0x27) = unat c + 0x27"
    using assms by (simp add: word_le_nat_alt unat_add_no_wrap)
  then have "class_of_byte (c + 0x27) = c + 0x27"
    using assms by (simp add: class_of_byte_def word_le_nat_alt)
  moreover have "class_of_byte c = c + 0x27" using assms by (simp add: class_of_byte_def)
  ultimately show ?thesis by (simp add: attr_table)
qed



end
