(* ===== verification/Sbe_Command.thy ===== *)
theory Sbe_Command
  imports Sbe_Fifo Sbe_Chipop
begin

unbundle bit_operations_syntax

text \<open>
  The control loop of the SBE: the interrupt handler of \<open>sbeirq.C\<close>, the command receiver thread of
  \<open>sbecmdreceiver.C\<close>, the synchronous command processor thread and the responses of
  \<open>sbecmdprocessor.C\<close>, and the mailbox routines of \<open>sbeHostUtils.C\<close>. The two semaphores are their
  counts (\<open>Pk_Semaphore\<close> has the kernel's semaphores). A call that halts the SBE, fails an assertion or
  does not return is \<open>None\<close>.
\<close>

subsection \<open>Interrupt sources\<close>

datatype sbe_irq = SBE_IRQ_HOST_PSU_INTR | SBE_IRQ_SBEFIFO_DATA | SBE_IRQ_SBEFIFO_RESET

abbreviation "SBE_INTERFACE_UNKNOWN \<equiv> 0x00 :: u8"
abbreviation "SBE_INTERFACE_FIFO \<equiv> 0x01 :: u8"
abbreviation "SBE_INTERFACE_PSU \<equiv> 0x02 :: u8"
abbreviation "SBE_INTERFACE_FIFO_RESET \<equiv> 0x04 :: u8"

datatype sbeHandler_t = SBE_ALL_HANDLER | SBE_INTERRUPT_ROUTINE | SBE_RX_ROUTINE | SBE_PROC_ROUTINE

record sbeIntrHandle_t =
  intrSource :: u8
  rxThrIntrSource :: u8
  procThrIntrSource :: u8

fun setIntrSource :: "sbeHandler_t \<Rightarrow> u8 \<Rightarrow> sbeIntrHandle_t \<Rightarrow> sbeIntrHandle_t" where
  "setIntrSource SBE_INTERRUPT_ROUTINE v s = s\<lparr> intrSource := intrSource s OR v \<rparr>"
| "setIntrSource SBE_RX_ROUTINE v s = s\<lparr> rxThrIntrSource := rxThrIntrSource s OR v \<rparr>"
| "setIntrSource SBE_PROC_ROUTINE v s = s\<lparr> procThrIntrSource := procThrIntrSource s OR v \<rparr>"
| "setIntrSource SBE_ALL_HANDLER v s = s"

fun clearIntrSource :: "sbeHandler_t \<Rightarrow> u8 \<Rightarrow> sbeIntrHandle_t \<Rightarrow> sbeIntrHandle_t" where
  "clearIntrSource SBE_INTERRUPT_ROUTINE v s = s\<lparr> intrSource := intrSource s AND NOT v \<rparr>"
| "clearIntrSource SBE_RX_ROUTINE v s = s\<lparr> rxThrIntrSource := rxThrIntrSource s AND NOT v \<rparr>"
| "clearIntrSource SBE_PROC_ROUTINE v s = s\<lparr> procThrIntrSource := procThrIntrSource s AND NOT v \<rparr>"
| "clearIntrSource SBE_ALL_HANDLER v s =
     \<lparr> intrSource = intrSource s AND NOT v, rxThrIntrSource = rxThrIntrSource s AND NOT v,
       procThrIntrSource = procThrIntrSource s AND NOT v \<rparr>"

fun isSet :: "sbeHandler_t \<Rightarrow> u8 \<Rightarrow> sbeIntrHandle_t \<Rightarrow> bool" where
  "isSet SBE_INTERRUPT_ROUTINE v s = has_flag (intrSource s) v"
| "isSet SBE_RX_ROUTINE v s = has_flag (rxThrIntrSource s) v"
| "isSet SBE_PROC_ROUTINE v s = has_flag (procThrIntrSource s) v"
| "isSet SBE_ALL_HANDLER v s = False"

subsection \<open>Message headers and the global state\<close>

record sbeFifoCmdReqBuf_t =
  fh_len :: u32
  fh_clientId :: u8
  fh_cmdClass :: u8
  fh_command :: u8

record sbePsu2SbeCmdReqHdr_t =
  pq_flags :: u16
  pq_seqID :: u16
  pq_cmdClass :: u8
  pq_command :: u8

record sbeSbe2PsuRespHdr_t =
  pr_primStatus :: u16
  pr_secStatus :: u16
  pr_seqID :: u16
  pr_cmdClass :: u8
  pr_command :: u8

record sbeCmdRespHdr_t =
  prim_status :: u16
  sec_status :: u16

abbreviation "SBE_CMD_CLASS_UNKNOWN \<equiv> 0 :: u8"
abbreviation "SBE_PSU_CMD_UNKNOWN \<equiv> 0xFF :: u8"

text \<open>The members of \<open>SBEGlobalsSingleton\<close> that the control loop uses.\<close>

record sbe_global =
  sbeFifoCmdHdr :: sbeFifoCmdReqBuf_t
  sbeCmdRespHdr :: sbeCmdRespHdr_t
  sbePsu2SbeCmdReqHdr :: sbePsu2SbeCmdReqHdr_t
  sbeSbe2PsuRespHdr :: sbeSbe2PsuRespHdr_t
  sbeIntrSource :: sbeIntrHandle_t
  g_env :: resp_env
  sbeFWSecurityEnabled :: bool

text \<open>The failure that the three \<open>setStatus\<close> record for the FFDC package.\<close>

definition record_failure :: "u16 \<Rightarrow> u16 \<Rightarrow> u16 \<Rightarrow> u8 \<Rightarrow> u8 \<Rightarrow> sbe_global \<Rightarrow> sbe_global" where
  "record_failure i_prim i_sec seqId cmdClass command G =
     (if i_prim \<noteq> 0
      then G\<lparr> g_env := (g_env G)\<lparr> failedPrimStatus := i_prim, failedSecStatus := i_sec, failedSeqId := seqId,
             failedCmdClass := cmdClass, failedCmd := command \<rparr> \<rparr>
      else G)"

definition set_cmd_status :: "u32 \<Rightarrow> u32 \<Rightarrow> sbe_global \<Rightarrow> sbe_global" where
  "set_cmd_status i_prim i_sec G =
     record_failure (ucast i_prim) (ucast i_sec) 0 (fh_cmdClass (sbeFifoCmdHdr G)) (fh_command (sbeFifoCmdHdr G))
       (G\<lparr> sbeCmdRespHdr := \<lparr> prim_status = ucast i_prim, sec_status = ucast i_sec \<rparr> \<rparr>)"

definition set_psu_status :: "u32 \<Rightarrow> u32 \<Rightarrow> sbe_global \<Rightarrow> sbe_global" where
  "set_psu_status i_prim i_sec G =
     (let r = (sbeSbe2PsuRespHdr G)\<lparr> pr_primStatus := ucast i_prim, pr_secStatus := ucast i_sec \<rparr>
      in record_failure (ucast i_prim) (ucast i_sec) (pr_seqID r) (pr_cmdClass r) (pr_command r)
           (G\<lparr> sbeSbe2PsuRespHdr := r \<rparr>))"

definition init_psu_resp :: "sbe_global \<Rightarrow> sbe_global" where
  "init_psu_resp G =
     (let q = sbePsu2SbeCmdReqHdr G
      in G\<lparr> sbeSbe2PsuRespHdr := \<lparr> pr_primStatus = 0, pr_secStatus = 0, pr_seqID = pq_seqID q,
             pr_cmdClass = pq_cmdClass q, pr_command = pq_command q \<rparr> \<rparr>)"

definition init_psu_req :: sbePsu2SbeCmdReqHdr_t where
  "init_psu_req = \<lparr> pq_flags = 0, pq_seqID = 0, pq_cmdClass = SBE_CMD_CLASS_UNKNOWN,
     pq_command = SBE_PSU_CMD_UNKNOWN \<rparr>"

definition init_cmd_resp :: sbeCmdRespHdr_t where
  "init_cmd_resp = \<lparr> prim_status = 0, sec_status = 0 \<rparr>"

text \<open>\<open>sbeRespGenHdr_t::init\<close> and its \<open>setStatus\<close>.\<close>

definition init_resp_hdr :: "sbe_global \<Rightarrow> sbeRespGenHdr_t" where
  "init_resp_hdr G = \<lparr> rh_magicCode = 0xC0DE, rh_cmdClass = fh_cmdClass (sbeFifoCmdHdr G),
     rh_command = fh_command (sbeFifoCmdHdr G), rh_primaryStatus = 0, rh_secondaryStatus = 0 \<rparr>"

definition set_resp_status :: "u32 \<Rightarrow> u32 \<Rightarrow> sbeRespGenHdr_t \<Rightarrow> sbe_global \<Rightarrow> sbeRespGenHdr_t \<times> sbe_global" where
  "set_resp_status i_prim i_sec r G =
     (let r = r\<lparr> rh_primaryStatus := ucast i_prim, rh_secondaryStatus := ucast i_sec \<rparr>
      in (r, record_failure (ucast i_prim) (ucast i_sec) 0 (rh_cmdClass r) (rh_command r) G))"

text \<open>The headers as they arrive: two words of the FIFO, one mailbox register.\<close>

definition fifo_hdr_of :: "(nat \<Rightarrow> u32) \<Rightarrow> sbeFifoCmdReqBuf_t" where
  "fifo_hdr_of b = \<lparr> fh_len = b 0, fh_clientId = ucast (bf_get 12 4 (b 1)), fh_cmdClass = ucast (bf_get 16 8 (b 1)),
     fh_command = ucast (bf_get 24 8 (b 1)) \<rparr>"

definition fifo_hdr_words :: "sbeFifoCmdReqBuf_t \<Rightarrow> nat \<Rightarrow> u32" where
  "fifo_hdr_words r i =
     (if i = 0 then fh_len r
      else push_bit 16 (ucast (fh_clientId r)) OR push_bit 8 (ucast (fh_cmdClass r)) OR ucast (fh_command r))"

definition psu_req_of :: "u64 \<Rightarrow> sbePsu2SbeCmdReqHdr_t" where
  "psu_req_of v = \<lparr> pq_flags = ucast (bf_get 16 16 v), pq_seqID = ucast (bf_get 32 16 v),
     pq_cmdClass = ucast (bf_get 48 8 v), pq_command = ucast (bf_get 56 8 v) \<rparr>"

definition psu_resp_word :: "sbeSbe2PsuRespHdr_t \<Rightarrow> u64" where
  "psu_resp_word r = push_bit 48 (ucast (pr_primStatus r)) OR push_bit 32 (ucast (pr_secStatus r)) OR
     push_bit 16 (ucast (pr_seqID r)) OR push_bit 8 (ucast (pr_cmdClass r)) OR ucast (pr_command r)"

subsection \<open>The host mailbox\<close>

abbreviation "SBE_HOST_PSU_MBOX_REG0 \<equiv> 0x000D0050 :: u32"
abbreviation "SBE_HOST_PSU_MBOX_REG3 \<equiv> 0x000D0053 :: u32"
abbreviation "SBE_HOST_PSU_MBOX_REG4 \<equiv> 0x000D0054 :: u32"
abbreviation "SBE_HOST_PSU_MBOX_REG7 \<equiv> 0x000D0057 :: u32"
abbreviation "SBE_PSU2SBE_DOORBELL_REG_AND \<equiv> 0x000D0061 :: u32"
abbreviation "SBE_PSU2HOST_DOORBELL_REG_OR \<equiv> 0x000D0065 :: u32"
abbreviation "SBE_PSU2SBE_DOORBELL_CLEAR_BIT0 \<equiv> 0x7FFFFFFFFFFFFFFF :: u64"
abbreviation "SBE_SBE2PSU_DOORBELL_SET_BIT0 \<equiv> 0x8000000000000000 :: u64"
abbreviation "SBE_SBE2PSU_DOORBELL_SET_BIT1 \<equiv> 0x4000000000000000 :: u64"
abbreviation "SBE_PSU_FLAGS_RESP_REQUIRED \<equiv> 0x0100 :: u16"
abbreviation "SBE_PSU_FLAGS_ACK_REQUIRED \<equiv> 0x0200 :: u16"

definition sbeClearPsu2SbeDbBitX :: "'h pib \<Rightarrow> u64 \<Rightarrow> 'h \<Rightarrow> u32 \<times> 'h" where
  "sbeClearPsu2SbeDbBitX P i_bit h = putscom_abs P SBE_PSU2SBE_DOORBELL_REG_AND i_bit h"

definition sbeSetSbe2PsuDbBitX :: "'h pib \<Rightarrow> u64 \<Rightarrow> 'h \<Rightarrow> u32 \<times> 'h" where
  "sbeSetSbe2PsuDbBitX P i_bit h = putscom_abs P SBE_PSU2HOST_DOORBELL_REG_OR i_bit h"

definition sbeIntrHostUponRespWaiting :: "'h pib \<Rightarrow> sbe_global \<Rightarrow> 'h \<Rightarrow> u32 \<times> 'h" where
  "sbeIntrHostUponRespWaiting P G h =
     (if has_flag (pq_flags (sbePsu2SbeCmdReqHdr G)) SBE_PSU_FLAGS_RESP_REQUIRED
      then sbeSetSbe2PsuDbBitX P SBE_SBE2PSU_DOORBELL_SET_BIT0 h else (0, h))"

definition sbeAcknowledgeHost :: "'h pib \<Rightarrow> sbe_global \<Rightarrow> 'h \<Rightarrow> u32 \<times> 'h" where
  "sbeAcknowledgeHost P G h =
     (if has_flag (pq_flags (sbePsu2SbeCmdReqHdr G)) SBE_PSU_FLAGS_ACK_REQUIRED
      then sbeSetSbe2PsuDbBitX P SBE_SBE2PSU_DOORBELL_SET_BIT1 h else (0, h))"

text \<open>\<open>n\<close> is the number of registers left.\<close>

fun mbx_read :: "'h pib \<Rightarrow> nat \<Rightarrow> u32 \<Rightarrow> nat \<Rightarrow> (nat \<Rightarrow> u64) \<Rightarrow> 'h \<Rightarrow> u32 \<times> (nat \<Rightarrow> u64) \<times> 'h" where
  "mbx_read P 0 i_addr l_count o_pData h = (0, o_pData, h)"
| "mbx_read P (Suc n) i_addr l_count o_pData h =
     (let (l_rc, v, h) = getscom_abs P i_addr h; o_pData = o_pData(l_count := v)
      in if l_rc \<noteq> 0 then (l_rc, o_pData, h)
         else mbx_read P n (i_addr + 1) (Suc l_count) o_pData h)"

definition sbeReadPsu2SbeMbxReg :: "'h pib \<Rightarrow> sbe_global \<Rightarrow> u32 \<Rightarrow> u8 \<Rightarrow> (nat \<Rightarrow> u64) \<Rightarrow> bool \<Rightarrow> 'h
    \<Rightarrow> (u32 \<times> (nat \<Rightarrow> u64) \<times> 'h) option" where
  "sbeReadPsu2SbeMbxReg P G i_addr i_count o_pData i_isFinalRead h =
     (if \<not> (i_count > 0 \<and> SBE_HOST_PSU_MBOX_REG0 \<le> i_addr \<and> SBE_HOST_PSU_MBOX_REG3 \<ge> i_addr + ucast i_count - 1)
      then None
      else let (l_rc, o_pData, h) = mbx_read P (unat i_count) i_addr 0 o_pData h
           in if i_isFinalRead \<and> l_rc = 0
              then let (l_rc, h) = sbeAcknowledgeHost P G h in Some (l_rc, o_pData, h)
              else Some (l_rc, o_pData, h))"

fun mbx_write :: "'h pib \<Rightarrow> nat \<Rightarrow> u32 \<Rightarrow> nat \<Rightarrow> (nat \<Rightarrow> u64) \<Rightarrow> 'h \<Rightarrow> u32 \<times> 'h" where
  "mbx_write P 0 i_addr l_count i_pData h = (0, h)"
| "mbx_write P (Suc n) i_addr l_count i_pData h =
     (let (l_rc, h) = putscom_abs P i_addr (i_pData l_count) h
      in if l_rc \<noteq> 0 then (l_rc, h) else mbx_write P n (i_addr + 1) (Suc l_count) i_pData h)"

definition sbeWriteSbe2PsuMbxReg :: "'h pib \<Rightarrow> sbe_global \<Rightarrow> u32 \<Rightarrow> (nat \<Rightarrow> u64) \<Rightarrow> u8 \<Rightarrow> bool \<Rightarrow> 'h
    \<Rightarrow> (u32 \<times> 'h) option" where
  "sbeWriteSbe2PsuMbxReg P G i_addr i_pData i_count i_setBit0ToIntrHB h =
     (if \<not> (i_count > 0 \<and> SBE_HOST_PSU_MBOX_REG4 \<le> i_addr \<and> SBE_HOST_PSU_MBOX_REG7 \<ge> i_addr + ucast i_count - 1)
      then None
      else let (l_rc, h) = mbx_write P (unat i_count) i_addr 0 i_pData h
           in if has_flag (pq_flags (sbePsu2SbeCmdReqHdr G)) SBE_PSU_FLAGS_RESP_REQUIRED \<and> i_setBit0ToIntrHB \<and> l_rc = 0
              then Some (sbeSetSbe2PsuDbBitX P SBE_SBE2PSU_DOORBELL_SET_BIT0 h)
              else Some (l_rc, h))"

subsection \<open>Responses\<close>

abbreviation "REJECTED_RCS \<equiv> [SBE_SEC_COMMAND_CLASS_NOT_SUPPORTED, SBE_SEC_COMMAND_NOT_SUPPORTED,
  SBE_SEC_COMMAND_NOT_ALLOWED_IN_THIS_STATE, SBE_SEC_BLACKLISTED_CHIPOP_ACCESS]"

definition write_psu_resp :: "'h pib \<Rightarrow> sbe_global \<Rightarrow> 'h \<Rightarrow> (u32 \<times> 'h) option" where
  "write_psu_resp P G h =
     sbeWriteSbe2PsuMbxReg P G SBE_HOST_PSU_MBOX_REG4 (\<lambda>_. psu_resp_word (sbeSbe2PsuRespHdr G)) 1 True h"

definition sbeHandlePsuResponse :: "'h pib \<Rightarrow> u32 \<Rightarrow> sbe_global \<Rightarrow> 'h \<Rightarrow> (sbe_global \<times> 'h) option" where
  "sbeHandlePsuResponse P i_rc G h =
     (if i_rc \<in> set REJECTED_RCS
      then let (l_rc, h) = sbeAcknowledgeHost P G h
           in if l_rc \<noteq> 0 then Some (G, h)
              else let G = set_psu_status SBE_PRI_INVALID_COMMAND i_rc G
                   in map_option (\<lambda>(l_rc, h). (G, h)) (write_psu_resp P G h)
      else if i_rc = SBE_SEC_OS_FAILURE
      then let G = set_psu_status SBE_PRI_GENERIC_EXECUTION_FAILURE i_rc G
           in map_option (\<lambda>(l_rc, h). (G, h)) (write_psu_resp P G h)
      else Some (G, h))"

text \<open>The cases of \<open>sbeHandleFifoResponse\<close> that fall through: header and EOT; EOT.\<close>

definition fifo_signal_eot :: "'h pib \<Rightarrow> sbe_global \<Rightarrow> 'h \<Rightarrow> (sbe_global \<times> 'h) option" where
  "fifo_signal_eot P G h = map_option (\<lambda>(l_rc, h). (G, h)) (sbeDownFifoSignalEot P h)"

definition fifo_send_status :: "'h pib \<Rightarrow> u32 \<Rightarrow> u32 \<Rightarrow> sbeRespGenHdr_t \<Rightarrow> sbe_global \<Rightarrow> 'h \<Rightarrow> (sbe_global \<times> 'h) option" where
  "fifo_send_status P l_primStatus l_secStatus l_hdr G h = do {
     let (l_hdr, G) = set_resp_status l_primStatus l_secStatus l_hdr G;
     (l_rc, h) \<leftarrow> sbeDsSendRespHdr P (g_env G) l_hdr None h;
     if l_rc \<noteq> 0 then Some (G, h) else fifo_signal_eot P G h
   }"

definition sbeHandleFifoResponse :: "'h pib \<Rightarrow> u32 \<Rightarrow> sbe_global \<Rightarrow> 'h \<Rightarrow> (sbe_global \<times> 'h) option" where
  "sbeHandleFifoResponse P i_rc G h =
     (if i_rc = SBE_FIFO_RESET_RECEIVED then Some (G, h)
      else
        let l_primStatus =
              (if i_rc = SBE_SEC_UNEXPECTED_EOT_INSUFFICIENT_DATA \<or> i_rc = SBE_SEC_UNEXPECTED_EOT_EXCESS_DATA
               then SBE_PRI_INVALID_DATA
               else if i_rc = SBE_SEC_COMMAND_NOT_ALLOWED_IN_THIS_STATE then SBE_PRI_INVALID_COMMAND
               else SBE_PRI_OPERATION_SUCCESSFUL);
            l_hdr = init_resp_hdr G
        in if i_rc \<in> set REJECTED_RCS \<or> i_rc = SBE_SEC_OS_FAILURE
           then do {
             (l_rc, l_len2dequeue, b, h) \<leftarrow> sbeUpFifoDeq_mult P 1 None True True h;
             if l_rc = SBE_FIFO_RESET_RECEIVED \<or> l_rc = SBE_SEC_FIFO_ACCESS_FAILURE then Some (G, h)
             else fifo_send_status P l_primStatus (if l_rc \<noteq> 0 then l_rc else i_rc) l_hdr G h
           }
           else if i_rc = SBE_SEC_UNEXPECTED_EOT_INSUFFICIENT_DATA \<or> i_rc = SBE_SEC_UNEXPECTED_EOT_EXCESS_DATA
           then fifo_send_status P l_primStatus i_rc l_hdr G h
           else if i_rc = SBE_SEC_OPERATION_SUCCESSFUL then fifo_signal_eot P G h
           else Some (G, h))"

section \<open>The control loop\<close>

text \<open>
  Where the receiver thread is: at its \<open>pk_semaphore_pend\<close>, or between the two \<open>pk_irq_enable\<close> calls
  that end a pass. Where the processor thread is: at its pend, in a chip operation, about to send
  the response, or between the two calls. \<open>rx_rc\<close> and \<open>rx_if\<close> are the receiver's local variables
  \<open>l_rc\<close> and \<open>curInterface\<close>, which live across the passes of its loop.
\<close>

datatype rx_pc = RxPend | RxEnableReset
datatype proc_pc = PrPend | PrRun sbeCmdFunc | PrRespond u32 | PrEnableReset

record 'h sbe_sys =
  s_glob :: sbe_global
  s_hw :: 'h
  irq_on :: "sbe_irq \<Rightarrow> bool"
  sbeSemCmdRecv :: nat
  sbeSemCmdProcess :: nat
  s_rx :: rx_pc
  rx_rc :: u32
  rx_if :: u8
  s_proc :: proc_pc

definition MAX_SEMAPHORE_COUNT :: nat where
  "MAX_SEMAPHORE_COUNT = 3"

text \<open>A post and whether it overflows.\<close>

definition sem_post :: "nat \<Rightarrow> bool \<times> nat" where
  "sem_post n = (Suc n \<le> MAX_SEMAPHORE_COUNT, Suc n)"

definition irq_set :: "sbe_irq \<Rightarrow> bool \<Rightarrow> 'h sbe_sys \<Rightarrow> 'h sbe_sys" where
  "irq_set i b s = s\<lparr> irq_on := (irq_on s)(i := b) \<rparr>"

definition upd_intr :: "(sbeIntrHandle_t \<Rightarrow> sbeIntrHandle_t) \<Rightarrow> sbe_global \<Rightarrow> sbe_global" where
  "upd_intr f G = G\<lparr> sbeIntrSource := f (sbeIntrSource G) \<rparr>"

definition sys_intr :: "(sbeIntrHandle_t \<Rightarrow> sbeIntrHandle_t) \<Rightarrow> 'h sbe_sys \<Rightarrow> 'h sbe_sys" where
  "sys_intr f s = s\<lparr> s_glob := upd_intr f (s_glob s) \<rparr>"

definition sbe_interrupt_handler :: "sbe_irq \<Rightarrow> 'h sbe_sys \<Rightarrow> 'h sbe_sys option" where
  "sbe_interrupt_handler i_irq s =
     (let s = (case i_irq of
                 SBE_IRQ_HOST_PSU_INTR \<Rightarrow> sys_intr (setIntrSource SBE_INTERRUPT_ROUTINE SBE_INTERFACE_PSU) s
               | SBE_IRQ_SBEFIFO_DATA \<Rightarrow>
                   irq_set SBE_IRQ_SBEFIFO_RESET False
                     (sys_intr (setIntrSource SBE_INTERRUPT_ROUTINE SBE_INTERFACE_FIFO) s)
               | SBE_IRQ_SBEFIFO_RESET \<Rightarrow>
                   irq_set SBE_IRQ_SBEFIFO_DATA False
                     (sys_intr (setIntrSource SBE_INTERRUPT_ROUTINE SBE_INTERFACE_FIFO_RESET) s));
          s = irq_set i_irq False s;
          (ok, n) = sem_post (sbeSemCmdRecv s)
      in if ok then Some (s\<lparr> sbeSemCmdRecv := n \<rparr>) else None)"

subsection \<open>The command receiver\<close>

text \<open>
  The part of a pass that finds the interface and reads the header. The result is \<open>l_rc\<close>,
  \<open>curInterface\<close>, the command to validate (\<open>None\<close> when a \<open>break\<close> skips the checks), the globals and
  the hardware.
\<close>

type_synonym 'h header_read = "u32 \<times> u8 \<times> (u8 \<times> u8) option \<times> sbe_global \<times> 'h"

definition receive_psu :: "'h pib \<Rightarrow> sbe_global \<Rightarrow> 'h \<Rightarrow> 'h header_read option" where
  "receive_psu P G h =
     (let G = upd_intr (clearIntrSource SBE_INTERRUPT_ROUTINE SBE_INTERFACE_PSU) G;
          (l_rc, h) = sbeClearPsu2SbeDbBitX P SBE_PSU2SBE_DOORBELL_CLEAR_BIT0 h
      in if l_rc \<noteq> 0 then Some (l_rc, SBE_INTERFACE_PSU, None, G, h)
         else let G = G\<lparr> sbePsu2SbeCmdReqHdr := init_psu_req \<rparr>
              in do {
                (l_rc, b, h) \<leftarrow> sbeReadPsu2SbeMbxReg P G SBE_HOST_PSU_MBOX_REG0 1 (\<lambda>_. 0) False h;
                let G = init_psu_resp (G\<lparr> sbePsu2SbeCmdReqHdr := psu_req_of (b 0) \<rparr>);
                Some (l_rc, SBE_INTERFACE_PSU,
                      if l_rc \<noteq> 0 then None
                      else Some (pq_cmdClass (sbePsu2SbeCmdReqHdr G), pq_command (sbePsu2SbeCmdReqHdr G)), G, h)
              })"

definition receive_fifo :: "'h pib \<Rightarrow> sbe_global \<Rightarrow> 'h \<Rightarrow> 'h header_read option" where
  "receive_fifo P G h =
     (let G = upd_intr (clearIntrSource SBE_INTERRUPT_ROUTINE SBE_INTERFACE_FIFO) G;
          G = G\<lparr> sbeFifoCmdHdr := (sbeFifoCmdHdr G)\<lparr> fh_cmdClass := SBE_CMD_CLASS_UNKNOWN \<rparr>,
                 sbeCmdRespHdr := init_cmd_resp \<rparr>
      in do {
        (l_rc, len, b, h) \<leftarrow> sbeUpFifoDeq_mult P 2 (Some (fifo_hdr_words (sbeFifoCmdHdr G))) False False h;
        let G = (case b of None \<Rightarrow> G | Some b \<Rightarrow> G\<lparr> sbeFifoCmdHdr := fifo_hdr_of b \<rparr>);
        if l_rc = SBE_SEC_UNEXPECTED_EOT_INSUFFICIENT_DATA \<or> l_rc = SBE_SEC_UNEXPECTED_EOT_EXCESS_DATA
        then Some (0, SBE_INTERFACE_FIFO, None, set_cmd_status SBE_PRI_INVALID_DATA l_rc G, h)
        else Some (l_rc, SBE_INTERFACE_FIFO,
                   if l_rc \<noteq> 0 then None
                   else Some (fh_cmdClass (sbeFifoCmdHdr G), fh_command (sbeFifoCmdHdr G)), G, h)
      })"

definition receive_header :: "'h pib \<Rightarrow> 'h sbe_sys \<Rightarrow> 'h header_read option" where
  "receive_header P s =
     (let G = s_glob s; h = s_hw s
      in if isSet SBE_INTERRUPT_ROUTINE SBE_INTERFACE_FIFO_RESET (sbeIntrSource G)
         then Some (SBE_FIFO_RESET_RECEIVED, SBE_INTERFACE_FIFO_RESET, None, G, h)
         else if isSet SBE_INTERRUPT_ROUTINE SBE_INTERFACE_PSU (sbeIntrSource G) then receive_psu P G h
         else if isSet SBE_INTERRUPT_ROUTINE SBE_INTERFACE_FIFO (sbeIntrSource G) then receive_fifo P G h
         else Some (rx_rc s, rx_if s,
                    if rx_rc s \<noteq> 0 then None else Some (SBE_CMD_CLASS_UNKNOWN, 0xFF), G, h))"

text \<open>The checks of the command; a failed validation is left to the processor thread to answer.\<close>

definition set_if_status :: "u8 \<Rightarrow> u32 \<Rightarrow> u32 \<Rightarrow> sbe_global \<Rightarrow> sbe_global" where
  "set_if_status cur prim sec G =
     (if cur = SBE_INTERFACE_PSU then set_psu_status prim sec G
      else if cur = SBE_INTERFACE_FIFO then set_cmd_status prim sec G else G)"

definition check_command :: "bool \<Rightarrow> u8 \<Rightarrow> u8 \<Rightarrow> u8 \<Rightarrow> sbe_global \<Rightarrow> u32 \<times> sbe_global" where
  "check_command simics cur cls opc G =
     (let l_rc = sbeValidateCmdClass cls opc
      in if l_rc \<noteq> 0 then (0, set_if_status cur SBE_PRI_INVALID_COMMAND l_rc G)
         else let (prim, sec) = sbeIsCmdAllowed (getSbeState (regAccess (g_env G))) (sbeFWSecurityEnabled G) simics cls opc
              in if prim \<noteq> 0 \<or> sec \<noteq> 0 then (sec, set_if_status cur prim sec G) else (0, G))"

text \<open>The end of a pass.\<close>

definition receiver_reset :: "'h pib \<Rightarrow> 'h sbe_sys \<Rightarrow> 'h sbe_sys option" where
  "receiver_reset P s =
     (let (l_rc, h) = sbeUpFifoPerformReset P (s_hw s);
          s = s\<lparr> s_hw := h \<rparr>;
          s = (if isSet SBE_RX_ROUTINE SBE_INTERFACE_FIFO (sbeIntrSource (s_glob s))
               then sys_intr (clearIntrSource SBE_ALL_HANDLER SBE_INTERFACE_FIFO) s else s);
          s = (if isSet SBE_RX_ROUTINE SBE_INTERFACE_FIFO_RESET (sbeIntrSource (s_glob s))
               then sys_intr (clearIntrSource SBE_ALL_HANDLER SBE_INTERFACE_FIFO_RESET) s else s)
      in Some ((irq_set SBE_IRQ_SBEFIFO_DATA True s)\<lparr> s_rx := RxEnableReset \<rparr>))"

definition receiver_reject :: "'h pib \<Rightarrow> u32 \<Rightarrow> u8 \<Rightarrow> 'h sbe_sys \<Rightarrow> 'h sbe_sys option" where
  "receiver_reject P l_rc cur s =
     (if l_rc \<noteq> SBE_SEC_COMMAND_NOT_ALLOWED_IN_THIS_STATE \<and> l_rc \<noteq> SBE_SEC_BLACKLISTED_CHIPOP_ACCESS then None
      else if cur = SBE_INTERFACE_PSU
      then do {
        (G, h) \<leftarrow> sbeHandlePsuResponse P l_rc (s_glob s) (s_hw s);
        let s = sys_intr (clearIntrSource SBE_ALL_HANDLER SBE_INTERFACE_PSU) (s\<lparr> s_glob := G, s_hw := h \<rparr>);
        Some (irq_set SBE_IRQ_HOST_PSU_INTR True s)
      }
      else if cur = SBE_INTERFACE_FIFO
      then do {
        (G, h) \<leftarrow> sbeHandleFifoResponse P l_rc (s_glob s) (s_hw s);
        let s = sys_intr (clearIntrSource SBE_ALL_HANDLER SBE_INTERFACE_FIFO) (s\<lparr> s_glob := G, s_hw := h \<rparr>);
        Some ((irq_set SBE_IRQ_SBEFIFO_DATA True s)\<lparr> s_rx := RxEnableReset \<rparr>)
      }
      else Some s)"

definition receiver_finish :: "'h pib \<Rightarrow> u32 \<Rightarrow> u8 \<Rightarrow> 'h sbe_sys \<Rightarrow> 'h sbe_sys option" where
  "receiver_finish P l_rc cur s =
     (let s = sys_intr (setIntrSource SBE_RX_ROUTINE cur) (s\<lparr> rx_rc := l_rc, rx_if := cur \<rparr>)
      in if l_rc = SBE_FIFO_RESET_RECEIVED then receiver_reset P s
         else if l_rc = 0
         then let (ok, n) = sem_post (sbeSemCmdProcess s)
              in if ok then Some (s\<lparr> sbeSemCmdProcess := n \<rparr>) else None
         else receiver_reject P l_rc cur s)"

text \<open>One pass of the receiver's loop after its pend has returned.\<close>

definition receiver_pass :: "'h pib \<Rightarrow> 'h sbe_sys \<Rightarrow> 'h sbe_sys option" where
  "receiver_pass P s = do {
     (l_rc, cur, command, G, h) \<leftarrow> receive_header P s;
     let (l_rc, G) = (case command of None \<Rightarrow> (l_rc, G)
                      | Some (cls, opc) \<Rightarrow> check_command (isSimicsRunning P) cur cls opc G);
     receiver_finish P l_rc cur (s\<lparr> s_glob := G, s_hw := h \<rparr>)
   }"

subsection \<open>The command processor\<close>

text \<open>
  After its pend: the interface, the status that the receiver left, and the command's function.
  \<open>None\<close> is the assertion on an interrupt source that is not set, and the assertion on the function.
\<close>

definition processor_dispatch :: "u32 \<Rightarrow> u8 \<Rightarrow> u8 \<Rightarrow> 'h sbe_sys \<Rightarrow> 'h sbe_sys option" where
  "processor_dispatch l_rc cls opc s =
     (if l_rc \<noteq> 0 then Some (s\<lparr> s_proc := PrRespond l_rc \<rparr>)
      else (case sbeFindCmdFunc cls opc of
              Some (Some f) \<Rightarrow> Some (s\<lparr> s_proc := PrRun f \<rparr>)
            | _ \<Rightarrow> None))"

definition processor_start :: "'h sbe_sys \<Rightarrow> 'h sbe_sys option" where
  "processor_start s =
     (let G = s_glob s
      in if isSet SBE_RX_ROUTINE SBE_INTERFACE_PSU (sbeIntrSource G)
         then processor_dispatch (ucast (pr_secStatus (sbeSbe2PsuRespHdr G)))
                (pq_cmdClass (sbePsu2SbeCmdReqHdr G)) (pq_command (sbePsu2SbeCmdReqHdr G))
                (sys_intr (setIntrSource SBE_PROC_ROUTINE SBE_INTERFACE_PSU) s)
         else if isSet SBE_RX_ROUTINE SBE_INTERFACE_FIFO (sbeIntrSource G)
         then processor_dispatch (ucast (sec_status (sbeCmdRespHdr G)))
                (fh_cmdClass (sbeFifoCmdHdr G)) (fh_command (sbeFifoCmdHdr G))
                (sys_intr (setIntrSource SBE_PROC_ROUTINE SBE_INTERFACE_FIFO) s)
         else None)"

definition processor_respond :: "'h pib \<Rightarrow> u32 \<Rightarrow> 'h sbe_sys \<Rightarrow> 'h sbe_sys option" where
  "processor_respond P l_rc s =
     (if isSet SBE_PROC_ROUTINE SBE_INTERFACE_PSU (sbeIntrSource (s_glob s))
      then do {
        (G, h) \<leftarrow> sbeHandlePsuResponse P l_rc (s_glob s) (s_hw s);
        let s = sys_intr (clearIntrSource SBE_ALL_HANDLER SBE_INTERFACE_PSU) (s\<lparr> s_glob := G, s_hw := h \<rparr>);
        Some ((irq_set SBE_IRQ_HOST_PSU_INTR True s)\<lparr> s_proc := PrPend \<rparr>)
      }
      else if isSet SBE_PROC_ROUTINE SBE_INTERFACE_FIFO (sbeIntrSource (s_glob s))
      then do {
        (G, h) \<leftarrow> sbeHandleFifoResponse P l_rc (s_glob s) (s_hw s);
        let s = sys_intr (clearIntrSource SBE_ALL_HANDLER SBE_INTERFACE_FIFO) (s\<lparr> s_glob := G, s_hw := h \<rparr>);
        Some ((irq_set SBE_IRQ_SBEFIFO_DATA True s)\<lparr> s_proc := PrEnableReset \<rparr>)
      }
      else Some (s\<lparr> s_proc := PrPend \<rparr>))"

subsection \<open>Sources and frames\<close>

lemma has_flag_or_self: "v \<noteq> 0 \<Longrightarrow> has_flag (x OR v) v"
  by (simp add: has_flag_def and.commute [of _ v] bit.conj_disj_distrib)

lemma has_flag_or_other: "w AND v = 0 \<Longrightarrow> has_flag (x OR w) v = has_flag x v"
  by (simp add: has_flag_def bit.conj_disj_distrib2)

lemma has_flag_clear_self: "\<not> has_flag (x AND NOT v) v"
  by (simp add: has_flag_def and.assoc)

lemma has_flag_clear_other:
  assumes "v AND NOT w = v"
  shows "has_flag (x AND NOT w) v = has_flag x v"
proof -
  have "(x AND NOT w) AND v = x AND v"
    using assms by (metis and.assoc and.commute)
  then show ?thesis by (simp add: has_flag_def)
qed

lemma has_flag_zero [simp]: "\<not> has_flag 0 v" "\<not> has_flag x 0"
  by (simp_all add: has_flag_def)

lemma disjoint_clear:
  fixes v :: "'a::len word"
  assumes "v AND w = 0"
  shows "v AND NOT w = v"
proof (rule bit_word_eqI)
  fix n
  have "bit (v AND w) n = bit (0 :: 'a word) n" using assms by simp
  then show "bit (v AND NOT w) n = bit v n" if "n < LENGTH('a)"
    using that by (auto simp: bit_simps)
qed

text \<open>What is set after a source has been set or cleared.\<close>

lemma isSet_set [simp]:
  "x \<noteq> SBE_ALL_HANDLER \<Longrightarrow> v \<noteq> 0 \<Longrightarrow> isSet x v (setIntrSource x v s)"
  "x \<noteq> y \<Longrightarrow> isSet x v (setIntrSource y w s) = isSet x v s"
  "w AND v = 0 \<Longrightarrow> isSet x v (setIntrSource y w s) = isSet x v s"
  by (cases x; cases y; simp add: has_flag_or_self has_flag_or_other)+

lemma isSet_clear [simp]:
  "\<not> isSet x v (clearIntrSource x v s)"
  "\<not> isSet x v (clearIntrSource SBE_ALL_HANDLER v s)"
  "x \<noteq> y \<Longrightarrow> y \<noteq> SBE_ALL_HANDLER \<Longrightarrow> isSet x v (clearIntrSource y w s) = isSet x v s"
  "v AND w = 0 \<Longrightarrow> isSet x v (clearIntrSource y w s) = isSet x v s"
  by (cases x; cases y; simp add: has_flag_clear_self has_flag_clear_other disjoint_clear)+

declare isSet.simps [simp del] setIntrSource.simps [simp del] clearIntrSource.simps [simp del]

lemma record_failure_frame [simp]:
  "sbeIntrSource (record_failure p q n c d G) = sbeIntrSource G"
  "sbeFifoCmdHdr (record_failure p q n c d G) = sbeFifoCmdHdr G"
  "sbeCmdRespHdr (record_failure p q n c d G) = sbeCmdRespHdr G"
  "sbePsu2SbeCmdReqHdr (record_failure p q n c d G) = sbePsu2SbeCmdReqHdr G"
  "sbeSbe2PsuRespHdr (record_failure p q n c d G) = sbeSbe2PsuRespHdr G"
  by (simp_all add: record_failure_def)

lemma upd_intr_frame [simp]:
  "sbeIntrSource (upd_intr f G) = f (sbeIntrSource G)" "sbeFifoCmdHdr (upd_intr f G) = sbeFifoCmdHdr G"
  "sbeCmdRespHdr (upd_intr f G) = sbeCmdRespHdr G" "sbePsu2SbeCmdReqHdr (upd_intr f G) = sbePsu2SbeCmdReqHdr G"
  "sbeSbe2PsuRespHdr (upd_intr f G) = sbeSbe2PsuRespHdr G"
  by (simp_all add: upd_intr_def)

lemma status_frame [simp]:
  "sbeIntrSource (set_cmd_status p q G) = sbeIntrSource G" "sbeFifoCmdHdr (set_cmd_status p q G) = sbeFifoCmdHdr G"
  "sec_status (sbeCmdRespHdr (set_cmd_status p q G)) = ucast q"
  "sbePsu2SbeCmdReqHdr (set_cmd_status p q G) = sbePsu2SbeCmdReqHdr G"
  "sbeSbe2PsuRespHdr (set_cmd_status p q G) = sbeSbe2PsuRespHdr G"
  "sbeIntrSource (set_psu_status p q G) = sbeIntrSource G" "sbeFifoCmdHdr (set_psu_status p q G) = sbeFifoCmdHdr G"
  "sbeCmdRespHdr (set_psu_status p q G) = sbeCmdRespHdr G"
  "sbePsu2SbeCmdReqHdr (set_psu_status p q G) = sbePsu2SbeCmdReqHdr G"
  "pr_secStatus (sbeSbe2PsuRespHdr (set_psu_status p q G)) = ucast q"
  by (simp_all add: set_cmd_status_def set_psu_status_def Let_def)

text \<open>A response leaves the sources and the headers alone.\<close>

lemma psu_response_frame:
  assumes "sbeHandlePsuResponse P rc G h = Some (G', h')"
  shows "sbeIntrSource G' = sbeIntrSource G" "sbeFifoCmdHdr G' = sbeFifoCmdHdr G"
    "sbeCmdRespHdr G' = sbeCmdRespHdr G"
  using assms by (auto simp: sbeHandlePsuResponse_def Let_def split: if_splits prod.splits)

lemma fifo_send_frame:
  assumes "fifo_send_status P p q r G h = Some (G', h')"
  shows "sbeIntrSource G' = sbeIntrSource G \<and> sbePsu2SbeCmdReqHdr G' = sbePsu2SbeCmdReqHdr G \<and>
    sbeSbe2PsuRespHdr G' = sbeSbe2PsuRespHdr G"
  using assms
  by (auto simp: fifo_send_status_def fifo_signal_eot_def set_resp_status_def Let_def bind_eq_Some_conv
      split: if_splits)

lemma fifo_response_frame:
  assumes "sbeHandleFifoResponse P rc G h = Some (G', h')"
  shows "sbeIntrSource G' = sbeIntrSource G" "sbePsu2SbeCmdReqHdr G' = sbePsu2SbeCmdReqHdr G"
    "sbeSbe2PsuRespHdr G' = sbeSbe2PsuRespHdr G"
  using assms fifo_send_frame
  by (fastforce simp: sbeHandleFifoResponse_def fifo_signal_eot_def Let_def bind_eq_Some_conv
      split: if_splits)+

end
