(* ===== verification/Sbe_Flow.thy ===== *)
theory Sbe_Flow
  imports Sbe_Command
begin

unbundle bit_operations_syntax

text \<open>
  The control loop as a step relation in which interrupts, the receiver and the processor thread
  interleave; the invariants of its flags, masks and semaphores, and the race between a finished
  command and a FIFO reset.
\<close>

subsection \<open>Steps\<close>

text \<open>
  The receiver has the higher priority: the processor thread runs only while the receiver is blocked.
  Interrupts come at any time when they are unmasked, \<open>I\<close> is the set of those that occur. The
  hardware changes at any time. A chip operation is not modelled: it ends with any return code and
  may change the FFDC data, the SBE state, the security mode and, for a command of the host, the
  response header; no chip operation in \<open>src/sbefw/app\<close> writes to the other members.
\<close>

definition receiver_blocked :: "'h sbe_sys \<Rightarrow> bool" where
  "receiver_blocked s \<longleftrightarrow> s_rx s = RxPend \<and> sbeSemCmdRecv s = 0"

definition chip_op_effect :: "sbe_global \<Rightarrow> sbe_global \<Rightarrow> bool" where
  "chip_op_effect G G' \<longleftrightarrow>
     sbeIntrSource G' = sbeIntrSource G \<and> sbeFifoCmdHdr G' = sbeFifoCmdHdr G \<and>
     sbeCmdRespHdr G' = sbeCmdRespHdr G \<and> sbePsu2SbeCmdReqHdr G' = sbePsu2SbeCmdReqHdr G \<and>
     (isSet SBE_PROC_ROUTINE SBE_INTERFACE_PSU (sbeIntrSource G) \<or> sbeSbe2PsuRespHdr G' = sbeSbe2PsuRespHdr G)"

inductive sbe_step :: "'h pib \<Rightarrow> sbe_irq set \<Rightarrow> 'h sbe_sys \<Rightarrow> 'h sbe_sys \<Rightarrow> bool" for P I where
  interrupt: "i \<in> I \<Longrightarrow> irq_on s i \<Longrightarrow> sbe_interrupt_handler i s = Some s' \<Longrightarrow> sbe_step P I s s'"
| hardware: "sbe_step P I s (s\<lparr> s_hw := h \<rparr>)"
| receive: "s_rx s = RxPend \<Longrightarrow> 0 < sbeSemCmdRecv s \<Longrightarrow>
    receiver_pass P (s\<lparr> sbeSemCmdRecv := sbeSemCmdRecv s - 1 \<rparr>) = Some s' \<Longrightarrow> sbe_step P I s s'"
| receiver_enable: "s_rx s = RxEnableReset \<Longrightarrow>
    sbe_step P I s ((irq_set SBE_IRQ_SBEFIFO_RESET True s)\<lparr> s_rx := RxPend \<rparr>)"
| start: "receiver_blocked s \<Longrightarrow> s_proc s = PrPend \<Longrightarrow> 0 < sbeSemCmdProcess s \<Longrightarrow>
    processor_start (s\<lparr> sbeSemCmdProcess := sbeSemCmdProcess s - 1 \<rparr>) = Some s' \<Longrightarrow> sbe_step P I s s'"
| run: "receiver_blocked s \<Longrightarrow> s_proc s = PrRun f \<Longrightarrow> chip_op_effect (s_glob s) G \<Longrightarrow>
    sbe_step P I s (s\<lparr> s_glob := G, s_hw := h, s_proc := PrRespond l_rc \<rparr>)"
| respond: "receiver_blocked s \<Longrightarrow> s_proc s = PrRespond l_rc \<Longrightarrow> processor_respond P l_rc s = Some s' \<Longrightarrow>
    sbe_step P I s s'"
| processor_enable: "receiver_blocked s \<Longrightarrow> s_proc s = PrEnableReset \<Longrightarrow>
    sbe_step P I s ((irq_set SBE_IRQ_SBEFIFO_RESET True s)\<lparr> s_proc := PrPend \<rparr>)"

inductive sbe_reach :: "'h pib \<Rightarrow> sbe_irq set \<Rightarrow> 'h sbe_sys \<Rightarrow> 'h sbe_sys \<Rightarrow> bool" for P I s0 where
  init: "sbe_reach P I s0 s0"
| step: "sbe_reach P I s0 s \<Longrightarrow> sbe_step P I s s' \<Longrightarrow> sbe_reach P I s0 s'"

text \<open>The state in which the threads first block: no command, every interrupt unmasked.\<close>

definition sbe_idle :: "'h sbe_sys \<Rightarrow> bool" where
  "sbe_idle s \<longleftrightarrow> sbeIntrSource (s_glob s) = \<lparr> intrSource = 0, rxThrIntrSource = 0, procThrIntrSource = 0 \<rparr> \<and>
     (\<forall>i. irq_on s i) \<and> sbeSemCmdRecv s = 0 \<and> sbeSemCmdProcess s = 0 \<and> s_rx s = RxPend \<and> s_proc s = PrPend"

text \<open>The return codes of a register access are the three-bit PIB codes.\<close>

definition pib_codes :: "'h pib \<Rightarrow> bool" where
  "pib_codes P \<longleftrightarrow> (\<forall>a h. fst (getscom_abs P a h) < 8) \<and> (\<forall>a v h. fst (putscom_abs P a v h) < 8)"

section \<open>Invariants of the control loop\<close>

abbreviation at :: "sbeHandler_t \<Rightarrow> u8 \<Rightarrow> 'h sbe_sys \<Rightarrow> bool" where
  "at x v s \<equiv> isSet x v (sbeIntrSource (s_glob s))"

text \<open>
  The command that an interface holds: the one in its request header, when the receiver has accepted
  it. \<open>accepted\<close> says that a status of success goes with a command of the table.
\<close>

definition accepted :: "u16 \<Rightarrow> u8 \<Rightarrow> u8 \<Rightarrow> bool" where
  "accepted sec cls opc \<longleftrightarrow> (sec = 0 \<longrightarrow> lookup_command cls opc \<noteq> None)"

definition psu_accepted :: "sbe_global \<Rightarrow> bool" where
  "psu_accepted G \<longleftrightarrow> accepted (pr_secStatus (sbeSbe2PsuRespHdr G))
     (pq_cmdClass (sbePsu2SbeCmdReqHdr G)) (pq_command (sbePsu2SbeCmdReqHdr G))"

definition fifo_accepted :: "sbe_global \<Rightarrow> bool" where
  "fifo_accepted G \<longleftrightarrow> accepted (sec_status (sbeCmdRespHdr G))
     (fh_cmdClass (sbeFifoCmdHdr G)) (fh_command (sbeFifoCmdHdr G))"

text \<open>
  Where the message of an interface is: there is none, it waits for the receiver, it waits for the
  processor, or the processor works on it. The phase fixes the interface's bit in the three sources.
\<close>

datatype phase = Free | Interrupted | Received | Processing

definition phase_bits :: "sbe_global \<Rightarrow> u8 \<Rightarrow> phase \<Rightarrow> bool" where
  "phase_bits G v a \<longleftrightarrow>
     isSet SBE_INTERRUPT_ROUTINE v (sbeIntrSource G) = (a = Interrupted) \<and>
     isSet SBE_RX_ROUTINE v (sbeIntrSource G) = (a = Received \<or> a = Processing) \<and>
     isSet SBE_PROC_ROUTINE v (sbeIntrSource G) = (a = Processing)"

definition psu_function :: "sbe_global \<Rightarrow> sbeCmdFunc option" where
  "psu_function G = map_option cmd_func
     (lookup_command (pq_cmdClass (sbePsu2SbeCmdReqHdr G)) (pq_command (sbePsu2SbeCmdReqHdr G)))"

definition fifo_function :: "sbe_global \<Rightarrow> sbeCmdFunc option" where
  "fifo_function G = map_option cmd_func
     (lookup_command (fh_cmdClass (sbeFifoCmdHdr G)) (fh_command (sbeFifoCmdHdr G)))"

text \<open>
  The state of the loop when the host's message is in phase \<open>a\<close> and that of the FIFO in phase \<open>b\<close>:
  an interrupt is masked exactly while its message is under way, the semaphores count the messages
  that wait, and the processor has at most one message, whose function it runs.
\<close>

definition flow :: "'h sbe_sys \<Rightarrow> phase \<Rightarrow> phase \<Rightarrow> bool" where
  "flow s a b \<longleftrightarrow>
     phase_bits (s_glob s) SBE_INTERFACE_PSU a \<and> phase_bits (s_glob s) SBE_INTERFACE_FIFO b \<and>
     phase_bits (s_glob s) SBE_INTERFACE_FIFO_RESET Free \<and>
     irq_on s SBE_IRQ_HOST_PSU_INTR = (a = Free) \<and> irq_on s SBE_IRQ_SBEFIFO_DATA = (b = Free) \<and>
     sbeSemCmdRecv s = of_bool (a = Interrupted) + of_bool (b = Interrupted) \<and>
     sbeSemCmdProcess s = of_bool (a = Received) + of_bool (b = Received) \<and>
     \<not> (a = Processing \<and> b = Processing) \<and>
     (s_proc s = PrPend \<or> s_proc s = PrEnableReset) = (a \<noteq> Processing \<and> b \<noteq> Processing) \<and>
     (a = Received \<longrightarrow> psu_accepted (s_glob s)) \<and> (b = Received \<longrightarrow> fifo_accepted (s_glob s)) \<and>
     (\<forall>f. s_proc s = PrRun f \<longrightarrow> (a = Processing \<longrightarrow> psu_function (s_glob s) = Some f) \<and>
        (b = Processing \<longrightarrow> fifo_function (s_glob s) = Some f))"

lemma sys_simps [simp]:
  "irq_on (irq_set i b s) j = (if j = i then b else irq_on s j)" "s_glob (irq_set i b s) = s_glob s"
  "sbeSemCmdRecv (irq_set i b s) = sbeSemCmdRecv s" "sbeSemCmdProcess (irq_set i b s) = sbeSemCmdProcess s"
  "s_proc (irq_set i b s) = s_proc s" "s_rx (irq_set i b s) = s_rx s" "s_hw (irq_set i b s) = s_hw s"
  "s_glob (sys_intr f s) = upd_intr f (s_glob s)" "irq_on (sys_intr f s) = irq_on s"
  "sbeSemCmdRecv (sys_intr f s) = sbeSemCmdRecv s" "sbeSemCmdProcess (sys_intr f s) = sbeSemCmdProcess s"
  "s_proc (sys_intr f s) = s_proc s" "s_rx (sys_intr f s) = s_rx s" "s_hw (sys_intr f s) = s_hw s"
  by (simp_all add: irq_set_def sys_intr_def)

lemma accepted_frame [simp]:
  "psu_accepted (upd_intr f G) = psu_accepted G" "fifo_accepted (upd_intr f G) = fifo_accepted G"
  by (simp_all add: psu_accepted_def fifo_accepted_def)

lemma upd_env_frame [simp]:
  "sbeIntrSource (G\<lparr> sbeFifoCmdHdr := a \<rparr>) = sbeIntrSource G" "sbeIntrSource (G\<lparr> sbeCmdRespHdr := b \<rparr>) = sbeIntrSource G"
  by simp_all

lemma function_frame [simp]:
  "psu_function (upd_intr f G) = psu_function G" "fifo_function (upd_intr f G) = fifo_function G"
  by (simp_all add: psu_function_def fifo_function_def)

text \<open>The members of the global state that matter to one interface.\<close>

lemma psu_frame:
  assumes "sbePsu2SbeCmdReqHdr G = sbePsu2SbeCmdReqHdr G'" "sbeSbe2PsuRespHdr G = sbeSbe2PsuRespHdr G'"
  shows "psu_accepted G = psu_accepted G'" "psu_function G = psu_function G'"
  using assms by (simp_all add: psu_accepted_def psu_function_def)

lemma fifo_frame:
  assumes "sbeFifoCmdHdr G = sbeFifoCmdHdr G'" "sbeCmdRespHdr G = sbeCmdRespHdr G'"
  shows "fifo_accepted G = fifo_accepted G'" "fifo_function G = fifo_function G'"
  using assms by (simp_all add: fifo_accepted_def fifo_function_def)

lemmas flow_defs = flow_def phase_bits_def

lemma flow_interrupt:
  assumes "flow s a b"
  shows "irq_on s SBE_IRQ_HOST_PSU_INTR \<Longrightarrow>
      \<exists>s'. sbe_interrupt_handler SBE_IRQ_HOST_PSU_INTR s = Some s' \<and> flow s' Interrupted b"
    and "irq_on s SBE_IRQ_SBEFIFO_DATA \<Longrightarrow>
      \<exists>s'. sbe_interrupt_handler SBE_IRQ_SBEFIFO_DATA s = Some s' \<and> flow s' a Interrupted"
  using assms
  by (cases a; cases b; simp add: sbe_interrupt_handler_def sem_post_def MAX_SEMAPHORE_COUNT_def flow_defs Let_def)+

lemma dispatch_accepted:
  assumes "accepted sec cls opc"
  shows "\<exists>pc. processor_dispatch (ucast sec) cls opc s = Some (s\<lparr> s_proc := pc \<rparr>) \<and>
    ((\<exists>rc. pc = PrRespond rc) \<or> (\<exists>f. pc = PrRun f \<and> map_option cmd_func (lookup_command cls opc) = Some f))"
proof (cases "sec = 0")
  case True
  with assms obtain e where "lookup_command cls opc = Some e" by (auto simp: accepted_def)
  then show ?thesis
    using True no_class_no_command [of cls opc] by (auto simp: processor_dispatch_def find_lookup)
next
  case False
  then have "(ucast sec :: u32) \<noteq> 0" by (simp add: word_unat_eq_iff unat_ucast_up)
  then show ?thesis by (auto simp: processor_dispatch_def)
qed

lemma flow_start_psu:
  assumes "flow s Received b" "s_proc s = PrPend"
  shows "\<exists>s'. processor_start (s\<lparr> sbeSemCmdProcess := sbeSemCmdProcess s - 1 \<rparr>) = Some s' \<and> flow s' Processing b"
proof -
  let ?s = "sys_intr (setIntrSource SBE_PROC_ROUTINE SBE_INTERFACE_PSU) (s\<lparr> sbeSemCmdProcess := sbeSemCmdProcess s - 1 \<rparr>)"
  have "psu_accepted (s_glob s)" "b \<noteq> Processing" using assms by (simp_all add: flow_def)
  from dispatch_accepted [OF this(1) [unfolded psu_accepted_def], of ?s]
  obtain pc where d: "processor_dispatch (ucast (pr_secStatus (sbeSbe2PsuRespHdr (s_glob s)))) (pq_cmdClass (sbePsu2SbeCmdReqHdr (s_glob s))) (pq_command (sbePsu2SbeCmdReqHdr (s_glob s))) ?s = Some (?s\<lparr> s_proc := pc \<rparr>)"
    and pc: "(\<exists>rc. pc = PrRespond rc) \<or> (\<exists>f. pc = PrRun f \<and> psu_function (s_glob s) = Some f)"
    unfolding psu_function_def by blast
  have start: "processor_start (s\<lparr> sbeSemCmdProcess := sbeSemCmdProcess s - 1 \<rparr>) = Some (?s\<lparr> s_proc := pc \<rparr>)"
    using d assms by (simp add: processor_start_def flow_defs)
  from pc have "flow (?s\<lparr> s_proc := pc \<rparr>) Processing b"
    using assms \<open>b \<noteq> Processing\<close> by (cases b) (auto simp: flow_defs)
  with start show ?thesis by blast
qed

lemma flow_start_fifo:
  assumes "flow s a Received" "a \<noteq> Received" "s_proc s = PrPend"
  shows "\<exists>s'. processor_start (s\<lparr> sbeSemCmdProcess := sbeSemCmdProcess s - 1 \<rparr>) = Some s' \<and> flow s' a Processing"
proof -
  let ?s = "sys_intr (setIntrSource SBE_PROC_ROUTINE SBE_INTERFACE_FIFO) (s\<lparr> sbeSemCmdProcess := sbeSemCmdProcess s - 1 \<rparr>)"
  have "fifo_accepted (s_glob s)" "a \<noteq> Processing" using assms by (simp_all add: flow_def)
  from dispatch_accepted [OF this(1) [unfolded fifo_accepted_def], of ?s]
  obtain pc where d: "processor_dispatch (ucast (sec_status (sbeCmdRespHdr (s_glob s)))) (fh_cmdClass (sbeFifoCmdHdr (s_glob s))) (fh_command (sbeFifoCmdHdr (s_glob s))) ?s = Some (?s\<lparr> s_proc := pc \<rparr>)"
    and pc: "(\<exists>rc. pc = PrRespond rc) \<or> (\<exists>f. pc = PrRun f \<and> fifo_function (s_glob s) = Some f)"
    unfolding fifo_function_def by blast
  have start: "processor_start (s\<lparr> sbeSemCmdProcess := sbeSemCmdProcess s - 1 \<rparr>) = Some (?s\<lparr> s_proc := pc \<rparr>)"
    using d assms \<open>a \<noteq> Processing\<close> by (simp add: processor_start_def flow_defs)
  from pc have "flow (?s\<lparr> s_proc := pc \<rparr>) a Processing"
    using assms \<open>a \<noteq> Processing\<close> by (cases a) (auto simp: flow_defs)
  with start show ?thesis by blast
qed

lemma flow_start:
  assumes "flow s a b" "s_proc s = PrPend" "0 < sbeSemCmdProcess s"
  shows "\<exists>s' a' b'. processor_start (s\<lparr> sbeSemCmdProcess := sbeSemCmdProcess s - 1 \<rparr>) = Some s' \<and> flow s' a' b'"
proof (cases "a = Received")
  case True
  with flow_start_psu [of s b] assms show ?thesis by blast
next
  case False
  moreover have "b = Received" using assms(1,3) False by (simp add: flow_def split: if_splits)
  ultimately show ?thesis using flow_start_fifo [of s a] assms by blast
qed

lemma flow_run:
  assumes "flow s a b" "s_proc s = PrRun f" "chip_op_effect (s_glob s) G"
  shows "flow (s\<lparr> s_glob := G, s_hw := h, s_proc := PrRespond l_rc \<rparr>) a b"
proof -
  have "fifo_accepted G = fifo_accepted (s_glob s)" "a \<noteq> Processing \<Longrightarrow> psu_accepted G = psu_accepted (s_glob s)"
    using assms by (auto simp: chip_op_effect_def psu_accepted_def fifo_accepted_def flow_defs)
  then show ?thesis
    using assms by (cases a; cases b; simp add: flow_defs chip_op_effect_def)
qed

lemma flow_respond:
  assumes "flow s a b" "s_proc s = PrRespond l_rc" "processor_respond P l_rc s = Some s'"
  shows "flow s' (if a = Processing then Free else a) (if b = Processing then Free else b)"
proof (cases "a = Processing")
  case True
  then obtain G h where r: "sbeHandlePsuResponse P l_rc (s_glob s) (s_hw s) = Some (G, h)"
    and s': "s' = (irq_set SBE_IRQ_HOST_PSU_INTR True (sys_intr (clearIntrSource SBE_ALL_HANDLER SBE_INTERFACE_PSU)
      (s\<lparr> s_glob := G, s_hw := h \<rparr>)))\<lparr> s_proc := PrPend \<rparr>"
    using assms(1,3) by (auto simp: processor_respond_def bind_eq_Some_conv flow_defs)
  note frame = psu_response_frame [OF r]
  show ?thesis
    using assms(1,2) True unfolding s' by (cases b; simp add: flow_defs frame fifo_frame [OF frame(2,3)])
next
  case False
  then have b: "b = Processing" using assms(1,2) by (simp add: flow_def)
  with False obtain G h where r: "sbeHandleFifoResponse P l_rc (s_glob s) (s_hw s) = Some (G, h)"
    and s': "s' = (irq_set SBE_IRQ_SBEFIFO_DATA True (sys_intr (clearIntrSource SBE_ALL_HANDLER SBE_INTERFACE_FIFO)
      (s\<lparr> s_glob := G, s_hw := h \<rparr>)))\<lparr> s_proc := PrEnableReset \<rparr>"
    using assms(1,3) by (auto simp: processor_respond_def bind_eq_Some_conv flow_defs)
  note frame = fifo_response_frame [OF r]
  show ?thesis
    using assms(1,2) False b unfolding s' by (cases a; simp add: flow_defs frame psu_frame [OF frame(2,3)])
qed

text \<open>A pass of the receiver: the header, the checks, the end of the pass.\<close>

lemma mailbox_read_code:
  assumes "pib_codes P" "sbeReadPsu2SbeMbxReg P G a 1 b False h = Some (l_rc, b', h')"
  shows "l_rc < 8"
proof -
  have "l_rc = fst (getscom_abs P a h) \<or> l_rc = 0"
    using assms(2) by (auto simp: sbeReadPsu2SbeMbxReg_def Let_def split: if_splits prod.splits)
  then show ?thesis using assms(1) by (auto simp: pib_codes_def)
qed

lemma receive_psu_result:
  assumes "receive_psu P G h = Some (l_rc, cur, command, G', h')" "pib_codes P"
  shows "cur = SBE_INTERFACE_PSU \<and> l_rc < 8 \<and>
    sbeIntrSource G' = clearIntrSource SBE_INTERRUPT_ROUTINE SBE_INTERFACE_PSU (sbeIntrSource G) \<and>
    sbeFifoCmdHdr G' = sbeFifoCmdHdr G \<and> sbeCmdRespHdr G' = sbeCmdRespHdr G \<and>
    command = (if l_rc = 0 then Some (pq_cmdClass (sbePsu2SbeCmdReqHdr G'), pq_command (sbePsu2SbeCmdReqHdr G')) else None)"
proof (cases "sbeClearPsu2SbeDbBitX P SBE_PSU2SBE_DOORBELL_CLEAR_BIT0 h")
  case (Pair rc h1)
  have "rc < 8"
    using assms(2) Pair unfolding sbeClearPsu2SbeDbBitX_def pib_codes_def by (metis fst_conv)
  then show ?thesis
    using assms Pair mailbox_read_code [OF assms(2)]
    by (auto simp: receive_psu_def init_psu_resp_def Let_def bind_eq_Some_conv split: if_splits)
qed

lemma receive_fifo_result:
  assumes "receive_fifo P G h = Some (l_rc, cur, command, G', h')"
  shows "cur = SBE_INTERFACE_FIFO \<and>
    sbeIntrSource G' = clearIntrSource SBE_INTERRUPT_ROUTINE SBE_INTERFACE_FIFO (sbeIntrSource G) \<and>
    sbePsu2SbeCmdReqHdr G' = sbePsu2SbeCmdReqHdr G \<and> sbeSbe2PsuRespHdr G' = sbeSbe2PsuRespHdr G \<and>
    (command = None \<and> (l_rc = 0 \<longrightarrow> fifo_accepted G') \<or>
     l_rc = 0 \<and> command = Some (fh_cmdClass (sbeFifoCmdHdr G'), fh_command (sbeFifoCmdHdr G')))"
  using assms
  by (auto simp: receive_fifo_def fifo_accepted_def accepted_def Let_def bind_eq_Some_conv
      split: if_splits option.splits)

lemma check_command_result:
  assumes "check_command simics cur cls opc G = (l_rc, G')"
  shows "sbeIntrSource G' = sbeIntrSource G \<and> sbeFifoCmdHdr G' = sbeFifoCmdHdr G \<and>
    sbePsu2SbeCmdReqHdr G' = sbePsu2SbeCmdReqHdr G \<and>
    (cur \<noteq> SBE_INTERFACE_FIFO \<longrightarrow> sbeCmdRespHdr G' = sbeCmdRespHdr G) \<and>
    (cur \<noteq> SBE_INTERFACE_PSU \<longrightarrow> sbeSbe2PsuRespHdr G' = sbeSbe2PsuRespHdr G)" (is ?frame)
    and "l_rc \<in> {0, SBE_SEC_COMMAND_NOT_ALLOWED_IN_THIS_STATE, SBE_SEC_BLACKLISTED_CHIPOP_ACCESS}"
    and "l_rc = 0 \<Longrightarrow> cur = SBE_INTERFACE_PSU \<Longrightarrow> accepted (pr_secStatus (sbeSbe2PsuRespHdr G')) cls opc"
    and "l_rc = 0 \<Longrightarrow> cur = SBE_INTERFACE_FIFO \<Longrightarrow> accepted (sec_status (sbeCmdRespHdr G')) cls opc"
proof -
  note defs = check_command_def set_if_status_def Let_def validate_lookup
  show ?frame
    using assms by (auto simp: defs split: if_splits prod.splits)
  show "l_rc \<in> {0, SBE_SEC_COMMAND_NOT_ALLOWED_IN_THIS_STATE, SBE_SEC_BLACKLISTED_CHIPOP_ACCESS}"
    using assms by (auto simp: defs allowed_lookup split: if_splits)
  show "accepted (pr_secStatus (sbeSbe2PsuRespHdr G')) cls opc" if "l_rc = 0" "cur = SBE_INTERFACE_PSU"
    using assms that by (auto simp: defs allowed_lookup accepted_def split: if_splits)
  show "accepted (sec_status (sbeCmdRespHdr G')) cls opc" if "l_rc = 0" "cur = SBE_INTERFACE_FIFO"
    using assms that by (auto simp: defs allowed_lookup accepted_def split: if_splits)
qed

text \<open>The end of a pass that has taken a message of the host.\<close>

lemma receiver_finish_cases:
  assumes "s1 = sys_intr (setIntrSource SBE_RX_ROUTINE cur) (s\<lparr> rx_rc := l_rc, rx_if := cur \<rparr>)"
  shows "receiver_finish P l_rc cur s =
    (if l_rc = SBE_FIFO_RESET_RECEIVED then receiver_reset P s1
     else if l_rc = 0 then if Suc (sbeSemCmdProcess s1) \<le> MAX_SEMAPHORE_COUNT
       then Some (s1\<lparr> sbeSemCmdProcess := Suc (sbeSemCmdProcess s1) \<rparr>) else None
     else receiver_reject P l_rc cur s1)"
  unfolding receiver_finish_def sem_post_def assms Let_def by simp

lemma flow_finish_psu:
  assumes flow: "flow s Interrupted b"
    and G: "sbeIntrSource G = clearIntrSource SBE_INTERRUPT_ROUTINE SBE_INTERFACE_PSU (sbeIntrSource (s_glob s))"
      "sbeFifoCmdHdr G = sbeFifoCmdHdr (s_glob s)" "sbeCmdRespHdr G = sbeCmdRespHdr (s_glob s)"
      "l_rc = 0 \<longrightarrow> psu_accepted G" "l_rc \<noteq> SBE_FIFO_RESET_RECEIVED"
    and fin: "receiver_finish P l_rc SBE_INTERFACE_PSU
      (s\<lparr> sbeSemCmdRecv := sbeSemCmdRecv s - 1, s_glob := G, s_hw := h \<rparr>) = Some s'"
  shows "flow s' (if l_rc = 0 then Received else Free) b"
proof -
  define s1 where "s1 = sys_intr (setIntrSource SBE_RX_ROUTINE SBE_INTERFACE_PSU)
    (s\<lparr> sbeSemCmdRecv := sbeSemCmdRecv s - 1, s_glob := G, s_hw := h, rx_rc := l_rc, rx_if := SBE_INTERFACE_PSU \<rparr>)"
  have fin1: "(if l_rc = 0 then if Suc (sbeSemCmdProcess s1) \<le> MAX_SEMAPHORE_COUNT
      then Some (s1\<lparr> sbeSemCmdProcess := Suc (sbeSemCmdProcess s1) \<rparr>) else None
    else receiver_reject P l_rc SBE_INTERFACE_PSU s1) = Some s'"
    using fin G(5) by (subst (asm) receiver_finish_cases [where ?s1.0 = s1]) (simp_all add: s1_def)
  show ?thesis
  proof (cases "l_rc = 0")
    case True
    then have s': "s' = s1\<lparr> sbeSemCmdProcess := Suc (sbeSemCmdProcess s1) \<rparr>"
      using fin1 by (simp split: if_splits)
    show ?thesis
      using flow G(4) True unfolding s'
      by (cases b; simp add: flow_defs s1_def G(1) fifo_frame [OF G(2,3)])
  next
    case False
    then obtain G' h' where r: "sbeHandlePsuResponse P l_rc (s_glob s1) (s_hw s1) = Some (G', h')"
      and s': "irq_set SBE_IRQ_HOST_PSU_INTR True
        (sys_intr (clearIntrSource SBE_ALL_HANDLER SBE_INTERFACE_PSU) (s1\<lparr> s_glob := G', s_hw := h' \<rparr>)) = s'"
      using fin1 by (auto simp: receiver_reject_def Let_def bind_eq_Some_conv split: if_splits)
    note frame = psu_response_frame [OF r]
    have "fifo_accepted G' = fifo_accepted (s_glob s)" "fifo_function G' = fifo_function (s_glob s)"
      by (rule fifo_frame; simp add: frame s1_def G(2,3))+
    then show ?thesis
      using flow False unfolding s' [symmetric] by (cases b; simp add: flow_defs frame s1_def G(1))
  qed
qed

text \<open>The same for a message of the FIFO, which may also end in a reset of the FIFO.\<close>

lemma receiver_reset_fifo:
  assumes "at SBE_RX_ROUTINE SBE_INTERFACE_FIFO s" "\<not> at SBE_RX_ROUTINE SBE_INTERFACE_FIFO_RESET s"
  shows "receiver_reset P s = Some ((irq_set SBE_IRQ_SBEFIFO_DATA True (sys_intr (clearIntrSource SBE_ALL_HANDLER SBE_INTERFACE_FIFO)
    (s\<lparr> s_hw := snd (sbeUpFifoPerformReset P (s_hw s)) \<rparr>)))\<lparr> s_rx := RxEnableReset \<rparr>)"
  using assms by (simp add: receiver_reset_def Let_def case_prod_beta)

lemma flow_finish_fifo:
  assumes flow: "flow s a Interrupted"
    and G: "sbeIntrSource G = clearIntrSource SBE_INTERRUPT_ROUTINE SBE_INTERFACE_FIFO (sbeIntrSource (s_glob s))"
      "sbePsu2SbeCmdReqHdr G = sbePsu2SbeCmdReqHdr (s_glob s)" "sbeSbe2PsuRespHdr G = sbeSbe2PsuRespHdr (s_glob s)"
      "l_rc = 0 \<longrightarrow> fifo_accepted G"
    and fin: "receiver_finish P l_rc SBE_INTERFACE_FIFO
      (s\<lparr> sbeSemCmdRecv := sbeSemCmdRecv s - 1, s_glob := G, s_hw := h \<rparr>) = Some s'"
  shows "flow s' a (if l_rc = 0 then Received else Free)"
proof -
  define s1 where "s1 = sys_intr (setIntrSource SBE_RX_ROUTINE SBE_INTERFACE_FIFO)
    (s\<lparr> sbeSemCmdRecv := sbeSemCmdRecv s - 1, s_glob := G, s_hw := h, rx_rc := l_rc, rx_if := SBE_INTERFACE_FIFO \<rparr>)"
  have fin1: "(if l_rc = SBE_FIFO_RESET_RECEIVED then receiver_reset P s1
    else if l_rc = 0 then if Suc (sbeSemCmdProcess s1) \<le> MAX_SEMAPHORE_COUNT
      then Some (s1\<lparr> sbeSemCmdProcess := Suc (sbeSemCmdProcess s1) \<rparr>) else None
    else receiver_reject P l_rc SBE_INTERFACE_FIFO s1) = Some s'"
    using fin by (subst (asm) receiver_finish_cases [where ?s1.0 = s1]) (simp_all add: s1_def)
  consider (ok) "l_rc = 0" | (reset) "l_rc = SBE_FIFO_RESET_RECEIVED" | (bad) "l_rc \<noteq> 0" "l_rc \<noteq> SBE_FIFO_RESET_RECEIVED"
    by blast
  then show ?thesis
  proof cases
    case ok
    then have s': "s' = s1\<lparr> sbeSemCmdProcess := Suc (sbeSemCmdProcess s1) \<rparr>"
      using fin1 by (simp split: if_splits)
    show ?thesis
      using flow G(4) ok unfolding s'
      by (cases a; simp add: flow_defs s1_def G(1) psu_frame [OF G(2,3)])
  next
    case reset
    have "at SBE_RX_ROUTINE SBE_INTERFACE_FIFO s1" "\<not> at SBE_RX_ROUTINE SBE_INTERFACE_FIFO_RESET s1"
      using flow by (simp_all add: s1_def G(1) flow_defs)
    with fin1 reset have s': "(irq_set SBE_IRQ_SBEFIFO_DATA True (sys_intr (clearIntrSource SBE_ALL_HANDLER SBE_INTERFACE_FIFO)
        (s1\<lparr> s_hw := snd (sbeUpFifoPerformReset P (s_hw s1)) \<rparr>)))\<lparr> s_rx := RxEnableReset \<rparr> = s'"
      by (simp add: receiver_reset_fifo)
    show ?thesis
      using flow reset unfolding s' [symmetric]
      by (cases a; simp add: flow_defs s1_def G(1) psu_frame [OF G(2,3)])
  next
    case bad
    with fin1 obtain G' h' where r: "sbeHandleFifoResponse P l_rc (s_glob s1) (s_hw s1) = Some (G', h')"
      and s': "(irq_set SBE_IRQ_SBEFIFO_DATA True (sys_intr (clearIntrSource SBE_ALL_HANDLER SBE_INTERFACE_FIFO)
        (s1\<lparr> s_glob := G', s_hw := h' \<rparr>)))\<lparr> s_rx := RxEnableReset \<rparr> = s'"
      by (auto simp: receiver_reject_def Let_def bind_eq_Some_conv split: if_splits)
    note frame = fifo_response_frame [OF r]
    have "psu_accepted G' = psu_accepted (s_glob s)" "psu_function G' = psu_function (s_glob s)"
      by (rule psu_frame; simp add: frame s1_def G(2,3))+
    then show ?thesis
      using flow bad unfolding s' [symmetric] by (cases a; simp add: flow_defs frame s1_def G(1))
  qed
qed

lemma receiver_pass_cases:
  assumes "receiver_pass P s = Some s'"
  obtains rc cur command G h rc' G' where "receive_header P s = Some (rc, cur, command, G, h)"
    "(case command of None \<Rightarrow> (rc, G) | Some (cls, opc) \<Rightarrow> check_command (isSimicsRunning P) cur cls opc G) = (rc', G')"
    "receiver_finish P rc' cur (s\<lparr> s_glob := G', s_hw := h \<rparr>) = Some s'"
proof -
  from assms obtain rc cur command G h where 1: "receive_header P s = Some (rc, cur, command, G, h)"
    and 2: "(case (case command of None \<Rightarrow> (rc, G) | Some (cls, opc) \<Rightarrow> check_command (isSimicsRunning P) cur cls opc G) of
      (l_rc, G) \<Rightarrow> receiver_finish P l_rc cur (s\<lparr> s_glob := G, s_hw := h \<rparr>)) = Some s'"
    unfolding receiver_pass_def bind_eq_Some_conv by (auto simp: Let_def)
  show thesis
    by (rule that [OF 1 prod.collapse [symmetric]]) (use 2 in \<open>simp add: case_prod_beta\<close>)
qed

lemma flow_receive_psu:
  assumes flow: "flow s Interrupted b" and P: "pib_codes P"
    and rec: "receiver_pass P (s\<lparr> sbeSemCmdRecv := sbeSemCmdRecv s - 1 \<rparr>) = Some s'"
  shows "\<exists>a'. flow s' a' b"
  using rec
proof (cases rule: receiver_pass_cases)
  case (1 rc cur command G h rc' G')
  have "receive_psu P (s_glob s) (s_hw s) = Some (rc, cur, command, G, h)"
    using 1(1) flow by (simp add: receive_header_def flow_defs)
  note res = receive_psu_result [OF this P]
  have "sbeIntrSource G' = sbeIntrSource G \<and> sbeFifoCmdHdr G' = sbeFifoCmdHdr G \<and>
      sbeCmdRespHdr G' = sbeCmdRespHdr G \<and> (rc' = 0 \<longrightarrow> psu_accepted G') \<and> rc' \<noteq> SBE_FIFO_RESET_RECEIVED"
  proof (cases "rc = 0")
    case True
    with 1(2) res have "check_command (isSimicsRunning P) cur (pq_cmdClass (sbePsu2SbeCmdReqHdr G))
        (pq_command (sbePsu2SbeCmdReqHdr G)) G = (rc', G')" by simp
    note check_command_result [OF this]
    then show ?thesis using res by (auto simp: psu_accepted_def)
  next
    case False
    then show ?thesis using 1(2) res by (auto simp: word_less_nat_alt)
  qed
  then show ?thesis
    using flow_finish_psu [OF flow, of G' rc' P h s'] 1(3) res by auto
qed

lemma flow_receive_fifo:
  assumes flow: "flow s a Interrupted" "a \<noteq> Interrupted"
    and rec: "receiver_pass P (s\<lparr> sbeSemCmdRecv := sbeSemCmdRecv s - 1 \<rparr>) = Some s'"
  shows "\<exists>b'. flow s' a b'"
  using rec
proof (cases rule: receiver_pass_cases)
  case (1 rc cur command G h rc' G')
  have "receive_fifo P (s_glob s) (s_hw s) = Some (rc, cur, command, G, h)"
    using 1(1) flow by (simp add: receive_header_def flow_defs)
  note res = receive_fifo_result [OF this]
  have "sbeIntrSource G' = sbeIntrSource G \<and> sbePsu2SbeCmdReqHdr G' = sbePsu2SbeCmdReqHdr G \<and>
      sbeSbe2PsuRespHdr G' = sbeSbe2PsuRespHdr G \<and> (rc' = 0 \<longrightarrow> fifo_accepted G')"
  proof (cases command)
    case None
    then show ?thesis using 1(2) res by auto
  next
    case (Some c)
    with 1(2) res have "check_command (isSimicsRunning P) cur (fh_cmdClass (sbeFifoCmdHdr G))
        (fh_command (sbeFifoCmdHdr G)) G = (rc', G')" by simp
    note check_command_result [OF this]
    then show ?thesis using res by (auto simp: fifo_accepted_def)
  qed
  then show ?thesis
    using flow_finish_fifo [OF flow(1), of G' rc' P h s'] 1(3) res by auto
qed

lemma flow_receive:
  assumes "flow s a b" "0 < sbeSemCmdRecv s" "pib_codes P"
    "receiver_pass P (s\<lparr> sbeSemCmdRecv := sbeSemCmdRecv s - 1 \<rparr>) = Some s'"
  shows "\<exists>a' b'. flow s' a' b'"
proof (cases "a = Interrupted")
  case True
  with flow_receive_psu [of s b P s'] assms show ?thesis by blast
next
  case False
  then have "b = Interrupted" using assms(1,2) by (simp add: flow_def split: if_splits)
  with False flow_receive_fifo [of s a P s'] assms show ?thesis by blast
qed

lemma flow_step:
  assumes "sbe_step P I s s'" "flow s a b" "SBE_IRQ_SBEFIFO_RESET \<notin> I" "pib_codes P"
  shows "\<exists>a' b'. flow s' a' b'"
  using assms
proof (induction rule: sbe_step.induct)
  case (interrupt i s s')
  then show ?case using flow_interrupt [of s a b] by (cases i) auto
next
  case (hardware s h)
  then have "flow (s\<lparr> s_hw := h \<rparr>) a b" by (simp add: flow_def)
  then show ?case by blast
next
  case (receive s s')
  then show ?case by (intro flow_receive [of s a b P s']) auto
next
  case (receiver_enable s)
  then have "flow ((irq_set SBE_IRQ_SBEFIFO_RESET True s)\<lparr> s_rx := RxPend \<rparr>) a b" by (simp add: flow_def)
  then show ?case by blast
next
  case (start s s')
  then show ?case using flow_start [of s a b] by auto
next
  case (run s f G h l_rc)
  then show ?case using flow_run [of s a b f G] by blast
next
  case (respond s l_rc s')
  then show ?case using flow_respond [of s a b l_rc P s'] by blast
next
  case (processor_enable s)
  then have "flow ((irq_set SBE_IRQ_SBEFIFO_RESET True s)\<lparr> s_proc := PrPend \<rparr>) a b" by (simp add: flow_def)
  then show ?case by blast
qed

lemma flow_idle: "sbe_idle s \<Longrightarrow> flow s Free Free"
  by (simp add: sbe_idle_def flow_defs) (simp add: isSet.simps split: sbeHandler_t.split)

lemma flow_reach:
  assumes "sbe_reach P I s0 s" "sbe_idle s0" "SBE_IRQ_SBEFIFO_RESET \<notin> I" "pib_codes P"
  shows "\<exists>a b. flow s a b"
  using assms
proof (induction rule: sbe_reach.induct)
  case init
  then show ?case using flow_idle by blast
next
  case (step s s')
  then show ?case using flow_step [of P I s s'] by blast
qed

text \<open>
  The loop at rest with a command in the FIFO, GetScom, in the state in which every command is let
  through; and the run of the loop in which a second command arrives between the two calls that end
  the first one.
\<close>

definition getscom_cmd :: "u64 list" where
  "getscom_cmd = [0x0000000480000000, 0x0000A20180000000]"

definition sample_glob :: sbe_global where
  "sample_glob = \<lparr> sbeFifoCmdHdr = \<lparr> fh_len = 0, fh_clientId = 0, fh_cmdClass = 0, fh_command = 0 \<rparr>,
     sbeCmdRespHdr = init_cmd_resp, sbePsu2SbeCmdReqHdr = init_psu_req,
     sbeSbe2PsuRespHdr = \<lparr> pr_primStatus = 0, pr_secStatus = 0, pr_seqID = 0, pr_cmdClass = 0, pr_command = 0 \<rparr>,
     sbeIntrSource = \<lparr> intrSource = 0, rxThrIntrSource = 0, procThrIntrSource = 0 \<rparr>,
     g_env = sample_env, sbeFWSecurityEnabled = False \<rparr>"

definition sample_sys :: "fifo_sim sbe_sys" where
  "sample_sys = \<lparr> s_glob = sample_glob, s_hw = \<lparr> fs_up = getscom_cmd, fs_sent = [], fs_busy = 0, fs_eots = 0 \<rparr>,
     irq_on = (\<lambda>_. True), sbeSemCmdRecv = 0, sbeSemCmdProcess = 0, s_rx = RxPend, rx_rc = 0, rx_if = 0,
     s_proc = PrPend \<rparr>"

lemma sample_idle: "sbe_idle sample_sys"
  by (simp add: sbe_idle_def sample_sys_def sample_glob_def)

definition receive_next :: "fifo_sim sbe_sys \<Rightarrow> fifo_sim sbe_sys" where
  "receive_next s = the (receiver_pass sim_fifo (s\<lparr> sbeSemCmdRecv := sbeSemCmdRecv s - 1 \<rparr>))"

definition start_next :: "fifo_sim sbe_sys \<Rightarrow> fifo_sim sbe_sys" where
  "start_next s = the (processor_start (s\<lparr> sbeSemCmdProcess := sbeSemCmdProcess s - 1 \<rparr>))"

definition sample_run :: "fifo_sim sbe_sys" where
  "sample_run = start_next (receive_next (the (sbe_interrupt_handler SBE_IRQ_SBEFIFO_DATA sample_sys)))"

lemma reach_interrupt:
  assumes "sbe_reach P I s0 s" "i \<in> I" "irq_on s i" "sbe_interrupt_handler i s \<noteq> None"
  shows "sbe_reach P I s0 (the (sbe_interrupt_handler i s))"
  by (rule sbe_reach.step [OF assms(1) sbe_step.interrupt [OF assms(2,3)]]) (use assms(4) in auto)

lemma reach_receive:
  assumes "sbe_reach sim_fifo I s0 s" "s_rx s = RxPend" "0 < sbeSemCmdRecv s"
    "receiver_pass sim_fifo (s\<lparr> sbeSemCmdRecv := sbeSemCmdRecv s - 1 \<rparr>) \<noteq> None"
  shows "sbe_reach sim_fifo I s0 (receive_next s)"
  unfolding receive_next_def
  by (rule sbe_reach.step [OF assms(1) sbe_step.receive [OF assms(2,3)]]) (use assms(4) in auto)

lemma reach_start:
  assumes "sbe_reach sim_fifo I s0 s" "receiver_blocked s" "s_proc s = PrPend" "0 < sbeSemCmdProcess s"
    "processor_start (s\<lparr> sbeSemCmdProcess := sbeSemCmdProcess s - 1 \<rparr>) \<noteq> None"
  shows "sbe_reach sim_fifo I s0 (start_next s)"
  unfolding start_next_def
  by (rule sbe_reach.step [OF assms(1) sbe_step.start [OF assms(2,3,4)]]) (use assms(5) in auto)

lemma reach_respond:
  assumes "sbe_reach P I s0 s" "receiver_blocked s" "s_proc s = PrRespond rc" "processor_respond P rc s \<noteq> None"
  shows "sbe_reach P I s0 (the (processor_respond P rc s))"
  by (rule sbe_reach.step [OF assms(1) sbe_step.respond [OF assms(2,3)]]) (use assms(4) in auto)

lemma sample_run_reach:
  assumes "SBE_IRQ_SBEFIFO_DATA \<in> I"
  shows "sbe_reach sim_fifo I sample_sys sample_run"
  unfolding sample_run_def
proof (rule reach_start [OF reach_receive [OF reach_interrupt [OF sbe_reach.init assms]]])
  let ?s1 = "the (sbe_interrupt_handler SBE_IRQ_SBEFIFO_DATA sample_sys)"
  show "irq_on sample_sys SBE_IRQ_SBEFIFO_DATA" "sbe_interrupt_handler SBE_IRQ_SBEFIFO_DATA sample_sys \<noteq> None"
    by code_simp+
  show "s_rx ?s1 = RxPend" "0 < sbeSemCmdRecv ?s1"
    "receiver_pass sim_fifo (?s1\<lparr> sbeSemCmdRecv := sbeSemCmdRecv ?s1 - 1 \<rparr>) \<noteq> None"
    by code_simp+
  show "receiver_blocked (receive_next ?s1)" "s_proc (receive_next ?s1) = PrPend" "0 < sbeSemCmdProcess (receive_next ?s1)"
    "processor_start ((receive_next ?s1)\<lparr> sbeSemCmdProcess := sbeSemCmdProcess (receive_next ?s1) - 1 \<rparr>) \<noteq> None"
    by code_simp+
qed

lemma sample_run_state: "s_proc sample_run = PrRun sbeGetScom" "receiver_blocked sample_run"
  by code_simp+

lemma sim_fifo_codes: "pib_codes sim_fifo"
  by (auto simp: pib_codes_def sim_fifo_def sim_get_def sim_put_def split: list.split)

text \<open>
  Property C4. The control loop from its idle state, with commands of the host and of the FIFO
  arriving in any order: a message is in one phase at a time and its interrupt is masked for as long
  as it is under way, so the handler never overflows its semaphore and the processor never wakes up
  without a message or a function; it runs the function that the table has for the message, and when
  both threads wait every interrupt is unmasked, so that no message is left behind.
\<close>

theorem command_flow:
  assumes "sbe_reach P I s0 s" "sbe_idle s0" "I \<subseteq> {SBE_IRQ_HOST_PSU_INTR, SBE_IRQ_SBEFIFO_DATA}" "pib_codes P"
  shows "(\<exists>a b. flow s a b) \<and>
    (i \<in> I \<and> irq_on s i \<longrightarrow> sbe_interrupt_handler i s \<noteq> None) \<and>
    (s_proc s = PrPend \<and> 0 < sbeSemCmdProcess s \<longrightarrow>
      processor_start (s\<lparr> sbeSemCmdProcess := sbeSemCmdProcess s - 1 \<rparr>) \<noteq> None) \<and>
    (s_proc s = PrRun f \<longrightarrow>
      (if at SBE_PROC_ROUTINE SBE_INTERFACE_PSU s then psu_function (s_glob s) else fifo_function (s_glob s)) = Some f) \<and>
    (receiver_blocked s \<and> s_proc s = PrPend \<and> sbeSemCmdProcess s = 0 \<longrightarrow>
      irq_on s SBE_IRQ_HOST_PSU_INTR \<and> irq_on s SBE_IRQ_SBEFIFO_DATA)"
proof -
  have "SBE_IRQ_SBEFIFO_RESET \<notin> I" using assms(3) by auto
  then obtain a b where flow: "flow s a b" using flow_reach [OF assms(1,2) _ assms(4)] by blast
  have "i \<in> I \<and> irq_on s i \<longrightarrow> sbe_interrupt_handler i s \<noteq> None"
    using flow_interrupt [OF flow] assms(3) by auto
  moreover have "s_proc s = PrPend \<and> 0 < sbeSemCmdProcess s \<longrightarrow>
      processor_start (s\<lparr> sbeSemCmdProcess := sbeSemCmdProcess s - 1 \<rparr>) \<noteq> None"
    using flow_start [OF flow] by auto
  moreover have "s_proc s = PrRun f \<longrightarrow>
      (if at SBE_PROC_ROUTINE SBE_INTERFACE_PSU s then psu_function (s_glob s) else fifo_function (s_glob s)) = Some f"
    using flow by (cases a; cases b) (auto simp: flow_defs)
  moreover have "receiver_blocked s \<and> s_proc s = PrPend \<and> sbeSemCmdProcess s = 0 \<longrightarrow>
      irq_on s SBE_IRQ_HOST_PSU_INTR \<and> irq_on s SBE_IRQ_SBEFIFO_DATA"
    using flow by (cases a; cases b) (simp_all add: flow_defs receiver_blocked_def)
  ultimately show ?thesis using flow by blast
qed

text \<open>GetScom has arrived and been dispatched: the processor runs its function.\<close>

theorem command_flow_witness:
  "s_proc sample_run = PrRun sbeGetScom \<and> (\<exists>a b. flow sample_run a b) \<and> fifo_function (s_glob sample_run) = Some sbeGetScom"
proof -
  have "SBE_IRQ_SBEFIFO_DATA \<in> {SBE_IRQ_HOST_PSU_INTR, SBE_IRQ_SBEFIFO_DATA}" by simp
  from command_flow [OF sample_run_reach [OF this] sample_idle order_refl sim_fifo_codes, of SBE_IRQ_SBEFIFO_DATA sbeGetScom]
  have "\<exists>a b. flow sample_run a b" "(if at SBE_PROC_ROUTINE SBE_INTERFACE_PSU sample_run
      then psu_function (s_glob sample_run) else fifo_function (s_glob sample_run)) = Some sbeGetScom"
    using sample_run_state(1) by blast+
  moreover have "\<not> at SBE_PROC_ROUTINE SBE_INTERFACE_PSU sample_run" by code_simp
  ultimately show ?thesis using sample_run_state(1) by simp
qed

text \<open>
  The first command ends while the second one is in the FIFO; it is received before the processor
  unmasks the reset; the reset then drops it, but not its post of the processor's semaphore.
\<close>

definition race_done :: "fifo_sim sbe_sys" where
  "race_done = the (processor_respond sim_fifo 0 (sample_run\<lparr> s_glob := s_glob sample_run,
     s_hw := \<lparr> fs_up = getscom_cmd, fs_sent = [], fs_busy = 0, fs_eots = 0 \<rparr>, s_proc := PrRespond 0 \<rparr>))"

definition race_second :: "fifo_sim sbe_sys" where
  "race_second = receive_next (the (sbe_interrupt_handler SBE_IRQ_SBEFIFO_DATA race_done))"

definition race_unmasked :: "fifo_sim sbe_sys" where
  "race_unmasked = (irq_set SBE_IRQ_SBEFIFO_RESET True race_second)\<lparr> s_proc := PrPend \<rparr>"

definition race_reset :: "fifo_sim sbe_sys" where
  "race_reset = receive_next (the (sbe_interrupt_handler SBE_IRQ_SBEFIFO_RESET race_unmasked))"

definition race_end :: "fifo_sim sbe_sys" where
  "race_end = (irq_set SBE_IRQ_SBEFIFO_RESET True race_reset)\<lparr> s_rx := RxPend \<rparr>"

lemma race_done_reach: "sbe_reach sim_fifo UNIV sample_sys race_done"
proof -
  let ?s = "sample_run\<lparr> s_glob := s_glob sample_run,
     s_hw := \<lparr> fs_up = getscom_cmd, fs_sent = [], fs_busy = 0, fs_eots = 0 \<rparr>, s_proc := PrRespond 0 \<rparr>"
  have "sbe_step sim_fifo UNIV sample_run ?s"
    by (rule sbe_step.run [OF sample_run_state(2,1)]) (simp add: chip_op_effect_def)
  from sbe_reach.step [OF sample_run_reach [OF UNIV_I] this] have "sbe_reach sim_fifo UNIV sample_sys ?s" .
  moreover have "receiver_blocked ?s" "s_proc ?s = PrRespond 0"
    using sample_run_state(2) by (simp_all add: receiver_blocked_def)
  moreover have "processor_respond sim_fifo 0 ?s \<noteq> None" by code_simp
  ultimately show ?thesis unfolding race_done_def by (rule reach_respond)
qed

lemma race_second_reach: "sbe_reach sim_fifo UNIV sample_sys race_second"
  unfolding race_second_def
proof (rule reach_receive [OF reach_interrupt [OF race_done_reach UNIV_I]])
  let ?s = "the (sbe_interrupt_handler SBE_IRQ_SBEFIFO_DATA race_done)"
  show "irq_on race_done SBE_IRQ_SBEFIFO_DATA" "sbe_interrupt_handler SBE_IRQ_SBEFIFO_DATA race_done \<noteq> None"
    by code_simp+
  show "s_rx ?s = RxPend" "0 < sbeSemCmdRecv ?s"
    "receiver_pass sim_fifo (?s\<lparr> sbeSemCmdRecv := sbeSemCmdRecv ?s - 1 \<rparr>) \<noteq> None"
    by code_simp+
qed

lemma race_unmasked_reach: "sbe_reach sim_fifo UNIV sample_sys race_unmasked"
  unfolding race_unmasked_def
  by (rule sbe_reach.step [OF race_second_reach sbe_step.processor_enable]) code_simp+

lemma race_reset_reach: "sbe_reach sim_fifo UNIV sample_sys race_reset"
  unfolding race_reset_def
proof (rule reach_receive [OF reach_interrupt [OF race_unmasked_reach UNIV_I]])
  let ?s = "the (sbe_interrupt_handler SBE_IRQ_SBEFIFO_RESET race_unmasked)"
  show "irq_on race_unmasked SBE_IRQ_SBEFIFO_RESET" "sbe_interrupt_handler SBE_IRQ_SBEFIFO_RESET race_unmasked \<noteq> None"
    by code_simp+
  show "s_rx ?s = RxPend" "0 < sbeSemCmdRecv ?s"
    "receiver_pass sim_fifo (?s\<lparr> sbeSemCmdRecv := sbeSemCmdRecv ?s - 1 \<rparr>) \<noteq> None"
    by code_simp+
qed

text \<open>
  Property C5. With resets of the FIFO the loop can fail: \<open>sbe_interrupt_handler\<close> masks the reset while
  a message of the FIFO is under way, but the end of the previous command unmasks it again, and the
  receiver's reset drops the message it has just handed over without taking back the post. From the
  idle state the loop reaches one in which the processor is woken with no source set, which the code
  answers with a failed assertion.
\<close>

theorem fifo_reset_race:
  "sbe_idle sample_sys \<and> sbe_reach sim_fifo UNIV sample_sys race_end \<and> receiver_blocked race_end \<and>
   s_proc race_end = PrPend \<and> sbeSemCmdProcess race_end = 1 \<and>
   processor_start (race_end\<lparr> sbeSemCmdProcess := 0 \<rparr>) = None"
proof -
  have "sbe_reach sim_fifo UNIV sample_sys race_end"
    unfolding race_end_def
    by (rule sbe_reach.step [OF race_reset_reach sbe_step.receiver_enable]) code_simp
  moreover have "receiver_blocked race_end" "s_proc race_end = PrPend" "sbeSemCmdProcess race_end = 1"
    "processor_start (race_end\<lparr> sbeSemCmdProcess := 0 \<rparr>) = None"
    by code_simp+
  ultimately show ?thesis using sample_idle by blast
qed

section \<open>The answer to a refused command\<close>

lemma record_failure_env [simp]:
  "ffdcLength (g_env (record_failure p q n c d G)) = ffdcLength (g_env G)"
  "sbeFFDCUserDataArray (g_env (record_failure p q n c d G)) = sbeFFDCUserDataArray (g_env G)"
  by (simp_all add: record_failure_def)

definition refused_header :: "u32 \<Rightarrow> sbe_global \<Rightarrow> sbeRespGenHdr_t" where
  "refused_header rc G = \<lparr> rh_magicCode = 0xC0DE, rh_cmdClass = fh_cmdClass (sbeFifoCmdHdr G),
     rh_command = fh_command (sbeFifoCmdHdr G),
     rh_primaryStatus = (if rc = SBE_SEC_COMMAND_NOT_ALLOWED_IN_THIS_STATE then ucast SBE_PRI_INVALID_COMMAND else 0),
     rh_secondaryStatus = ucast rc \<rparr>"

text \<open>
  Property C6. A command of the FIFO that is refused is answered: the rest of the message is flushed
  up to its EOT, so that the next message starts clean, and a reader finds a header with the class
  and opcode of the command and the reason as secondary status. The primary status says invalid
  command only for a command that its state forbids; for an unknown class, an unknown command, a
  fenced command in secure mode and a failure of the kernel it says success.
\<close>

theorem reject_response:
  assumes "fifo_feeds P up" "fifo_drains P sent busy" "up h = es @ e # rest" "\<forall>x \<in> set es. plain_entry x"
    "eot_entry e" "length (words_of es) < 2 ^ 32" "ffdcLength (g_env G) mod 4 = 0"
    "length (sbeFFDCUserDataArray (g_env G)) \<le> 2" "rc \<in> set REJECTED_RCS \<or> rc = SBE_SEC_OS_FAILURE"
  shows "\<exists>h1 G' h'. sbeUpFifoDeq_mult P 1 None True True h = Some (0, of_nat (length (words_of es)), None, h1) \<and>
    up h1 = rest \<and> sbeHandleFifoResponse P rc G h = Some (G', h') \<and>
    parse_response (sent h') = (sent h1, refused_header rc G)"
proof -
  obtain h1 where h1: "sbeUpFifoDeq_mult P 1 None True True h = Some (0, of_nat (length (words_of es)), None, h1)"
    "up h1 = rest"
    using flush_to_eot [OF assms(1,3-6)] by blast
  let ?prim = "if rc = SBE_SEC_COMMAND_NOT_ALLOWED_IN_THIS_STATE then SBE_PRI_INVALID_COMMAND else SBE_PRI_OPERATION_SUCCESSFUL"
  obtain G1 where G1: "set_resp_status ?prim rc (init_resp_hdr G) G = (refused_header rc G, G1)"
    "ffdcLength (g_env G1) mod 4 = 0" "length (sbeFFDCUserDataArray (g_env G1)) \<le> 2"
    using assms(7,8) by (simp add: set_resp_status_def init_resp_hdr_def refused_header_def)
  obtain h2 body where h2: "sbeDsSendRespHdr P (g_env G1) (refused_header rc G) None h1 = Some (0, h2)"
    "sent h2 = sent h1 @ resp_hdr_words (refused_header rc G) @ body @ [of_nat (length body + 3)]" "length body + 3 < 2 ^ 32"
    using send_resp_hdr_sends [OF assms(2) G1(2,3)] by blast
  obtain h3 where h3: "sbeDownFifoSignalEot P h2 = Some (0, h3)" "sent h3 = sent h2"
    using signal_eot_returns [OF assms(2)] by blast
  have "rc \<noteq> SBE_FIFO_RESET_RECEIVED" "rc \<noteq> SBE_SEC_UNEXPECTED_EOT_INSUFFICIENT_DATA"
    "rc \<noteq> SBE_SEC_UNEXPECTED_EOT_EXCESS_DATA" using assms(9) by auto
  then have "sbeHandleFifoResponse P rc G h = fifo_send_status P ?prim rc (init_resp_hdr G) G h1"
    using assms(9) h1(1) by (simp add: sbeHandleFifoResponse_def Let_def del: set_simps)
  also have "\<dots> = Some (G1, h3)"
    using G1(1) h2(1) h3(1) by (simp add: fifo_send_status_def fifo_signal_eot_def)
  finally have "sbeHandleFifoResponse P rc G h = Some (G1, h3)" .
  moreover have "parse_response (sent h3) = (sent h1, refused_header rc G)"
    unfolding h3(2) h2(2) by (rule parse_sent [OF h2(3)])
  ultimately show ?thesis using h1 by blast
qed

text \<open>A class that does not exist: the answer's primary status is that of a success.\<close>

theorem reject_response_witness:
  "\<exists>G' h'. sbeHandleFifoResponse sim_fifo SBE_SEC_COMMAND_CLASS_NOT_SUPPORTED sample_glob sample_up = Some (G', h') \<and>
    rh_primaryStatus (snd (parse_response (fs_sent h'))) = ucast SBE_PRI_OPERATION_SUCCESSFUL"
proof -
  have "fs_up sample_up = [0x0000000380000000, 0, 0x0000A20180000000] @ 0x40000000 # []"
    by (simp add: sample_up_def)
  from reject_response [OF sim_fifo_feeds sim_fifo_drains this, of sample_glob SBE_SEC_COMMAND_CLASS_NOT_SUPPORTED]
  show ?thesis
    by (auto simp: entry_defs sample_glob_def sample_env_def refused_header_def)
qed

end
