(* ===== verification/Sbe_Scom.thy ===== *)
theory Sbe_Scom
  imports Sbe_Command Sbe_Security
begin

unbundle bit_operations_syntax

text \<open>
  Register access for chip operations: the platform's wrappers around the register access with their
  retries (\<open>plat_hw_access.C\<close>), direct and indirect access under the security lists (\<open>sbescom.C\<close>), and
  the chip operations GetScom, PutScom, ModifyScom and PutScomUnderMask (\<open>sbecmdscomaccess.C\<close>).
  The record \<open>scom_plat\<close> holds what the build generates: the security lists, the return codes of
  the failures and what a failure records for the FFDC; and the security mode and the sleep.
\<close>

subsection \<open>Platform access\<close>

record 'h scom_plat =
  sec_lists :: GenSecurityListTables
  security_mode :: u8
  fapi_rc_of :: "u32 \<Rightarrow> u32"
  scom_ffdc :: "u32 \<Rightarrow> u32 \<Rightarrow> resp_env \<Rightarrow> resp_env"
  pk_sleep_ns :: "nat \<Rightarrow> 'h \<Rightarrow> 'h"

abbreviation "PIB_NO_ERROR \<equiv> 0 :: u32"
abbreviation "PIB_OFFLINE_ERROR \<equiv> 2 :: u8"
abbreviation "PIB_PARITY_ERROR \<equiv> 6 :: u8"
abbreviation "PIB_TIMEOUT_ERROR \<equiv> 7 :: u8"
abbreviation "SBE_SEC_INVALID_ADDRESS_PASSED \<equiv> 0x03 :: u32"
abbreviation "SBE_PRI_USER_ERROR \<equiv> 0x03 :: u32"
abbreviation "SBE_SEC_BLACKLISTED_REG_ACCESS \<equiv> 0x0B :: u32"
abbreviation "SBE_SEC_HW_OP_TIMEOUT \<equiv> 0x10 :: u32"
abbreviation "SBE_SEC_PCB_PIB_ERR \<equiv> 0x11 :: u32"
abbreviation "SBE_SEC_BLACKLISTED_REG_ACCESS_BLOCKED \<equiv> 0x23 :: u32"

text \<open>
  The fields of a register address and of a target handle, and the address that a target stands for;
  \<open>None\<close> is the assertion on the chiplet of an EX target.
\<close>

abbreviation "iv_chiplet a \<equiv> bf_get 2 6 (a :: u32)"
abbreviation "iv_ring a \<equiv> bf_get 18 4 (a :: u32)"
abbreviation "iv_satId a \<equiv> bf_get 22 4 (a :: u32)"
abbreviation "set_chiplet v a \<equiv> bf_put 2 6 v (a :: u32)"
abbreviation "set_ring v a \<equiv> bf_put 18 4 v (a :: u32)"
abbreviation "set_satId v a \<equiv> bf_put 22 4 v (a :: u32)"

abbreviation "chiplet_num t \<equiv> bf_get 0 8 (t :: u32)"
abbreviation "getTargetInstance t \<equiv> bf_get 8 8 (t :: u32)"
abbreviation "getTargetType t \<equiv> bf_get 20 12 (t :: u32)"

definition getEffectiveAddress :: "u32 \<Rightarrow> u32 \<Rightarrow> u32 option" where
  "getEffectiveAddress i_target i_addr =
     (let typ = getTargetType i_target; inst = getTargetInstance i_target
      in if typ = 0x10
         then if 0x10 \<le> iv_chiplet i_addr \<and> 0x10 + 6 > iv_chiplet i_addr
              then Some (set_ring (iv_ring i_addr - iv_ring i_addr mod 2 + inst mod 2)
                          (set_chiplet (chiplet_num i_target) i_addr))
              else if 0x20 \<le> iv_chiplet i_addr \<and> 0x20 + 24 > iv_chiplet i_addr
              then Some (set_chiplet (0x20 + iv_chiplet i_addr mod 2 + inst * 2) i_addr)
              else None
         else if typ = 0x02 \<or> typ = 0x200
         then Some (set_satId (2 * (inst mod 2)) (set_chiplet (chiplet_num i_target) i_addr))
         else if typ = 0x100
         then let sat = if iv_satId i_addr < 4 then 1 else 4;
                  off = (if inst mod 2 \<noteq> 0 then 0 else 1) + 2 * (inst div 5)
              in if iv_chiplet i_addr = 4
                 then if inst = 0 then Some (set_satId sat (set_ring 3 i_addr))
                      else Some (set_satId (sat + off) (set_ring ((3 + inst div 3 + 1) AND 0xF) i_addr))
                 else let a = set_chiplet (chiplet_num i_target) i_addr
                      in if inst = 0 then Some (set_satId sat a) else Some (set_satId (sat + off) a)
         else if i_target AND 0xFF000000 \<noteq> 0 then Some (set_chiplet (chiplet_num i_target) i_addr)
         else Some i_addr)"

definition pibRcToFapiRc :: "'h scom_plat \<Rightarrow> u32 \<Rightarrow> u32" where
  "pibRcToFapiRc L i_pibRc = (if 1 \<le> i_pibRc \<and> i_pibRc \<le> 7 then fapi_rc_of L i_pibRc else 0)"

text \<open>The retries, \<open>n\<close> of which are left; the result is the last code with the data.\<close>

fun pib_retry :: "'h pib \<Rightarrow> nat \<Rightarrow> u32 \<Rightarrow> u64 \<Rightarrow> u8 \<Rightarrow> bool \<Rightarrow> bool \<Rightarrow> u32 \<Rightarrow> 'h \<Rightarrow> u32 \<times> u64 \<times> 'h" where
  "pib_retry P 0 i_addr io_data i_pibErr i_isRead retryOnOffline pibErr h = (pibErr, io_data, h)"
| "pib_retry P (Suc n) i_addr io_data i_pibErr i_isRead retryOnOffline pibErr h =
     (let (pibErr, io_data, h) =
            (if i_isRead then getscom_abs P i_addr h
             else let (rc, h) = putscom_abs P i_addr io_data h in (rc, io_data, h))
      in if pibErr = PIB_NO_ERROR \<or> (pibErr = ucast PIB_OFFLINE_ERROR \<and> retryOnOffline)
         then (PIB_NO_ERROR, io_data, h)
         else if pibErr \<noteq> ucast i_pibErr then (pibErr, io_data, h)
         else pib_retry P n i_addr io_data i_pibErr i_isRead retryOnOffline pibErr h)"

definition p9_handlePibErr :: "'h pib \<Rightarrow> u32 \<Rightarrow> u64 \<Rightarrow> u8 \<Rightarrow> bool \<Rightarrow> 'h \<Rightarrow> u32 \<times> u64 \<times> 'h" where
  "p9_handlePibErr P i_addr io_data i_pibErr i_isRead h =
     (let retryOnOffline = (i_pibErr = PIB_OFFLINE_ERROR \<and> i_addr AND 0x40000000 \<noteq> 0);
          pibErr = (if retryOnOffline then PIB_NO_ERROR else ucast i_pibErr)
      in if i_pibErr \<noteq> PIB_PARITY_ERROR \<and> i_pibErr \<noteq> PIB_TIMEOUT_ERROR \<and> \<not> retryOnOffline
         then (pibErr, io_data, h)
         else pib_retry P 2 i_addr io_data i_pibErr i_isRead retryOnOffline pibErr h)"

text \<open>The code \<open>current_err\<close> and the FFDC that a failure leaves behind.\<close>

definition wrap_result :: "'h scom_plat \<Rightarrow> u32 \<Rightarrow> u32 \<Rightarrow> resp_env \<Rightarrow> u32 \<times> resp_env" where
  "wrap_result L l_addr l_pibRc E =
     (if l_pibRc = PIB_NO_ERROR then (0, E) else (pibRcToFapiRc L l_pibRc, scom_ffdc L l_addr l_pibRc E))"

definition getscom_abs_wrap :: "'h pib \<Rightarrow> 'h scom_plat \<Rightarrow> u32 \<Rightarrow> u32 \<Rightarrow> resp_env \<Rightarrow> 'h
    \<Rightarrow> (u32 \<times> u64 \<times> resp_env \<times> 'h) option" where
  "getscom_abs_wrap P L i_target i_addr E h = do {
     l_addr \<leftarrow> getEffectiveAddress i_target i_addr;
     let (l_pibRc, o_data, h) = getscom_abs P l_addr h;
     let (l_pibRc, o_data, h) = (if l_pibRc \<noteq> PIB_NO_ERROR
           then p9_handlePibErr P l_addr o_data (ucast l_pibRc) True h else (l_pibRc, o_data, h));
     let (rc, E) = wrap_result L l_addr l_pibRc E;
     Some (rc, o_data, E, h)
   }"

definition putscom_abs_wrap :: "'h pib \<Rightarrow> 'h scom_plat \<Rightarrow> u32 \<Rightarrow> u32 \<Rightarrow> u64 \<Rightarrow> resp_env \<Rightarrow> 'h
    \<Rightarrow> (u32 \<times> resp_env \<times> 'h) option" where
  "putscom_abs_wrap P L i_target i_addr i_data E h = do {
     l_addr \<leftarrow> getEffectiveAddress i_target i_addr;
     let (l_pibRc, h) = putscom_abs P l_addr i_data h;
     let (l_pibRc, i_data, h) = (if l_pibRc \<noteq> PIB_NO_ERROR
           then p9_handlePibErr P l_addr i_data (ucast l_pibRc) False h else (l_pibRc, i_data, h));
     let (rc, E) = wrap_result L l_addr l_pibRc E;
     Some (rc, E, h)
   }"

definition putscom_under_mask :: "'h pib \<Rightarrow> 'h scom_plat \<Rightarrow> u32 \<Rightarrow> u32 \<Rightarrow> u64 \<Rightarrow> u64 \<Rightarrow> resp_env \<Rightarrow> 'h
    \<Rightarrow> (u32 \<times> resp_env \<times> 'h) option" where
  "putscom_under_mask P L i_target i_addr i_data i_mask E h = do {
     (l_rc, l_read, E, h) \<leftarrow> getscom_abs_wrap P L i_target i_addr E h;
     if l_rc \<noteq> 0 then Some (l_rc, E, h)
     else putscom_abs_wrap P L i_target i_addr ((l_read AND NOT i_mask) OR (i_data AND i_mask)) E h
   }"

subsection \<open>Direct and indirect access\<close>

text \<open>
  The check of the security lists: \<open>None\<close> is a read past a table, otherwise whether the access goes
  on. With the filtering disabled it goes on and leaves a status behind.
\<close>

definition check_security :: "'h scom_plat \<Rightarrow> u32 \<Rightarrow> bool \<Rightarrow> u64 \<Rightarrow> sbeRespGenHdr_t \<Rightarrow> sbe_global
    \<Rightarrow> (bool \<times> sbeRespGenHdr_t \<times> sbe_global) option" where
  "check_security L i_addr i_isRead i_mask o_hdr G = do {
     ok \<leftarrow> isAllowed (sbeFWSecurityEnabled G) (sec_lists L) i_addr i_mask (if i_isRead then READ_ACCESS else WRITE_ACCESS);
     if ok then Some (True, o_hdr, G)
     else if disableScomFiltering (security_mode L) (regAccess (g_env G))
     then let (o_hdr, G) = set_resp_status SBE_PRI_UNSECURE_ACCESS_DENIED SBE_SEC_BLACKLISTED_REG_ACCESS o_hdr G
          in Some (True, o_hdr, G)
     else let (o_hdr, G) = set_resp_status SBE_PRI_UNSECURE_ACCESS_DENIED SBE_SEC_BLACKLISTED_REG_ACCESS_BLOCKED o_hdr G
          in Some (False, o_hdr, G)
   }"

text \<open>\<open>IndirectScom_t\<close>\<close>

abbreviation "ind_done v \<equiv> is_true (bf_get 32 1 (v :: u64))"
abbreviation "ind_piberr v \<equiv> bf_get 33 3 (v :: u64)"
abbreviation "ind_data v \<equiv> bf_get 48 16 (v :: u64)"

definition SBE_INDIRECT_SCOM_WAIT_TIME_NS :: nat where "SBE_INDIRECT_SCOM_WAIT_TIME_NS = 10000"
definition MAX_INDSCOM_TIMEOUT_NS :: nat where "MAX_INDSCOM_TIMEOUT_NS = 100000"

text \<open>The polling loop: the code, the last value of the register, the data and what has changed.\<close>

function ind_poll :: "'h pib \<Rightarrow> 'h scom_plat \<Rightarrow> u32 \<Rightarrow> nat \<Rightarrow> u64 \<Rightarrow> resp_env \<Rightarrow> 'h
    \<Rightarrow> (u32 \<times> u64 \<times> u64 \<times> resp_env \<times> 'h) option" where
  "ind_poll P L tempAddr elapsed io_data E h = do {
     (fapiRc, scomout, E, h) \<leftarrow> getscom_abs_wrap P L 0 tempAddr E h;
     if fapiRc \<noteq> 0 then Some (fapiRc, scomout, io_data, E, h)
     else if ind_piberr scomout \<noteq> 0 then Some (fapiRc, scomout, io_data, E, h)
     else if ind_done scomout then Some (fapiRc, scomout, ind_data scomout, E, h)
     else let h = pk_sleep_ns L SBE_INDIRECT_SCOM_WAIT_TIME_NS h;
              elapsed = elapsed + SBE_INDIRECT_SCOM_WAIT_TIME_NS
          in if elapsed \<le> MAX_INDSCOM_TIMEOUT_NS then ind_poll P L tempAddr elapsed io_data E h
             else Some (fapiRc, scomout, io_data, E, h)
   }"
  by pat_completeness auto

termination ind_poll
  by (relation "measure (\<lambda>(P, L, a, e, d, E, h). Suc MAX_INDSCOM_TIMEOUT_NS - e)")
    (auto simp: MAX_INDSCOM_TIMEOUT_NS_def SBE_INDIRECT_SCOM_WAIT_TIME_NS_def)

declare ind_poll.simps [simp del]

type_synonym 'h scom_result = "(u64 \<times> sbeRespGenHdr_t \<times> sbeResponseFfdc_t \<times> sbe_global \<times> 'h) option"

text \<open>The status of a failed access, at the end of \<open>checkIndirectAndDoScom\<close>.\<close>

definition scom_end :: "u32 \<Rightarrow> u64 \<Rightarrow> sbeRespGenHdr_t \<Rightarrow> sbeResponseFfdc_t \<Rightarrow> sbe_global \<Rightarrow> 'h \<Rightarrow> 'h scom_result" where
  "scom_end fapiRc io_data o_hdr o_ffdc G h =
     (if fapiRc \<noteq> 0
      then let (o_hdr, G) = set_resp_status SBE_PRI_GENERIC_EXECUTION_FAILURE SBE_SEC_PCB_PIB_ERR o_hdr G
           in Some (io_data, o_hdr, o_ffdc\<lparr> rf_fapiRc := fapiRc \<rparr>, G, h)
      else Some (io_data, o_hdr, o_ffdc, G, h))"

definition set_env :: "resp_env \<Rightarrow> sbe_global \<Rightarrow> sbe_global" where
  "set_env E G = G\<lparr> g_env := E \<rparr>"

definition direct_scom :: "'h pib \<Rightarrow> 'h scom_plat \<Rightarrow> bool \<Rightarrow> u64 \<Rightarrow> u64 \<Rightarrow> sbeRespGenHdr_t \<Rightarrow> sbeResponseFfdc_t
    \<Rightarrow> u64 \<Rightarrow> sbe_global \<Rightarrow> 'h \<Rightarrow> 'h scom_result" where
  "direct_scom P L i_isRead i_addr io_data o_hdr o_ffdc i_mask G h = do {
     (go, o_hdr, G) \<leftarrow> check_security L (ucast i_addr) i_isRead i_mask o_hdr G;
     if \<not> go then scom_end 0 io_data o_hdr o_ffdc G h
     else if i_isRead
     then do {
       (fapiRc, io_data, E, h) \<leftarrow> getscom_abs_wrap P L 0 (ucast i_addr) (g_env G) h;
       scom_end fapiRc io_data o_hdr o_ffdc (set_env E G) h
     }
     else do {
       (fapiRc, E, h) \<leftarrow> putscom_abs_wrap P L 0 (ucast i_addr) io_data (g_env G) h;
       scom_end fapiRc io_data o_hdr o_ffdc (set_env E G) h
     }
   }"

definition indirect_scom :: "'h pib \<Rightarrow> 'h scom_plat \<Rightarrow> bool \<Rightarrow> bool \<Rightarrow> u64 \<Rightarrow> u64 \<Rightarrow> u64 \<Rightarrow> sbeRespGenHdr_t \<Rightarrow> sbeResponseFfdc_t
    \<Rightarrow> u64 \<Rightarrow> sbe_global \<Rightarrow> 'h \<Rightarrow> 'h scom_result" where
  "indirect_scom P L new_form i_isRead i_addr tempBuffer io_data o_hdr o_ffdc i_mask G h =
     (let tempAddr = ucast (i_addr AND 0x7FFFFFFF)
      in do {
        (go, o_hdr, G) \<leftarrow> check_security L tempAddr i_isRead i_mask o_hdr G;
        if \<not> go then scom_end 0 io_data o_hdr o_ffdc G h
        else do {
          let tempBuffer = (if i_isRead then tempBuffer OR 0x8000000000000000 else tempBuffer AND 0x7FFFFFFFFFFFFFFF);
          (fapiRc, E, h) \<leftarrow> putscom_abs_wrap P L 0 tempAddr tempBuffer (g_env G) h;
          if fapiRc \<noteq> 0 \<or> new_form then scom_end fapiRc io_data o_hdr o_ffdc (set_env E G) h
          else do {
            (fapiRc, scomout, io_data, E, h) \<leftarrow> ind_poll P L tempAddr 0 io_data E h;
            if fapiRc = 0 \<and> \<not> ind_done scomout
            then let (o_hdr, G) = set_resp_status SBE_PRI_GENERIC_EXECUTION_FAILURE SBE_SEC_HW_OP_TIMEOUT o_hdr (set_env E G)
                 in scom_end fapiRc io_data o_hdr o_ffdc G h
            else scom_end fapiRc io_data o_hdr o_ffdc (set_env E G) h
          }
        }
      })"

definition checkIndirectAndDoScom :: "'h pib \<Rightarrow> 'h scom_plat \<Rightarrow> bool \<Rightarrow> u64 \<Rightarrow> u64 \<Rightarrow> sbeRespGenHdr_t \<Rightarrow> sbeResponseFfdc_t
    \<Rightarrow> u64 \<Rightarrow> sbe_global \<Rightarrow> 'h \<Rightarrow> 'h scom_result" where
  "checkIndirectAndDoScom P L i_isRead i_addr io_data o_hdr o_ffdc i_mask G h =
     (if \<not> isSbeRegressionBit (security_mode L) (regAccess (g_env G)) \<and>
         (i_addr AND 0x80000000 \<noteq> 0 \<or> i_addr AND 0x00F00000 \<noteq> 0)
      then let (o_hdr, G) = set_resp_status SBE_PRI_USER_ERROR SBE_SEC_INVALID_ADDRESS_PASSED o_hdr G
           in scom_end 0 io_data o_hdr o_ffdc G h
      else if i_addr AND 0x8000000000000000 = 0 then direct_scom P L i_isRead i_addr io_data o_hdr o_ffdc i_mask G h
      else if i_addr AND 0x9000000000000000 = 0x9000000000000000
      then if i_isRead
           then let (o_hdr, G) = set_resp_status SBE_PRI_GENERIC_EXECUTION_FAILURE SBE_SEC_INVALID_ADDRESS_PASSED o_hdr G
                in scom_end 0 io_data o_hdr o_ffdc G h
           else indirect_scom P L True i_isRead i_addr
                  ((io_data AND 0x000FFFFFFFFFFFFF) OR push_bit 20 (i_addr AND 0x00000FFF00000000))
                  io_data o_hdr o_ffdc i_mask G h
      else indirect_scom P L False i_isRead i_addr
             ((io_data AND 0xFFFF) OR (i_addr AND 0x000FFFFF00000000)) io_data o_hdr o_ffdc i_mask G h)"

subsection \<open>The chip operations\<close>

definition words64 :: "u32 \<Rightarrow> u32 \<Rightarrow> u64" where
  "words64 hi lo = push_bit 32 (ucast hi) OR ucast lo"

abbreviation "FULL_MASK \<equiv> 0xFFFFFFFFFFFFFFFF :: u64"

text \<open>The result of a chip operation: its return code, the globals, the hardware.\<close>

type_synonym 'h op_result = "(u32 \<times> sbe_global \<times> 'h) option"

definition send_op_resp :: "'h pib \<Rightarrow> sbeRespGenHdr_t \<Rightarrow> sbeResponseFfdc_t \<Rightarrow> sbe_global \<Rightarrow> 'h \<Rightarrow> 'h op_result" where
  "send_op_resp P l_hdr l_ffdc G h =
     map_option (\<lambda>(rc, h). (rc, G, h)) (sbeDsSendRespHdr P (g_env G) l_hdr (Some l_ffdc) h)"

text \<open>The request message, as the words that were read.\<close>

definition read_request :: "'h pib \<Rightarrow> u32 \<Rightarrow> 'h \<Rightarrow> (u32 \<times> (nat \<Rightarrow> u32) \<times> 'h) option" where
  "read_request P len h =
     map_option (\<lambda>(rc, n, b, h). (rc, the b, h)) (sbeUpFifoDeq_mult P len (Some (\<lambda>_. 0)) True False h)"

definition sbeGetScom_op :: "'h pib \<Rightarrow> 'h scom_plat \<Rightarrow> sbe_global \<Rightarrow> 'h \<Rightarrow> 'h op_result" where
  "sbeGetScom_op P L G h =
     (let l_hdr = init_resp_hdr G; l_ffdc = new_sbeResponseFfdc
      in do {
        (l_rc, m, h) \<leftarrow> read_request P 2 h;
        if l_rc \<noteq> 0 then Some (l_rc, G, h)
        else do {
          (l_scomData, l_hdr, l_ffdc, G, h) \<leftarrow>
            checkIndirectAndDoScom P L True (words64 (m 0) (m 1)) 0 l_hdr l_ffdc FULL_MASK G h;
          if rh_secondaryStatus l_hdr \<noteq> 0 then send_op_resp P l_hdr l_ffdc G h
          else do {
            (l_rc, n, h) \<leftarrow> sbeDownFifoEnq_mult P 2
               (\<lambda>i. if i = 0 then ucast (drop_bit 32 l_scomData) else ucast l_scomData) h;
            if l_rc \<noteq> 0 then Some (l_rc, G, h) else send_op_resp P l_hdr l_ffdc G h
          }
        }
      })"

definition sbePutScom_op :: "'h pib \<Rightarrow> 'h scom_plat \<Rightarrow> sbe_global \<Rightarrow> 'h \<Rightarrow> 'h op_result" where
  "sbePutScom_op P L G h =
     (let l_hdr = init_resp_hdr G; l_ffdc = new_sbeResponseFfdc
      in do {
        (l_rc, m, h) \<leftarrow> read_request P 4 h;
        if l_rc \<noteq> 0 then Some (l_rc, G, h)
        else do {
          (l_scomData, l_hdr, l_ffdc, G, h) \<leftarrow>
            checkIndirectAndDoScom P L False (words64 (m 0) (m 1)) (words64 (m 2) (m 3)) l_hdr l_ffdc FULL_MASK G h;
          send_op_resp P l_hdr l_ffdc G h
        }
      })"

abbreviation "SBE_MODIFY_MODE_OR \<equiv> 0x01 :: u32"
abbreviation "SBE_MODIFY_MODE_AND \<equiv> 0x02 :: u32"
abbreviation "SBE_MODIFY_MODE_XOR \<equiv> 0x03 :: u32"

definition modify_data :: "u32 \<Rightarrow> u64 \<Rightarrow> u64 \<Rightarrow> u64" where
  "modify_data opMode l_modifyingData l_scomData =
     (if opMode = SBE_MODIFY_MODE_OR then l_modifyingData OR l_scomData
      else if opMode = SBE_MODIFY_MODE_AND then l_modifyingData AND l_scomData
      else l_modifyingData XOR l_scomData)"

definition sbeModifyScom_op :: "'h pib \<Rightarrow> 'h scom_plat \<Rightarrow> sbe_global \<Rightarrow> 'h \<Rightarrow> 'h op_result" where
  "sbeModifyScom_op P L G h =
     (let l_hdr = init_resp_hdr G; l_ffdc = new_sbeResponseFfdc
      in do {
        (l_rc, m, h) \<leftarrow> read_request P 5 h;
        if l_rc \<noteq> 0 then Some (l_rc, G, h)
        else
          let opMode = bf_get 24 8 (m 0); l_addr = words64 (m 1) (m 2); l_modifyingData = words64 (m 3) (m 4)
          in if opMode \<noteq> SBE_MODIFY_MODE_OR \<and> opMode \<noteq> SBE_MODIFY_MODE_AND \<and> opMode \<noteq> SBE_MODIFY_MODE_XOR
             then let (l_hdr, G) = set_resp_status SBE_PRI_INVALID_DATA SBE_SEC_GENERIC_FAILURE_IN_EXECUTION l_hdr G
                  in send_op_resp P l_hdr l_ffdc G h
             else do {
               (l_scomData, l_hdr, l_ffdc, G, h) \<leftarrow> checkIndirectAndDoScom P L True l_addr 0 l_hdr l_ffdc FULL_MASK G h;
               if rh_secondaryStatus l_hdr \<noteq> 0 then send_op_resp P l_hdr l_ffdc G h
               else do {
                 (l_d, l_hdr, l_ffdc, G, h) \<leftarrow> checkIndirectAndDoScom P L False l_addr
                    (modify_data opMode l_modifyingData l_scomData) l_hdr l_ffdc FULL_MASK G h;
                 send_op_resp P l_hdr l_ffdc G h
               }
             }
      })"

definition sbePutScomUnderMask_op :: "'h pib \<Rightarrow> 'h scom_plat \<Rightarrow> sbe_global \<Rightarrow> 'h \<Rightarrow> 'h op_result" where
  "sbePutScomUnderMask_op P L G h =
     (let l_hdr = init_resp_hdr G; l_ffdc = new_sbeResponseFfdc
      in do {
        (l_rc, m, h) \<leftarrow> read_request P 6 h;
        if l_rc \<noteq> 0 then Some (l_rc, G, h)
        else
          let l_addr = words64 (m 0) (m 1); l_inputData = words64 (m 2) (m 3); l_inputMask = words64 (m 4) (m 5)
          in do {
            (l_scomData, l_hdr, l_ffdc, G, h) \<leftarrow> checkIndirectAndDoScom P L True l_addr 0 l_hdr l_ffdc FULL_MASK G h;
            if rh_secondaryStatus l_hdr \<noteq> 0 then send_op_resp P l_hdr l_ffdc G h
            else do {
              (l_d, l_hdr, l_ffdc, G, h) \<leftarrow> checkIndirectAndDoScom P L False l_addr
                 ((l_scomData AND NOT l_inputMask) OR (l_inputData AND l_inputMask)) l_hdr l_ffdc l_inputMask G h;
              send_op_resp P l_hdr l_ffdc G h
            }
          }
      })"

section \<open>Security of register access\<close>

lemma bf_get_zero [simp]: "bf_get p w 0 = 0"
  by (simp add: bf_get_def)

lemma effective_default [simp]: "getEffectiveAddress 0 a = Some a"
  by (simp add: getEffectiveAddress_def)

lemma set_resp_status_secondary [simp]:
  "rh_secondaryStatus (fst (set_resp_status p q r G)) = ucast q" "rh_primaryStatus (fst (set_resp_status p q r G)) = ucast p"
  by (simp_all add: set_resp_status_def)

text \<open>The register that an address accesses, once the address is accepted.\<close>

definition scom_register :: "u64 \<Rightarrow> u32" where
  "scom_register i_addr =
     (if i_addr AND 0x8000000000000000 = 0 then ucast i_addr else ucast (i_addr AND 0x7FFFFFFF))"

lemma check_security_cases:
  assumes "isAllowed (sbeFWSecurityEnabled G) (sec_lists L) a m (if rd then READ_ACCESS else WRITE_ACCESS) = Some ok"
    "\<not> disableScomFiltering (security_mode L) (regAccess (g_env G))"
  shows "check_security L a rd m hdr G =
    (if ok then Some (True, hdr, G)
     else Some (False, set_resp_status SBE_PRI_UNSECURE_ACCESS_DENIED SBE_SEC_BLACKLISTED_REG_ACCESS_BLOCKED hdr G))"
  using assms by (simp add: check_security_def case_prod_beta)

lemma check_security_blocked:
  assumes "isAllowed (sbeFWSecurityEnabled G) (sec_lists L) a m (if rd then READ_ACCESS else WRITE_ACCESS) = Some False"
    "\<not> disableScomFiltering (security_mode L) (regAccess (g_env G))"
  obtains hdr' G' where "check_security L a rd m hdr G = Some (False, hdr', G')"
    "rh_primaryStatus hdr' = ucast SBE_PRI_UNSECURE_ACCESS_DENIED"
    "rh_secondaryStatus hdr' = ucast SBE_SEC_BLACKLISTED_REG_ACCESS_BLOCKED"
  by (rule that [of "fst (set_resp_status SBE_PRI_UNSECURE_ACCESS_DENIED SBE_SEC_BLACKLISTED_REG_ACCESS_BLOCKED hdr G)"
        "snd (set_resp_status SBE_PRI_UNSECURE_ACCESS_DENIED SBE_SEC_BLACKLISTED_REG_ACCESS_BLOCKED hdr G)"])
    (simp_all add: check_security_cases [OF assms])

text \<open>
  What a refused access reports, from the layout of the address alone: outside the regression mode,
  bits 32 and 40 to 43 of an address are always clear, and there is no read in the new indirect form (the four
  bits \<open>1xx1\<close>); every other address is one that the lists judge.
\<close>

definition reserved_bits :: "u64 \<Rightarrow> bool" where
  "reserved_bits a = (bit a 31 \<or> bit a 20 \<or> bit a 21 \<or> bit a 22 \<or> bit a 23)"

definition refusal_status :: "bool \<Rightarrow> bool \<Rightarrow> u64 \<Rightarrow> u32 \<times> u32" where
  "refusal_status regression rd a =
     (if reserved_bits a \<and> \<not> regression then (SBE_PRI_USER_ERROR, SBE_SEC_INVALID_ADDRESS_PASSED)
      else if bit a 63 \<and> bit a 60 \<and> rd then (SBE_PRI_GENERIC_EXECUTION_FAILURE, SBE_SEC_INVALID_ADDRESS_PASSED)
      else (SBE_PRI_UNSECURE_ACCESS_DENIED, SBE_SEC_BLACKLISTED_REG_ACCESS_BLOCKED))"

lemma address_bits:
  fixes a :: u64
  shows "a AND 0x8000000000000000 = 0 \<longleftrightarrow> \<not> bit a 63"
    and "a AND 0x9000000000000000 = 0x9000000000000000 \<longleftrightarrow> bit a 63 \<and> bit a 60"
    and "(a AND 0x80000000 \<noteq> 0 \<or> a AND 0x00F00000 \<noteq> 0) \<longleftrightarrow> reserved_bits a"
proof -
  have n: "(0x8000000000000000 :: u64) = 2 ^ 63" "(0x9000000000000000 :: u64) = 2 ^ 63 OR 2 ^ 60"
    "(0x80000000 :: u64) = 2 ^ 31" "(0x00F00000 :: u64) = 2 ^ 20 OR 2 ^ 21 OR 2 ^ 22 OR 2 ^ 23"
    by simp_all
  have b: "bit (0x9000000000000000 :: u64) i \<longleftrightarrow> i = 63 \<or> i = 60" for i
    unfolding n bit_or_iff bit_exp_iff possible_bit_def by auto
  show "a AND 0x8000000000000000 = 0 \<longleftrightarrow> \<not> bit a 63"
    unfolding n by (rule and_exp_eq_0_iff_not_bit)
  have "(a AND 0x80000000 \<noteq> 0 \<or> a AND 0x00F00000 \<noteq> 0) \<longleftrightarrow> bit a 31 \<or> bit a 20 \<or> bit a 21 \<or> bit a 22 \<or> bit a 23"
    unfolding n by (simp only: bit.conj_disj_distrib or_eq_0_iff and_exp_eq_0_iff_not_bit de_Morgan_conj not_not)
  then show "(a AND 0x80000000 \<noteq> 0 \<or> a AND 0x00F00000 \<noteq> 0) \<longleftrightarrow> reserved_bits a"
    by (simp only: reserved_bits_def)
  show "a AND 0x9000000000000000 = 0x9000000000000000 \<longleftrightarrow> bit a 63 \<and> bit a 60"
  proof
    assume l: "a AND 0x9000000000000000 = 0x9000000000000000"
    have "bit a i" if "i = 63 \<or> i = 60" for i
      using arg_cong [OF l, of "\<lambda>x. bit x i"] that unfolding bit_and_iff b by simp
    then show "bit a 63 \<and> bit a 60" by blast
  next
    assume "bit a 63 \<and> bit a 60"
    then show "a AND 0x9000000000000000 = 0x9000000000000000"
      by (intro bit_eqI, unfold bit_and_iff b) blast
  qed
qed

text \<open>\<open>checkIndirectAndDoScom\<close> with the tests of the address read as bits.\<close>

lemma checkIndirectAndDoScom_bits:
  "checkIndirectAndDoScom P L rd a data hdr ffdc m G h =
     (if reserved_bits a \<and> \<not> isSbeRegressionBit (security_mode L) (regAccess (g_env G))
      then case set_resp_status SBE_PRI_USER_ERROR SBE_SEC_INVALID_ADDRESS_PASSED hdr G of (hdr, G) \<Rightarrow> scom_end 0 data hdr ffdc G h
      else if \<not> bit a 63 then direct_scom P L rd a data hdr ffdc m G h
      else if bit a 60 \<and> rd
      then case set_resp_status SBE_PRI_GENERIC_EXECUTION_FAILURE SBE_SEC_INVALID_ADDRESS_PASSED hdr G of (hdr, G) \<Rightarrow>
        scom_end 0 data hdr ffdc G h
      else indirect_scom P L (bit a 60) rd a
        (if bit a 60 then (data AND 0x000FFFFFFFFFFFFF) OR push_bit 20 (a AND 0x00000FFF00000000)
         else (data AND 0xFFFF) OR (a AND 0x000FFFFF00000000)) data hdr ffdc m G h)"
  unfolding checkIndirectAndDoScom_def address_bits by (auto simp: Let_def)

text \<open>
  Property C34. A register that the security lists forbid is not touched. Let the filtering not be
  disabled, and \<open>isAllowed\<close> refuse the access of this kind, read or write, under this mask to the register of a
  direct or an indirect address. Then the hardware, the data and the FFDC stay as they are, and
  the status says why: a user error with an invalid address when a reserved bit of the address is set outside the
  regression mode, an execution failure with an invalid address for a read in the new indirect form, and in every
  other case \<open>UNSECURE_ACCESS_DENIED\<close> with \<open>BLACKLISTED_REG_ACCESS_BLOCKED\<close>.
\<close>

theorem scom_access_blocked:
  assumes "isAllowed (sbeFWSecurityEnabled G) (sec_lists L) (scom_register i_addr) m
      (if rd then READ_ACCESS else WRITE_ACCESS) = Some False"
    "\<not> disableScomFiltering (security_mode L) (regAccess (g_env G))"
  shows "\<exists>hdr' G'. checkIndirectAndDoScom P L rd i_addr data hdr ffdc m G h = Some (data, hdr', ffdc, G', h) \<and>
    (rh_primaryStatus hdr', rh_secondaryStatus hdr') =
      map_prod ucast ucast (refusal_status (isSbeRegressionBit (security_mode L) (regAccess (g_env G))) rd i_addr)"
proof -
  obtain hdr1 G1 where chk: "check_security L (scom_register i_addr) rd m hdr G = Some (False, hdr1, G1)"
    "rh_primaryStatus hdr1 = ucast SBE_PRI_UNSECURE_ACCESS_DENIED"
    "rh_secondaryStatus hdr1 = ucast SBE_SEC_BLACKLISTED_REG_ACCESS_BLOCKED"
    using check_security_blocked [OF assms] .
  have reg: "scom_register i_addr = (if bit i_addr 63 then ucast (i_addr AND 0x7FFFFFFF) else ucast i_addr)"
    by (simp add: scom_register_def address_bits)
  have invalid: "\<exists>hdr' G'. (case set_resp_status p SBE_SEC_INVALID_ADDRESS_PASSED hdr G of (hdr, G) \<Rightarrow> scom_end 0 data hdr ffdc G h)
      = Some (data, hdr', ffdc, G', h) \<and> (rh_primaryStatus hdr', rh_secondaryStatus hdr') =
        map_prod ucast ucast (p, SBE_SEC_INVALID_ADDRESS_PASSED)" for p
    by (simp add: case_prod_beta scom_end_def)
  have direct: "\<not> bit i_addr 63 \<Longrightarrow> direct_scom P L rd i_addr data hdr ffdc m G h = Some (data, hdr1, ffdc, G1, h)"
    using chk(1) reg by (simp add: direct_scom_def scom_end_def)
  have indirect: "bit i_addr 63 \<Longrightarrow> indirect_scom P L nf rd i_addr t data hdr ffdc m G h = Some (data, hdr1, ffdc, G1, h)" for nf t
    using chk(1) reg by (simp add: indirect_scom_def scom_end_def Let_def)
  show ?thesis
    unfolding checkIndirectAndDoScom_bits refusal_status_def
    using invalid [of SBE_PRI_USER_ERROR] invalid [of SBE_PRI_GENERIC_EXECUTION_FAILURE] direct indirect chk(2,3)
    by (auto split: if_splits)
qed

section \<open>The operations on a register\<close>

text \<open>
  A register as the hardware documents it: a read returns its contents and changes nothing in it, a
  write sets it. An address of a direct access has none of the bits that mark the other forms.
\<close>

definition scom_reg :: "'h pib \<Rightarrow> ('h \<Rightarrow> u64) \<Rightarrow> u32 \<Rightarrow> bool" where
  "scom_reg P reg a \<longleftrightarrow>
     (\<forall>h. \<exists>h'. getscom_abs P a h = (0, reg h, h') \<and> reg h' = reg h) \<and>
     (\<forall>v h. \<exists>h'. putscom_abs P a v h = (0, h') \<and> reg h' = v)"

definition direct_address :: "u64 \<Rightarrow> bool" where
  "direct_address a \<longleftrightarrow> a AND 0x8000000000000000 = 0 \<and> a AND 0x80000000 = 0 \<and> a AND 0x00F00000 = 0"

lemma set_env_same [simp]: "set_env (g_env G) G = G"
  by (simp add: set_env_def)

lemma direct_read:
  assumes "scom_reg P reg (ucast a)" "direct_address a"
    "isAllowed (sbeFWSecurityEnabled G) (sec_lists L) (ucast a) m READ_ACCESS = Some True"
  shows "\<exists>h'. checkIndirectAndDoScom P L True a d hdr ffdc m G h = Some (reg h, hdr, ffdc, G, h') \<and> reg h' = reg h"
proof -
  obtain h' where "getscom_abs P (ucast a) h = (0, reg h, h')" "reg h' = reg h"
    using assms(1) unfolding scom_reg_def by blast
  then show ?thesis
    using assms(2,3)
    by (simp add: checkIndirectAndDoScom_def direct_address_def direct_scom_def check_security_def
        getscom_abs_wrap_def wrap_result_def scom_end_def)
qed

lemma direct_write_allowed:
  assumes "scom_reg P reg (ucast a)" "direct_address a"
    "isAllowed (sbeFWSecurityEnabled G) (sec_lists L) (ucast a) m WRITE_ACCESS = Some True"
  shows "\<exists>h'. checkIndirectAndDoScom P L False a d hdr ffdc m G h = Some (d, hdr, ffdc, G, h') \<and> reg h' = d"
proof -
  obtain h' where "putscom_abs P (ucast a) d h = (0, h')" "reg h' = d"
    using assms(1) unfolding scom_reg_def by blast
  then show ?thesis
    using assms(2,3)
    by (simp add: checkIndirectAndDoScom_def direct_address_def direct_scom_def check_security_def
        putscom_abs_wrap_def wrap_result_def scom_end_def)
qed

definition denied_header :: "sbeRespGenHdr_t \<Rightarrow> sbeRespGenHdr_t" where
  "denied_header r = r\<lparr> rh_primaryStatus := ucast SBE_PRI_UNSECURE_ACCESS_DENIED,
     rh_secondaryStatus := ucast SBE_SEC_BLACKLISTED_REG_ACCESS_BLOCKED \<rparr>"

lemma direct_write_refused:
  assumes "direct_address a"
    "isAllowed (sbeFWSecurityEnabled G) (sec_lists L) (ucast a) m WRITE_ACCESS = Some False"
    "\<not> disableScomFiltering (security_mode L) (regAccess (g_env G))"
  shows "\<exists>G'. checkIndirectAndDoScom P L False a d hdr ffdc m G h = Some (d, denied_header hdr, ffdc, G', h) \<and>
    ffdcLength (g_env G') = ffdcLength (g_env G) \<and> sbeFFDCUserDataArray (g_env G') = sbeFFDCUserDataArray (g_env G)"
  using assms
  by (simp add: checkIndirectAndDoScom_def direct_address_def direct_scom_def check_security_def
      scom_end_def set_resp_status_def denied_header_def record_failure_def)

text \<open>Reading a request, and sending the response.\<close>

lemma read_request_message:
  assumes "fifo_feeds P up" "up h = es @ e # rest" "\<forall>x \<in> set es. plain_entry x" "eot_entry e"
    "length (words_of es) = unat n"
  shows "\<exists>m h'. read_request P n h = Some (0, m, h') \<and> (\<forall>i < unat n. m i = words_of es ! i) \<and> up h' = rest"
proof -
  have small: "unat (0 :: u32) + length (words_of es) < 2 ^ 32"
    using assms(5) unsigned_less [of n] by simp
  have n: "of_nat (length (words_of es)) = n" using assms(5) by simp
  from deq_loop_eot [OF assms(1-4) _ small, of True False n "Some (\<lambda>_. 0)"]
  obtain h' where "deq_loop P n True False 0 (Some (\<lambda>_. 0)) h =
      Some (0, n, keep_words False n 0 (words_of es) (Some (\<lambda>_. 0)), h')" "up h' = rest"
    unfolding n by auto
  then show ?thesis
    using stored_all [OF assms(5)]
    by (auto simp: read_request_def sbeUpFifoDeq_mult_def keep_words_def)
qed

lemma send_op_resp_sends:
  assumes "fifo_drains P sent busy" "ffdcLength (g_env G) mod 4 = 0" "length (sbeFFDCUserDataArray (g_env G)) \<le> 2"
  shows "\<exists>h'. send_op_resp P hdr ffdc G h = Some (0, G, h') \<and> parse_response (sent h') = (sent h, hdr)"
proof -
  from send_resp_hdr_sends [OF assms, of hdr "Some ffdc" h]
  obtain h' body where 1: "sbeDsSendRespHdr P (g_env G) hdr (Some ffdc) h = Some (0, h')"
    "sent h' = sent h @ resp_hdr_words hdr @ body @ [of_nat (length body + 3)]" "length body + 3 < 2 ^ 32"
    by (elim exE conjE) (rule that)
  moreover have "parse_response (sent h') = (sent h, hdr)"
    unfolding 1(2) by (rule parse_sent [OF 1(3)])
  ultimately show ?thesis by (simp add: send_op_resp_def)
qed

text \<open>A write through the grey list has a mask inside the bits that the list opens.\<close>

lemma is_present_grey_entry:
  "is_present_grey_from k i T a m = Some True \<Longrightarrow>
    \<exists>e \<in> set (tbl_entries T). gl_key e = a \<and> m AND NOT (gl_value e) = 0"
proof (induction k arbitrary: i)
  case (Suc k)
  then show ?case by (auto simp: entry_def split: if_splits)
qed simp

lemma grey_write:
  assumes "isAllowed True T a m WRITE_ACCESS = Some True" "is_present (wl_t1 T) (wl_t2 T) (wl_t3 T) a = Some False"
  shows "\<exists>e \<in> set (tbl_entries (gl_t1 T)). gl_key e = a \<and> m AND NOT (gl_value e) = 0"
  using assms is_present_grey_entry by (auto simp: isAllowed_def is_present_grey_def split: if_splits)

lemma masked_change:
  fixes old d m v :: "'a::len word"
  assumes "m AND NOT v = 0"
  shows "(((old AND NOT m) OR (d AND m)) XOR old) AND NOT v = 0"
proof (rule bit_word_eqI)
  fix n
  assume "n < LENGTH('a)"
  moreover have "bit (m AND NOT v) n = bit (0 :: 'a word) n" using assms by simp
  ultimately show "bit ((((old AND NOT m) OR (d AND m)) XOR old) AND NOT v) n = bit (0 :: 'a word) n"
    by (auto simp: bit_simps)
qed



text \<open>
  An error that the indirect access reports is lost. When the status register shows a PIB error
  together with the completion bit, the read ends without any status and with the data as they were
  before, so that GetScom answers success; without the completion bit the error is reported as a timeout.
\<close>

lemma indirect_pib_error_lost:
  assumes "i_addr AND 0x8000000000000000 \<noteq> 0" "i_addr AND 0x9000000000000000 \<noteq> 0x9000000000000000"
    "i_addr AND 0x80000000 = 0" "i_addr AND 0x00F00000 = 0"
    "isAllowed (sbeFWSecurityEnabled G) (sec_lists L) (scom_register i_addr) m READ_ACCESS = Some True"
    "\<And>v h. fst (putscom_abs P (scom_register i_addr) v h) = 0"
    "\<And>h. \<exists>h'. getscom_abs P (scom_register i_addr) h = (0, st, h')" "ind_piberr st \<noteq> 0"
  shows "\<exists>hdr' G' h'. checkIndirectAndDoScom P L True i_addr data hdr ffdc m G h = Some (data, hdr', ffdc, G', h') \<and>
    (if ind_done st then hdr' = hdr \<and> G' = G else rh_secondaryStatus hdr' = ucast SBE_SEC_HW_OP_TIMEOUT)"
proof -
  define a :: u32 where "a = ucast (i_addr AND 0x7FFFFFFF)"
  have a: "scom_register i_addr = a" using assms(1) by (simp add: scom_register_def a_def)
  define t where "t = (data AND 0xFFFF OR i_addr AND 0x000FFFFF00000000) OR 0x8000000000000000"
  obtain h1 where 1: "putscom_abs P a t h = (0, h1)"
    using assms(6) [of t h] unfolding a by (cases "putscom_abs P a t h") auto
  obtain h2 where 2: "getscom_abs P a h1 = (0, st, h2)" using assms(7) [of h1] unfolding a by blast
  have poll: "ind_poll P L a 0 data (g_env G) h1 = Some (0, st, data, g_env G, h2)"
    using 2 assms(8) by (subst ind_poll.simps) (simp add: getscom_abs_wrap_def wrap_result_def)
  have "checkIndirectAndDoScom P L True i_addr data hdr ffdc m G h =
      indirect_scom P L False True i_addr ((data AND 0xFFFF) OR (i_addr AND 0x000FFFFF00000000)) data hdr ffdc m G h"
    using assms(1-4) by (simp add: checkIndirectAndDoScom_def)
  also have "\<dots> = (if \<not> ind_done st
      then case set_resp_status SBE_PRI_GENERIC_EXECUTION_FAILURE SBE_SEC_HW_OP_TIMEOUT hdr G of
        (o_hdr, G) \<Rightarrow> scom_end 0 data o_hdr ffdc G h2
      else Some (data, hdr, ffdc, G, h2))"
    using assms(5) 1 poll unfolding a
    by (simp add: indirect_scom_def check_security_def putscom_abs_wrap_def wrap_result_def scom_end_def
        flip: a_def t_def)
  finally show ?thesis by (simp add: case_prod_beta scom_end_def)
qed

section \<open>Examples\<close>

text \<open>The FIFOs in memory beside a register file.\<close>

type_synonym scom_sim = "fifo_sim \<times> (u32 \<Rightarrow> u64)"

abbreviation "FIFO_REGISTERS \<equiv> {SBE_UPSTREAM_FIFO_DEQ_ADD, SBE_UPSTREAM_FIFO_ACK_EOT, SBE_DOWNSTREAM_FIFO_STATUS,
  SBE_DOWNSTREAM_FIFO_ENQ_ADD, SBE_DOWNSTREAM_FIFO_SIGNAL_EOT}"

definition reg_get :: "u32 \<Rightarrow> scom_sim \<Rightarrow> u32 \<times> u64 \<times> scom_sim" where
  "reg_get a h = (if a \<in> FIFO_REGISTERS then case sim_get a (fst h) of (rc, v, f) \<Rightarrow> (rc, v, (f, snd h))
     else (0, snd h a, h))"

definition reg_put :: "u32 \<Rightarrow> u64 \<Rightarrow> scom_sim \<Rightarrow> u32 \<times> scom_sim" where
  "reg_put a v h = (if a \<in> FIFO_REGISTERS then case sim_put a v (fst h) of (rc, f) \<Rightarrow> (rc, (f, snd h))
     else (0, (fst h, (snd h)(a := v))))"

definition reg_sim :: "scom_sim pib" where
  "reg_sim = \<lparr> getscom_abs = reg_get, putscom_abs = reg_put, isSimicsRunning = False, pk_sleep_ms = (\<lambda>n h. h) \<rparr>"

lemma reg_sim_feeds: "fifo_feeds reg_sim (\<lambda>h. fs_up (fst h))"
  by (auto simp: fifo_feeds_def reg_sim_def reg_get_def reg_put_def sim_get_def sim_put_def)

lemma reg_sim_drains: "fifo_drains reg_sim (\<lambda>h. fs_sent (fst h)) (\<lambda>h. fs_busy (fst h))"
  by (auto simp: fifo_drains_def reg_sim_def reg_get_def reg_put_def sim_get_def sim_put_def fifo_wait_def high_word_def
      down_req_upfifo_reset_def down_fifo_full_def status_flag_def bf_get_def)

lemma reg_sim_reg: "a \<notin> FIFO_REGISTERS \<Longrightarrow> scom_reg reg_sim (\<lambda>h. snd h a) a"
  by (auto simp: scom_reg_def reg_sim_def reg_get_def reg_put_def)

text \<open>Empty lists but for a grey list that opens the low byte of register \<open>0x50012\<close>.\<close>

definition empty_table :: "'e sec_table" where
  "empty_table = \<lparr> tbl_size = 0, tbl_mask = 0, tbl_entries = [] \<rparr>"

definition sample_lists :: GenSecurityListTables where
  "sample_lists = \<lparr> wl_t1 = empty_table, wl_t2 = empty_table, wl_t3 = empty_table, bl_t1 = empty_table,
     bl_t2 = empty_table, bl_t3 = empty_table,
     gl_t1 = \<lparr> tbl_size = 1, tbl_mask = 0, tbl_entries = [\<lparr> gl_key = 0x50012, gl_value = 0xFF \<rparr>] \<rparr> \<rparr>"

definition sample_plat :: "'h scom_plat" where
  "sample_plat = \<lparr> sec_lists = sample_lists, security_mode = 1, fapi_rc_of = (\<lambda>c. c + 0x1000), scom_ffdc = (\<lambda>a c E. E),
     pk_sleep_ns = (\<lambda>n h. h) \<rparr>"

definition secure_glob :: sbe_global where
  "secure_glob = \<lparr> sbeFifoCmdHdr = \<lparr> fh_len = 8, fh_clientId = 0, fh_cmdClass = 0xA2, fh_command = 4 \<rparr>,
     sbeCmdRespHdr = init_cmd_resp, sbePsu2SbeCmdReqHdr = init_psu_req,
     sbeSbe2PsuRespHdr = \<lparr> pr_primStatus = 0, pr_secStatus = 0, pr_seqID = 0, pr_cmdClass = 0, pr_command = 0 \<rparr>,
     sbeIntrSource = \<lparr> intrSource = 0, rxThrIntrSource = 0, procThrIntrSource = 0 \<rparr>,
     g_env = sample_env, sbeFWSecurityEnabled = True \<rparr>"

definition entry_of :: "u32 \<Rightarrow> u64" where
  "entry_of w = push_bit 32 (ucast w) OR 0x80000000"

definition request :: "u32 list \<Rightarrow> scom_sim" where
  "request ws = (\<lparr> fs_up = map entry_of ws @ [0x40000000], fs_sent = [], fs_busy = 1, fs_eots = 0 \<rparr>, \<lambda>a. 0x1134)"

lemma entry_of_word: "plain_entry (entry_of w)" "high_word (entry_of w) = w" "up_valid_flag (low_word (entry_of w))"
proof -
  have "low_word (entry_of w) = 0x80000000"
    by (rule bit_word_eqI) (auto simp: low_word_def entry_of_def bit_simps)
  then show "plain_entry (entry_of w)" "up_valid_flag (low_word (entry_of w))"
    by (simp_all add: plain_entry_def up_valid_flag_def up_eot_flag_def up_req_upfifo_reset_def up_parity_err_def
        status_flag_def bf_get_def)
  show "high_word (entry_of w) = w"
    by (rule bit_word_eqI) (auto simp: high_word_def entry_of_def bit_simps)
qed

lemma words_of_request: "words_of (map entry_of ws) = ws"
  by (induction ws) (simp_all add: entry_of_word)

lemma request_eot: "eot_entry 0x40000000"
  by (simp add: entry_defs)

lemma sample_allowed:
  "isAllowed True sample_lists 0x50012 FULL_MASK READ_ACCESS = Some True"
  "isAllowed True sample_lists 0x50012 FULL_MASK WRITE_ACCESS = Some False"
  "isAllowed True sample_lists 0x50012 0xFF WRITE_ACCESS = Some True"
  by code_simp+

lemma sample_register: "scom_register 0x50012 = 0x50012" "ucast (words64 0 0x50012) = (0x50012 :: u32)"
  "words64 0 w = ucast w"
  by (simp_all add: scom_register_def words64_def)

lemma sample_address: "direct_address (words64 0 0x50012)"
  by (simp add: direct_address_def words64_def)

lemma sample_filtering: "\<not> disableScomFiltering (security_mode (sample_plat :: 'h scom_plat)) R"
  by (simp add: disableScomFiltering_def sample_plat_def)

lemma sample_request:
  "fs_up (fst (request ws)) = map entry_of ws @ 0x40000000 # []" "\<forall>x \<in> set (map entry_of ws). plain_entry x"
  by (simp_all add: request_def entry_of_word)

text \<open>PutScom to the grey register is refused, and so is a PutScom to the same register with a reserved bit set.\<close>

theorem scom_access_blocked_witness:
  "(\<exists>hdr' G'. checkIndirectAndDoScom reg_sim sample_plat False 0x50012 7 (init_resp_hdr secure_glob) new_sbeResponseFfdc
      FULL_MASK secure_glob (request []) = Some (7, hdr', new_sbeResponseFfdc, G', request []) \<and>
      (rh_primaryStatus hdr', rh_secondaryStatus hdr') = (5, ucast SBE_SEC_BLACKLISTED_REG_ACCESS_BLOCKED)) \<and>
   (\<exists>hdr' G'. checkIndirectAndDoScom reg_sim sample_plat False 0x8000000080050012 7 (init_resp_hdr secure_glob) new_sbeResponseFfdc
      FULL_MASK secure_glob (request []) = Some (7, hdr', new_sbeResponseFfdc, G', request []) \<and>
      (rh_primaryStatus hdr', rh_secondaryStatus hdr') = (3, ucast SBE_SEC_INVALID_ADDRESS_PASSED))"
proof -
  let ?L = "sample_plat :: scom_sim scom_plat"
  have reg: "scom_register 0x50012 = 0x50012" "scom_register 0x8000000080050012 = 0x50012"
    by (simp_all add: scom_register_def)
  have refused: "isAllowed (sbeFWSecurityEnabled secure_glob) (sec_lists ?L) (scom_register a) FULL_MASK
      (if False then READ_ACCESS else WRITE_ACCESS) = Some False" if "scom_register a = 0x50012" for a
    using sample_allowed(2) that by (simp add: secure_glob_def sample_plat_def)
  have status: "refusal_status r False 0x50012 = (5, SBE_SEC_BLACKLISTED_REG_ACCESS_BLOCKED)"
    "refusal_status False False 0x8000000080050012 = (3, SBE_SEC_INVALID_ADDRESS_PASSED)" for r
    by (simp_all add: refusal_status_def reserved_bits_def bit_numeral_rec)
  have prod: "\<not> isSbeRegressionBit (security_mode ?L) (regAccess (g_env secure_glob))"
    by (simp add: isSbeRegressionBit_def sample_plat_def)
  from scom_access_blocked [OF refused [OF reg(1)] sample_filtering, where P = reg_sim and data = 7]
    scom_access_blocked [OF refused [OF reg(2)] sample_filtering, where P = reg_sim and data = 7] prod
  show ?thesis unfolding status by (simp add: status)
qed



text \<open>A status register with a PIB error and the completion bit, and one without it.\<close>

definition failing :: "u64 \<Rightarrow> unit pib" where
  "failing st = \<lparr> getscom_abs = (\<lambda>a h. (0, st, h)), putscom_abs = (\<lambda>a v h. (0, h)), isSimicsRunning = False,
     pk_sleep_ms = (\<lambda>n h. h) \<rparr>"

lemma indirect_pib_error_lost_witness:
  "\<exists>G' h'. checkIndirectAndDoScom (failing 0x90000000) sample_plat True 0x8000000000050012 0 sample_hdr new_sbeResponseFfdc
      FULL_MASK secure_glob () = Some (0, sample_hdr, new_sbeResponseFfdc, G', h')"
proof -
  have "isAllowed (sbeFWSecurityEnabled secure_glob) (sec_lists (sample_plat :: unit scom_plat)) (scom_register 0x8000000000050012)
      FULL_MASK READ_ACCESS = Some True"
    using sample_allowed(1) by (simp add: secure_glob_def sample_plat_def scom_register_def)
  note * = indirect_pib_error_lost [OF _ _ _ _ this, of "failing 0x90000000" "0x90000000" 0 sample_hdr new_sbeResponseFfdc "()"]
  have "ind_done 0x90000000" "ind_piberr 0x90000000 \<noteq> 0" by (simp_all add: bf_get_def)
  with * show ?thesis by (simp add: failing_def)
qed

end
