(* ===== verification/Sbe_HostResp.thy ===== *)
theory Sbe_HostResp
  imports Sbe_Scom Sbe_SecurityDump Sbe_MemRegion
begin

unbundle bit_operations_syntax

text \<open>
  The response to the host: \<open>sbePSUSendResponse\<close> of \<open>sbeHostUtils.C\<close> and the host part of
  \<open>sbeFFDC.C\<close>, which write what a failure collected to the memory the host has set aside before the
  status goes to the mailbox. The PBA procedures are a parameter for every operation flag and EX
  chiplet, as in \<open>Sbe_MemAccess\<close>.
\<close>

subsection \<open>Platform and globals\<close>

datatype PbaOperationType_t = PBA_DMA | PBA_LCO | PBA_ATOMIC | PBA_INJ | PBA_CI

record p9_PBA_oper_flag =
  pf_operType :: PbaOperationType_t
  pf_fastMode :: bool

definition new_p9_PBA_oper_flag :: p9_PBA_oper_flag where
  "new_p9_PBA_oper_flag = \<lparr> pf_operType = PBA_DMA, pf_fastMode = False \<rparr>"

datatype AduOperationType_t =
    ADU_CACHE_INHIBIT | ADU_DMA_PARTIAL | ADU_PB_DIS_OPER | ADU_PMISC_OPER | ADU_PB_INIT_OPER
  | ADU_PRE_SWITCH_CD | ADU_PRE_SWITCH_AB | ADU_POST_SWITCH

text \<open>\<open>iv_transSize\<close> holds whatever integer is cast to its enumeration.\<close>

record p9_ADU_oper_flag =
  af_operType :: AduOperationType_t
  af_autoInc :: bool
  af_lockPick :: bool
  af_numLockAttempts :: u8
  af_cleanUp :: bool
  af_fastMode :: bool
  af_itag :: bool
  af_ecc :: bool
  af_eccItagOverwrite :: bool
  af_transSize :: u32

definition new_p9_ADU_oper_flag :: p9_ADU_oper_flag where
  "new_p9_ADU_oper_flag = \<lparr> af_operType = ADU_CACHE_INHIBIT, af_autoInc = False, af_lockPick = False,
     af_numLockAttempts = 1, af_cleanUp = True, af_fastMode = False, af_itag = False, af_ecc = False,
     af_eccItagOverwrite = False, af_transSize = 1 \<rparr>"

text \<open>
  \<open>mem_ffdc\<close> is what a failed procedure leaves in \<open>g_FfdcData\<close>, \<open>raw_buffer\<close> the bytes a new interface
  object finds in its buffer, which its constructor does not set.
\<close>

record 'h mem_plat =
  pba_hwp :: "p9_PBA_oper_flag \<Rightarrow> u32 \<Rightarrow> 'h mem_hwp"
  adu_hwp :: "p9_ADU_oper_flag \<Rightarrow> 'h mem_hwp"
  mem_ffdc :: "fapi_rc \<Rightarrow> 'h \<Rightarrow> resp_env \<Rightarrow> resp_env"
  raw_buffer :: "u8 list"

abbreviation "PBA_DEFAULT_EX_CHIPLET_ID \<equiv> 0x20 :: u32"

record sbeHostAddr_t =
  ha_size :: u32
  ha_addr :: u64

text \<open>The members of \<open>SBEGlobalsSingleton\<close> that the memory operations add, and the two managers.\<close>

record sbe_app =
  app_glob :: sbe_global
  hostFFDCAddr :: sbeHostAddr_t
  hostPassThroughCmdAddr :: sbeHostAddr_t
  mainStoreMgr :: SBESecureMemRegionManager
  occSramMgr :: SBESecureMemRegionManager

definition upd_glob :: "(sbe_global \<Rightarrow> sbe_global) \<Rightarrow> sbe_app \<Rightarrow> sbe_app" where
  "upd_glob f A = A\<lparr> app_glob := f (app_glob A) \<rparr>"

definition upd_env :: "(resp_env \<Rightarrow> resp_env) \<Rightarrow> sbe_app \<Rightarrow> sbe_app" where
  "upd_env f A = upd_glob (\<lambda>G. set_env (f (g_env G)) G) A"

subsection \<open>Words as bytes\<close>

definition word_view :: "(nat \<Rightarrow> u8) \<Rightarrow> nat \<Rightarrow> u32" where
  "word_view d i = be_read 4 d (4 * i)"

definition byte_view :: "(nat \<Rightarrow> u32) \<Rightarrow> nat \<Rightarrow> u8" where
  "byte_view b j = be_bytes 4 (b (j div 4)) ! (j mod 4)"

definition struct_bytes :: "u32 list \<Rightarrow> u8 list" where
  "struct_bytes ws = concat (map (be_bytes 4) ws)"

subsection \<open>The internal FFDC\<close>

type_synonym 'h mem_stream = "sbeMemAccessInterface \<times> 'h"

text \<open>One \<open>accessWithBuffer\<close> call; the contents of the caller's buffer are not used again.\<close>

definition mem_put :: "'h mem_hwp \<Rightarrow> (nat \<Rightarrow> u8) \<Rightarrow> u32 \<Rightarrow> bool \<Rightarrow> 'h mem_stream \<Rightarrow> (fapi_rc \<times> 'h mem_stream) option" where
  "mem_put hwp d len isLast st =
     map_option (\<lambda>(rc, buf, st). (rc, st)) (accessWithBuffer hwp d (unat len) isLast (fst st) (snd st))"

definition list_buf :: "u8 list \<Rightarrow> nat \<Rightarrow> u8" where
  "list_buf bs i = (if i < length bs then bs ! i else 0)"

fun host_blobs :: "'h mem_hwp \<Rightarrow> u32 \<Rightarrow> (u16 \<times> u16 \<times> (nat \<Rightarrow> u32)) list \<Rightarrow> u32 \<Rightarrow> bool \<Rightarrow> 'h mem_stream
    \<Rightarrow> (u32 \<times> 'h mem_stream) option" where
  "host_blobs hwp cfg [] avail isLast st = Some (0, st)"
| "host_blobs hwp cfg ((fieldId, fieldLen, d) # blobs) avail isLast st =
     (if has_flag (ucast fieldId) cfg
      then do {
        let (avail, len, isLast) = MEM_AVAILABLE_CHECK avail 4 isLast;
        (rc, st) \<leftarrow> mem_put hwp (list_buf (struct_bytes [word_of_halves fieldId fieldLen])) len isLast st;
        if rc \<noteq> FAPI2_RC_SUCCESS then Some (SBE_SEC_GENERIC_FAILURE_IN_EXECUTION, st)
        else do {
          let (avail, len, isLast) = MEM_AVAILABLE_CHECK avail (ucast fieldLen) isLast;
          let isLast = (isLast \<or> blobs = []);
          (rc, st) \<leftarrow> mem_put hwp (byte_view d) len isLast st;
          if rc \<noteq> FAPI2_RC_SUCCESS then Some (SBE_SEC_GENERIC_FAILURE_IN_EXECUTION, st)
          else host_blobs hwp cfg blobs avail isLast st
        }
      }
      else host_blobs hwp cfg blobs avail isLast st)"

definition sendOverHostIntf :: "'h mem_hwp \<Rightarrow> resp_env \<Rightarrow> u32 \<Rightarrow> u32 \<Rightarrow> bool \<Rightarrow> 'h mem_stream
    \<Rightarrow> (u32 \<times> 'h mem_stream) option" where
  "sendOverHostIntf hwp E cfg avail i_skipffdcBitCheck st =
     (if \<not> i_skipffdcBitCheck \<and> \<not> isSendInternalFFDCSet (regAccess E) then Some (0, st)
      else let (hdr, dataHdr) = package_headers E cfg;
               (avail, len, isLast) = MEM_AVAILABLE_CHECK avail 12 False
           in do {
             (rc, st) \<leftarrow> mem_put hwp (list_buf (struct_bytes hdr)) len isLast st;
             if rc \<noteq> FAPI2_RC_SUCCESS then Some (SBE_SEC_GENERIC_FAILURE_IN_EXECUTION, st)
             else do {
               let (avail, len, isLast) = MEM_AVAILABLE_CHECK avail 16 isLast;
               (rc, st) \<leftarrow> mem_put hwp (list_buf (struct_bytes dataHdr)) len isLast st;
               if rc \<noteq> FAPI2_RC_SUCCESS then Some (SBE_SEC_GENERIC_FAILURE_IN_EXECUTION, st)
               else host_blobs hwp cfg (sbeFFDCUserDataArray E) avail isLast st
             }
           })"

subsection \<open>The response\<close>

text \<open>
  The FFDC of a hardware procedure. The length of the data is computed in words and given to
  \<open>accessWithBuffer\<close>, which counts bytes, as it is in the code.
\<close>

definition psu_ffdc :: "sbe_global \<Rightarrow> fapi_rc \<Rightarrow> sbeResponseFfdc_t" where
  "psu_ffdc G fapiRc =
     (let r = sbeSbe2PsuRespHdr G;
          f = setCmdInfo (pr_seqID r) (pr_cmdClass r) (pr_command r) (new_sbeResponseFfdc\<lparr> rf_fapiRc := fapiRc \<rparr>)
      in f\<lparr> rf_lenInWords := rf_lenInWords f + ucast (ffdcLength (g_env G) div 4) \<rparr>)"

definition host_hwp_ffdc :: "'h mem_hwp \<Rightarrow> fapi_rc \<Rightarrow> sbe_global \<Rightarrow> u32 \<Rightarrow> 'h mem_stream
    \<Rightarrow> (u32 \<times> u32 \<times> 'h mem_stream) option" where
  "host_hwp_ffdc hwp fapiRc G avail st =
     (let E = g_env G;
          ffdcDataLenInWords = ffdcLength E div 4;
          (avail, len, isLast) = MEM_AVAILABLE_CHECK avail 12 False
      in do {
        (rc, st) \<leftarrow> mem_put hwp (list_buf (struct_bytes (resp_ffdc_words (psu_ffdc G fapiRc)))) len isLast st;
        if rc \<noteq> FAPI2_RC_SUCCESS then Some (SBE_SEC_GENERIC_FAILURE_IN_EXECUTION, avail, st)
        else do {
          let (avail, len, isLast) = MEM_AVAILABLE_CHECK avail ffdcDataLenInWords isLast;
          let isLast = (isLast \<or> \<not> isSendInternalFFDCSet (regAccess E));
          (rc, st) \<leftarrow> mem_put hwp (byte_view (ffdcData E)) len isLast st;
          Some (if rc \<noteq> FAPI2_RC_SUCCESS then SBE_SEC_GENERIC_FAILURE_IN_EXECUTION else 0, avail, st)
        }
      })"

definition sbePSUSendResponse :: "'h pib \<Rightarrow> 'h mem_plat \<Rightarrow> sbe_app \<Rightarrow> fapi_rc \<Rightarrow> u32 \<Rightarrow> 'h
    \<Rightarrow> (u32 \<times> sbe_app \<times> 'h) option" where
  "sbePSUSendResponse P L A i_fapiRc io_rc h =
     (if io_rc \<noteq> 0 then Some (io_rc, A, h)
      else
        let avail = ha_size (hostFFDCAddr A);
            hwp = pba_hwp L (new_p9_PBA_oper_flag\<lparr> pf_operType := PBA_INJ \<rparr>) PBA_DEFAULT_EX_CHIPLET_ID;
            I = mem_interface_create SBE_MEM_ACCESS_PBA (ha_addr (hostFFDCAddr A)) False False SBE_MEM_ACCESS_WRITE
                  PBA_GRAN_SIZE_BYTES (raw_buffer L);
            r = sbeSbe2PsuRespHdr (app_glob A);
            internal = (pr_primStatus r \<noteq> 0 \<or> pr_secStatus r \<noteq> 0);
            failed = (i_fapiRc \<noteq> FAPI2_RC_SUCCESS);
            A = (if failed then upd_glob (set_psu_status SBE_PRI_GENERIC_EXECUTION_FAILURE SBE_SEC_GENERIC_FAILURE_IN_EXECUTION) A
                 else A)
        in do {
          (io_rc, avail, I, h) \<leftarrow> (if failed then host_hwp_ffdc hwp i_fapiRc (app_glob A) avail (I, h)
                                   else Some (0, avail, I, h));
          if io_rc \<noteq> 0 then Some (io_rc, A, h)
          else do {
            (io_rc, I, h) \<leftarrow> (if internal \<or> failed
                 then sendOverHostIntf hwp (g_env (app_glob A)) SBE_FFDC_ALL_DUMP avail False (I, h)
                 else Some (0, I, h));
            if io_rc \<noteq> 0 then Some (io_rc, A, h)
            else map_option (\<lambda>(io_rc, h). (io_rc, A, h)) (write_psu_resp P (app_glob A) h)
          }
        })"

section \<open>What reaches the host's memory\<close>

lemma flushed_aligned:
  assumes "0 < g" "g dvd length pre"
  shows "flushed g l (pre @ d) = pre @ flushed g l d" "kept g l (pre @ d) = kept g l d"
proof -
  have m: "(length pre + length d) mod g = length d mod g" using assms(2) by (auto simp: dvd_def)
  define c where "c = length d - length d mod g"
  have e: "length pre + length d - length d mod g = length pre + c" by (simp add: c_def)
  show "flushed g l (pre @ d) = pre @ flushed g l d" "kept g l (pre @ d) = kept g l d"
    unfolding flushed_def kept_def length_append m e c_def [symmetric] by simp_all
qed

lemma length_kept: "0 < g \<Longrightarrow> length (kept g l d) < g"
  by (simp add: kept_def)

text \<open>
  The stream to the memory at \<open>base\<close> while it is open, with the bytes \<open>bs\<close> sent so far, and after it
  was closed by a last access, when the first \<open>size\<close> of them are in memory, padded with zeros to a
  granule.
\<close>

definition idle_at :: "nat \<Rightarrow> sbeMemAccessInterface \<Rightarrow> bool" where
  "idle_at g I \<longleftrightarrow> writing g I \<and> iv_iterator I < g \<and> iv_interface I = SBE_MEM_ACCESS_PBA"

definition open_at :: "nat \<Rightarrow> ('h \<Rightarrow> u64 \<Rightarrow> u8) \<Rightarrow> u64 \<Rightarrow> (u64 \<Rightarrow> u8) \<Rightarrow> u8 list \<Rightarrow> 'h mem_stream \<Rightarrow> bool" where
  "open_at g memof base m0 bs st \<longleftrightarrow> idle_at g (fst st) \<and>
     (\<exists>pre. bs = pre @ pending (fst st) \<and> g dvd length pre \<and> iv_addr (fst st) = base + of_nat (length pre)
       \<and> memof (snd st) = mem_store base pre m0)"

definition closed_at :: "nat \<Rightarrow> ('h \<Rightarrow> u64 \<Rightarrow> u8) \<Rightarrow> u64 \<Rightarrow> (u64 \<Rightarrow> u8) \<Rightarrow> u8 list \<Rightarrow> 'h mem_stream \<Rightarrow> bool" where
  "closed_at g memof base m0 ds st \<longleftrightarrow> idle_at g (fst st) \<and> pending (fst st) = [] \<and>
     memof (snd st) = mem_store base (flushed g True ds) m0"

lemma put_writes:
  assumes "writes_memory hwp memof SBE_MEM_ACCESS_PBA g S" "idle_at g (fst st)"
    and "e = pending (fst st) @ map d [0..<unat len]" "length e + g \<le> 2 ^ 64"
    and sv: "serves g S (iv_addr (fst st)) (length (flushed g l e))"
  obtains st' where "mem_put hwp d len l st = Some (FAPI2_RC_SUCCESS, st')" "idle_at g (fst st')"
    "pending (fst st') = kept g l e" "iv_addr (fst st') = iv_addr (fst st) + of_nat (length (flushed g l e))"
    "memof (snd st') = mem_store (iv_addr (fst st)) (flushed g l e) (memof (snd st))"
proof -
  obtain I h where st: "st = (I, h)" by (cases st)
  have i: "writing g I" "iv_iterator I < g" "iv_interface I = SBE_MEM_ACCESS_PBA"
    using assms(2) by (simp_all add: idle_at_def st)
  have hw: "writes_memory hwp memof (iv_interface I) g S" using assms(1) i(3) by simp
  have e: "e = pending I @ map d [0..<unat len]" using assms(3) by (simp add: st)
  obtain I' h' where r: "accessWithBuffer hwp d (unat len) l I h = Some (FAPI2_RC_SUCCESS, d, I', h')"
    "writing g I'" "iv_interface I' = iv_interface I" "iv_iterator I' < g" "pending I' = kept g l e"
    "iv_addr I' = iv_addr I + of_nat (length (flushed g l e))"
    "memof h' = mem_store (iv_addr I) (flushed g l e) (memof h)"
    using accessWithBuffer_writes [OF hw i(1,2) _ e assms(4), of l h] sv by (auto simp: st)
  show ?thesis
    by (rule that [of "(I', h')"]) (use r i st in \<open>simp_all add: mem_put_def idle_at_def\<close>)
qed

lemma put_open:
  assumes hw: "writes_memory hwp memof SBE_MEM_ACCESS_PBA g S" and o: "open_at g memof base m0 bs st"
    and len: "length bs + unat len + 2 * g \<le> 2 ^ 64" and sv: "serves g S base (length bs + unat len)"
  obtains st' where "mem_put hwp d len l st = Some (FAPI2_RC_SUCCESS, st')"
    "l \<Longrightarrow> closed_at g memof base m0 (bs @ map d [0..<unat len]) st'"
    "\<not> l \<Longrightarrow> open_at g memof base m0 (bs @ map d [0..<unat len]) st'"
proof -
  obtain pre where pre: "bs = pre @ pending (fst st)" "g dvd length pre" "iv_addr (fst st) = base + of_nat (length pre)"
    "memof (snd st) = mem_store base pre m0" and i: "idle_at g (fst st)"
    using o by (auto simp: open_at_def)
  have g: "0 < g" using i by (simp add: idle_at_def writing_def)
  define e where "e = pending (fst st) @ map d [0..<unat len]"
  have be: "bs @ map d [0..<unat len] = pre @ e" using pre(1) by (simp add: e_def)
  then have le: "length pre + length e + 2 * g \<le> 2 ^ 64" using len by (metis length_append length_map length_upt minus_nat.diff_0)
  then have l64: "length e + g \<le> 2 ^ 64" by simp
  have "length bs + unat len = length pre + length e" using be by (metis length_append length_map length_upt minus_nat.diff_0)
  then have "serves g S (iv_addr (fst st)) (length e)"
    using serves_skip [of g S base "length pre" "length e"] sv pre(2,3) by simp
  then have sv': "serves g S (iv_addr (fst st)) (length (flushed g l e))" by (rule flushed_bound [OF _ g])
  obtain st' where r: "mem_put hwp d len l st = Some (FAPI2_RC_SUCCESS, st')" "idle_at g (fst st')"
    "pending (fst st') = kept g l e" "iv_addr (fst st') = iv_addr (fst st) + of_nat (length (flushed g l e))"
    "memof (snd st') = mem_store (iv_addr (fst st)) (flushed g l e) (memof (snd st))"
    by (rule put_writes [OF hw i e_def l64 sv'])
  have "length (flushed g l e) \<le> length e + g"
    using g by (auto simp: flushed_def intro: le_trans [OF mod_le_divisor])
  then have m: "memof (snd st') = mem_store base (flushed g l (pre @ e)) m0"
    using r(5) pre(3,4) le mem_store_append [of pre "flushed g l e" base m0] flushed_aligned [OF g pre(2)] by simp
  have "open_at g memof base m0 (pre @ e) st'" if "\<not> l"
  proof -
    have "pre @ e = (pre @ flushed g False e) @ pending (fst st')" using r(3) that flushed_kept [of g e] by simp
    moreover have "g dvd length (pre @ flushed g False e)"
      using pre(2) by (simp add: flushed_def minus_mod_eq_div_mult)
    ultimately show ?thesis
      unfolding open_at_def using r m pre(3) that flushed_aligned [OF g pre(2)]
      by (intro conjI exI [of _ "pre @ flushed g False e"]) (simp_all add: add.assoc)
  qed
  moreover have "closed_at g memof base m0 (pre @ e) st'" if l
    using r(2,3) m that by (simp add: closed_at_def kept_def)
  ultimately show ?thesis using that [OF r(1)] be by simp
qed

lemma put_closed:
  assumes "writes_memory hwp memof SBE_MEM_ACCESS_PBA g S" "closed_at g memof base m0 ds st" "g \<le> 2 ^ 64"
  obtains st' where "mem_put hwp d 0 l st = Some (FAPI2_RC_SUCCESS, st')" "closed_at g memof base m0 ds st'"
proof -
  have i: "idle_at g (fst st)" "pending (fst st) = []" using assms(2) by (simp_all add: closed_at_def)
  have z: "kept g l [] = []" "flushed g l [] = []" by (simp_all add: kept_def flushed_def)
  obtain st' where "mem_put hwp d 0 l st = Some (FAPI2_RC_SUCCESS, st')" "idle_at g (fst st')"
    "pending (fst st') = kept g l []" "memof (snd st') = mem_store (iv_addr (fst st)) (flushed g l []) (memof (snd st))"
    by (rule put_writes [OF assms(1) i(1), of "[]" d 0 l]) (use i(2) assms(3) in \<open>simp_all add: flushed_def\<close>)
  then show ?thesis using assms(2) z by (intro that [of st']) (simp_all add: closed_at_def)
qed

text \<open>
  The area of \<open>room\<close> bytes between two calls: \<open>avail\<close> bytes are left and the stream is open, or none is
  left and the stream is closed.
\<close>

definition area_at :: "nat \<Rightarrow> ('h \<Rightarrow> u64 \<Rightarrow> u8) \<Rightarrow> u64 \<Rightarrow> (u64 \<Rightarrow> u8) \<Rightarrow> nat \<Rightarrow> u8 list \<Rightarrow> u32 \<Rightarrow> bool \<Rightarrow> 'h mem_stream \<Rightarrow> bool" where
  "area_at g memof base m0 room bs avail isLast st \<longleftrightarrow>
     (\<not> isLast \<and> open_at g memof base m0 bs st \<and> length bs + unat avail = room) \<or>
     (avail = 0 \<and> room \<le> length bs \<and> closed_at g memof base m0 (take room bs) st)"

definition area_ok :: "nat \<Rightarrow> u64 set \<Rightarrow> u64 \<Rightarrow> nat \<Rightarrow> bool" where
  "area_ok g S base room \<longleftrightarrow> room + 2 * g \<le> 2 ^ 64 \<and> serves g S base room"

lemma area_okD:
  assumes "area_ok g S base room" "n \<le> room"
  shows "n + 2 * g \<le> 2 ^ 64" "serves g S base n"
  using assms serves_mono by (auto simp: area_ok_def)

lemma area_put:
  assumes hw: "writes_memory hwp memof SBE_MEM_ACCESS_PBA g S" and a: "area_at g memof base m0 room bs avail isLast st"
    and c: "MEM_AVAILABLE_CHECK avail n isLast = (avail', len, last')" and sz: "area_ok g S base room"
  obtains st' where "mem_put hwp d len last' st = Some (FAPI2_RC_SUCCESS, st')"
    "area_at g memof base m0 room (bs @ map d [0..<unat n]) avail' last' st'"
proof (cases "\<not> isLast \<and> open_at g memof base m0 bs st \<and> length bs + unat avail = room")
  case opn: True
  have le: "unat len \<le> unat avail" using c by (auto simp: MEM_AVAILABLE_CHECK_def word_le_nat_alt not_less split: if_splits)
  then have room: "length bs + unat len \<le> room" using opn by linarith
  obtain st' where r: "mem_put hwp d len last' st = Some (FAPI2_RC_SUCCESS, st')"
    "last' \<Longrightarrow> closed_at g memof base m0 (bs @ map d [0..<unat len]) st'"
    "\<not> last' \<Longrightarrow> open_at g memof base m0 (bs @ map d [0..<unat len]) st'"
    by (rule put_open [OF hw conjunct1 [OF conjunct2 [OF opn]] area_okD [OF sz room]]) blast
  show ?thesis
  proof (cases "avail < n")
    case True
    then have v: "len = avail" "last'" "avail' = 0" using c by (auto simp: MEM_AVAILABLE_CHECK_def)
    have le: "unat avail \<le> unat n" using True by (simp add: word_less_nat_alt)
    then have "take room (bs @ map d [0..<unat n]) = bs @ map d [0..<unat len]"
      using opn v by (auto simp: take_map min_def)
    then show ?thesis
      using r(2) v opn le by (intro that [OF r(1)]) (simp add: area_at_def)
  next
    case False
    then have v: "len = n" "last' = isLast" "avail' = avail - n" using c by (auto simp: MEM_AVAILABLE_CHECK_def)
    have "unat n \<le> unat avail" using False by (simp add: word_le_nat_alt not_less)
    then have "unat (avail - n) = unat avail - unat n" "unat n \<le> unat avail" by (simp_all add: unat_sub_le)
    then show ?thesis
      using r(3) v opn by (intro that [OF r(1)]) (simp add: area_at_def)
  qed
next
  case False
  then have a: "avail = 0" "room \<le> length bs" "closed_at g memof base m0 (take room bs) st"
    using a by (auto simp: area_at_def)
  have len: "len = 0" "avail' = 0" using c a(1) by (auto simp: MEM_AVAILABLE_CHECK_def word_gt_0 split: if_splits)
  obtain st' where "mem_put hwp d 0 last' st = Some (FAPI2_RC_SUCCESS, st')" "closed_at g memof base m0 (take room bs) st'"
    by (rule put_closed [OF hw a(3)]) (use sz in \<open>auto simp: area_ok_def\<close>)
  then show ?thesis using a len by (intro that [of st']) (simp_all add: area_at_def)
qed

text \<open>The same with an access that is the last one in any case.\<close>

lemma area_put_last:
  assumes hw: "writes_memory hwp memof SBE_MEM_ACCESS_PBA g S" and a: "area_at g memof base m0 room bs avail isLast st"
    and c: "MEM_AVAILABLE_CHECK avail n isLast = (avail', len, last')" and sz: "area_ok g S base room"
  obtains st' where "mem_put hwp d len True st = Some (FAPI2_RC_SUCCESS, st')"
    "closed_at g memof base m0 (take room (bs @ map d [0..<unat n])) st'"
proof (cases "\<not> isLast \<and> open_at g memof base m0 bs st \<and> length bs + unat avail = room")
  case opn: True
  have le: "unat len \<le> unat avail" using c by (auto simp: MEM_AVAILABLE_CHECK_def word_le_nat_alt not_less split: if_splits)
  then have room: "length bs + unat len \<le> room" using opn by linarith
  obtain st' where r: "mem_put hwp d len True st = Some (FAPI2_RC_SUCCESS, st')"
    "closed_at g memof base m0 (bs @ map d [0..<unat len]) st'"
    by (rule put_open [OF hw conjunct1 [OF conjunct2 [OF opn]] area_okD [OF sz room], where l = True and d = d]) blast
  have "len = (if avail < n then avail else n)" using c by (auto simp: MEM_AVAILABLE_CHECK_def)
  then have "take room (bs @ map d [0..<unat n]) = bs @ map d [0..<unat len]"
    using opn by (auto simp: take_map word_less_nat_alt min_def)
  then show ?thesis using r by (intro that) simp_all
next
  case False
  then have a: "avail = 0" "room \<le> length bs" "closed_at g memof base m0 (take room bs) st"
    using a by (auto simp: area_at_def)
  have len: "len = 0" using c a(1) by (auto simp: MEM_AVAILABLE_CHECK_def word_gt_0 split: if_splits)
  obtain st' where "mem_put hwp d 0 True st = Some (FAPI2_RC_SUCCESS, st')" "closed_at g memof base m0 (take room bs) st'"
    by (rule put_closed [OF hw a(3)]) (use sz in \<open>auto simp: area_ok_def\<close>)
  then show ?thesis using a len by (intro that [of st']) simp_all
qed

lemma struct_bytes_length: "length (struct_bytes ws) = 4 * length ws"
  by (induction ws) (simp_all add: struct_bytes_def be_bytes_def)

lemma map_list_buf: "n = length bs \<Longrightarrow> map (list_buf bs) [0..<n] = bs"
  by (auto simp: list_buf_def intro: nth_equalityI)

lemma area_put_struct:
  assumes "writes_memory hwp memof SBE_MEM_ACCESS_PBA g S" "area_at g memof base m0 room bs avail isLast st"
    "MEM_AVAILABLE_CHECK avail n isLast = (avail', len, last')" "area_ok g S base room" "unat n = 4 * length ws"
  obtains st' where "mem_put hwp (list_buf (struct_bytes ws)) len last' st = Some (FAPI2_RC_SUCCESS, st')"
    "area_at g memof base m0 room (bs @ struct_bytes ws) avail' last' st'"
  by (rule area_put [OF assms(1-4), of "list_buf (struct_bytes ws)"])
    (use assms(5) that in \<open>simp add: map_list_buf struct_bytes_length\<close>)

definition blob_stream :: "u32 \<Rightarrow> (u16 \<times> u16 \<times> (nat \<Rightarrow> u32)) list \<Rightarrow> u8 list" where
  "blob_stream cfg blobs = concat (map (\<lambda>(fieldId, fieldLen, d). if has_flag (ucast fieldId) cfg
     then struct_bytes [word_of_halves fieldId fieldLen] @ map (byte_view d) [0..<unat fieldLen] else []) blobs)"

lemma blob_stream_simps [simp]:
  "blob_stream cfg [] = []"
  "blob_stream cfg ((fieldId, fieldLen, d) # blobs) =
     (if has_flag (ucast fieldId) cfg
      then struct_bytes [word_of_halves fieldId fieldLen] @ map (byte_view d) [0..<unat fieldLen] else [])
     @ blob_stream cfg blobs"
  by (simp_all add: blob_stream_def)

lemma host_blobs_stream:
  assumes hw: "writes_memory hwp memof SBE_MEM_ACCESS_PBA g S" and sz: "area_ok g S base room"
  shows "area_at g memof base m0 room bs avail isLast st \<Longrightarrow> blobs \<noteq> [] \<Longrightarrow> has_flag (ucast (fst (last blobs))) cfg \<Longrightarrow>
    \<exists>st'. host_blobs hwp cfg blobs avail isLast st = Some (0, st') \<and>
      closed_at g memof base m0 (take room (bs @ blob_stream cfg blobs)) st'"
proof (induction blobs arbitrary: bs avail isLast st)
  case (Cons b blobs)
  obtain fieldId fieldLen d where b: "b = (fieldId, fieldLen, d)" by (cases b)
  show ?case
  proof (cases "has_flag (ucast fieldId) cfg")
    case False
    then have "blobs \<noteq> []" using Cons.prems(3) b by auto
    then show ?thesis using Cons.IH [OF Cons.prems(1)] Cons.prems(3) False by (simp add: b)
  next
    case True
    let ?i = "struct_bytes [word_of_halves fieldId fieldLen]" and ?d = "map (byte_view d) [0..<unat fieldLen]"
    obtain a1 l1 x1 where 1: "MEM_AVAILABLE_CHECK avail 4 isLast = (a1, l1, x1)" by (rule prod_cases3)
    obtain s1 where 2: "mem_put hwp (list_buf ?i) l1 x1 st = Some (FAPI2_RC_SUCCESS, s1)"
      "area_at g memof base m0 room (bs @ ?i) a1 x1 s1"
      by (rule area_put_struct [OF hw Cons.prems(1) 1 sz, of "[word_of_halves fieldId fieldLen]"]) simp_all
    obtain a2 l2 x2 where 3: "MEM_AVAILABLE_CHECK a1 (ucast fieldLen) x1 = (a2, l2, x2)" by (rule prod_cases3)
    have u: "unat (ucast fieldLen :: u32) = unat fieldLen" by (simp add: unat_ucast_up)
    show ?thesis
    proof (cases "blobs = []")
      case True
      obtain s2 where "mem_put hwp (byte_view d) l2 True s1 = Some (FAPI2_RC_SUCCESS, s2)"
        "closed_at g memof base m0 (take room ((bs @ ?i) @ ?d)) s2"
        by (rule area_put_last [OF hw 2(2) 3 sz, of "byte_view d"]) (simp add: u)
      then show ?thesis using 1 2(1) 3 True \<open>has_flag (ucast fieldId) cfg\<close> by (simp add: b)
    next
      case False
      obtain s2 where 4: "mem_put hwp (byte_view d) l2 x2 s1 = Some (FAPI2_RC_SUCCESS, s2)"
        "area_at g memof base m0 room ((bs @ ?i) @ ?d) a2 x2 s2"
        by (rule area_put [OF hw 2(2) 3 sz, of "byte_view d"]) (simp add: u)
      have "has_flag (ucast (fst (last blobs))) cfg" using Cons.prems(3) False by simp
      from Cons.IH [OF 4(2) False this] show ?thesis
        using 1 2(1) 3 4(1) False \<open>has_flag (ucast fieldId) cfg\<close> by (simp add: b)
    qed
  qed
qed simp

text \<open>What the internal FFDC and the FFDC of a procedure consist of.\<close>

definition package_stream :: "resp_env \<Rightarrow> u32 \<Rightarrow> u8 list" where
  "package_stream E cfg = (if isSendInternalFFDCSet (regAccess E)
     then struct_bytes (fst (package_headers E cfg)) @ struct_bytes (snd (package_headers E cfg))
       @ blob_stream cfg (sbeFFDCUserDataArray E)
     else [])"

definition hwp_stream :: "sbe_global \<Rightarrow> fapi_rc \<Rightarrow> u8 list" where
  "hwp_stream G fapiRc = struct_bytes (resp_ffdc_words (psu_ffdc G fapiRc))
     @ map (byte_view (ffdcData (g_env G))) [0..<unat (ffdcLength (g_env G) div 4)]"

definition blobs_ok :: "resp_env \<Rightarrow> bool" where
  "blobs_ok E \<longleftrightarrow> sbeFFDCUserDataArray E \<noteq> [] \<and> fst (last (sbeFFDCUserDataArray E)) \<noteq> 0"

lemma has_flag_all_dump: "(i :: u16) \<noteq> 0 \<Longrightarrow> has_flag (ucast i) SBE_FFDC_ALL_DUMP"
proof -
  assume i: "i \<noteq> 0"
  have m: "(0xFFFF :: u32) = mask 16" by (simp add: mask_eq_exp_minus_1)
  have "take_bit 16 (ucast i :: u32) = ucast i"
    by (rule bit_word_eqI) (auto simp: bit_simps dest: bit_imp_le_length)
  then have "(ucast i :: u32) AND 0xFFFF = ucast i" unfolding m take_bit_eq_mask .
  moreover have "unat (ucast i :: u32) = unat i" by (simp add: unat_ucast_up)
  then have "(ucast i :: u32) \<noteq> 0" using i by (metis unat_eq_0)
  ultimately show "has_flag (ucast i) SBE_FFDC_ALL_DUMP" by (simp add: has_flag_def)
qed

lemma length_headers:
  "length (resp_ffdc_words f) = 3" "length (fst (package_headers E cfg)) = 3" "length (snd (package_headers E cfg)) = 4"
  by (simp_all add: resp_ffdc_words_def package_headers_def Let_def)

text \<open>
  The area after a part of the response: it is still between two calls, or closed with everything in it.
\<close>

lemma send_package_stream:
  assumes hw: "writes_memory hwp memof SBE_MEM_ACCESS_PBA g S" and sz: "area_ok g S base room"
    and a: "area_at g memof base m0 room bs avail False st" and E: "blobs_ok E" "isSendInternalFFDCSet (regAccess E)"
  shows "\<exists>st'. sendOverHostIntf hwp E SBE_FFDC_ALL_DUMP avail False st = Some (0, st') \<and>
    closed_at g memof base m0 (take room (bs @ package_stream E SBE_FFDC_ALL_DUMP)) st'"
proof -
  let ?h = "fst (package_headers E SBE_FFDC_ALL_DUMP)" and ?d = "snd (package_headers E SBE_FFDC_ALL_DUMP)"
  obtain a1 l1 x1 where 1: "MEM_AVAILABLE_CHECK avail 12 False = (a1, l1, x1)" by (rule prod_cases3)
  obtain s1 where 2: "mem_put hwp (list_buf (struct_bytes ?h)) l1 x1 st = Some (FAPI2_RC_SUCCESS, s1)"
    "area_at g memof base m0 room (bs @ struct_bytes ?h) a1 x1 s1"
    by (rule area_put_struct [OF hw a 1 sz, of ?h]) (simp_all add: length_headers)
  obtain a2 l2 x2 where 3: "MEM_AVAILABLE_CHECK a1 16 x1 = (a2, l2, x2)" by (rule prod_cases3)
  obtain s2 where 4: "mem_put hwp (list_buf (struct_bytes ?d)) l2 x2 s1 = Some (FAPI2_RC_SUCCESS, s2)"
    "area_at g memof base m0 room ((bs @ struct_bytes ?h) @ struct_bytes ?d) a2 x2 s2"
    by (rule area_put_struct [OF hw 2(2) 3 sz, of ?d]) (simp_all add: length_headers)
  have "has_flag (ucast (fst (last (sbeFFDCUserDataArray E)))) SBE_FFDC_ALL_DUMP" "sbeFFDCUserDataArray E \<noteq> []"
    using E(1) has_flag_all_dump by (auto simp: blobs_ok_def)
  from host_blobs_stream [OF hw sz 4(2) this(2,1)] show ?thesis
    using 1 2(1) 3 4(1) E(2) by (simp add: sendOverHostIntf_def package_stream_def case_prod_beta)
qed

lemma send_hwp_stream:
  assumes hw: "writes_memory hwp memof SBE_MEM_ACCESS_PBA g S" and sz: "area_ok g S base room"
    and a: "area_at g memof base m0 room bs avail False st"
  shows "\<exists>avail' st'. host_hwp_ffdc hwp fapiRc G avail st = Some (0, avail', st') \<and>
    (if isSendInternalFFDCSet (regAccess (g_env G))
     then area_at g memof base m0 room (bs @ hwp_stream G fapiRc) avail' False st'
     else closed_at g memof base m0 (take room (bs @ hwp_stream G fapiRc)) st')"
proof -
  let ?f = "resp_ffdc_words (psu_ffdc G fapiRc)" and ?E = "g_env G"
  let ?d = "map (byte_view (ffdcData ?E)) [0..<unat (ffdcLength ?E div 4)]"
  obtain a1 l1 x1 where 1: "MEM_AVAILABLE_CHECK avail 12 False = (a1, l1, x1)" by (rule prod_cases3)
  obtain s1 where 2: "mem_put hwp (list_buf (struct_bytes ?f)) l1 x1 st = Some (FAPI2_RC_SUCCESS, s1)"
    "area_at g memof base m0 room (bs @ struct_bytes ?f) a1 x1 s1"
    by (rule area_put_struct [OF hw a 1 sz, of ?f]) (simp_all add: length_headers)
  obtain a2 l2 x2 where 3: "MEM_AVAILABLE_CHECK a1 (ffdcLength ?E div 4) x1 = (a2, l2, x2)" by (rule prod_cases3)
  show ?thesis
  proof (cases "isSendInternalFFDCSet (regAccess ?E)")
    case True
    obtain s2 where 4: "mem_put hwp (byte_view (ffdcData ?E)) l2 x2 s1 = Some (FAPI2_RC_SUCCESS, s2)"
      "area_at g memof base m0 room ((bs @ struct_bytes ?f) @ ?d) a2 x2 s2"
      by (rule area_put [OF hw 2(2) 3 sz])
    have "area_at g memof base m0 room ((bs @ struct_bytes ?f) @ ?d) a2 False s2"
      using 4(2) by (auto simp: area_at_def)
    then show ?thesis using 1 2(1) 3 4(1) True by (simp add: host_hwp_ffdc_def hwp_stream_def)
  next
    case False
    obtain s2 where 4: "mem_put hwp (byte_view (ffdcData ?E)) l2 True s1 = Some (FAPI2_RC_SUCCESS, s2)"
      "closed_at g memof base m0 (take room ((bs @ struct_bytes ?f) @ ?d)) s2"
      by (rule area_put_last [OF hw 2(2) 3 sz])
    then show ?thesis using 1 2(1) 3 4(1) False by (simp add: host_hwp_ffdc_def hwp_stream_def)
  qed
qed

text \<open>
  The mailbox as the hardware documents it: a write to the response register or to the doorbell
  succeeds and touches no memory, and \<open>mbox\<close> is what the response register holds.
\<close>

definition mailbox_writes :: "'h pib \<Rightarrow> ('h \<Rightarrow> u64 \<Rightarrow> u8) \<Rightarrow> ('h \<Rightarrow> u64) \<Rightarrow> bool" where
  "mailbox_writes P memof mbox \<longleftrightarrow>
     (\<forall>v h. \<exists>h'. putscom_abs P SBE_HOST_PSU_MBOX_REG4 v h = (0, h') \<and> memof h' = memof h \<and> mbox h' = v) \<and>
     (\<forall>v h. \<exists>h'. putscom_abs P SBE_PSU2HOST_DOORBELL_REG_OR v h = (0, h') \<and> memof h' = memof h \<and> mbox h' = mbox h)"

lemma write_psu_resp_returns:
  assumes "mailbox_writes P memof mbox"
  shows "\<exists>h'. write_psu_resp P G h = Some (0, h') \<and> memof h' = memof h \<and> mbox h' = psu_resp_word (sbeSbe2PsuRespHdr G)"
proof -
  obtain h1 where 1: "putscom_abs P SBE_HOST_PSU_MBOX_REG4 (psu_resp_word (sbeSbe2PsuRespHdr G)) h = (0, h1)"
    "memof h1 = memof h" "mbox h1 = psu_resp_word (sbeSbe2PsuRespHdr G)"
    using assms unfolding mailbox_writes_def by blast
  obtain h2 where 2: "putscom_abs P SBE_PSU2HOST_DOORBELL_REG_OR SBE_SBE2PSU_DOORBELL_SET_BIT0 h1 = (0, h2)"
    "memof h2 = memof h1" "mbox h2 = mbox h1"
    using assms unfolding mailbox_writes_def by blast
  show ?thesis
    using 1 2 by (simp add: write_psu_resp_def sbeWriteSbe2PsuMbxReg_def sbeSetSbe2PsuDbBitX_def)
qed

abbreviation inj_hwp :: "'h mem_plat \<Rightarrow> 'h mem_hwp" where
  "inj_hwp L \<equiv> pba_hwp L (new_p9_PBA_oper_flag\<lparr> pf_operType := PBA_INJ \<rparr>) PBA_DEFAULT_EX_CHIPLET_ID"

abbreviation psu_failed :: "sbe_app \<Rightarrow> sbe_app" where
  "psu_failed A \<equiv> upd_glob (set_psu_status SBE_PRI_GENERIC_EXECUTION_FAILURE SBE_SEC_GENERIC_FAILURE_IN_EXECUTION) A"

lemma area_at_start:
  assumes "length buf = 128" "128 dvd unat base"
  shows "area_at 128 memof base (memof h) (unat avail) [] avail False
    (mem_interface_create SBE_MEM_ACCESS_PBA base False False SBE_MEM_ACCESS_WRITE PBA_GRAN_SIZE_BYTES buf, h)"
  using assms by (simp add: area_at_def open_at_def idle_at_def mem_interface_create_def writing_def is_read_def
      PBA_GRAN_SIZE_BYTES_def pending_def)

lemma failure_status_env [simp]:
  "sbeFFDCUserDataArray (g_env (set_psu_status p q G)) = sbeFFDCUserDataArray (g_env G)"
  "ffdcLength (g_env (set_psu_status p q G)) = ffdcLength (g_env G)"
  "ffdcData (g_env (set_psu_status p q G)) = ffdcData (g_env G)"
  "regAccess (g_env (set_psu_status p q G)) = regAccess (g_env G)"
  by (simp_all add: set_psu_status_def record_failure_def Let_def)

lemma send_failure:
  assumes hw: "writes_memory (inj_hwp L) memof SBE_MEM_ACCESS_PBA 128 S" and mb: "mailbox_writes P memof mbox"
    and buf: "length (raw_buffer L) = 128" "128 dvd unat (ha_addr (hostFFDCAddr A))" and S: "serves 128 S (ha_addr (hostFFDCAddr A)) (unat (ha_size (hostFFDCAddr A)))"
    and rc: "fapiRc \<noteq> 0" and E: "blobs_ok (g_env (app_glob A))"
    and G: "G = app_glob (psu_failed A)"
    and bs: "bs = take (unat (ha_size (hostFFDCAddr A))) (hwp_stream G fapiRc @ package_stream (g_env G) SBE_FFDC_ALL_DUMP)"
  shows "\<exists>h'. sbePSUSendResponse P L A fapiRc 0 h = Some (0, psu_failed A, h') \<and>
    memof h' = mem_store (ha_addr (hostFFDCAddr A)) (flushed 128 True bs) (memof h) \<and>
    mbox h' = psu_resp_word (sbeSbe2PsuRespHdr G)"
proof -
  let ?room = "unat (ha_size (hostFFDCAddr A))" and ?base = "ha_addr (hostFFDCAddr A)"
  let ?I = "mem_interface_create SBE_MEM_ACCESS_PBA ?base False False SBE_MEM_ACCESS_WRITE PBA_GRAN_SIZE_BYTES (raw_buffer L)"
  have "unat (ha_size (hostFFDCAddr A)) < 2 ^ 32" using unsigned_less [of "ha_size (hostFFDCAddr A)"] by simp
  then have sz: "area_ok 128 S ?base ?room" using S by (simp add: area_ok_def)
  have E': "blobs_ok (g_env G)" using E by (simp add: blobs_ok_def G upd_glob_def)
  obtain avail I1 h1 where 1: "host_hwp_ffdc (inj_hwp L) fapiRc G (ha_size (hostFFDCAddr A)) (?I, h) = Some (0, avail, I1, h1)"
    "if isSendInternalFFDCSet (regAccess (g_env G))
     then area_at 128 memof ?base (memof h) ?room (hwp_stream G fapiRc) avail False (I1, h1)
     else closed_at 128 memof ?base (memof h) (take ?room (hwp_stream G fapiRc)) (I1, h1)"
    using send_hwp_stream [OF hw sz area_at_start [OF buf, where memof = memof and h = h and avail = "ha_size (hostFFDCAddr A)"],
        where fapiRc = fapiRc and G = G, unfolded append_Nil] by auto
  obtain I2 h2 where 2: "sendOverHostIntf (inj_hwp L) (g_env G) SBE_FFDC_ALL_DUMP avail False (I1, h1) = Some (0, I2, h2)"
    "closed_at 128 memof ?base (memof h) bs (I2, h2)"
  proof (cases "isSendInternalFFDCSet (regAccess (g_env G))")
    case True
    then show ?thesis using that 1(2) send_package_stream [OF hw sz _ E' True, of "memof h" "hwp_stream G fapiRc" avail "(I1, h1)"] bs
      by auto
  next
    case False
    then show ?thesis using 1(2) bs by (intro that) (simp_all add: sendOverHostIntf_def package_stream_def)
  qed
  obtain h3 where 3: "write_psu_resp P G h2 = Some (0, h3)" "memof h3 = memof h2"
    "mbox h3 = psu_resp_word (sbeSbe2PsuRespHdr G)"
    using write_psu_resp_returns [OF mb] by blast
  have "sbePSUSendResponse P L A fapiRc 0 h = Some (0, psu_failed A, h3)"
    using 1(1) 2(1) 3(1) rc G by (simp add: sbePSUSendResponse_def FAPI2_RC_SUCCESS_def Let_def)
  then show ?thesis using 2(2) 3 by (simp add: closed_at_def)
qed

lemma length_flushed: "0 < g \<Longrightarrow> length (flushed g l ds) < length ds + g"
  by (auto simp: flushed_def intro: less_le_trans [OF mod_less_divisor])

lemma hwp_stream_length:
  "length (hwp_stream G fapiRc) = 12 + unat (ffdcLength (g_env G)) div 4"
  by (simp add: hwp_stream_def struct_bytes_length length_headers unat_div)

lemma psu_ffdc_length:
  assumes "unat (ffdcLength (g_env G)) div 4 + 3 < 2 ^ 16"
  shows "unat (rf_lenInWords (psu_ffdc G fapiRc)) = 3 + unat (ffdcLength (g_env G)) div 4"
proof -
  have "unat (ucast (ffdcLength (g_env G) div 4) :: u16) = unat (ffdcLength (g_env G)) div 4"
    using assms by (simp add: unsigned_ucast_eq take_bit_nat_eq_self unat_div)
  moreover have "rf_lenInWords (psu_ffdc G fapiRc) = 3 + ucast (ffdcLength (g_env G) div 4)"
    by (simp add: psu_ffdc_def setCmdInfo_def new_sbeResponseFfdc_def Let_def)
  ultimately show ?thesis
    using assms by (simp add: unat_add_no_wrap)
qed

text \<open>
  Property C13. A host command whose hardware procedure failed is answered with the failure status, and,
  when the PBA serves the memory the host set aside, which starts at a multiple of 128, the host finds there
  what was collected: the bytes of the FFDC headers, the procedure's data and the internal FFDC in this order, as many as fit, padded with zeros to a
  granule and never more than one granule past the area. The procedure's data are cut short, though:
  the header announces \<open>ffdcLength div 4\<close> words and as many bytes follow it.
\<close>

theorem host_failure_response:
  assumes "writes_memory (inj_hwp L) memof SBE_MEM_ACCESS_PBA 128 S" "mailbox_writes P memof mbox"
    "length (raw_buffer L) = 128" "128 dvd unat (ha_addr (hostFFDCAddr A))"
    "serves 128 S (ha_addr (hostFFDCAddr A)) (unat (ha_size (hostFFDCAddr A)))" "fapiRc \<noteq> 0" "blobs_ok (g_env (app_glob A))"
    and "G = app_glob (psu_failed A)" "n = unat (ffdcLength (g_env G)) div 4" "n + 3 < 2 ^ 16"
    and "bs = flushed 128 True (take (unat (ha_size (hostFFDCAddr A)))
           (hwp_stream G fapiRc @ package_stream (g_env G) SBE_FFDC_ALL_DUMP))"
  shows "(\<exists>h'. sbePSUSendResponse P L A fapiRc 0 h = Some (0, psu_failed A, h') \<and>
      memof h' = mem_store (ha_addr (hostFFDCAddr A)) bs (memof h) \<and> mbox h' = psu_resp_word (sbeSbe2PsuRespHdr G)) \<and>
    length bs < unat (ha_size (hostFFDCAddr A)) + 128 \<and>
    unat (rf_lenInWords (psu_ffdc G fapiRc)) = 3 + n \<and> length (hwp_stream G fapiRc) = 12 + n"
proof -
  let ?bs = "take (unat (ha_size (hostFFDCAddr A))) (hwp_stream G fapiRc @ package_stream (g_env G) SBE_FFDC_ALL_DUMP)"
  have "length bs < length ?bs + 128" unfolding assms(11) by (rule length_flushed) simp
  then have "length bs < unat (ha_size (hostFFDCAddr A)) + 128" by simp
  then show ?thesis
    using send_failure [OF assms(1-8) refl, of h] psu_ffdc_length [of G fapiRc] hwp_stream_length [of G fapiRc] assms(9-11)
    by simp
qed

section \<open>Examples\<close>

text \<open>Registers and FIFOs beside a memory; the procedures refuse the addresses beyond the fabric.\<close>

type_synonym mem_sim = "scom_sim \<times> (u64 \<Rightarrow> u8)"

definition mem_sim_pib :: "mem_sim pib" where
  "mem_sim_pib = \<lparr> getscom_abs = (\<lambda>a h. case reg_get a (fst h) of (rc, v, r) \<Rightarrow> (rc, v, (r, snd h))),
     putscom_abs = (\<lambda>a v h. case reg_put a v (fst h) of (rc, r) \<Rightarrow> (rc, (r, snd h))),
     isSimicsRunning = False, pk_sleep_ms = (\<lambda>n h. h) \<rparr>"

definition mem_sim_hwp :: "nat \<Rightarrow> mem_sim mem_hwp" where
  "mem_sim_hwp g = \<lparr> setup_hwp = (\<lambda>i a r h. if a \<le> P9_FBC_UTILS_FBC_MAX_ADDRESS then (FAPI2_RC_SUCCESS, 16, h) else (1, 0, h)),
     access_hwp = (\<lambda>i a r f l buf h.
        if r then (FAPI2_RC_SUCCESS, map (\<lambda>k. if k < g then snd h (a + of_nat k) else 0) [0..<length buf], h)
        else (FAPI2_RC_SUCCESS, buf, (fst h, mem_store a (take g buf) (snd h)))) \<rparr>"

definition mem_sim_plat :: "mem_sim mem_plat" where
  "mem_sim_plat = \<lparr> pba_hwp = (\<lambda>f ex. mem_sim_hwp 128), adu_hwp = (\<lambda>f. mem_sim_hwp 8), mem_ffdc = (\<lambda>rc h E. E),
     raw_buffer = replicate 128 0 \<rparr>"

lemma mem_sim_writes: "writes_memory (mem_sim_hwp g) snd i g fabric_range"
  by (simp add: writes_memory_def mem_sim_hwp_def fabric_range_def)

lemma mem_sim_mailbox: "mailbox_writes mem_sim_pib snd (\<lambda>h. snd (fst h) SBE_HOST_PSU_MBOX_REG4)"
  by (auto simp: mailbox_writes_def mem_sim_pib_def reg_put_def)

text \<open>An area of 32 bytes at \<open>0x2000\<close>; one open region for reading and writing.\<close>

definition sample_app :: sbe_app where
  "sample_app = \<lparr> app_glob = secure_glob, hostFFDCAddr = \<lparr> ha_size = 32, ha_addr = 0x2000 \<rparr>,
     hostPassThroughCmdAddr = \<lparr> ha_size = 0x100, ha_addr = 0x4000 \<rparr>,
     mainStoreMgr = snd (region_add 0x1000 0x200 3 mainStoreSecMemRegionManager), occSramMgr = occSramSecRegionManager \<rparr>"

text \<open>The eight bytes of FFDC data in \<open>sample_env\<close> are announced as two words, and two bytes arrive.\<close>

theorem host_failure_response_witness:
  "\<exists>h'. sbePSUSendResponse mem_sim_pib mem_sim_plat sample_app 5 0 (request [], \<lambda>_. 0xAA) = Some (0, psu_failed sample_app, h') \<and>
    map (snd h') [0x2000, 0x2001, 0x2002, 0x2003, 0x200B, 0x200C, 0x200D, 0x200E, 0x200F, 0x2020, 0x207F, 0x2080]
      = [0xFF, 0xDC, 0, 5, 5, 0, 0, 0xFF, 0xDC, 0, 0, 0xAA] \<and>
    snd (fst h') SBE_HOST_PSU_MBOX_REG4 = 0x00FE000A00000000"
proof -
  let ?G = "app_glob (psu_failed sample_app)"
  let ?bs = "flushed 128 True (take (unat (ha_size (hostFFDCAddr sample_app)))
    (hwp_stream ?G 5 @ package_stream (g_env ?G) SBE_FFDC_ALL_DUMP))"
  let ?m = "mem_store 0x2000 ?bs (\<lambda>_. 0xAA)"
  have 1: "writes_memory (inj_hwp mem_sim_plat) snd SBE_MEM_ACCESS_PBA 128 fabric_range" "length (raw_buffer mem_sim_plat) = 128"
    "128 dvd unat (ha_addr (hostFFDCAddr sample_app))"
    "serves 128 fabric_range (ha_addr (hostFFDCAddr sample_app)) (unat (ha_size (hostFFDCAddr sample_app)))" "(5 :: u32) \<noteq> 0" "blobs_ok (g_env (app_glob sample_app))"
    "unat (ffdcLength (g_env ?G)) div 4 + 3 < 2 ^ 16"
    by (simp_all add: mem_sim_plat_def mem_sim_writes serves_fabric sample_app_def secure_glob_def blobs_ok_def sample_env_def upd_glob_def)
  have 2: "map ?m [0x2000, 0x2001, 0x2002, 0x2003, 0x200B, 0x200C, 0x200D, 0x200E, 0x200F, 0x2020, 0x207F, 0x2080]
      = [0xFF, 0xDC, 0, 5, 5, 0, 0, 0xFF, 0xDC, 0, 0, 0xAA]" "psu_resp_word (sbeSbe2PsuRespHdr ?G) = 0x00FE000A00000000"
    by code_simp+
  have a: "ha_addr (hostFFDCAddr sample_app) = 0x2000" by (simp add: sample_app_def)
  from host_failure_response [OF 1(1) mem_sim_mailbox 1(2-6) refl refl 1(7) refl, of "(request [], \<lambda>_. 0xAA)"]
  show ?thesis unfolding a snd_conv using 2 by auto
qed

end
