(* ===== verification/Sbe_MemOps.thy ===== *)
theory Sbe_MemOps
  imports Sbe_HostResp
begin

unbundle bit_operations_syntax

text \<open>
  The memory chip operations of \<open>sbecmdmemaccess.C\<close>: GetMem and PutMem over the PBA and the ADU, which
  check the open regions, move granules between the FIFO and memory and answer, and the request of
  the host that opens and closes a region. The message header is the one of \<open>sbeSpMsg.H\<close>.
\<close>

subsection \<open>The request\<close>

record sbeMemAccessReqMsgHdr_t =
  mh_coreChipletId :: u8
  mh_eccByte :: u8
  mh_flags :: u16
  mh_addrHi :: u32
  mh_addrLo :: u32
  mh_len :: u32

definition mem_hdr_of :: "(nat \<Rightarrow> u32) \<Rightarrow> sbeMemAccessReqMsgHdr_t" where
  "mem_hdr_of m = \<lparr> mh_coreChipletId = ucast (bf_get 0 8 (m 0)), mh_eccByte = ucast (bf_get 8 8 (m 0)),
     mh_flags = ucast (bf_get 16 16 (m 0)), mh_addrHi = m 1, mh_addrLo = m 2, mh_len = m 3 \<rparr>"

definition getAddr :: "sbeMemAccessReqMsgHdr_t \<Rightarrow> u64" where
  "getAddr q = words64 (mh_addrHi q) (mh_addrLo q)"

abbreviation "SBE_MEM_ACCESS_FLAGS_TARGET_PBA \<equiv> 0x0002 :: u16"
abbreviation "SBE_MEM_ACCESS_FLAGS_AUTO_INCR_ON \<equiv> 0x0004 :: u16"
abbreviation "SBE_MEM_ACCESS_FLAGS_ECC_REQUIRED \<equiv> 0x0008 :: u16"
abbreviation "SBE_MEM_ACCESS_FLAGS_ECC_OVERRIDE \<equiv> 0x0008 :: u16"
abbreviation "SBE_MEM_ACCESS_FLAGS_ITAG \<equiv> 0x0010 :: u16"
abbreviation "SBE_MEM_ACCESS_FLAGS_FAST_MODE_ON \<equiv> 0x0020 :: u16"
abbreviation "SBE_MEM_ACCESS_FLAGS_LCO_ENABLED \<equiv> 0x0040 :: u16"
abbreviation "SBE_MEM_ACCESS_FLAGS_CACHE_INHIBIT \<equiv> 0x0080 :: u16"
abbreviation "SBE_MEM_ACCESS_FLAGS_HOST_PASS_THROUGH \<equiv> 0x0100 :: u16"
abbreviation "SBE_MEM_ACCESS_FLAGS_INJECT_ON \<equiv> 0x0200 :: u16"
abbreviation "SBE_MEM_ACCESS_FLAGS_PB_DIS \<equiv> 0x0400 :: u16"
abbreviation "SBE_MEM_ACCESS_FLAGS_SWITCH \<equiv> 0x0800 :: u16"
abbreviation "SBE_MEM_ACCESS_FLAGS_PB_INIT \<equiv> 0x1000 :: u16"
abbreviation "SBE_MEM_ACCESS_FLAGS_PRESWITCH_CD \<equiv> 0x2000 :: u16"
abbreviation "SBE_MEM_ACCESS_FLAGS_PRESWITCH_AB \<equiv> 0x4000 :: u16"
abbreviation "SBE_MEM_ACCESS_FLAGS_POSTSWITCH \<equiv> 0x8000 :: u16"

definition mem_flag :: "u16 \<Rightarrow> sbeMemAccessReqMsgHdr_t \<Rightarrow> bool" where
  "mem_flag f q \<longleftrightarrow> has_flag (mh_flags q) f"

definition getDataLenCacheAlign :: "sbeMemAccessReqMsgHdr_t \<Rightarrow> u64" where
  "getDataLenCacheAlign q =
     (let l_len = (if mh_len q < 8 then 1 else ucast (mh_len q div 8))
      in if mem_flag SBE_MEM_ACCESS_FLAGS_TARGET_PBA q then l_len div 16 else l_len)"

definition setADUOperationType :: "sbeMemAccessReqMsgHdr_t \<Rightarrow> p9_ADU_oper_flag \<Rightarrow> p9_ADU_oper_flag" where
  "setADUOperationType q f =
     (if mem_flag SBE_MEM_ACCESS_FLAGS_CACHE_INHIBIT q then f\<lparr> af_operType := ADU_CACHE_INHIBIT \<rparr>
      else if mem_flag SBE_MEM_ACCESS_FLAGS_PB_DIS q then f\<lparr> af_operType := ADU_PB_DIS_OPER \<rparr>
      else if mem_flag SBE_MEM_ACCESS_FLAGS_SWITCH q then f\<lparr> af_operType := ADU_PMISC_OPER \<rparr>
      else if mem_flag SBE_MEM_ACCESS_FLAGS_PB_INIT q then f\<lparr> af_operType := ADU_PB_INIT_OPER \<rparr>
      else if mem_flag SBE_MEM_ACCESS_FLAGS_PRESWITCH_AB q then f\<lparr> af_operType := ADU_PRE_SWITCH_AB \<rparr>
      else if mem_flag SBE_MEM_ACCESS_FLAGS_PRESWITCH_CD q then f\<lparr> af_operType := ADU_PRE_SWITCH_CD \<rparr>
      else if mem_flag SBE_MEM_ACCESS_FLAGS_POSTSWITCH q then f\<lparr> af_operType := ADU_POST_SWITCH \<rparr>
      else f)"

definition isTrustedOp :: "sbeMemAccessReqMsgHdr_t \<Rightarrow> bool" where
  "isTrustedOp q \<longleftrightarrow> mem_flag (SBE_MEM_ACCESS_FLAGS_PB_DIS OR SBE_MEM_ACCESS_FLAGS_SWITCH OR
     SBE_MEM_ACCESS_FLAGS_PB_INIT OR SBE_MEM_ACCESS_FLAGS_PRESWITCH_AB OR SBE_MEM_ACCESS_FLAGS_PRESWITCH_CD OR
     SBE_MEM_ACCESS_FLAGS_POSTSWITCH) q"

subsection \<open>Steps that the operations share\<close>

text \<open>The response code of the region manager as a number.\<close>

fun sec_code :: "sbeSecondaryResponse \<Rightarrow> u32" where
  "sec_code sbeSecondaryResponse.SBE_SEC_OPERATION_SUCCESSFUL = 0"
| "sec_code SBE_SEC_BLACKLISTED_MEM_ACCESS = 0x14"
| "sec_code SBE_SEC_MEM_REGION_NOT_FOUND = 0x15"
| "sec_code SBE_SEC_MAXIMUM_MEM_REGION_EXCEEDED = 0x16"
| "sec_code SBE_SEC_MEM_REGION_AMEND_ATTEMPTED = 0x17"

definition check_region :: "SBESecureMemRegionManager \<Rightarrow> bool \<Rightarrow> u64 \<Rightarrow> u32 \<Rightarrow> sbe_app \<Rightarrow> u32 option" where
  "check_region M i_isFlagRead addr len A =
     map_option sec_code (isAccessAllowed (sbeFWSecurityEnabled (app_glob A)) M
       \<lparr> reg_start = addr, reg_size = len, reg_mode = (if i_isFlagRead then MEM_REGION_READ else MEM_REGION_WRITE) \<rparr>)"

definition app_status :: "u32 \<Rightarrow> u32 \<Rightarrow> sbeRespGenHdr_t \<Rightarrow> sbe_app \<Rightarrow> sbeRespGenHdr_t \<times> sbe_app" where
  "app_status p s l_respHdr A =
     (case set_resp_status p s l_respHdr (app_glob A) of (l_respHdr, G) \<Rightarrow> (l_respHdr, A\<lparr> app_glob := G \<rparr>))"

text \<open>What a failed hardware procedure leaves behind.\<close>

definition note_failure :: "'h mem_plat \<Rightarrow> fapi_rc \<Rightarrow> 'h \<Rightarrow> sbeRespGenHdr_t \<Rightarrow> sbeResponseFfdc_t \<Rightarrow> sbe_app
    \<Rightarrow> sbeRespGenHdr_t \<times> sbeResponseFfdc_t \<times> sbe_app" where
  "note_failure L l_fapiRc h l_respHdr l_ffdc A =
     (if l_fapiRc = FAPI2_RC_SUCCESS then (l_respHdr, l_ffdc, A)
      else case app_status SBE_PRI_GENERIC_EXECUTION_FAILURE SBE_SEC_GENERIC_FAILURE_IN_EXECUTION l_respHdr
             (upd_env (mem_ffdc L l_fapiRc h) A) of
           (l_respHdr, A) \<Rightarrow> (l_respHdr, l_ffdc\<lparr> rf_fapiRc := l_fapiRc \<rparr>, A))"

definition flushUpstreamFifo :: "'h pib \<Rightarrow> u16 \<Rightarrow> 'h \<Rightarrow> (u32 \<times> 'h) option" where
  "flushUpstreamFifo P i_primaryStatus h =
     map_option (\<lambda>(rc, n, b, h). (rc, h)) (sbeUpFifoDeq_mult P 0 None True (i_primaryStatus \<noteq> 0) h)"

text \<open>
  The end of an operation: unless there was a FIFO error, the rest of a put request is taken from the
  FIFO, and the length that was moved and the response are sent.
\<close>

definition mem_respond :: "'h pib \<Rightarrow> bool \<Rightarrow> u32 \<Rightarrow> u32 \<Rightarrow> sbeRespGenHdr_t \<Rightarrow> sbeResponseFfdc_t \<Rightarrow> sbe_app \<Rightarrow> 'h
    \<Rightarrow> (u32 \<times> 'h) option" where
  "mem_respond P i_isFlagRead l_rc l_respLen l_respHdr l_ffdc A h =
     (if l_rc \<noteq> 0 then Some (l_rc, h)
      else do {
        (l_rc, h) \<leftarrow> (if i_isFlagRead then Some (0, h) else flushUpstreamFifo P (rh_primaryStatus l_respHdr) h);
        if l_rc \<noteq> 0 then Some (l_rc, h)
        else do {
          (l_rc, n, h) \<leftarrow> send_words P [l_respLen] h;
          if l_rc \<noteq> 0 then Some (l_rc, h)
          else sbeDsSendRespHdr P (g_env (app_glob A)) l_respHdr (Some l_ffdc) h
        }
      })"

subsection \<open>The PBA\<close>

text \<open>One granule: the return code of the FIFO, the one of the procedure, the interface, the hardware.\<close>

definition pba_fill :: "'h pib \<Rightarrow> sbeMemAccessInterface \<Rightarrow> 'h \<Rightarrow> (u32 \<times> sbeMemAccessInterface \<times> 'h) option" where
  "pba_fill P I h =
     (let (I, buffer) = getBuffer I
      in do {
        (l_rc, n, b, h) \<leftarrow> sbeUpFifoDeq_mult P (of_nat (PBA_GRAN_SIZE_BYTES div 4)) (Some (word_view ((!) buffer))) False False h;
        Some (l_rc, I\<lparr> iv_buffer := map (byte_view (the b)) [0..<length buffer] \<rparr>, h)
      })"

definition pba_granule :: "'h pib \<Rightarrow> 'h mem_hwp \<Rightarrow> bool \<Rightarrow> bool \<Rightarrow> sbeMemAccessInterface \<Rightarrow> 'h
    \<Rightarrow> (u32 \<times> fapi_rc \<times> sbeMemAccessInterface \<times> 'h) option" where
  "pba_granule P hwp i_isFlagRead isLast I h = do {
     (l_rc, I, h) \<leftarrow> (if i_isFlagRead then Some (0, I, h) else pba_fill P I h);
     if l_rc \<noteq> 0 then Some (l_rc, FAPI2_RC_SUCCESS, I, h)
     else do {
       (l_fapiRc, I, h) \<leftarrow> accessGranule hwp isLast I h;
       if l_fapiRc \<noteq> FAPI2_RC_SUCCESS then Some (0, l_fapiRc, I, h)
       else if i_isFlagRead
       then let (I, buffer) = getBuffer I
            in do {
              (l_rc, n, h) \<leftarrow> sbeDownFifoEnq_mult P (of_nat (PBA_GRAN_SIZE_BYTES div 4)) (word_view ((!) buffer)) h;
              Some (l_rc, FAPI2_RC_SUCCESS, I, h)
            }
       else Some (0, FAPI2_RC_SUCCESS, I, h)
     }
   }"

text \<open>The loop over the granules; \<open>k\<close> is \<open>l_lenCacheAligned - l_granulesCompleted\<close>.\<close>

fun pba_loop :: "'h pib \<Rightarrow> 'h mem_hwp \<Rightarrow> bool \<Rightarrow> nat \<Rightarrow> u64 \<Rightarrow> sbeMemAccessInterface \<Rightarrow> 'h
    \<Rightarrow> (u32 \<times> fapi_rc \<times> u64 \<times> 'h) option" where
  "pba_loop P hwp i_isFlagRead 0 l_granulesCompleted I h = Some (0, FAPI2_RC_SUCCESS, l_granulesCompleted, h)"
| "pba_loop P hwp i_isFlagRead (Suc k) l_granulesCompleted I h = do {
     (l_rc, l_fapiRc, I, h) \<leftarrow> pba_granule P hwp i_isFlagRead (k = 0) I h;
     if l_rc \<noteq> 0 \<or> l_fapiRc \<noteq> FAPI2_RC_SUCCESS then Some (l_rc, l_fapiRc, l_granulesCompleted, h)
     else pba_loop P hwp i_isFlagRead k (l_granulesCompleted + 1) I h
   }"

definition pba_flags :: "sbeMemAccessReqMsgHdr_t \<Rightarrow> p9_PBA_oper_flag \<times> u32" where
  "pba_flags q =
     (let f = new_p9_PBA_oper_flag;
          f = (if mem_flag SBE_MEM_ACCESS_FLAGS_FAST_MODE_ON q then f\<lparr> pf_fastMode := True \<rparr> else f);
          f = (if mem_flag SBE_MEM_ACCESS_FLAGS_INJECT_ON q then f\<lparr> pf_operType := PBA_INJ \<rparr> else f)
      in if mem_flag SBE_MEM_ACCESS_FLAGS_LCO_ENABLED q then (f\<lparr> pf_operType := PBA_LCO \<rparr>, ucast (mh_coreChipletId q))
         else (f, PBA_DEFAULT_EX_CHIPLET_ID))"

text \<open>
  The address of the access and whether the body goes on: the regions are checked for an ordinary
  request, the size of the host's window for a pass-through request.
\<close>

definition pba_address :: "sbeMemAccessReqMsgHdr_t \<Rightarrow> bool \<Rightarrow> sbeRespGenHdr_t \<Rightarrow> sbe_app
    \<Rightarrow> (bool \<times> u64 \<times> sbeRespGenHdr_t \<times> sbe_app) option" where
  "pba_address q i_isFlagRead l_respHdr A =
     (if \<not> mem_flag SBE_MEM_ACCESS_FLAGS_HOST_PASS_THROUGH q
      then do {
        sbeRc \<leftarrow> check_region (mainStoreMgr A) i_isFlagRead (getAddr q) (mh_len q) A;
        if sbeRc \<noteq> 0
        then let (l_respHdr, A) = app_status SBE_PRI_UNSECURE_ACCESS_DENIED sbeRc l_respHdr A
             in Some (False, getAddr q, l_respHdr, A)
        else Some (True, getAddr q, l_respHdr, A)
      }
      else
        let l_addr = ha_addr (hostPassThroughCmdAddr A) + getAddr q
        in if getAddr q + ucast (mh_len q) > ucast (ha_size (hostPassThroughCmdAddr A))
           then let (l_respHdr, A) = app_status SBE_PRI_INVALID_DATA SBE_SEC_GENERIC_FAILURE_IN_EXECUTION l_respHdr A
                in Some (True, l_addr, l_respHdr, A)
           else Some (True, l_addr, l_respHdr, A))"

type_synonym 'h app_result = "(u32 \<times> sbe_app \<times> 'h) option"

abbreviation "SBE_SBE2PSU_DOORBELL_SET_BIT4 \<equiv> 0x0800000000000000 :: u64"

definition processPbaRequest :: "'h pib \<Rightarrow> 'h mem_plat \<Rightarrow> sbeMemAccessReqMsgHdr_t \<Rightarrow> bool \<Rightarrow> sbe_app \<Rightarrow> 'h \<Rightarrow> 'h app_result" where
  "processPbaRequest P L q i_isFlagRead A h = do {
     (go, l_addr, l_respHdr, A) \<leftarrow> pba_address q i_isFlagRead (init_resp_hdr (app_glob A)) A;
     let (l_myPbaFlag, l_ex) = pba_flags q;
     let I = mem_interface_create SBE_MEM_ACCESS_PBA l_addr False False
           (if i_isFlagRead then SBE_MEM_ACCESS_READ else SBE_MEM_ACCESS_WRITE) PBA_GRAN_SIZE_BYTES (raw_buffer L);
     (l_rc, l_fapiRc, l_granulesCompleted, h) \<leftarrow>
       (if \<not> go \<or> rh_primaryStatus l_respHdr \<noteq> 0 then Some (0, FAPI2_RC_SUCCESS, 0, h)
        else pba_loop P (pba_hwp L l_myPbaFlag l_ex) i_isFlagRead (unat (getDataLenCacheAlign q)) 0 I h);
     let (l_respHdr, l_ffdc, A) = note_failure L l_fapiRc h l_respHdr new_sbeResponseFfdc A;
     (l_rc, h) \<leftarrow> mem_respond P i_isFlagRead l_rc (ucast (l_granulesCompleted * of_nat PBA_GRAN_SIZE_BYTES)) l_respHdr l_ffdc A h;
     let (l_rc, h) = (if l_rc = 0 \<and> mem_flag SBE_MEM_ACCESS_FLAGS_HOST_PASS_THROUGH q \<and> \<not> i_isFlagRead
           then sbeSetSbe2PsuDbBitX P SBE_SBE2PSU_DOORBELL_SET_BIT4 h else (l_rc, h));
     Some (l_rc, A, h)
   }"

subsection \<open>The ADU\<close>

definition IS_ONE_BIT_SET :: "u32 \<Rightarrow> bool" where
  "IS_ONE_BIT_SET x \<longleftrightarrow> x AND (x - 1) = 0"

definition GET_8_BYTE_ALIGNED_OFFSET :: "u64 \<Rightarrow> nat" where
  "GET_8_BYTE_ALIGNED_OFFSET x = unat ((x AND 7) * 8)"

definition align4ByteWordLength :: "u32 \<Rightarrow> u32" where
  "align4ByteWordLength i_len = (let i_len = (if i_len mod 4 \<noteq> 0 then i_len + (4 - i_len mod 4) else i_len) in i_len div 4)"

definition calInterAduLenForUpFifo :: "u32 \<Rightarrow> bool \<Rightarrow> bool \<Rightarrow> u32" where
  "calInterAduLenForUpFifo i_mod i_itag i_ecc =
     (let l_len = (of_nat ADU_GRAN_SIZE_BYTES + 1) * (1 + i_mod)
      in if i_itag \<and> i_ecc then l_len + (1 + i_mod) else l_len)"

definition sbeAduLenInUpStreamFifo :: "u32 \<Rightarrow> u32 \<Rightarrow> bool \<Rightarrow> bool \<Rightarrow> u32" where
  "sbeAduLenInUpStreamFifo i_numGranules i_granuleSize i_itag i_ecc =
     (let l_respLen = i_numGranules * i_granuleSize;
          l_respLen = (if i_itag then l_respLen + i_numGranules else l_respLen)
      in if i_ecc then l_respLen + i_numGranules else l_respLen)"

abbreviation "SBE_ADU_LOCK_TRIES \<equiv> 3 :: u8"

definition adu_flags :: "sbeMemAccessReqMsgHdr_t \<Rightarrow> bool \<Rightarrow> p9_ADU_oper_flag" where
  "adu_flags q i_isFlagRead =
     (let f = new_p9_ADU_oper_flag\<lparr> af_transSize := (if mh_len q < 8 then mh_len q else 8),
            af_operType := ADU_DMA_PARTIAL, af_lockPick := False, af_cleanUp := True, af_numLockAttempts := SBE_ADU_LOCK_TRIES \<rparr>;
          f = (if mem_flag SBE_MEM_ACCESS_FLAGS_FAST_MODE_ON q then f\<lparr> af_fastMode := True \<rparr> else f);
          f = (if mem_flag SBE_MEM_ACCESS_FLAGS_ITAG q then f\<lparr> af_itag := True \<rparr> else f);
          f = (if mem_flag SBE_MEM_ACCESS_FLAGS_AUTO_INCR_ON q then f\<lparr> af_autoInc := True \<rparr> else f);
          f = (if \<not> i_isFlagRead
               then if mem_flag SBE_MEM_ACCESS_FLAGS_ECC_OVERRIDE q then f\<lparr> af_eccItagOverwrite := True, af_ecc := True \<rparr> else f
               else if mem_flag SBE_MEM_ACCESS_FLAGS_ECC_REQUIRED q then f\<lparr> af_ecc := True \<rparr> else f)
      in setADUOperationType q f)"

text \<open>The first double word of \<open>l_dataFifo\<close>, which is shifted in place.\<close>

definition shift_first :: "(u64 \<Rightarrow> u64) \<Rightarrow> (nat \<Rightarrow> u8) \<Rightarrow> nat \<Rightarrow> u8" where
  "shift_first f d = (\<lambda>j. if j < 8 then be_bytes 8 (f (be_read 8 d 0)) ! j else d j)"

text \<open>
  One pass of the loop. \<open>l_dataFifo\<close> is the buffer of 40 bytes; the results are the return codes, the
  buffer, the interface and the hardware.
\<close>

definition adu_fill :: "'h pib \<Rightarrow> sbeMemAccessReqMsgHdr_t \<Rightarrow> u32 \<Rightarrow> u64 \<Rightarrow> (nat \<Rightarrow> u8) \<Rightarrow> 'h
    \<Rightarrow> (u32 \<times> (nat \<Rightarrow> u8) \<times> 'h) option" where
  "adu_fill P q l_sizeMultiplier l_addr d h = do {
     (l_rc, n, b, h) \<leftarrow> sbeUpFifoDeq_mult P l_sizeMultiplier (Some (word_view d)) False False h;
     let d = byte_view (the b);
     if l_rc \<noteq> 0 then Some (l_rc, d, h)
     else
       let d = shift_first (drop_bit (GET_8_BYTE_ALIGNED_OFFSET l_addr)) d;
           d = (if mem_flag SBE_MEM_ACCESS_FLAGS_ECC_REQUIRED q
                then d((if mem_flag SBE_MEM_ACCESS_FLAGS_ITAG q then 9 else 8) := mh_eccByte q) else d)
       in Some (0, d, h)
   }"

definition adu_bufIdx :: "bool \<Rightarrow> bool \<Rightarrow> nat \<Rightarrow> nat" where
  "adu_bufIdx l_isEccMode l_isItagMode l_mod =
     (if l_mod \<noteq> 0 \<and> (l_isEccMode \<or> l_isItagMode)
      then ADU_GRAN_SIZE_BYTES * l_mod + l_mod + (if l_isEccMode \<and> l_isItagMode then l_mod else 0) else 0)"

definition adu_send_len :: "bool \<Rightarrow> bool \<Rightarrow> u32 \<Rightarrow> nat \<Rightarrow> bool \<Rightarrow> u32" where
  "adu_send_len l_isEccMode l_isItagMode l_sizeMultiplier l_mod isLast =
     (if l_isEccMode \<or> l_isItagMode
      then if l_mod = 3 \<or> isLast
           then align4ByteWordLength (calInterAduLenForUpFifo (of_nat l_mod) l_isItagMode l_isEccMode) else 0
      else l_sizeMultiplier)"

definition adu_granule :: "'h pib \<Rightarrow> 'h mem_hwp \<Rightarrow> sbeMemAccessReqMsgHdr_t \<Rightarrow> bool \<Rightarrow> u32 \<Rightarrow> bool \<Rightarrow> u64 \<Rightarrow> u64
    \<Rightarrow> (nat \<Rightarrow> u8) \<Rightarrow> sbeMemAccessInterface \<Rightarrow> 'h
    \<Rightarrow> (u32 \<times> fapi_rc \<times> (nat \<Rightarrow> u8) \<times> sbeMemAccessInterface \<times> 'h) option" where
  "adu_granule P hwp q i_isFlagRead l_sizeMultiplier isLast l_granulesCompleted l_addr d I h =
     (let l_isEccMode = mem_flag SBE_MEM_ACCESS_FLAGS_ECC_REQUIRED q;
          l_isItagMode = mem_flag SBE_MEM_ACCESS_FLAGS_ITAG q;
          l_mod = unat (l_granulesCompleted mod 4);
          l_bufIdx = (if i_isFlagRead then adu_bufIdx l_isEccMode l_isItagMode l_mod else 0)
      in do {
        (l_rc, d, h) \<leftarrow> (if i_isFlagRead then Some (0, d, h) else adu_fill P q l_sizeMultiplier l_addr d h);
        if l_rc \<noteq> 0 then Some (l_rc, FAPI2_RC_SUCCESS, d, I, h)
        else do {
          (l_fapiRc, buf, I, h) \<leftarrow> accessWithBuffer hwp (\<lambda>i. d (l_bufIdx + i)) ADU_GRAN_SIZE_BYTES isLast I h;
          let d = (\<lambda>j. if j < l_bufIdx then d j else buf (j - l_bufIdx));
          if l_fapiRc \<noteq> FAPI2_RC_SUCCESS then Some (0, l_fapiRc, d, I, h)
          else
            let l_len = (if i_isFlagRead then adu_send_len l_isEccMode l_isItagMode l_sizeMultiplier l_mod isLast else 0)
            in if l_len = 0 then Some (0, FAPI2_RC_SUCCESS, d, I, h)
               else
                 let d = shift_first (push_bit (GET_8_BYTE_ALIGNED_OFFSET l_addr)) d
                 in do {
                   (l_rc, n, h) \<leftarrow> sbeDownFifoEnq_mult P l_len (word_view d) h;
                   Some (l_rc, FAPI2_RC_SUCCESS, d, I, h)
                 }
        }
      })"

fun adu_loop :: "'h pib \<Rightarrow> 'h mem_hwp \<Rightarrow> sbeMemAccessReqMsgHdr_t \<Rightarrow> bool \<Rightarrow> u32 \<Rightarrow> u32 \<Rightarrow> nat \<Rightarrow> u64 \<Rightarrow> u64
    \<Rightarrow> (nat \<Rightarrow> u8) \<Rightarrow> sbeMemAccessInterface \<Rightarrow> 'h \<Rightarrow> (u32 \<times> fapi_rc \<times> u64 \<times> 'h) option" where
  "adu_loop P hwp q i_isFlagRead l_sizeMultiplier l_granuleSize 0 l_granulesCompleted l_addr d I h =
     Some (0, FAPI2_RC_SUCCESS, l_granulesCompleted, h)"
| "adu_loop P hwp q i_isFlagRead l_sizeMultiplier l_granuleSize (Suc k) l_granulesCompleted l_addr d I h = do {
     (l_rc, l_fapiRc, d, I, h) \<leftarrow>
       adu_granule P hwp q i_isFlagRead l_sizeMultiplier (k = 0) l_granulesCompleted l_addr d I h;
     if l_rc \<noteq> 0 \<or> l_fapiRc \<noteq> FAPI2_RC_SUCCESS then Some (l_rc, l_fapiRc, l_granulesCompleted, h)
     else adu_loop P hwp q i_isFlagRead l_sizeMultiplier l_granuleSize k (l_granulesCompleted + 1)
            (l_addr + ucast l_granuleSize) d I h
   }"

text \<open>The checks before the loop: whether it is entered, the response header and the globals.\<close>

definition adu_checks :: "sbeMemAccessReqMsgHdr_t \<Rightarrow> bool \<Rightarrow> sbeRespGenHdr_t \<Rightarrow> sbe_app
    \<Rightarrow> (bool \<times> sbeRespGenHdr_t \<times> sbe_app) option" where
  "adu_checks q i_isFlagRead l_respHdr A =
     (if mh_len q < 8 \<and> \<not> IS_ONE_BIT_SET (mh_len q)
      then let (l_respHdr, A) = app_status SBE_PRI_INVALID_DATA SBE_SEC_GENERIC_FAILURE_IN_EXECUTION l_respHdr A
           in Some (False, l_respHdr, A)
      else if \<not> isTrustedOp q
      then do {
        sbeRc \<leftarrow> check_region (mainStoreMgr A) i_isFlagRead (getAddr q) (mh_len q) A;
        if sbeRc \<noteq> 0
        then let (l_respHdr, A) = app_status SBE_PRI_UNSECURE_ACCESS_DENIED sbeRc l_respHdr A
             in Some (False, l_respHdr, A)
        else Some (True, l_respHdr, A)
      }
      else Some (True, l_respHdr, A))"

text \<open>The size multiplier and the granule size: changed for a valid length below eight.\<close>

definition adu_sizes :: "sbeMemAccessReqMsgHdr_t \<Rightarrow> u32 \<times> u32" where
  "adu_sizes q = (if mh_len q < 8 \<and> IS_ONE_BIT_SET (mh_len q) then (1, mh_len q) else (2, of_nat ADU_GRAN_SIZE_BYTES))"

definition processAduRequest :: "'h pib \<Rightarrow> 'h mem_plat \<Rightarrow> sbeMemAccessReqMsgHdr_t \<Rightarrow> bool \<Rightarrow> sbe_app \<Rightarrow> 'h \<Rightarrow> 'h app_result" where
  "processAduRequest P L q i_isFlagRead A h = do {
     (go, l_respHdr, A) \<leftarrow> adu_checks q i_isFlagRead (init_resp_hdr (app_glob A)) A;
     let l_aduFlag = adu_flags q i_isFlagRead;
     let (l_sizeMultiplier, l_granuleSize) = adu_sizes q;
     let I = mem_interface_create SBE_MEM_ACCESS_ADU (getAddr q) (af_ecc l_aduFlag) (af_itag l_aduFlag)
           (if i_isFlagRead then SBE_MEM_ACCESS_READ else SBE_MEM_ACCESS_WRITE) ADU_GRAN_SIZE_BYTES (raw_buffer L);
     (l_rc, l_fapiRc, l_granulesCompleted, h) \<leftarrow>
       (if go then adu_loop P (adu_hwp L l_aduFlag) q i_isFlagRead l_sizeMultiplier l_granuleSize
                     (unat (getDataLenCacheAlign q)) 0 (getAddr q) (\<lambda>_. 0) I h
        else Some (0, FAPI2_RC_SUCCESS, 0, h));
     let (l_respHdr, l_ffdc, A) = note_failure L l_fapiRc h l_respHdr new_sbeResponseFfdc A;
     (l_rc, h) \<leftarrow> mem_respond P i_isFlagRead l_rc
        (sbeAduLenInUpStreamFifo (ucast l_granulesCompleted) l_granuleSize
          (mem_flag SBE_MEM_ACCESS_FLAGS_ITAG q) (mem_flag SBE_MEM_ACCESS_FLAGS_ECC_REQUIRED q)) l_respHdr l_ffdc A h;
     Some (l_rc, A, h)
   }"

subsection \<open>The chip operations\<close>

definition sbeMemAccess_Wrap :: "'h pib \<Rightarrow> 'h mem_plat \<Rightarrow> bool \<Rightarrow> sbe_app \<Rightarrow> 'h \<Rightarrow> 'h app_result" where
  "sbeMemAccess_Wrap P L i_isFlagRead A h = do {
     (l_rc, n, b, h) \<leftarrow> sbeUpFifoDeq_mult P 4 (Some (\<lambda>_. 0)) i_isFlagRead False h;
     if l_rc \<noteq> 0 then Some (l_rc, A, h)
     else let l_req = mem_hdr_of (the b)
          in if mem_flag SBE_MEM_ACCESS_FLAGS_TARGET_PBA l_req then processPbaRequest P L l_req i_isFlagRead A h
             else processAduRequest P L l_req i_isFlagRead A h
   }"

definition sbeGetMem_op :: "'h pib \<Rightarrow> 'h mem_plat \<Rightarrow> sbe_app \<Rightarrow> 'h \<Rightarrow> 'h app_result" where
  "sbeGetMem_op P L A h = sbeMemAccess_Wrap P L True A h"

definition sbePutMem_op :: "'h pib \<Rightarrow> 'h mem_plat \<Rightarrow> sbe_app \<Rightarrow> 'h \<Rightarrow> 'h app_result" where
  "sbePutMem_op P L A h = sbeMemAccess_Wrap P L False A h"

subsection \<open>Opening and closing a region\<close>

abbreviation "SBE_HOST_PSU_MBOX_REG1 \<equiv> 0x000D0051 :: u32"
abbreviation "SBE_MEM_REGION_OPEN_RO \<equiv> 0x0011 :: u16"
abbreviation "SBE_MEM_REGION_OPEN_RW \<equiv> 0x0012 :: u16"
abbreviation "SBE_MEM_REGION_CLOSE \<equiv> 0x0020 :: u16"

definition region_mode :: "u16 \<Rightarrow> u8" where
  "region_mode mode = (if mode = SBE_MEM_REGION_OPEN_RO then 1 else if mode = SBE_MEM_REGION_OPEN_RW then 1 OR 2 else 0)"

definition update_regions :: "u16 \<Rightarrow> u64 \<Rightarrow> u32 \<Rightarrow> sbe_app \<Rightarrow> u32 \<times> sbe_app" where
  "update_regions mode startAddress sz A =
     (let (sbeRc, M) = (if mode = SBE_MEM_REGION_CLOSE then region_remove startAddress (mainStoreMgr A)
                        else region_add startAddress sz (region_mode mode) (mainStoreMgr A))
      in (sec_code sbeRc, A\<lparr> mainStoreMgr := M \<rparr>))"

definition sbeUpdateMemAccessRegion_op :: "'h pib \<Rightarrow> 'h mem_plat \<Rightarrow> sbe_app \<Rightarrow> 'h \<Rightarrow> 'h app_result" where
  "sbeUpdateMemAccessRegion_op P L A h = do {
     (rc, req, h) \<leftarrow> sbeReadPsu2SbeMbxReg P (app_glob A) SBE_HOST_PSU_MBOX_REG1 2 (\<lambda>_. 0) True h;
     let A = (if rc \<noteq> 0 then A
          else case update_regions (pq_flags (sbePsu2SbeCmdReqHdr (app_glob A)) AND 0x00FF) (req 1) (low_word (req 0)) A of
                 (sbeRc, A) \<Rightarrow> if sbeRc \<noteq> 0 then upd_glob (set_psu_status SBE_PRI_USER_ERROR sbeRc) A else A);
     sbePSUSendResponse P L A FAPI2_RC_SUCCESS rc h
   }"

end
