(* ===== verification/Sbe_MemProps.thy ===== *)
theory Sbe_MemProps
  imports Sbe_MemOps
begin

unbundle bit_operations_syntax

text \<open>
  What the memory chip operations do: GetMem and PutMem over the PBA move exactly the memory that was
  asked for, a request outside the open regions reaches no hardware procedure, and the cases in
  which the checks let through what they should not.
\<close>

section \<open>The FIFO leaves the rest of the hardware alone\<close>

text \<open>\<open>f\<close> is a part of the hardware that the downstream FIFO, or the upstream FIFO, does not change.\<close>

definition enq_keeps :: "'h pib \<Rightarrow> ('h \<Rightarrow> 'f) \<Rightarrow> bool" where
  "enq_keeps P f \<longleftrightarrow> (\<forall>h. f (snd (snd (getscom_abs P SBE_DOWNSTREAM_FIFO_STATUS h))) = f h) \<and>
     (\<forall>v h. f (snd (putscom_abs P SBE_DOWNSTREAM_FIFO_ENQ_ADD v h)) = f h) \<and> (\<forall>n h. f (pk_sleep_ms P n h) = f h)"

definition deq_keeps :: "'h pib \<Rightarrow> ('h \<Rightarrow> 'f) \<Rightarrow> bool" where
  "deq_keeps P f \<longleftrightarrow> (\<forall>h. f (snd (snd (getscom_abs P SBE_UPSTREAM_FIFO_DEQ_ADD h))) = f h) \<and>
     (\<forall>v h. f (snd (putscom_abs P SBE_UPSTREAM_FIFO_ACK_EOT v h)) = f h) \<and> (\<forall>n h. f (pk_sleep_ms P n h) = f h)"

lemma enq_pass_keeps: "enq_keeps P f \<Longrightarrow> enq_pass P d l h = (b, rc, l', h') \<Longrightarrow> f h' = f h"
  by (auto simp: enq_keeps_def enq_pass_def sbeDownFifoGetStatus_def sbeDownFifoEnq_def fifo_wait_def Let_def
      split: prod.splits if_splits) (metis snd_conv)+

lemma deq_pass_keeps: "deq_keeps P f \<Longrightarrow> deq_pass P n e fl l d h = (b, rc, l', d', h') \<Longrightarrow> f h' = f h"
  by (auto simp: deq_keeps_def deq_pass_def sbeUpFifoDeq_def sbeUpFifoAckEot_def fifo_wait_def Let_def
      split: prod.splits if_splits) (metis snd_conv)+

lemma enq_loop_keeps:
  assumes "enq_keeps P f" "enq_loop P n d l h = Some (rc, l', h')"
  shows "f h' = f h"
proof -
  have "case ((((P, n), d), l), h) of ((((Q, _), _), _), h) \<Rightarrow> Q = P \<longrightarrow> f (snd (snd (rc, l', h'))) = f h"
  proof (rule enq_loop.raw_induct [where Pa = "\<lambda>x y. case x of ((((Q, _), _), _), h) \<Rightarrow> Q = P \<longrightarrow> f (snd (snd y)) = f h",
        OF _ assms(2)], goal_cases)
    case (1 el Q n d l h y)
    show ?case
    proof (simp, intro impI)
      assume Q: "Q = P"
      obtain b rc1 l1 h1 where p: "enq_pass P d l h = (b, rc1, l1, h1)" by (cases "enq_pass P d l h") auto
      then have "f h1 = f h" by (rule enq_pass_keeps [OF assms(1)])
      with 1 p Q show "f (snd (snd y)) = f h" by (auto split: if_splits)
    qed
  qed
  then show ?thesis by simp
qed

lemma deq_loop_keeps:
  assumes "deq_keeps P f" "deq_loop P n e fl l d h = Some (rc, l', d', h')"
  shows "f h' = f h"
proof -
  have "case ((((((P, n), e), fl), l), d), h) of ((((((Q, _), _), _), _), _), h) \<Rightarrow>
      Q = P \<longrightarrow> f (snd (snd (snd (rc, l', d', h')))) = f h"
  proof (rule deq_loop.raw_induct [where Pa = "\<lambda>x y. case x of ((((((Q, _), _), _), _), _), h) \<Rightarrow>
        Q = P \<longrightarrow> f (snd (snd (snd y))) = f h", OF _ assms(2)], goal_cases)
    case (1 el Q n e fl l d h y)
    show ?case
    proof (simp, intro impI)
      assume Q: "Q = P"
      obtain b rc1 l1 d1 h1 where p: "deq_pass P n e fl l d h = (b, rc1, l1, d1, h1)"
        by (cases "deq_pass P n e fl l d h") auto
      then have "f h1 = f h" by (rule deq_pass_keeps [OF assms(1)])
      with 1 p Q show "f (snd (snd (snd y))) = f h" by (auto split: if_splits)
    qed
  qed
  then show ?thesis by simp
qed

lemma deq_mult_keeps: "deq_keeps P f \<Longrightarrow> sbeUpFifoDeq_mult P n d e fl h = Some (rc, l', d', h') \<Longrightarrow> f h' = f h"
  by (auto simp: sbeUpFifoDeq_mult_def split: if_splits dest: deq_loop_keeps)

lemma enq_mult_keeps: "enq_keeps P f \<Longrightarrow> sbeDownFifoEnq_mult P n d h = Some (rc, l', h') \<Longrightarrow> f h' = f h"
  by (auto simp: sbeDownFifoEnq_mult_def dest: enq_loop_keeps)

lemma send_words_keeps: "enq_keeps P f \<Longrightarrow> send_words P ws h = Some (rc, l', h') \<Longrightarrow> f h' = f h"
  by (auto simp: send_words_def dest: enq_mult_keeps)

lemma send_blobs_keeps:
  assumes k: "enq_keeps P f"
  shows "send_blobs P c bs n h = Some (rc, l', h') \<Longrightarrow> f h' = f h"
proof (induction bs arbitrary: n h)
  case (Cons b bs)
  obtain i l d where b: "b = (i, l, d)" by (cases b)
  show ?case
  proof (cases "has_flag (ucast i) c")
    case False
    then show ?thesis using Cons by (simp add: b)
  next
    case True
    then obtain rc1 n1 h1 where 1: "send_words P [word_of_halves i l] h = Some (rc1, n1, h1)"
      and r: "(if rc1 \<noteq> 0 then Some (rc1, n, h1)
        else do {
          (rc, len, h) \<leftarrow> sbeDownFifoEnq_mult P (ucast (l div 4)) d h1;
          if rc \<noteq> 0 then Some (rc, n + n1, h) else send_blobs P c bs (n + n1 + len) h
        }) = Some (rc, l', h')"
      using Cons.prems unfolding b send_blobs.simps Let_def by (auto simp: bind_eq_Some_conv)
    have f1: "f h1 = f h" by (rule send_words_keeps [OF k 1])
    show ?thesis
    proof (cases "rc1 = 0")
      case False
      then show ?thesis using r f1 by simp
    next
      case True
      then obtain rc2 n2 h2 where 2: "sbeDownFifoEnq_mult P (ucast (l div 4)) d h1 = Some (rc2, n2, h2)"
        "(if rc2 \<noteq> 0 then Some (rc2, n + n1, h2) else send_blobs P c bs (n + n1 + n2) h2) = Some (rc, l', h')"
        using r by (auto simp: bind_eq_Some_conv)
      have "f h2 = f h1" by (rule enq_mult_keeps [OF k 2(1)])
      then show ?thesis using 2(2) f1 Cons.IH [of "n + n1 + n2" h2] by (auto split: if_splits)
    qed
  qed
qed simp

lemma response_keeps: "enq_keeps P f \<Longrightarrow> sbeDsSendRespHdr P E hdr ffdc h = Some (rc, h') \<Longrightarrow> f h' = f h"
proof -
  assume k: "enq_keeps P f" and r: "sbeDsSendRespHdr P E hdr ffdc h = Some (rc, h')"
  have dist: "send_distance P n h = Some (rc, h') \<Longrightarrow> f h' = f h" for n h rc h'
    by (auto simp: send_distance_def bind_eq_Some_conv dest: send_words_keeps [OF k])
  have over: "sendOverFIFO P E c s h = Some (rc, n, h') \<Longrightarrow> f h' = f h" for c s h rc n h'
    by (auto simp: sendOverFIFO_def bind_eq_Some_conv Let_def split: if_splits
        dest!: send_words_keeps [OF k] send_blobs_keeps [OF k])
  have int: "send_internal_ffdc P E hdr n h = Some (rc, h') \<Longrightarrow> f h' = f h" for n h rc h'
    by (auto simp: send_internal_ffdc_def bind_eq_Some_conv split: if_splits dest!: dist over)
  have hwp: "send_hwp_ffdc P E hdr ffdc n h = Some (rc, h') \<Longrightarrow> f h' = f h" for n h rc h'
    by (auto simp: send_hwp_ffdc_def bind_eq_Some_conv Let_def split: if_splits option.splits
        dest!: send_words_keeps [OF k] enq_mult_keeps [OF k] int)
  show "f h' = f h"
    using r by (auto simp: sbeDsSendRespHdr_def bind_eq_Some_conv split: if_splits
        dest!: send_words_keeps [OF k] hwp)
qed

text \<open>The two FIFOs and the memory do not interfere with one another.\<close>

definition fifo_pair :: "'h pib \<Rightarrow> ('h \<Rightarrow> u64 list) \<Rightarrow> ('h \<Rightarrow> u32 list) \<Rightarrow> ('h \<Rightarrow> nat) \<Rightarrow> ('h \<Rightarrow> u64 \<Rightarrow> u8) \<Rightarrow> bool" where
  "fifo_pair P up sent busy memof \<longleftrightarrow> fifo_feeds P up \<and> fifo_drains P sent busy \<and>
     deq_keeps P (\<lambda>h. (sent h, memof h)) \<and> enq_keeps P (\<lambda>h. (up h, memof h))"

text \<open>A message: the words \<open>ws\<close> of the header, the entries \<open>es\<close> behind it, the EOT and what follows.\<close>

definition message_at :: "('h \<Rightarrow> u64 list) \<Rightarrow> 'h \<Rightarrow> u32 list \<Rightarrow> u64 list \<Rightarrow> u64 list \<Rightarrow> bool" where
  "message_at up h ws es rest \<longleftrightarrow> (\<exists>es1 e. up h = es1 @ es @ e # rest \<and> (\<forall>x \<in> set (es1 @ es). plain_entry x) \<and>
     eot_entry e \<and> es1 \<noteq> [] \<and> up_valid_flag (low_word (last es1)) \<and> words_of es1 = ws)"

text \<open>The entries that are left after the header.\<close>

definition body_at :: "('h \<Rightarrow> u64 list) \<Rightarrow> 'h \<Rightarrow> u64 list \<Rightarrow> u64 list \<Rightarrow> bool" where
  "body_at up h es rest \<longleftrightarrow> (\<exists>e. up h = es @ e # rest \<and> (\<forall>x \<in> set es. plain_entry x) \<and> eot_entry e)"

definition env_ok :: "sbe_app \<Rightarrow> bool" where
  "env_ok A \<longleftrightarrow> ffdcLength (g_env (app_glob A)) mod 4 = 0 \<and> length (sbeFFDCUserDataArray (g_env (app_glob A))) \<le> 2"

lemma read_header:
  assumes p: "fifo_pair P up sent busy memof" and m: "message_at up h ws es rest" "length ws = unat n"
    and rd: "rd \<Longrightarrow> words_of es = []"
  obtains b h1 where "sbeUpFifoDeq_mult P n (Some (\<lambda>_. 0)) rd False h = Some (0, n, Some b, h1)"
    "\<forall>i < unat n. b i = ws ! i" "sent h1 = sent h" "memof h1 = memof h"
    "if rd then up h1 = rest else body_at up h1 es rest"
proof -
  have f: "fifo_feeds P up" and k: "deq_keeps P (\<lambda>h. (sent h, memof h))" using p by (auto simp: fifo_pair_def)
  obtain es1 e where u: "up h = es1 @ es @ e # rest" "\<forall>x \<in> set (es1 @ es). plain_entry x" "eot_entry e" "es1 \<noteq> []"
    "up_valid_flag (low_word (last es1))" "words_of es1 = ws"
    using m(1) by (auto simp: message_at_def)
  have keep: "sent h1 = sent h \<and> memof h1 = memof h" if "sbeUpFifoDeq_mult P n d r fl h = Some (rc, l, b, h1)" for d r fl rc l b h1
    using deq_mult_keeps [OF k that] by simp
  show thesis
  proof (cases rd)
    case True
    have w: "words_of (es1 @ es) = ws" using u(6) rd True by simp
    have "up h = (es1 @ es) @ e # rest" using u(1) by simp
    from deq_loop_eot [OF f this u(2,3), of True False 0 n "Some (\<lambda>_. 0)"]
    obtain h1 where 1: "deq_loop P n True False 0 (Some (\<lambda>_. 0)) h =
        Some (0, n, keep_words False n 0 ws (Some (\<lambda>_. 0)), h1)" "up h1 = rest"
      unfolding w using m(2) unsigned_less [of n] by auto
    then have r: "sbeUpFifoDeq_mult P n (Some (\<lambda>_. 0)) rd False h = Some (0, n, Some (stored (unat n) 0 ws (\<lambda>_. 0)), h1)"
      using True by (simp add: sbeUpFifoDeq_mult_def keep_words_def)
    show thesis
      by (rule that [OF r]) (use keep [OF r] 1(2) True stored_all [OF m(2)] in auto)
  next
    case False
    have "\<forall>x \<in> set es1. plain_entry x" using u(2) by auto
    from deq_loop_words [OF f u(1) this u(4,5), of 0 n "Some (\<lambda>_. 0)"]
    obtain h1 where 1: "deq_loop P n False False 0 (Some (\<lambda>_. 0)) h =
        Some (0, n, keep_words False n 0 ws (Some (\<lambda>_. 0)), h1)" "up h1 = es @ e # rest"
      using m(2) u(6) by auto
    then have r: "sbeUpFifoDeq_mult P n (Some (\<lambda>_. 0)) rd False h = Some (0, n, Some (stored (unat n) 0 ws (\<lambda>_. 0)), h1)"
      using False by (simp add: sbeUpFifoDeq_mult_def keep_words_def)
    show thesis
      by (rule that [OF r]) (use keep [OF r] 1(2) u False stored_all [OF m(2)] in \<open>auto simp: body_at_def\<close>)
  qed
qed

lemma take_rest:
  assumes p: "fifo_pair P up sent busy memof" and b: "body_at up h es rest" "length (words_of es) < 2 ^ 32"
    and st: "st = 0 \<Longrightarrow> words_of es = []"
  obtains h1 where "flushUpstreamFifo P st h = Some (0, h1)" "up h1 = rest" "sent h1 = sent h" "memof h1 = memof h"
proof -
  have f: "fifo_feeds P up" and k: "deq_keeps P (\<lambda>h. (sent h, memof h))" using p by (auto simp: fifo_pair_def)
  obtain e where u: "up h = es @ e # rest" "\<forall>x \<in> set es. plain_entry x" "eot_entry e"
    using b(1) by (auto simp: body_at_def)
  obtain l d h1 where 1: "sbeUpFifoDeq_mult P 0 None True (st \<noteq> 0) h = Some (0, l, d, h1)" "up h1 = rest"
  proof (cases "st = 0")
    case True
    then have w: "words_of es = []" by (rule st)
    from deq_loop_eot [OF f u, of True False 0 0 None] show ?thesis
      using that True unfolding w by (auto simp: sbeUpFifoDeq_mult_def)
  next
    case False
    from flush_to_eot [OF f u b(2)] show ?thesis using that False by auto
  qed
  have "sent h1 = sent h \<and> memof h1 = memof h" using deq_mult_keeps [OF k 1(1)] by simp
  then show ?thesis using 1 by (intro that [of h1]) (simp_all add: flushUpstreamFifo_def)
qed

lemma respond_parses:
  assumes p: "fifo_pair P up sent busy memof" and A: "env_ok A" and up: "if rd then up h = rest else body_at up h es rest"
    and es: "length (words_of es) < 2 ^ 32" "\<not> rd \<Longrightarrow> rh_primaryStatus hdr = 0 \<Longrightarrow> words_of es = []"
  obtains h' where "mem_respond P rd 0 n hdr ffdc A h = Some (0, h')" "parse_response (sent h') = (sent h @ [n], hdr)"
    "up h' = rest" "memof h' = memof h"
proof -
  have d: "fifo_drains P sent busy" and k: "enq_keeps P (\<lambda>h. (up h, memof h))" using p by (auto simp: fifo_pair_def)
  obtain h1 where 1: "(if rd then Some (0, h) else flushUpstreamFifo P (rh_primaryStatus hdr) h) = Some (0, h1)"
    "up h1 = rest" "sent h1 = sent h" "memof h1 = memof h"
  proof (cases rd)
    case True
    then show ?thesis using up that by simp
  next
    case False
    then have b: "body_at up h es rest" using up by simp
    show ?thesis
      by (rule take_rest [OF p b es(1), of "rh_primaryStatus hdr"]) (use es(2) False that in auto)
  qed
  obtain h2 where 2: "send_words P [n] h1 = Some (0, 1, h2)" "sent h2 = sent h1 @ [n]"
    using send_words_sends [OF d, of "[n]" h1] by auto
  have k2: "up h2 = up h1 \<and> memof h2 = memof h1" using send_words_keeps [OF k 2(1)] by simp
  obtain h3 body where 3: "sbeDsSendRespHdr P (g_env (app_glob A)) hdr (Some ffdc) h2 = Some (0, h3)"
    "sent h3 = sent h2 @ resp_hdr_words hdr @ body @ [of_nat (length body + 3)]" "length body + 3 < 2 ^ 32"
    using send_resp_hdr_sends [OF d A [unfolded env_ok_def, THEN conjunct1] A [unfolded env_ok_def, THEN conjunct2],
        of hdr "Some ffdc" h2] by (elim conjE exE) (rule that)
  have k3: "up h3 = up h2 \<and> memof h3 = memof h2" using response_keeps [OF k 3(1)] by simp
  have "parse_response (sent h3) = (sent h @ [n], hdr)"
    unfolding 3(2) parse_sent [OF 3(3)] using 1 2 by simp
  then show ?thesis
    using 1 2 3(1) k2 k3 by (intro that [of h3]) (simp_all add: mem_respond_def)
qed

section \<open>Requests outside the open regions\<close>

lemma env_ok_status:
  assumes "app_status p s hdr A = (hdr', A')"
  shows "env_ok A \<Longrightarrow> env_ok A'"
proof -
  have "ffdcLength (g_env (app_glob A')) = ffdcLength (g_env (app_glob A))"
    "sbeFFDCUserDataArray (g_env (app_glob A')) = sbeFFDCUserDataArray (g_env (app_glob A))"
    using assms by (auto simp: app_status_def set_resp_status_def record_failure_def Let_def)
  then show "env_ok A \<Longrightarrow> env_ok A'" by (simp only: env_ok_def)
qed

lemma app_status_hdr:
  "app_status p s hdr A = (hdr', A') \<Longrightarrow> hdr' = hdr\<lparr> rh_primaryStatus := ucast p, rh_secondaryStatus := ucast s \<rparr>"
  by (auto simp: app_status_def set_resp_status_def Let_def)

definition requested :: "sbeMemAccessReqMsgHdr_t \<Rightarrow> bool \<Rightarrow> secureMemRegion_t" where
  "requested q rd = \<lparr> reg_start = getAddr q, reg_size = mh_len q,
     reg_mode = (if rd then MEM_REGION_READ else MEM_REGION_WRITE) \<rparr>"

text \<open>A request that the code means to check, of a size its arithmetic handles.\<close>

definition checked_request :: "sbeMemAccessReqMsgHdr_t \<Rightarrow> bool" where
  "checked_request q \<longleftrightarrow> unat (getAddr q) + unat (mh_len q) < 2 ^ 64 \<and> unat (mh_len q) < 2 ^ 31 \<and>
     (if mem_flag SBE_MEM_ACCESS_FLAGS_TARGET_PBA q then \<not> mem_flag SBE_MEM_ACCESS_FLAGS_HOST_PASS_THROUGH q
      else \<not> isTrustedOp q \<and> (mh_len q < 8 \<longrightarrow> IS_ONE_BIT_SET (mh_len q)))"

lemma check_region_code:
  assumes "manager_inv (mainStoreMgr A)" "unat (getAddr q) + unat (mh_len q) < 2 ^ 64" "unat (mh_len q) < 2 ^ 31"
  shows "check_region (mainStoreMgr A) rd (getAddr q) (mh_len q) A =
    Some (if sbeFWSecurityEnabled (app_glob A) \<longrightarrow>
             (\<forall>a. covers (requested q rd) a \<longrightarrow> permitted (mainStoreMgr A) (reg_mode (requested q rd)) a)
          then 0 else 0x14)"
  using access_check_permitted [OF assms(1), of "requested q rd"] assms(2,3)
  by (simp add: check_region_def isAccessAllowed_def requested_def)

lemma mem_hdr_of_words: "\<forall>i < 4. b i = ws ! i \<Longrightarrow> mem_hdr_of b = mem_hdr_of ((!) ws)"
  by (simp add: mem_hdr_of_def)

text \<open>
  Property C9. While security is on, an ordinary read or write of memory, over the PBA or the ADU, that
  reaches outside the open regions by a single byte calls no hardware procedure at all, so that it has the same effect on any
  hardware; the request is taken from the FIFO to its end, no data are sent, and the response
  says that the access was denied. Ordinary means: no pass-through request over the PBA (these are checked
  against their own window, see C12), no trusted operation over the ADU (these are not checked), a length
  below \<open>2 ^ 31\<close> that over the ADU is zero, a power of two or at least 8, and an end below \<open>2 ^ 64\<close>; the
  open regions are well formed and disjoint (see C20 for a state in which they are not).
\<close>

theorem mem_request_refused:
  assumes p: "fifo_pair P up sent busy memof" and m: "message_at up h ws es rest" "length ws = 4"
    "length (words_of es) < 2 ^ 32" "rd \<Longrightarrow> words_of es = []"
    and q: "q = mem_hdr_of ((!) ws)" "checked_request q" and A: "env_ok A"
    and sec: "sbeFWSecurityEnabled (app_glob A)" "manager_inv (mainStoreMgr A)"
    and a: "covers (requested q rd) a" "\<not> permitted (mainStoreMgr A) (reg_mode (requested q rd)) a"
  shows "\<exists>A' h'. (\<forall>L. sbeMemAccess_Wrap P L rd A h = Some (0, A', h')) \<and>
    parse_response (sent h') = (sent h @ [0], (init_resp_hdr (app_glob A))
       \<lparr> rh_primaryStatus := ucast SBE_PRI_UNSECURE_ACCESS_DENIED, rh_secondaryStatus := 0x14 \<rparr>) \<and>
    up h' = rest \<and> memof h' = memof h"
proof -
  have ws: "length ws = unat (4 :: u32)" using m(2) by simp
  obtain b h1 where 1: "sbeUpFifoDeq_mult P 4 (Some (\<lambda>_. 0)) rd False h = Some (0, 4, Some b, h1)"
    "\<forall>i < unat (4 :: u32). b i = ws ! i" "sent h1 = sent h" "memof h1 = memof h"
    "if rd then up h1 = rest else body_at up h1 es rest"
    by (rule read_header [OF p m(1) ws m(4)])
  have hd: "mem_hdr_of b = q" using mem_hdr_of_words [of b ws] 1(2) q(1) by simp
  let ?hdr = "init_resp_hdr (app_glob A)"
  obtain hdr' A' where st: "app_status SBE_PRI_UNSECURE_ACCESS_DENIED 0x14 ?hdr A = (hdr', A')"
    by (cases "app_status SBE_PRI_UNSECURE_ACCESS_DENIED 0x14 ?hdr A")
  have hdr': "hdr' = ?hdr\<lparr> rh_primaryStatus := ucast SBE_PRI_UNSECURE_ACCESS_DENIED, rh_secondaryStatus := 0x14 \<rparr>"
    using app_status_hdr [OF st] by simp
  have chk: "check_region (mainStoreMgr A) rd (getAddr q) (mh_len q) A = Some 0x14"
    using check_region_code [OF sec(2), of q rd] q(2) sec(1) a by (auto simp: checked_request_def)
  obtain h2 where 2: "mem_respond P rd 0 0 hdr' new_sbeResponseFfdc A' h1 = Some (0, h2)"
    "parse_response (sent h2) = (sent h1 @ [0], hdr')" "up h2 = rest" "memof h2 = memof h1"
    by (rule respond_parses [OF p env_ok_status [OF st A] 1(5) m(3), of hdr' 0 new_sbeResponseFfdc])
      (use hdr' that in \<open>auto simp: m(4)\<close>)
  have "sbeMemAccess_Wrap P L rd A h = Some (0, A', h2)" for L
  proof (cases "mem_flag SBE_MEM_ACCESS_FLAGS_TARGET_PBA q")
    case True
    then have np: "\<not> mem_flag SBE_MEM_ACCESS_FLAGS_HOST_PASS_THROUGH q" using q(2) by (simp add: checked_request_def)
    then have "pba_address q rd ?hdr A = Some (False, getAddr q, hdr', A')"
      using chk st by (simp add: pba_address_def)
    then have "processPbaRequest P L q rd A h1 = Some (0, A', h2)"
      using np 2(1) by (simp add: processPbaRequest_def note_failure_def Let_def case_prod_beta)
    then show ?thesis using 1(1) hd True by (simp add: sbeMemAccess_Wrap_def)
  next
    case False
    then have "adu_checks q rd ?hdr A = Some (False, hdr', A')"
      using q(2) chk st by (auto simp: adu_checks_def checked_request_def)
    then have "processAduRequest P L q rd A h1 = Some (0, A', h2)"
      using 2(1) by (simp add: processAduRequest_def note_failure_def Let_def case_prod_beta sbeAduLenInUpStreamFifo_def)
    then show ?thesis using 1(1) hd False by (simp add: sbeMemAccess_Wrap_def)
  qed
  then show ?thesis using 2 1(3,4) hdr' by auto
qed

section \<open>Moving memory over the PBA\<close>

text \<open>
  The counterpart of \<open>writes_memory\<close> for reads, and the parts \<open>f\<close> of the hardware that the procedures
  do not change.
\<close>

definition reads_memory :: "'h mem_hwp \<Rightarrow> ('h \<Rightarrow> u64 \<Rightarrow> u8) \<Rightarrow> sbeMemAccessInterfaceType \<Rightarrow> nat \<Rightarrow> u64 set \<Rightarrow> bool" where
  "reads_memory hwp memof i g S \<longleftrightarrow>
     (\<forall>a h. g dvd unat a \<longrightarrow> a \<in> S \<longrightarrow>
        (\<exists>n h'. setup_hwp hwp i a True h = (FAPI2_RC_SUCCESS, n, h') \<and> n \<noteq> 0 \<and> memof h' = memof h)) \<and>
     (\<forall>a f l buf h. g dvd unat a \<longrightarrow> a \<in> S \<longrightarrow> (\<exists>buf' h'. access_hwp hwp i a True f l buf h = (FAPI2_RC_SUCCESS, buf', h') \<and>
        length buf' = length buf \<and> (\<forall>k < g. k < length buf \<longrightarrow> buf' ! k = memof h (a + of_nat k)) \<and> memof h' = memof h))"

definition hwp_keeps :: "'h mem_hwp \<Rightarrow> ('h \<Rightarrow> 'f) \<Rightarrow> bool" where
  "hwp_keeps hwp f \<longleftrightarrow> (\<forall>i a r h. f (snd (snd (setup_hwp hwp i a r h))) = f h) \<and>
     (\<forall>i a r fi l buf h. f (snd (snd (access_hwp hwp i a r fi l buf h))) = f h)"

lemma accessGranule_keeps: "hwp_keeps hwp f \<Longrightarrow> accessGranule hwp l I h = Some (rc, I', h') \<Longrightarrow> f h' = f h"
  by (auto simp: hwp_keeps_def accessGranule_def mem_setup_def accessGranule_ready_def Let_def
      split: if_splits prod.splits option.splits) (metis snd_conv)+

definition reading_at :: "sbeMemAccessInterfaceType \<Rightarrow> nat \<Rightarrow> sbeMemAccessInterface \<Rightarrow> bool" where
  "reading_at i g I \<longleftrightarrow> is_read I \<and> iv_interface I = i \<and> iv_granuleSize I = g \<and> g \<le> 128 \<and> length (iv_buffer I) = 128 \<and>
     g dvd 2 ^ 64 \<and> g dvd unat (iv_addr I)"

lemma accessGranule_ready_read:
  assumes "reads_memory hwp memof i g S" "reading_at i g I" and S: "iv_addr I \<in> S"
  obtains I' h' where "accessGranule_ready hwp l I h = (FAPI2_RC_SUCCESS, I', h')" "reading_at i g I'"
    "\<forall>k < g. iv_buffer I' ! k = memof h (iv_addr I + of_nat k)" "iv_addr I' = iv_addr I + of_nat g"
    "iv_iterator I' = g" "iv_ecc I' = iv_ecc I" "iv_itag I' = iv_itag I" "memof h' = memof h"
proof -
  have i: "is_read I" "iv_interface I = i" "iv_granuleSize I = g" "g \<le> 128" "length (iv_buffer I) = 128"
    and al: "g dvd 2 ^ 64" "g dvd unat (iv_addr I)"
    using assms(2) by (simp_all add: reading_at_def)
  have access: "\<exists>buf' h'. access_hwp hwp i a True f c buf h = (FAPI2_RC_SUCCESS, buf', h') \<and>
      length buf' = length buf \<and> (\<forall>k < g. k < length buf \<longrightarrow> buf' ! k = memof h (a + of_nat k)) \<and> memof h' = memof h"
    if "g dvd unat a" "a \<in> S" for a f c buf using assms(1) that unfolding reads_memory_def by blast
  obtain buf' h' where 1: "access_hwp hwp i (iv_addr I) True (iv_currGranule I = 0)
      (l \<or> iv_maxGranule I = 1) (iv_buffer I) h = (FAPI2_RC_SUCCESS, buf', h')" "length buf' = length (iv_buffer I)"
    "\<forall>k < g. k < length (iv_buffer I) \<longrightarrow> buf' ! k = memof h (iv_addr I + of_nat k)" "memof h' = memof h"
    using access [OF al(2) S, of "iv_currGranule I = 0" "l \<or> iv_maxGranule I = 1" "iv_buffer I"] by (elim exE conjE) (rule that)
  have m: "\<forall>k < g. buf' ! k = memof h (iv_addr I + of_nat k)" using 1(3) i(4,5) by simp
  let ?c = "l \<or> iv_maxGranule I = 1"
  define J where "J = I\<lparr> iv_intfCleanedUp := ?c, iv_buffer := buf', iv_maxGranule := iv_maxGranule I - 1,
    iv_currGranule := iv_currGranule I + 1, iv_addr := iv_addr I + of_nat g, iv_iterator := g \<rparr>"
  have r: "is_read (I\<lparr> iv_intfCleanedUp := b \<rparr>) = is_read I" "is_read (J\<lparr> iv_buffer := bb \<rparr>) = is_read J"
    "is_read (I\<lparr> iv_intfCleanedUp := b, iv_buffer := bb \<rparr>) = is_read I" "is_read J = is_read I" for b bb
    by (simp_all add: is_read_def J_def)
  have "accessGranule_ready hwp l I h = (FAPI2_RC_SUCCESS, J, h')"
    unfolding accessGranule_ready_def Let_def using 1(1) i(1-3) by (simp add: r J_def)
  moreover have "reading_at i g J" unfolding reading_at_def r(4) using i 1(2) al(1) next_granule [OF al] by (simp add: J_def)
  moreover have "iv_buffer J = buf'" "iv_addr J = iv_addr I + of_nat g" "iv_iterator J = g" "iv_ecc J = iv_ecc I"
    "iv_itag J = iv_itag I" by (simp_all add: J_def)
  ultimately show ?thesis using that m 1(4) by simp
qed

lemma accessGranule_read:
  assumes "reads_memory hwp memof i g S" "reading_at i g I" and S: "iv_addr I \<in> S"
  obtains I' h' where "accessGranule hwp l I h = Some (FAPI2_RC_SUCCESS, I', h')" "reading_at i g I'"
    "\<forall>k < g. iv_buffer I' ! k = memof h (iv_addr I + of_nat k)" "iv_addr I' = iv_addr I + of_nat g"
    "iv_iterator I' = g" "iv_ecc I' = iv_ecc I" "iv_itag I' = iv_itag I" "memof h' = memof h"
proof (cases "iv_intfCleanedUp I")
  case False
  obtain I' h' where "accessGranule_ready hwp l I h = (FAPI2_RC_SUCCESS, I', h')" "reading_at i g I'"
    "\<forall>k < g. iv_buffer I' ! k = memof h (iv_addr I + of_nat k)" "iv_addr I' = iv_addr I + of_nat g"
    "iv_iterator I' = g" "iv_ecc I' = iv_ecc I" "iv_itag I' = iv_itag I" "memof h' = memof h"
    by (rule accessGranule_ready_read [OF assms, of l h])
  then show ?thesis using False by (intro that [of I' h']) (simp_all add: accessGranule_def)
next
  case True
  have i: "is_read I" "iv_interface I = i" "g dvd unat (iv_addr I)" using assms(2) by (simp_all add: reading_at_def)
  obtain n h1 where s: "setup_hwp hwp i (iv_addr I) True h = (FAPI2_RC_SUCCESS, n, h1)"
    "n \<noteq> 0" "memof h1 = memof h"
    using assms(1) i(3) S unfolding reads_memory_def by blast
  define J where "J = I\<lparr> iv_currGranule := 0, iv_intfCleanedUp := False, iv_maxGranule := n \<rparr>"
  have J: "reading_at i g J" "iv_addr J = iv_addr I" "iv_ecc J = iv_ecc I" "iv_itag J = iv_itag I"
    using assms(2) by (simp_all add: J_def reading_at_def is_read_def)
  have "mem_setup hwp I h = Some (FAPI2_RC_SUCCESS, J, h1)"
    using s i(1,2) by (simp add: mem_setup_def Let_def J_def is_read_def)
  then have a: "accessGranule hwp l I h = Some (accessGranule_ready hwp l J h1)"
    using True by (simp add: accessGranule_def)
  obtain I' h' where "accessGranule_ready hwp l J h1 = (FAPI2_RC_SUCCESS, I', h')" "reading_at i g I'"
    "\<forall>k < g. iv_buffer I' ! k = memof h1 (iv_addr J + of_nat k)" "iv_addr I' = iv_addr J + of_nat g"
    "iv_iterator I' = g" "iv_ecc I' = iv_ecc J" "iv_itag I' = iv_itag J" "memof h' = memof h1"
    by (rule accessGranule_ready_read [OF assms(1) J(1), of l h1]) (use S J(2) in simp)
  then show ?thesis using J(2-4) s(3) a by (intro that [of I' h']) simp_all
qed

text \<open>Memory as words, and words as bytes.\<close>

definition mem_words :: "(u64 \<Rightarrow> u8) \<Rightarrow> u64 \<Rightarrow> nat \<Rightarrow> u32 list" where
  "mem_words m a n = map (word_view (\<lambda>k. m (a + of_nat k))) [0..<n]"

lemma be_read_cong: "(\<And>j. j < n \<Longrightarrow> d (p + j) = d' (p' + j)) \<Longrightarrow> be_read n d p = be_read n d' p'"
  by (induction n) simp_all

lemma word_view_cong: "(\<And>j. j < 4 \<Longrightarrow> d (4 * i + j) = d' (4 * i' + j)) \<Longrightarrow> word_view d i = word_view d' i'"
  unfolding word_view_def by (rule be_read_cong)

lemma mem_words_append: "mem_words m a (n + k) = mem_words m a n @ mem_words m (a + of_nat (4 * n)) k"
proof -
  have "word_view (\<lambda>k. m (a + of_nat k)) (n + j) = word_view (\<lambda>k. m (a + of_nat (4 * n) + of_nat k)) j" for j
  proof (rule word_view_cong)
    fix t
    have e: "4 * (n + j) + t = 4 * n + (4 * j + t)" by simp
    show "m (a + of_nat (4 * (n + j) + t)) = m (a + of_nat (4 * n) + of_nat (4 * j + t))"
      unfolding e of_nat_add add.assoc ..
  qed
  then have "map (word_view (\<lambda>k. m (a + of_nat k))) [n..<n + k] = mem_words m (a + of_nat (4 * n)) k"
    unfolding mem_words_def by (intro nth_equalityI) (simp_all del: of_nat_mult)
  moreover have "[0..<n + k] = [0..<n] @ [n..<n + k]" by (rule upt_add_eq_append) simp
  ultimately show ?thesis by (simp add: mem_words_def)
qed

lemma byte_view_word: "j < 4 \<Longrightarrow> byte_view b (4 * n + j) = be_bytes 4 (b n) ! j"
  by (simp add: byte_view_def)

lemma map_byte_view: "map (byte_view b) [0..<4 * n] = struct_bytes (map b [0..<n])"
proof (induction n)
  case 0
  then show ?case by (simp add: struct_bytes_def)
next
  case (Suc n)
  have l: "length (be_bytes 4 (b n)) = 4" by (simp add: be_bytes_def)
  have "map (byte_view b) [4 * n..<4 * n + 4] = be_bytes 4 (b n)"
    using byte_view_word [of _ b n] l by (intro nth_equalityI) simp_all
  moreover have "[0..<4 * Suc n] = [0..<4 * n] @ [4 * n..<4 * n + 4]"
    using upt_add_eq_append [of 0 "4 * n" 4] by (simp add: add.commute)
  ultimately show ?case using Suc by (simp add: struct_bytes_def)
qed

text \<open>Reading one granule and all of them.\<close>

lemma read_granule:
  assumes p: "fifo_pair P up sent busy memof" and hw: "reads_memory hwp memof SBE_MEM_ACCESS_PBA 128 S"
    "hwp_keeps hwp (\<lambda>h. (up h, sent h))" and I: "reading_at SBE_MEM_ACCESS_PBA 128 I" "iv_addr I \<in> S"
  obtains I' h' where "pba_granule P hwp True l I h = Some (0, FAPI2_RC_SUCCESS, I', h')" "reading_at SBE_MEM_ACCESS_PBA 128 I'"
    "iv_addr I' = iv_addr I + 128" "sent h' = sent h @ mem_words (memof h) (iv_addr I) 32" "up h' = up h" "memof h' = memof h"
proof -
  have d: "fifo_drains P sent busy" and k: "enq_keeps P (\<lambda>h. (up h, memof h))" using p by (auto simp: fifo_pair_def)
  obtain I1 h1 where 1: "accessGranule hwp l I h = Some (FAPI2_RC_SUCCESS, I1, h1)" "reading_at SBE_MEM_ACCESS_PBA 128 I1"
    "\<forall>k < 128. iv_buffer I1 ! k = memof h (iv_addr I + of_nat k)" "iv_addr I1 = iv_addr I + of_nat 128"
    "iv_iterator I1 = 128" "iv_ecc I1 = iv_ecc I" "iv_itag I1 = iv_itag I" "memof h1 = memof h"
    by (rule accessGranule_read [OF hw(1) I, of l h])
  have k1: "up h1 = up h \<and> sent h1 = sent h" using accessGranule_keeps [OF hw(2) 1(1)] by simp
  let ?d = "word_view ((!) (iv_buffer I1))"
  obtain h2 where 2: "sbeDownFifoEnq_mult P 32 ?d h1 = Some (0, 32, h2)" "sent h2 = sent h1 @ map ?d [0..<32]"
    using enq_mult_sends [OF d, of 32 ?d h1] by auto
  have k2: "up h2 = up h1 \<and> memof h2 = memof h1" using enq_mult_keeps [OF k 2(1)] by simp
  have "?d i = word_view (\<lambda>k. memof h (iv_addr I + of_nat k)) i" if "i < 32" for i
    by (rule word_view_cong) (use 1(3) that in simp)
  then have w: "map ?d [0..<32] = mem_words (memof h) (iv_addr I) 32" by (simp add: mem_words_def)
  define J where "J = fst (getBuffer I1)"
  have J: "getBuffer I1 = (J, iv_buffer I1)" "reading_at SBE_MEM_ACCESS_PBA 128 J" "iv_addr J = iv_addr I1"
    using 1(2) by (simp_all add: J_def getBuffer_def reading_at_def is_read_def)
  have "pba_granule P hwp True l I h = Some (0, FAPI2_RC_SUCCESS, J, h2)"
    using 1(1) J(1) 2(1) by (simp add: pba_granule_def PBA_GRAN_SIZE_BYTES_def)
  then show ?thesis using that J 1 2 k1 k2 w by simp
qed

lemma read_loop:
  assumes p: "fifo_pair P up sent busy memof" and hw: "reads_memory hwp memof SBE_MEM_ACCESS_PBA 128 S"
    "hwp_keeps hwp (\<lambda>h. (up h, sent h))"
  shows "reading_at SBE_MEM_ACCESS_PBA 128 I \<Longrightarrow> serves 128 S (iv_addr I) (128 * k) \<Longrightarrow>
    \<exists>h'. pba_loop P hwp True k n I h = Some (0, FAPI2_RC_SUCCESS, n + of_nat k, h') \<and>
    sent h' = sent h @ mem_words (memof h) (iv_addr I) (32 * k) \<and> up h' = up h \<and> memof h' = memof h"
proof (induction k arbitrary: n I h)
  case 0
  then show ?case by (simp add: mem_words_def)
next
  case (Suc k)
  obtain I1 h1 where 1: "pba_granule P hwp True (k = 0) I h = Some (0, FAPI2_RC_SUCCESS, I1, h1)" "reading_at SBE_MEM_ACCESS_PBA 128 I1"
    "iv_addr I1 = iv_addr I + 128" "sent h1 = sent h @ mem_words (memof h) (iv_addr I) 32" "up h1 = up h" "memof h1 = memof h"
    by (rule read_granule [OF p hw Suc.prems(1) serves_first [OF Suc.prems(2)]]) simp_all
  obtain h2 where 2: "pba_loop P hwp True k (n + 1) I1 h1 = Some (0, FAPI2_RC_SUCCESS, n + 1 + of_nat k, h2)"
    "sent h2 = sent h1 @ mem_words (memof h1) (iv_addr I1) (32 * k)" "up h2 = up h1" "memof h2 = memof h1"
    using Suc.IH [OF 1(2)] serves_skip [of 128 S "iv_addr I" 128 "128 * k"] Suc.prems(2) 1(3) by auto
  have "mem_words (memof h) (iv_addr I) (32 * Suc k) =
      mem_words (memof h) (iv_addr I) 32 @ mem_words (memof h) (iv_addr I + 128) (32 * k)"
    using mem_words_append [of "memof h" "iv_addr I" 32 "32 * k"] by simp
  then show ?case using 1 2 by (simp add: add.assoc add.commute)
qed

text \<open>Writing one granule and all of them.\<close>

lemma split_entries:
  assumes "0 < n" "n \<le> length (words_of es)"
  obtains es1 es2 where "es = es1 @ es2" "es1 \<noteq> []" "up_valid_flag (low_word (last es1))" "length (words_of es1) = n"
  using assms
proof (induction es arbitrary: n thesis)
  case (Cons e es)
  show ?case
  proof (cases "up_valid_flag (low_word e)")
    case v: True
    show ?thesis
    proof (cases "n = 1")
      case True
      then show ?thesis using v by (intro Cons.prems(1) [of "[e]" es]) simp_all
    next
      case False
      obtain es1 es2 where "es = es1 @ es2" "es1 \<noteq> []" "up_valid_flag (low_word (last es1))" "length (words_of es1) = n - 1"
        by (rule Cons.IH [of "n - 1"]) (use Cons.prems(2,3) False v in auto)
      then show ?thesis using v Cons.prems(2) by (intro Cons.prems(1) [of "e # es1" es2]) simp_all
    qed
  next
    case False
    obtain es1 es2 where "es = es1 @ es2" "es1 \<noteq> []" "up_valid_flag (low_word (last es1))" "length (words_of es1) = n"
      by (rule Cons.IH [of n]) (use Cons.prems(2,3) False in auto)
    then show ?thesis using False by (intro Cons.prems(1) [of "e # es1" es2]) simp_all
  qed
qed simp

lemma stored_map: "length ws = n \<Longrightarrow> map (stored n 0 ws b) [0..<n] = ws"
  by (auto intro: nth_equalityI simp: stored_def)

lemma fill_granule:
  assumes p: "fifo_pair P up sent busy memof" and I: "writing 128 I" "length (iv_buffer I) = 128" "iv_interface I = SBE_MEM_ACCESS_PBA"
    and b: "body_at up h es rest" "length (words_of es) = 32 * Suc k"
  obtains I' h' es' where "pba_fill P I h = Some (0, I', h')" "writing 128 I'" "iv_iterator I' = 128" "length (iv_buffer I') = 128"
    "iv_interface I' = SBE_MEM_ACCESS_PBA" "iv_addr I' = iv_addr I" "pending I' = struct_bytes (take 32 (words_of es))"
    "body_at up h' es' rest" "words_of es' = drop 32 (words_of es)" "sent h' = sent h" "memof h' = memof h"
proof -
  have f: "fifo_feeds P up" and k: "deq_keeps P (\<lambda>h. (sent h, memof h))" using p by (auto simp: fifo_pair_def)
  obtain e where u: "up h = es @ e # rest" "\<forall>x \<in> set es. plain_entry x" "eot_entry e" using b(1) by (auto simp: body_at_def)
  obtain es1 es2 where e: "es = es1 @ es2" "es1 \<noteq> []" "up_valid_flag (low_word (last es1))" "length (words_of es1) = 32"
    by (rule split_entries [of 32 es]) (use b(2) in auto)
  have u1: "up h = es1 @ es2 @ e # rest" "\<forall>x \<in> set es1. plain_entry x" using u e(1) by auto
  define b0 where "b0 = word_view ((!) (iv_buffer I))"
  define b1 where "b1 = stored 32 0 (words_of es1) b0"
  obtain h1 where 1: "deq_loop P 32 False False 0 (Some b0) h = Some (0, 32, Some b1, h1)" "up h1 = es2 @ e # rest"
    using deq_loop_words [OF f u1 e(2,3), of 0 32 "Some b0"] e(4) by (auto simp: keep_words_def b1_def)
  have d: "sbeUpFifoDeq_mult P 32 (Some b0) False False h = Some (0, 32, Some b1, h1)"
    using 1(1) by (simp add: sbeUpFifoDeq_mult_def)
  have kp: "sent h1 = sent h \<and> memof h1 = memof h" using deq_mult_keeps [OF k d] by simp
  define J where "J = I\<lparr> iv_iterator := 128, iv_buffer := map (byte_view b1) [0..<128] \<rparr>"
  have g: "iv_granuleSize I = 128" using I(1) by (simp add: writing_def)
  have fill: "pba_fill P I h = Some (0, J, h1)"
    using d I(2) g by (simp add: pba_fill_def getBuffer_def PBA_GRAN_SIZE_BYTES_def J_def b0_def)
  have bytes: "map (byte_view b1) [0..<128] = struct_bytes (words_of es1)"
    using map_byte_view [of b1 32] stored_map [OF e(4), of b0] by (simp add: b1_def)
  have "writing 128 J" "iv_iterator J = 128" "length (iv_buffer J) = 128" "iv_interface J = SBE_MEM_ACCESS_PBA"
    "iv_addr J = iv_addr I" "pending J = struct_bytes (take 32 (words_of es))"
    using I bytes e(1,4) by (simp_all add: J_def writing_def is_read_def pending_def flip: bytes)
  moreover have "body_at up h1 es2 rest" using 1(2) u e(1) by (auto simp: body_at_def)
  ultimately show ?thesis using that [OF fill] kp e by simp
qed

lemma accessGranule_buffer:
  assumes "writes_memory hwp memof SBE_MEM_ACCESS_PBA 128 S" "writing 128 I" "iv_interface I = SBE_MEM_ACCESS_PBA" "iv_addr I \<in> S"
    "accessGranule hwp l I h = Some (FAPI2_RC_SUCCESS, I', h')"
  shows "length (iv_buffer I') = length (iv_buffer I)"
proof -
  have r: "\<not> is_read I" "128 dvd unat (iv_addr I)" "iv_addr I \<in> S" using assms(2,4) by (simp_all add: writing_def)
  have a: "\<exists>h'. access_hwp hwp SBE_MEM_ACCESS_PBA a False f l buf h = (FAPI2_RC_SUCCESS, buf, h')" 
    if "128 dvd unat a" "a \<in> S" for a f l buf h using assms(1) that unfolding writes_memory_def by blast
  have ready: "accessGranule_ready hwp l J h = (FAPI2_RC_SUCCESS, I', h') \<Longrightarrow> iv_interface J = SBE_MEM_ACCESS_PBA \<Longrightarrow>
      \<not> is_read J \<Longrightarrow> 128 dvd unat (iv_addr J) \<Longrightarrow> iv_addr J \<in> S \<Longrightarrow> length (iv_buffer I') = length (iv_buffer J)" for J h
    using a [of "iv_addr J" "iv_currGranule J = 0" "l \<or> iv_maxGranule J = 1" "iv_buffer J" h]
    by (auto simp: accessGranule_ready_def is_read_def Let_def)
  show ?thesis
    using assms(3,5) r
    by (auto simp: accessGranule_def mem_setup_def is_read_def Let_def split: if_splits prod.splits option.splits dest!: ready)
qed

lemma struct_bytes_append: "struct_bytes (ws @ vs) = struct_bytes ws @ struct_bytes vs"
  by (simp add: struct_bytes_def)

lemma write_loop:
  assumes p: "fifo_pair P up sent busy memof" and hw: "writes_memory hwp memof SBE_MEM_ACCESS_PBA 128 S"
    "hwp_keeps hwp (\<lambda>h. (up h, sent h))"
  shows "writing 128 I \<Longrightarrow> length (iv_buffer I) = 128 \<Longrightarrow> iv_interface I = SBE_MEM_ACCESS_PBA \<Longrightarrow> body_at up h es rest \<Longrightarrow>
    length (words_of es) = 32 * k \<Longrightarrow> 128 * k \<le> 2 ^ 64 \<Longrightarrow>
    serves 128 S (iv_addr I) (128 * k) \<Longrightarrow> \<exists>h' es'. pba_loop P hwp False k n I h = Some (0, FAPI2_RC_SUCCESS, n + of_nat k, h') \<and>
      memof h' = mem_store (iv_addr I) (struct_bytes (words_of es)) (memof h) \<and> sent h' = sent h \<and>
      body_at up h' es' rest \<and> words_of es' = []"
proof (induction k arbitrary: n I h es)
  case 0
  then show ?case by (intro exI [of _ h] exI [of _ es]) (simp add: struct_bytes_def)
next
  case (Suc k)
  note pr = Suc.prems
  have s0: "iv_addr I \<in> S" by (rule serves_first [OF pr(7)]) simp
  obtain I1 h1 es1 where 1: "pba_fill P I h = Some (0, I1, h1)" "writing 128 I1" "iv_iterator I1 = 128" "length (iv_buffer I1) = 128"
    "iv_interface I1 = SBE_MEM_ACCESS_PBA" "iv_addr I1 = iv_addr I" "pending I1 = struct_bytes (take 32 (words_of es))"
    "body_at up h1 es1 rest" "words_of es1 = drop 32 (words_of es)" "sent h1 = sent h" "memof h1 = memof h"
    by (rule fill_granule [OF p pr(1-5)])
  have hw1: "writes_memory hwp memof (iv_interface I1) 128 S" using hw(1) 1(5) by simp
  obtain I2 h2 where 2: "accessGranule hwp (k = 0) I1 h1 = Some (FAPI2_RC_SUCCESS, I2, h2)" "writing 128 I2"
    "iv_interface I2 = iv_interface I1" "iv_addr I2 = iv_addr I1 + of_nat 128"
    "memof h2 = mem_store (iv_addr I1) (pending I1) (memof h1)"
    by (rule accessGranule_write [OF hw1 1(2,3), of "k = 0" h1]) (use s0 1(6) in simp)
  have b2: "length (iv_buffer I2) = 128" using accessGranule_buffer [OF hw(1) 1(2,5) _ 2(1)] 1(4,6) s0 by simp
  have k2: "up h2 = up h1 \<and> sent h2 = sent h1" using accessGranule_keeps [OF hw(2) 2(1)] by simp
  have i2: "iv_interface I2 = SBE_MEM_ACCESS_PBA" using 2(3) 1(5) by simp
  have a2: "body_at up h2 es1 rest" using 1(8) k2 by (simp add: body_at_def)
  have l2: "length (words_of es1) = 32 * k" using 1(9) pr(5) by simp
  have k64: "128 * k \<le> 2 ^ 64" using pr(6) by simp
  have "serves 128 S (iv_addr I2) (128 * k)"
    using serves_skip [of 128 S "iv_addr I" 128 "128 * k"] pr(7) 2(4) 1(6) by simp
  from Suc.IH [OF 2(2) b2 i2 a2 l2 k64 this, of "n + 1"]
  obtain h3 es3 where 3: "pba_loop P hwp False k (n + 1) I2 h2 = Some (0, FAPI2_RC_SUCCESS, n + 1 + of_nat k, h3)"
    "memof h3 = mem_store (iv_addr I2) (struct_bytes (words_of es1)) (memof h2)" "sent h3 = sent h2"
    "body_at up h3 es3 rest" "words_of es3 = []" by blast
  let ?b = "struct_bytes (take 32 (words_of es))"
  have lb: "length ?b = 128" using pr(5) by (simp add: struct_bytes_length)
  have "memof h3 = mem_store (iv_addr I + of_nat (length ?b)) (struct_bytes (drop 32 (words_of es))) (mem_store (iv_addr I) ?b (memof h))"
    using 3(2) 2(4,5) 1(6,7,9,11) lb by simp
  also have "\<dots> = mem_store (iv_addr I) (?b @ struct_bytes (drop 32 (words_of es))) (memof h)"
    by (rule mem_store_append) (use pr(5,6) in \<open>simp add: struct_bytes_length\<close>)
  finally have m: "memof h3 = mem_store (iv_addr I) (struct_bytes (words_of es)) (memof h)"
    by (simp flip: struct_bytes_append)
  have "pba_loop P hwp False (Suc k) n I h = Some (0, FAPI2_RC_SUCCESS, n + of_nat (Suc k), h3)"
    using 1(1) 2(1) 3(1) by (simp add: pba_granule_def add.assoc)
  then show ?case using m 3 k2 1(10) by (intro exI [of _ h3] exI [of _ es3]) simp
qed

section \<open>The operations\<close>

lemma granule_count:
  assumes "mem_flag SBE_MEM_ACCESS_FLAGS_TARGET_PBA q"
  shows "unat (getDataLenCacheAlign q) = unat (mh_len q) div 128"
proof (cases "mh_len q < 8")
  case True
  then have "unat (mh_len q) < 8" by (simp add: word_less_nat_alt)
  then show ?thesis using True assms by (simp add: getDataLenCacheAlign_def)
next
  case False
  then have "unat (getDataLenCacheAlign q) = unat (mh_len q) div 8 div 16"
    using assms by (simp add: getDataLenCacheAlign_def unat_div unat_ucast_up)
  then show ?thesis by (simp add: div_mult2_eq [symmetric])
qed

text \<open>The platform's procedures for the flags of a request.\<close>

abbreviation pba_of :: "'h mem_plat \<Rightarrow> sbeMemAccessReqMsgHdr_t \<Rightarrow> 'h mem_hwp" where
  "pba_of L q \<equiv> pba_hwp L (fst (pba_flags q)) (snd (pba_flags q))"

lemma response_length:
  assumes "k < 2 ^ 25"
  shows "(ucast (of_nat k * of_nat PBA_GRAN_SIZE_BYTES :: u64) :: u32) = of_nat (128 * k)"
proof -
  have "(of_nat k * of_nat PBA_GRAN_SIZE_BYTES :: u64) = of_nat (128 * k)" by (simp add: PBA_GRAN_SIZE_BYTES_def)
  moreover have "(ucast (of_nat (128 * k) :: u64) :: u32) = of_nat (take_bit 64 (128 * k))"
    by (simp only: unsigned_of_nat) simp
  moreover have "take_bit 64 (128 * k) = 128 * k" using assms by (intro take_bit_nat_eq_self) simp
  ultimately show ?thesis by simp
qed

lemma granules_small: "unat (mh_len q) div 128 < 2 ^ 25"
proof -
  have "unat (mh_len q) < 2 ^ 32" using unsigned_less [of "mh_len q"] by simp
  then show ?thesis by simp
qed

text \<open>GetMem from the address that the checks determine, ordinary or pass-through.\<close>

lemma pba_get:
  assumes p: "fifo_pair P up sent busy memof" and m: "message_at up h ws es rest" "length ws = 4" "words_of es = []"
    and q: "q = mem_hdr_of ((!) ws)" "mem_flag SBE_MEM_ACCESS_FLAGS_TARGET_PBA q" and A: "env_ok A"
    and hw: "reads_memory (pba_of L q) memof SBE_MEM_ACCESS_PBA 128 S" "hwp_keeps (pba_of L q) (\<lambda>h. (up h, sent h))"
    and buf: "length (raw_buffer L) = 128" and hdr: "hdr = init_resp_hdr (app_glob A)"
    and adr: "pba_address q True hdr A = Some (True, addr, hdr, A)" and al: "128 dvd unat addr" and k: "k = unat (mh_len q) div 128"
    and S: "serves 128 S addr (128 * k)"
  shows "\<exists>h'. sbeGetMem_op P L A h = Some (0, A, h') \<and>
    parse_response (sent h') = (sent h @ mem_words (memof h) addr (32 * k) @ [of_nat (128 * k)], hdr) \<and>
    up h' = rest \<and> memof h' = memof h"
proof -
  have ws: "length ws = unat (4 :: u32)" using m(2) by simp
  obtain b h1 where 1: "sbeUpFifoDeq_mult P 4 (Some (\<lambda>_. 0)) True False h = Some (0, 4, Some b, h1)"
    "\<forall>i < unat (4 :: u32). b i = ws ! i" "sent h1 = sent h" "memof h1 = memof h" "if True then up h1 = rest else body_at up h1 es rest"
    by (rule read_header [OF p m(1) ws m(3)])
  have hd: "mem_hdr_of b = q" using mem_hdr_of_words [of b ws] 1(2) q(1) by simp
  define I where "I = mem_interface_create SBE_MEM_ACCESS_PBA addr False False SBE_MEM_ACCESS_READ PBA_GRAN_SIZE_BYTES (raw_buffer L)"
  have I: "reading_at SBE_MEM_ACCESS_PBA 128 I" "iv_addr I = addr"
    using buf al by (simp_all add: I_def reading_at_def mem_interface_create_def is_read_def PBA_GRAN_SIZE_BYTES_def)
  obtain h2 where 2: "pba_loop P (pba_of L q) True k 0 I h1 = Some (0, FAPI2_RC_SUCCESS, of_nat k, h2)"
    "sent h2 = sent h1 @ mem_words (memof h1) addr (32 * k)" "up h2 = up h1" "memof h2 = memof h1"
    using read_loop [OF p hw I(1), of k 0 h1] I(2) S by auto
  have u: "if True then up h2 = rest else body_at up h2 es rest" using 1(5) 2(3) by simp
  obtain h3 where 3: "mem_respond P True 0 (of_nat (128 * k)) hdr new_sbeResponseFfdc A h2 = Some (0, h3)"
    "parse_response (sent h3) = (sent h2 @ [of_nat (128 * k)], hdr)" "up h3 = rest" "memof h3 = memof h2"
    by (rule respond_parses [OF p A u, of hdr]) (use m(3) in simp_all)
  have len: "(ucast (of_nat k * of_nat PBA_GRAN_SIZE_BYTES :: u64) :: u32) = of_nat (128 * k)"
    by (rule response_length) (use granules_small [of q] k in simp)
  have ok: "rh_primaryStatus hdr = 0" by (simp add: hdr init_resp_hdr_def)
  have cnt: "unat (getDataLenCacheAlign q) = k" using granule_count [OF q(2)] k by simp
  have "processPbaRequest P L q True A h1 = Some (0, A, h3)"
    unfolding processPbaRequest_def using adr 2(1) 3(1) ok
    by (simp add: case_prod_beta hdr [symmetric] I_def [symmetric] cnt note_failure_def len)
  then have "sbeGetMem_op P L A h = Some (0, A, h3)"
    using 1(1) hd q(2) by (simp add: sbeGetMem_op_def sbeMemAccess_Wrap_def)
  then show ?thesis using 1(3,4) 2 3 by simp
qed

text \<open>
  Property C7. GetMem over the PBA returns the memory that was asked for. The address is a multiple of 128,
  the request is not a pass-through request, its length is below \<open>2 ^ 31\<close> and its end below \<open>2 ^ 64\<close>, the
  open regions are well formed and disjoint, and the PBA serves the granules of the request. When then
  security is off, or every
  byte of the request lies in an open region that may be read, the response carries the contents of
  memory from the address on, in whole granules of 128 bytes (a rest of the length is left out),
  then the number of bytes and a successful status; memory is unchanged and the request is
  consumed.
\<close>

theorem getmem_pba_correct:
  assumes p: "fifo_pair P up sent busy memof" and m: "message_at up h ws es rest" "length ws = 4" "words_of es = []"
    and q: "q = mem_hdr_of ((!) ws)" "mem_flag SBE_MEM_ACCESS_FLAGS_TARGET_PBA q" "checked_request q" and A: "env_ok A"
    and hw: "reads_memory (pba_of L q) memof SBE_MEM_ACCESS_PBA 128 S" "hwp_keeps (pba_of L q) (\<lambda>h. (up h, sent h))"
    and buf: "length (raw_buffer L) = 128"
    and sec: "manager_inv (mainStoreMgr A)" "sbeFWSecurityEnabled (app_glob A) \<Longrightarrow>
      (\<forall>a. covers (requested q True) a \<longrightarrow> permitted (mainStoreMgr A) (reg_mode (requested q True)) a)"
    and al: "128 dvd unat (getAddr q)" and k: "k = unat (mh_len q) div 128" and S: "serves 128 S (getAddr q) (128 * k)"
  shows "\<exists>h'. sbeGetMem_op P L A h = Some (0, A, h') \<and>
    parse_response (sent h') = (sent h @ mem_words (memof h) (getAddr q) (32 * k) @ [of_nat (128 * k)], init_resp_hdr (app_glob A)) \<and>
    up h' = rest \<and> memof h' = memof h"
proof -
  have "check_region (mainStoreMgr A) True (getAddr q) (mh_len q) A = Some 0"
    using check_region_code [OF sec(1), of q True] q(3) sec(2) by (auto simp: checked_request_def)
  then have "pba_address q True (init_resp_hdr (app_glob A)) A = Some (True, getAddr q, init_resp_hdr (app_glob A), A)"
    using q(2,3) by (simp add: pba_address_def checked_request_def)
  from pba_get [OF p m q(1,2) A hw buf refl this al k S] show ?thesis .
qed

text \<open>
  Property C8. PutMem over the PBA stores what was sent. The address is a multiple of 128, the request is not a
  pass-through request, its length is below \<open>2 ^ 31\<close> and its end below \<open>2 ^ 64\<close>, the open regions are well
  formed and disjoint, and the PBA serves the granules of the request. When then the data are the words of
  exactly as many granules of 128 bytes as the length has, and security is off or every byte of the request lies in
  an open region that may be written, memory holds their bytes from the address on and is changed nowhere outside
  the request; the response carries the number of bytes and a successful status, and the request is
  consumed.
\<close>

theorem putmem_pba_correct:
  assumes p: "fifo_pair P up sent busy memof" and m: "message_at up h ws es rest" "length ws = 4" "length (words_of es) = 32 * k"
    and q: "q = mem_hdr_of ((!) ws)" "mem_flag SBE_MEM_ACCESS_FLAGS_TARGET_PBA q" "checked_request q" and A: "env_ok A"
    and hw: "writes_memory (pba_of L q) memof SBE_MEM_ACCESS_PBA 128 S" "hwp_keeps (pba_of L q) (\<lambda>h. (up h, sent h))"
    and buf: "length (raw_buffer L) = 128"
    and sec: "manager_inv (mainStoreMgr A)" "sbeFWSecurityEnabled (app_glob A) \<Longrightarrow>
      (\<forall>a. covers (requested q False) a \<longrightarrow> permitted (mainStoreMgr A) (reg_mode (requested q False)) a)"
    and al: "128 dvd unat (getAddr q)" and k: "k = unat (mh_len q) div 128" and S: "serves 128 S (getAddr q) (128 * k)"
  shows "\<exists>h'. sbePutMem_op P L A h = Some (0, A, h') \<and>
    memof h' = mem_store (getAddr q) (struct_bytes (words_of es)) (memof h) \<and>
    (\<forall>x. memof h' x \<noteq> memof h x \<longrightarrow> covers (requested q False) (unat x)) \<and>
    parse_response (sent h') = (sent h @ [of_nat (128 * k)], init_resp_hdr (app_glob A)) \<and> up h' = rest"
proof -
  let ?hdr = "init_resp_hdr (app_glob A)"
  have ws: "length ws = unat (4 :: u32)" using m(2) by simp
  obtain b h1 where 1: "sbeUpFifoDeq_mult P 4 (Some (\<lambda>_. 0)) False False h = Some (0, 4, Some b, h1)"
    "\<forall>i < unat (4 :: u32). b i = ws ! i" "sent h1 = sent h" "memof h1 = memof h" "if False then up h1 = rest else body_at up h1 es rest"
    by (rule read_header [OF p m(1) ws, of False]) simp_all
  have hd: "mem_hdr_of b = q" using mem_hdr_of_words [of b ws] 1(2) q(1) by simp
  have "check_region (mainStoreMgr A) False (getAddr q) (mh_len q) A = Some 0"
    using check_region_code [OF sec(1), of q False] q(3) sec(2) by (auto simp: checked_request_def)
  then have adr: "pba_address q False ?hdr A = Some (True, getAddr q, ?hdr, A)"
    using q(2,3) by (simp add: pba_address_def checked_request_def)
  define I where "I = mem_interface_create SBE_MEM_ACCESS_PBA (getAddr q) False False SBE_MEM_ACCESS_WRITE PBA_GRAN_SIZE_BYTES (raw_buffer L)"
  have I: "writing 128 I" "length (iv_buffer I) = 128" "iv_interface I = SBE_MEM_ACCESS_PBA" "iv_addr I = getAddr q"
    using buf al by (simp_all add: I_def writing_def mem_interface_create_def is_read_def PBA_GRAN_SIZE_BYTES_def)
  have b1: "body_at up h1 es rest" using 1(5) by simp
  have small: "k < 2 ^ 25" using granules_small k by simp
  then have k64: "128 * k \<le> 2 ^ 64" by simp
  have "serves 128 S (iv_addr I) (128 * k)" using S I(4) by simp
  from write_loop [OF p hw I(1-3) b1 m(3) k64 this, of 0]
  obtain h2 es2 where 2: "pba_loop P (pba_of L q) False k 0 I h1 = Some (0, FAPI2_RC_SUCCESS, of_nat k, h2)"
    "memof h2 = mem_store (getAddr q) (struct_bytes (words_of es)) (memof h1)" "sent h2 = sent h1"
    "body_at up h2 es2 rest" "words_of es2 = []"
    using I(4) by auto
  have u: "if False then up h2 = rest else body_at up h2 es2 rest" using 2(4) by simp
  obtain h3 where 3: "mem_respond P False 0 (of_nat (128 * k)) ?hdr new_sbeResponseFfdc A h2 = Some (0, h3)"
    "parse_response (sent h3) = (sent h2 @ [of_nat (128 * k)], ?hdr)" "up h3 = rest" "memof h3 = memof h2"
    by (rule respond_parses [OF p A u, of ?hdr]) (use 2(5) in simp_all)
  have len: "(ucast (of_nat k * of_nat PBA_GRAN_SIZE_BYTES :: u64) :: u32) = of_nat (128 * k)"
    using response_length [OF small] .
  have ok: "rh_primaryStatus ?hdr = 0" "\<not> mem_flag SBE_MEM_ACCESS_FLAGS_HOST_PASS_THROUGH q"
    using q(2,3) by (simp_all add: init_resp_hdr_def checked_request_def)
  have cnt: "unat (getDataLenCacheAlign q) = k" using granule_count [OF q(2)] k by simp
  have "processPbaRequest P L q False A h1 = Some (0, A, h3)"
    unfolding processPbaRequest_def using adr 2(1) 3(1) ok
    by (simp add: case_prod_beta I_def [symmetric] cnt note_failure_def len)
  then have r: "sbePutMem_op P L A h = Some (0, A, h3)"
    using 1(1) hd q(2) by (simp add: sbePutMem_op_def sbeMemAccess_Wrap_def)
  have m3: "memof h3 = mem_store (getAddr q) (struct_bytes (words_of es)) (memof h)" using 3(4) 2(2) 1(4) by simp
  have "covers (requested q False) (unat x)" if "memof h3 x \<noteq> memof h x" for x
  proof -
    have lt: "unat (x - getAddr q) < unat (mh_len q)"
      using that m3 m(3) k by (auto simp: mem_store_def struct_bytes_length split: if_splits)
    have nw: "unat (x - getAddr q) + unat (getAddr q) < 2 ^ 64" using lt q(3) by (simp add: checked_request_def)
    have "x = (x - getAddr q) + getAddr q" by simp
    then have "unat x = unat (x - getAddr q) + unat (getAddr q)" using nw unat_add_no_wrap [of "x - getAddr q" "getAddr q"] by simp
    then show ?thesis using lt by (simp add: covers_def requested_def)
  qed
  then show ?thesis using r m3 3(2,3) 2(3) 1(3) by auto
qed

end
