(* ===== verification/Sbe_MemChecks.thy ===== *)
theory Sbe_MemChecks
  imports Sbe_MemProps
begin

unbundle bit_operations_syntax

text \<open>
  The memory chip operations on the simulated FIFOs and memory, and the requests that the checks of
  \<open>sbecmdmemaccess.C\<close> let through although they mean to stop them.
\<close>

section \<open>The simulated hardware\<close>

abbreviation "sim_up \<equiv> \<lambda>h :: mem_sim. fs_up (fst (fst h))"
abbreviation "sim_sent \<equiv> \<lambda>h :: mem_sim. fs_sent (fst (fst h))"
abbreviation "sim_busy \<equiv> \<lambda>h :: mem_sim. fs_busy (fst (fst h))"

lemma mem_sim_feeds: "fifo_feeds mem_sim_pib sim_up"
  by (auto simp: fifo_feeds_def mem_sim_pib_def reg_get_def reg_put_def sim_get_def sim_put_def)

lemma mem_sim_drains: "fifo_drains mem_sim_pib sim_sent sim_busy"
  by (auto simp: fifo_drains_def mem_sim_pib_def reg_get_def reg_put_def sim_get_def sim_put_def fifo_wait_def high_word_def
      down_req_upfifo_reset_def down_fifo_full_def status_flag_def bf_get_def)

lemma mem_sim_pair: "fifo_pair mem_sim_pib sim_up sim_sent sim_busy snd"
  using mem_sim_feeds mem_sim_drains
  by (auto simp: fifo_pair_def deq_keeps_def enq_keeps_def mem_sim_pib_def reg_get_def reg_put_def sim_get_def sim_put_def
      split: list.splits prod.splits if_splits)

lemma mem_sim_reads: "g \<le> 128 \<Longrightarrow> reads_memory (mem_sim_hwp g) snd i g fabric_range"
  by (auto simp: reads_memory_def mem_sim_hwp_def fabric_range_def)

lemma mem_sim_keeps: "hwp_keeps (mem_sim_hwp g) (\<lambda>h. (sim_up h, sim_sent h))"
  by (simp add: hwp_keeps_def mem_sim_hwp_def)

text \<open>The words \<open>ws\<close> of a header and the data \<open>ds\<close> behind it.\<close>

lemma sim_message:
  "ws \<noteq> [] \<Longrightarrow> message_at sim_up (request (ws @ ds), m) ws (map entry_of ds) []"
  unfolding message_at_def
  by (intro exI [of _ "map entry_of ws"] exI [of _ "0x40000000 :: u64"])
    (auto simp: request_def entry_of_word request_eot words_of_request last_map)

lemma sample_app_facts: "env_ok sample_app" "sbeFWSecurityEnabled (app_glob sample_app)" "length (raw_buffer mem_sim_plat) = 128"
  by (simp_all add: env_ok_def sample_app_def secure_glob_def sample_env_def mem_sim_plat_def)

lemma sample_region: "open_regions (mainStoreMgr sample_app) = [\<lparr> reg_start = 0x1000, reg_size = 0x200, reg_mode = 3 \<rparr>]"
  "length (iv_memRegions (mainStoreMgr sample_app)) = iv_maxRegions (mainStoreMgr sample_app)"
  "iv_regionsOpenCnt (mainStoreMgr sample_app) \<le> iv_maxRegions (mainStoreMgr sample_app)"
  by code_simp+

lemma sample_manager: "manager_inv (mainStoreMgr sample_app)"
  unfolding manager_inv_def sample_region(1) using sample_region(2,3) by (simp add: region_ok_def)

section \<open>Requests on it\<close>

text \<open>A read of \<open>0x100\<close> bytes at \<open>0x1180\<close>, half outside the window, and one at \<open>0x1000\<close>, inside.\<close>

abbreviation "outside_req \<equiv> [2, 0, 0x1180, 0x100] :: u32 list"
abbreviation "inside_req \<equiv> [2, 0, 0x1000, 0x100] :: u32 list"

lemma sample_requests:
  "mem_flag SBE_MEM_ACCESS_FLAGS_TARGET_PBA (mem_hdr_of ((!) outside_req))" "checked_request (mem_hdr_of ((!) outside_req))"
  "mem_flag SBE_MEM_ACCESS_FLAGS_TARGET_PBA (mem_hdr_of ((!) inside_req))" "checked_request (mem_hdr_of ((!) inside_req))"
  "getAddr (mem_hdr_of ((!) outside_req)) = 0x1180" "mh_len (mem_hdr_of ((!) outside_req)) = 0x100"
  "getAddr (mem_hdr_of ((!) inside_req)) = 0x1000" "mh_len (mem_hdr_of ((!) inside_req)) = 0x100"
  by (simp_all add: mem_hdr_of_def getAddr_def words64_def mem_flag_def has_flag_def checked_request_def bf_get_def)

theorem mem_request_refused_witness:
  "\<exists>A' h'. sbeMemAccess_Wrap mem_sim_pib mem_sim_plat True sample_app (request outside_req, \<lambda>_. 0x5A) = Some (0, A', h') \<and>
    fst (parse_response (sim_sent h')) = [0] \<and>
    rh_primaryStatus (snd (parse_response (sim_sent h'))) = ucast SBE_PRI_UNSECURE_ACCESS_DENIED"
proof -
  have m: "message_at sim_up (request outside_req, \<lambda>_. 0x5A) outside_req [] []"
    using sim_message [of outside_req "[]" "\<lambda>_. 0x5A"] by simp
  have c: "covers (requested (mem_hdr_of ((!) outside_req)) True) 0x1200"
    "\<not> permitted (mainStoreMgr sample_app) (reg_mode (requested (mem_hdr_of ((!) outside_req)) True)) 0x1200"
    by (simp_all add: requested_def sample_requests covers_def permitted_def sample_region)
  from mem_request_refused [OF mem_sim_pair m _ _ _ refl sample_requests(2) sample_app_facts(1,2) sample_manager c]
  obtain A' h' where 1: "\<And>L. sbeMemAccess_Wrap mem_sim_pib L True sample_app (request outside_req, \<lambda>_. 0x5A) = Some (0, A', h')"
    "parse_response (sim_sent h') = (sim_sent (request outside_req, \<lambda>_. 0x5A) @ [0], (init_resp_hdr (app_glob sample_app))
       \<lparr> rh_primaryStatus := ucast SBE_PRI_UNSECURE_ACCESS_DENIED, rh_secondaryStatus := 0x14 \<rparr>)"
    by auto
  show ?thesis using 1 by (intro exI [of _ A'] exI [of _ h']) (simp add: request_def)
qed

lemma inside_permitted:
  "\<forall>a. covers (requested (mem_hdr_of ((!) inside_req)) rd) a \<longrightarrow>
    permitted (mainStoreMgr sample_app) (reg_mode (requested (mem_hdr_of ((!) inside_req)) rd)) a"
  by (simp add: requested_def sample_requests covers_def permitted_def sample_region MEM_REGION_READ_def MEM_REGION_WRITE_def)

text \<open>The two granules that are read are all \<open>0x5A\<close>.\<close>

theorem getmem_pba_correct_witness:
  "\<exists>h'. sbeGetMem_op mem_sim_pib mem_sim_plat sample_app (request inside_req, \<lambda>_. 0x5A) = Some (0, sample_app, h') \<and>
    fst (parse_response (sim_sent h')) = replicate 64 0x5A5A5A5A @ [0x100]"
proof -
  have m: "message_at sim_up (request inside_req, \<lambda>_. 0x5A) inside_req [] []"
    using sim_message [of inside_req "[]" "\<lambda>_. 0x5A"] by simp
  have hw: "reads_memory (pba_of mem_sim_plat (mem_hdr_of ((!) inside_req))) snd SBE_MEM_ACCESS_PBA 128 fabric_range"
    "hwp_keeps (pba_of mem_sim_plat (mem_hdr_of ((!) inside_req))) (\<lambda>h. (sim_up h, sim_sent h))"
    by (simp_all add: mem_sim_plat_def mem_sim_reads mem_sim_keeps)
  have S: "serves 128 fabric_range (getAddr (mem_hdr_of ((!) inside_req))) (128 * (unat (mh_len (mem_hdr_of ((!) inside_req))) div 128))"
    by (rule serves_fabric) (simp add: sample_requests)
  have w: "mem_words (\<lambda>_. 0x5A) 0x1000 64 = replicate 64 0x5A5A5A5A" by code_simp
  from getmem_pba_correct [OF mem_sim_pair m _ _ refl sample_requests(3,4) sample_app_facts(1) hw sample_app_facts(3)
      sample_manager _ _ refl S] inside_permitted [of True]
  show ?thesis using w by (auto simp: sample_requests request_def)
qed

theorem putmem_pba_correct_witness:
  "\<exists>h'. sbePutMem_op mem_sim_pib mem_sim_plat sample_app (request (inside_req @ replicate 64 0x01020304), \<lambda>_. 0x5A)
      = Some (0, sample_app, h') \<and>
    map (snd h') [0xFFF, 0x1000, 0x1001, 0x1002, 0x10FF, 0x1100] = [0x5A, 1, 2, 3, 4, 0x5A] \<and>
    fst (parse_response (sim_sent h')) = [0x100]"
proof -
  define ds :: "u32 list" where "ds = replicate 64 0x01020304"
  have m: "message_at sim_up (request (inside_req @ ds), \<lambda>_. 0x5A) inside_req (map entry_of ds) []"
    by (rule sim_message) simp
  have hw: "writes_memory (pba_of mem_sim_plat (mem_hdr_of ((!) inside_req))) snd SBE_MEM_ACCESS_PBA 128 fabric_range"
    "hwp_keeps (pba_of mem_sim_plat (mem_hdr_of ((!) inside_req))) (\<lambda>h. (sim_up h, sim_sent h))"
    by (simp_all add: mem_sim_plat_def mem_sim_writes mem_sim_keeps)
  have w: "map (mem_store 0x1000 (struct_bytes ds) (\<lambda>_. 0x5A)) [0xFFF, 0x1000, 0x1001, 0x1002, 0x10FF, 0x1100]
      = [0x5A, 1, 2, 3, 4, 0x5A]"
  proof -
    let ?b = "concat (replicate 64 [1, 2, 3, 4]) :: u8 list"
    have "be_bytes 4 (0x01020304 :: u32) = [1, 2, 3, 4]" by code_simp
    then have b: "struct_bytes ds = ?b" by (simp add: ds_def struct_bytes_def map_replicate)
    have "length ?b = 256" "?b ! 0 = 1" "?b ! 1 = 2" "?b ! 2 = 3" "?b ! 255 = 4" by code_simp+
    then show ?thesis unfolding b by (simp add: mem_store_def unsigned_minus_1_eq_mask mask_eq_exp_minus_1)
  qed
  have l: "length (words_of (map entry_of ds)) = 32 * 2" unfolding words_of_request by (simp add: ds_def)
  have q: "128 dvd unat (getAddr (mem_hdr_of ((!) inside_req)))" "2 = unat (mh_len (mem_hdr_of ((!) inside_req))) div 128"
    "length inside_req = 4"
    by (simp_all add: sample_requests)
  have S: "serves 128 fabric_range (getAddr (mem_hdr_of ((!) inside_req))) (128 * 2)"
    by (rule serves_fabric) (simp add: sample_requests)
  obtain h' where 1: "sbePutMem_op mem_sim_pib mem_sim_plat sample_app (request (inside_req @ ds), \<lambda>_. 0x5A) = Some (0, sample_app, h')"
    "snd h' = mem_store 0x1000 (struct_bytes ds) (\<lambda>_. 0x5A)"
    "parse_response (sim_sent h') = (sim_sent (request (inside_req @ ds), \<lambda>_. 0x5A) @ [of_nat (128 * 2)], init_resp_hdr (app_glob sample_app))"
    using putmem_pba_correct [OF mem_sim_pair m q(3) l refl sample_requests(3,4) sample_app_facts(1) hw sample_app_facts(3)
        sample_manager inside_permitted q(1,2) S]
    unfolding words_of_request sample_requests snd_conv by (elim exE conjE) (rule that)
  have "fst (parse_response (sim_sent h')) = [0x100]" unfolding 1(3) by (simp add: request_def)
  then show ?thesis unfolding ds_def [symmetric] by (intro exI [of _ h'] conjI 1(1)) (simp_all only: 1(2) w)
qed

section \<open>A window that wraps\<close>

text \<open>
  Property C12. The window the host set aside for pass-through requests is checked with a sum that wraps
  at 64 bits: an offset just below \<open>2 ^ 64\<close> passes, and where the PBA serves it
  GetMem returns the memory in front of the window, \<open>d\<close> bytes before its start. The open regions are not asked.
\<close>

theorem pass_through_window_wrap:
  assumes p: "fifo_pair P up sent busy memof" and m: "message_at up h ws es rest" "length ws = 4" "words_of es = []"
    and q: "q = mem_hdr_of ((!) ws)" "mem_flag SBE_MEM_ACCESS_FLAGS_TARGET_PBA q"
      "mem_flag SBE_MEM_ACCESS_FLAGS_HOST_PASS_THROUGH q" and A: "env_ok A"
    and hw: "reads_memory (pba_of L q) memof SBE_MEM_ACCESS_PBA 128 S" "hwp_keeps (pba_of L q) (\<lambda>h. (up h, sent h))"
    and buf: "length (raw_buffer L) = 128" and w: "w = hostPassThroughCmdAddr A" "128 dvd unat (ha_addr w - of_nat d)"
    and d: "getAddr q = - of_nat d" "0 < d" "d \<le> unat (mh_len q)" "unat (mh_len q) \<le> d + unat (ha_size w)"
    and k: "k = unat (mh_len q) div 128" and S: "serves 128 S (ha_addr w - of_nat d) (128 * k)"
  shows "\<exists>h'. sbeGetMem_op P L A h = Some (0, A, h') \<and>
    parse_response (sent h') = (sent h @ mem_words (memof h) (ha_addr w - of_nat d) (32 * k) @ [of_nat (128 * k)],
      init_resp_hdr (app_glob A))"
proof -
  have lt: "unat (mh_len q) < 2 ^ 32" using unsigned_less [of "mh_len q"] by simp
  have "ucast (mh_len q) = (of_nat (unat (mh_len q)) :: u64)"
    by (rule word_unat_eq_iff [THEN iffD2]) (use lt in \<open>simp add: unat_ucast_up unat_of_nat\<close>)
  then have "getAddr q + ucast (mh_len q) = of_nat (unat (mh_len q) - d)"
    using d(1,3) by (simp add: of_nat_diff)
  then have "unat (getAddr q + ucast (mh_len q)) = unat (mh_len q) - d"
    using lt by (simp add: unat_of_nat)
  then have "\<not> getAddr q + ucast (mh_len q) > ucast (ha_size w)"
    using d(4) by (simp add: word_less_nat_alt unat_ucast_up)
  then have "pba_address q True (init_resp_hdr (app_glob A)) A =
      Some (True, ha_addr w - of_nat d, init_resp_hdr (app_glob A), A)"
    using q(3) w(1) d(1) by (simp add: pba_address_def Let_def)
  from pba_get [OF p m q(1,2) A hw buf refl this w(2) k S] show ?thesis by blast
qed

text \<open>The window starts at \<open>0x4000\<close>; the request has the offset \<open>-0x80\<close> and the length \<open>0x100\<close>.\<close>

abbreviation "wrap_req \<equiv> [0x102, 0xFFFFFFFF, 0xFFFFFF80, 0x100] :: u32 list"

lemma wrap_request:
  "mem_flag SBE_MEM_ACCESS_FLAGS_TARGET_PBA (mem_hdr_of ((!) wrap_req))"
  "mem_flag SBE_MEM_ACCESS_FLAGS_HOST_PASS_THROUGH (mem_hdr_of ((!) wrap_req))"
  "getAddr (mem_hdr_of ((!) wrap_req)) = 0xFFFFFFFFFFFFFF80" "mh_len (mem_hdr_of ((!) wrap_req)) = 0x100"
  by (simp_all add: mem_hdr_of_def getAddr_def words64_def mem_flag_def has_flag_def bf_get_def)

lemma mem_words_const:
  assumes "\<forall>k < 4 * n. m (a + of_nat k) = c"
  shows "mem_words m a n = replicate n (word_view (\<lambda>_. c) 0)"
proof -
  have "word_view (\<lambda>k. m (a + of_nat k)) i = word_view (\<lambda>_. c) 0" if "i < n" for i
  proof (rule word_view_cong)
    fix j :: nat
    assume "j < 4"
    then have "4 * i + j < 4 * n" using that by simp
    then show "m (a + of_nat (4 * i + j)) = c" using assms by blast
  qed
  then show ?thesis unfolding mem_words_def by (intro nth_equalityI) simp_all
qed

theorem pass_through_window_wrap_witness:
  "\<exists>h'. sbeGetMem_op mem_sim_pib mem_sim_plat sample_app (request wrap_req, \<lambda>a. if a < 0x4000 then 0x11 else 0x22)
      = Some (0, sample_app, h') \<and>
    fst (parse_response (sim_sent h')) = replicate 32 0x11111111 @ replicate 32 0x22222222 @ [0x100]"
proof -
  let ?m = "\<lambda>a :: u64. if a < 0x4000 then 0x11 else 0x22 :: u8"
  have m: "message_at sim_up (request wrap_req, ?m) wrap_req (map entry_of []) []"
    using sim_message [of wrap_req "[]" ?m] by simp
  have hw: "reads_memory (pba_of mem_sim_plat (mem_hdr_of ((!) wrap_req))) snd SBE_MEM_ACCESS_PBA 128 fabric_range"
    "hwp_keeps (pba_of mem_sim_plat (mem_hdr_of ((!) wrap_req))) (\<lambda>h. (sim_up h, sim_sent h))"
    by (simp_all add: mem_sim_plat_def mem_sim_reads mem_sim_keeps)
  have S: "serves 128 fabric_range (ha_addr (hostPassThroughCmdAddr sample_app) - of_nat 128) (128 * 2)"
    by (rule serves_fabric) (simp add: sample_app_def)
  have win: "ha_addr (hostPassThroughCmdAddr sample_app) = 0x4000" "ha_size (hostPassThroughCmdAddr sample_app) = 0x100"
    by (simp_all add: sample_app_def)
  have u: "unat ((0x3F80 :: u64) + of_nat k) = 0x3F80 + k" "unat ((0x4000 :: u64) + of_nat k) = 0x4000 + k" if "k < 128" for k
    by (subst unat_add_no_wrap; use that in \<open>simp add: unat_of_nat\<close>)+
  have w1: "mem_words ?m 0x3F80 32 = replicate 32 (word_view (\<lambda>_. 0x11) 0)"
    by (rule mem_words_const) (use u(1) in \<open>simp add: word_less_nat_alt\<close>)
  have w2: "mem_words ?m 0x4000 32 = replicate 32 (word_view (\<lambda>_. 0x22) 0)"
    by (rule mem_words_const) (use u(2) in \<open>simp add: word_less_nat_alt\<close>)
  have "word_view (\<lambda>_. 0x11) 0 = 0x11111111" "word_view (\<lambda>_. 0x22) 0 = 0x22222222" by code_simp+
  then have w: "mem_words ?m 0x3F80 64 = replicate 32 0x11111111 @ replicate 32 0x22222222"
    using mem_words_append [of ?m "0x3F80" 32 32] w1 w2 by simp
  have f: "128 dvd unat (ha_addr (hostPassThroughCmdAddr sample_app) - of_nat 128)"
    "getAddr (mem_hdr_of ((!) wrap_req)) = - of_nat 128" "0 < (128 :: nat)" "128 \<le> unat (mh_len (mem_hdr_of ((!) wrap_req)))"
    "unat (mh_len (mem_hdr_of ((!) wrap_req))) \<le> 128 + unat (ha_size (hostPassThroughCmdAddr sample_app))"
    "2 = unat (mh_len (mem_hdr_of ((!) wrap_req))) div 128" "length wrap_req = 4" "words_of (map entry_of []) = []"
    by (simp_all add: wrap_request win)
  obtain h' where 1: "sbeGetMem_op mem_sim_pib mem_sim_plat sample_app (request wrap_req, ?m) = Some (0, sample_app, h')"
    "parse_response (sim_sent h') = (sim_sent (request wrap_req, ?m) @
        mem_words ?m (ha_addr (hostPassThroughCmdAddr sample_app) - of_nat 128) (32 * 2) @ [of_nat (128 * 2)],
      init_resp_hdr (app_glob sample_app))"
    using pass_through_window_wrap [OF mem_sim_pair m f(7,8) refl wrap_request(1,2) sample_app_facts(1) hw sample_app_facts(3)
        refl f(1-6) S] unfolding snd_conv by (elim exE conjE) (rule that)
  have "fst (parse_response (sim_sent h')) = mem_words ?m 0x3F80 64 @ [0x100]"
    unfolding 1(2) by (simp add: request_def win)
  then show ?thesis unfolding w by (intro exI [of _ h'] conjI 1(1)) simp
qed

section \<open>Nothing to read\<close>

lemma fill_read_ecc: "fill_read k buf it I = (buf', it', I') \<Longrightarrow> iv_ecc I' = iv_ecc I \<and> iv_itag I' = iv_itag I"
  by (induction k buf it I rule: fill_read.induct) (auto split: if_splits)

text \<open>One double word over the ADU, into a buffer.\<close>

lemma adu_read_once:
  assumes hw: "reads_memory hwp memof SBE_MEM_ACCESS_ADU 8 S" and I: "reading_at SBE_MEM_ACCESS_ADU 8 I" "\<not> iv_ecc I" "\<not> iv_itag I"
    and k: "hwp_keeps hwp f" and S: "iv_addr I \<in> S"
  obtains buf' I' h' where "accessWithBuffer hwp buf 8 True I h = Some (FAPI2_RC_SUCCESS, buf', I', h')"
    "\<forall>j < 8. buf' j = memof h (iv_addr I + of_nat j)" "memof h' = memof h" "f h' = f h"
proof -
  define J where "J = I\<lparr> iv_iterator := 0 \<rparr>"
  have J: "reading_at SBE_MEM_ACCESS_ADU 8 J" "\<not> iv_ecc J" "\<not> iv_itag J" "iv_addr J = iv_addr I"
    using I by (simp_all add: J_def reading_at_def is_read_def)
  obtain I1 h1 where 1: "accessGranule hwp True J h = Some (FAPI2_RC_SUCCESS, I1, h1)" "reading_at SBE_MEM_ACCESS_ADU 8 I1"
    "\<forall>k < 8. iv_buffer I1 ! k = memof h (iv_addr J + of_nat k)" "iv_addr I1 = iv_addr J + of_nat 8"
    "iv_iterator I1 = 8" "iv_ecc I1 = iv_ecc J" "iv_itag I1 = iv_itag J" "memof h1 = memof h"
    by (rule accessGranule_read [OF hw J(1), of True h]) (use S J(4) in simp)
  obtain buf' it' I2 where fr: "fill_read 8 buf 0 I1 = (buf', it', I2)" by (cases "fill_read 8 buf 0 I1")
  have g: "iv_granuleSize I1 = 8" "is_read I1" using 1(2) by (simp_all add: reading_at_def)
  have c: "it' = 8" "\<forall>j < 8. buf' j = iv_buffer I1 ! j" using fill_read_copies [OF fr] 1(5) g(1) by simp_all
  have e: "\<not> iv_ecc I2" "\<not> iv_itag I2" using fill_read_ecc [OF fr] 1(6,7) J(2,3) by simp_all
  have r: "is_read I" "iv_granuleSize I = 8" using I(1) by (simp_all add: reading_at_def)
  have w: "write_phase buf 8 0 I = (0, I)" using r(1) by (simp add: write_phase_def)
  have l: "last_phase True 8 0 False I = (True, J)" using r by (simp add: last_phase_def J_def)
  have n: "needs_granule J" using J(1) by (simp add: needs_granule_def reading_at_def J_def)
  have rp: "read_phase buf 8 0 I1 = (buf', 8, I2)" using fr g(2) c(1) e by (simp add: read_phase_def)
  have "access_pass hwp 8 True False buf 0 I h = Some (True, FAPI2_RC_SUCCESS, True, buf', 8, I2, h1)"
    using 1(1) n rp by (simp add: access_pass_def w l)
  then have "accessWithBuffer hwp buf 8 True I h = Some (FAPI2_RC_SUCCESS, buf', I2, h1)"
    by (simp add: accessWithBuffer_def access_loop.simps)
  then show ?thesis using that c(2) 1(3,8) J(4) accessGranule_keeps [OF k 1(1)] by simp
qed

lemma be_read_byte:
  assumes "k < n" "8 * n \<le> LENGTH('w)"
  shows "ucast (drop_bit (8 * (n - 1 - k)) (be_read n d p :: 'w::len word)) = d (p + k)"
  using assms
proof (induction n)
  case (Suc n)
  let ?x = "be_read n d p :: 'w word"
  show ?case
  proof (cases "k = n")
    case True
    then show ?thesis using Suc.prems(2) by (intro bit_word_eqI) (auto simp: bit_simps)
  next
    case False
    then have k: "k < n" "8 * (Suc n - 1 - k) = 8 * (n - 1 - k) + 8" using Suc.prems(1) by auto
    have "ucast (drop_bit (8 * (Suc n - 1 - k)) (be_read (Suc n) d p :: 'w word)) = (ucast (drop_bit (8 * (n - 1 - k)) ?x) :: u8)"
      using Suc.prems(2) k by (intro bit_word_eqI) (auto simp: bit_simps dest: bit_imp_le_length)
    then show ?thesis using Suc.IH [OF k(1)] Suc.prems(2) by simp
  qed
qed simp

lemma shift_first_id: "shift_first id d = d"
  by (rule ext) (use be_read_byte [of _ 8 d 0, where 'w = 64] in \<open>simp add: shift_first_def be_bytes_def\<close>)

lemma aligned_offset:
  assumes "8 dvd unat a"
  shows "GET_8_BYTE_ALIGNED_OFFSET a = 0"
proof -
  have "a AND 7 = take_bit 3 a" by (simp add: take_bit_eq_mask mask_eq_exp_minus_1)
  moreover have "unat (take_bit 3 a) = take_bit 3 (unat a)" by (rule unsigned_take_bit_eq)
  moreover have "take_bit 3 (unat a) = 0" using assms by (simp add: take_bit_eq_mod)
  ultimately have "a AND 7 = 0" by (metis unat_eq_zero)
  then show ?thesis by (simp add: GET_8_BYTE_ALIGNED_OFFSET_def)
qed

text \<open>
  Property C11. A plain GetMem over the ADU (all flags zero) of length zero is not stopped. Zero passes
  for a power of two and a region of no bytes is allowed anywhere, so that the address is not checked
  whatever regions are open and whether or not security is on, while one double word is read: from an
  address that is aligned to eight bytes and that the ADU serves, the response carries four bytes of
  memory, announced as zero bytes, and a successful status.
\<close>

theorem adu_zero_length_unchecked:
  assumes p: "fifo_pair P up sent busy memof" and m: "message_at up h ws es rest" "length ws = 4" "words_of es = []"
    and q: "q = mem_hdr_of ((!) ws)" "mh_flags q = 0" "mh_len q = 0" "8 dvd unat (getAddr q)" and A: "env_ok A"
    and hw: "reads_memory (adu_hwp L (adu_flags q True)) memof SBE_MEM_ACCESS_ADU 8 S"
      "hwp_keeps (adu_hwp L (adu_flags q True)) (\<lambda>h. (up h, sent h))"
    and buf: "length (raw_buffer L) = 128" and S: "getAddr q \<in> S"
  shows "\<exists>h'. sbeGetMem_op P L A h = Some (0, A, h') \<and>
    parse_response (sent h') = (sent h @ mem_words (memof h) (getAddr q) 1 @ [0], init_resp_hdr (app_glob A))"
proof -
  have d: "fifo_drains P sent busy" and ke: "enq_keeps P (\<lambda>h. (up h, memof h))" using p by (auto simp: fifo_pair_def)
  let ?hdr = "init_resp_hdr (app_glob A)" and ?hwp = "adu_hwp L (adu_flags q True)"
  have ws: "length ws = unat (4 :: u32)" using m(2) by simp
  obtain b h1 where 1: "sbeUpFifoDeq_mult P 4 (Some (\<lambda>_. 0)) True False h = Some (0, 4, Some b, h1)"
    "\<forall>i < unat (4 :: u32). b i = ws ! i" "sent h1 = sent h" "memof h1 = memof h" "if True then up h1 = rest else body_at up h1 es rest"
    by (rule read_header [OF p m(1) ws m(3)])
  have hd: "mem_hdr_of b = q" using mem_hdr_of_words [of b ws] 1(2) q(1) by simp
  have nf: "mem_flag f q \<longleftrightarrow> False" if "f \<noteq> 0" for f using q(2) that by (simp add: mem_flag_def has_flag_def)
  have chk: "adu_checks q True ?hdr A = Some (True, ?hdr, A)"
    using q(3) by (simp add: adu_checks_def IS_ONE_BIT_SET_def isTrustedOp_def nf check_region_def isAccessAllowed_def access_check.simps)
  have fl: "\<not> af_ecc (adu_flags q True)" "\<not> af_itag (adu_flags q True)"
    by (simp_all add: adu_flags_def nf setADUOperationType_def Let_def new_p9_ADU_oper_flag_def)
  define I where "I = mem_interface_create SBE_MEM_ACCESS_ADU (getAddr q) (af_ecc (adu_flags q True)) (af_itag (adu_flags q True))
    SBE_MEM_ACCESS_READ ADU_GRAN_SIZE_BYTES (raw_buffer L)"
  have I: "reading_at SBE_MEM_ACCESS_ADU 8 I" "\<not> iv_ecc I" "\<not> iv_itag I" "iv_addr I = getAddr q"
    using buf q(4) fl by (simp_all add: I_def reading_at_def mem_interface_create_def is_read_def ADU_GRAN_SIZE_BYTES_def)
  obtain d1 I1 h2 where 2: "accessWithBuffer ?hwp (\<lambda>i. 0) 8 True I h1 = Some (FAPI2_RC_SUCCESS, d1, I1, h2)"
    "\<forall>j < 8. d1 j = memof h1 (iv_addr I + of_nat j)" "memof h2 = memof h1" "(up h2, sent h2) = (up h1, sent h1)"
    by (rule adu_read_once [OF hw(1) I(1-3) hw(2)]) (use S I(4) in simp)
  obtain h3 where 3: "sbeDownFifoEnq_mult P 1 (word_view d1) h2 = Some (0, 1, h3)" "sent h3 = sent h2 @ map (word_view d1) [0..<1]"
    using enq_mult_sends [OF d, of 1 "word_view d1" h2] by auto
  have k3: "up h3 = up h2 \<and> memof h3 = memof h2" using enq_mult_keeps [OF ke 3(1)] by simp
  have "word_view d1 0 = word_view (\<lambda>k. memof h (getAddr q + of_nat k)) 0"
    by (rule word_view_cong) (use 2(2) 1(4) I(4) in simp)
  then have w: "sent h3 = sent h @ mem_words (memof h) (getAddr q) 1" using 3(2) 2(4) 1(3) by (simp add: mem_words_def)
  have "adu_granule P ?hwp q True 1 True 0 (getAddr q) (\<lambda>_. 0) I h1 = Some (0, FAPI2_RC_SUCCESS, d1, I1, h3)"
    using 2(1) 3(1) by (simp add: adu_granule_def nf adu_bufIdx_def adu_send_len_def aligned_offset [OF q(4)] shift_first_id
        ADU_GRAN_SIZE_BYTES_def Let_def)
  then have lp: "adu_loop P ?hwp q True 1 0 (Suc 0) 0 (getAddr q) (\<lambda>_. 0) I h1 = Some (0, FAPI2_RC_SUCCESS, 1, h3)"
    by simp
  have u: "if True then up h3 = rest else body_at up h3 es rest" using 1(5) 2(4) k3 by simp
  obtain h4 where 4: "mem_respond P True 0 0 ?hdr new_sbeResponseFfdc A h3 = Some (0, h4)"
    "parse_response (sent h4) = (sent h3 @ [0], ?hdr)" "up h4 = rest" "memof h4 = memof h3"
    by (rule respond_parses [OF p A u, of ?hdr]) (use m(3) in simp_all)
  have cnt: "unat (getDataLenCacheAlign q) = 1" using q(3) by (simp add: getDataLenCacheAlign_def nf)
  have sz: "adu_sizes q = (1, 0)" using q(3) by (simp add: adu_sizes_def IS_ONE_BIT_SET_def)
  have "processAduRequest P L q True A h1 = Some (0, A, h4)"
    unfolding processAduRequest_def Let_def using chk lp 4(1)
    by (simp add: sz cnt I_def [symmetric] note_failure_def sbeAduLenInUpStreamFifo_def nf del: adu_loop.simps)
  then have "sbeGetMem_op P L A h = Some (0, A, h4)"
    using 1(1) hd by (simp add: sbeGetMem_op_def sbeMemAccess_Wrap_def nf)
  then show ?thesis using 4(2) w by simp
qed

text \<open>Security is on and only \<open>0x1000\<close> to \<open>0x11FF\<close> is open; the four bytes at \<open>0x9000\<close> are sent.\<close>

abbreviation "zero_req \<equiv> [0, 0, 0x9000, 0] :: u32 list"

lemma zero_request:
  "mh_flags (mem_hdr_of ((!) zero_req)) = 0" "mh_len (mem_hdr_of ((!) zero_req)) = 0"
  "getAddr (mem_hdr_of ((!) zero_req)) = 0x9000"
  by (simp_all add: mem_hdr_of_def getAddr_def words64_def bf_get_def)

theorem adu_zero_length_unchecked_witness:
  "\<exists>h'. sbeGetMem_op mem_sim_pib mem_sim_plat sample_app (request zero_req, \<lambda>_. 0x77) = Some (0, sample_app, h') \<and>
    fst (parse_response (sim_sent h')) = [0x77777777, 0] \<and> sbeFWSecurityEnabled (app_glob sample_app)"
proof -
  have m: "message_at sim_up (request zero_req, \<lambda>_. 0x77) zero_req (map entry_of []) []"
    using sim_message [of zero_req "[]" "\<lambda>_. 0x77"] by simp
  have f: "length zero_req = 4" "words_of (map entry_of []) = []" "8 dvd unat (getAddr (mem_hdr_of ((!) zero_req)))"
    by (simp_all add: zero_request)
  have hw: "reads_memory (adu_hwp mem_sim_plat (adu_flags (mem_hdr_of ((!) zero_req)) True)) snd SBE_MEM_ACCESS_ADU 8 fabric_range"
    "hwp_keeps (adu_hwp mem_sim_plat (adu_flags (mem_hdr_of ((!) zero_req)) True)) (\<lambda>h. (sim_up h, sim_sent h))"
    by (simp_all add: mem_sim_plat_def mem_sim_reads mem_sim_keeps)
  have S: "getAddr (mem_hdr_of ((!) zero_req)) \<in> fabric_range" by (simp add: zero_request fabric_range_def P9_FBC_UTILS_FBC_MAX_ADDRESS_def push_bit_eq_mult)
  have w: "mem_words (\<lambda>_. 0x77) 0x9000 1 = [0x77777777]" by code_simp
  obtain h' where 1: "sbeGetMem_op mem_sim_pib mem_sim_plat sample_app (request zero_req, \<lambda>_. 0x77) = Some (0, sample_app, h')"
    "parse_response (sim_sent h') = (sim_sent (request zero_req, \<lambda>_. 0x77) @ mem_words (\<lambda>_. 0x77) 0x9000 1 @ [0],
      init_resp_hdr (app_glob sample_app))"
    using adu_zero_length_unchecked [OF mem_sim_pair m f(1,2) refl zero_request(1,2) f(3) sample_app_facts(1) hw sample_app_facts(3) S]
    unfolding snd_conv zero_request(3) by (elim exE conjE) (rule that)
  have "fst (parse_response (sim_sent h')) = [0x77777777, 0]" unfolding 1(2) w by (simp add: request_def)
  then show ?thesis using 1(1) sample_app_facts(2) by blast
qed

section \<open>Requests of the host\<close>

text \<open>
  What the operations rely on of the mailbox: the registers of the request, from the second one on, are
  read without an error and hold \<open>r\<close>, which touches no memory, and the answer can be written.
\<close>

definition mailbox_reads :: "'h pib \<Rightarrow> ('h \<Rightarrow> u64 \<Rightarrow> u8) \<Rightarrow> (nat \<Rightarrow> u64) \<Rightarrow> bool" where
  "mailbox_reads P memof r \<longleftrightarrow>
     (\<forall>k < 3. \<forall>h. \<exists>h'. getscom_abs P (SBE_HOST_PSU_MBOX_REG1 + of_nat k) h = (0, r k, h') \<and> memof h' = memof h)"

lemma mbx_read_values:
  assumes "mailbox_reads P memof r"
  shows "n + k \<le> 3 \<Longrightarrow> \<exists>b' h'. mbx_read P n (SBE_HOST_PSU_MBOX_REG1 + of_nat k) k b h = (0, b', h') \<and> memof h' = memof h \<and>
    (\<forall>i. b' i = (if k \<le> i \<and> i < k + n then r i else b i))"
proof (induction n arbitrary: k b h)
  case (Suc n)
  obtain h1 where 1: "getscom_abs P (SBE_HOST_PSU_MBOX_REG1 + of_nat k) h = (0, r k, h1)" "memof h1 = memof h"
    using assms [unfolded mailbox_reads_def, rule_format, of k h] Suc.prems by auto
  have a: "SBE_HOST_PSU_MBOX_REG1 + of_nat k + 1 = SBE_HOST_PSU_MBOX_REG1 + of_nat (Suc k)" by simp
  obtain b' h' where 2: "mbx_read P n (SBE_HOST_PSU_MBOX_REG1 + of_nat (Suc k)) (Suc k) (b(k := r k)) h1 = (0, b', h')"
    "memof h' = memof h1" "\<forall>i. b' i = (if Suc k \<le> i \<and> i < Suc k + n then r i else (b(k := r k)) i)"
  proof -
    have "n + Suc k \<le> 3" using Suc.prems by simp
    from Suc.IH [OF this, of "b(k := r k)" h1] show ?thesis by (elim exE conjE) (rule that)
  qed
  have "mbx_read P (Suc n) (SBE_HOST_PSU_MBOX_REG1 + of_nat k) k b h = (0, b', h')"
    using 1(1) 2(1) unfolding mbx_read.simps Let_def a by simp
  then show ?case using 1(2) 2(2,3) by (intro exI [of _ b'] exI [of _ h']) auto
qed auto

lemma read_host_request:
  assumes "mailbox_reads P memof r" "mailbox_writes P memof mbox" "0 < n" "n \<le> 3"
  obtains req h' where "sbeReadPsu2SbeMbxReg P G SBE_HOST_PSU_MBOX_REG1 n (\<lambda>_. 0) True h = Some (0, req, h')"
    "\<forall>i < unat n. req i = r i" "memof h' = memof h"
proof -
  have n: "unat n \<le> 3" "n \<in> {1, 2, 3}"
  proof -
    show u: "unat n \<le> 3" using assms(4) by (simp add: word_le_nat_alt)
    have "unat n \<noteq> 0" using assms(3) by (simp add: unat_gt_0 word_gt_0)
    then have "unat n = 1 \<or> unat n = 2 \<or> unat n = 3" using u by auto
    then show "n \<in> {1, 2, 3}" by (auto simp: word_unat_eq_iff)
  qed
  obtain req h1 where 1: "mbx_read P (unat n) SBE_HOST_PSU_MBOX_REG1 0 (\<lambda>_. 0) h = (0, req, h1)" "memof h1 = memof h"
    "\<forall>i. req i = (if 0 \<le> i \<and> i < 0 + unat n then r i else 0)"
    using mbx_read_values [OF assms(1), of "unat n" 0 "\<lambda>_. 0" h] n(1) by auto
  obtain h' where "putscom_abs P SBE_PSU2HOST_DOORBELL_REG_OR SBE_SBE2PSU_DOORBELL_SET_BIT1 h1 = (0, h')" "memof h' = memof h1"
    using assms(2) unfolding mailbox_writes_def by blast
  then obtain h3 where 3: "sbeAcknowledgeHost P G h1 = (0, h3)" "memof h3 = memof h1"
    by (cases "has_flag (pq_flags (sbePsu2SbeCmdReqHdr G)) SBE_PSU_FLAGS_ACK_REQUIRED")
      (simp_all add: sbeAcknowledgeHost_def sbeSetSbe2PsuDbBitX_def)
  have "n > 0 \<and> SBE_HOST_PSU_MBOX_REG0 \<le> SBE_HOST_PSU_MBOX_REG1 \<and> SBE_HOST_PSU_MBOX_REG3 \<ge> SBE_HOST_PSU_MBOX_REG1 + ucast n - 1"
    using n(2) by auto
  then show ?thesis
    by (intro that [of req h3]) (use 1 3 in \<open>simp_all add: sbeReadPsu2SbeMbxReg_def\<close>)
qed

text \<open>
  The PBA takes \<open>n\<close> bytes of the host at \<open>a\<close>. What an answer needs when no procedure failed: with a failure
  status the internal FFDC goes to the host as well.
\<close>

definition host_serves :: "'h mem_plat \<Rightarrow> ('h \<Rightarrow> u64 \<Rightarrow> u8) \<Rightarrow> u64 \<Rightarrow> nat \<Rightarrow> bool" where
  "host_serves L memof a n \<longleftrightarrow> (\<exists>S. writes_memory (inj_hwp L) memof SBE_MEM_ACCESS_PBA 128 S \<and> serves 128 S a n)"

definition can_answer :: "'h pib \<Rightarrow> 'h mem_plat \<Rightarrow> ('h \<Rightarrow> u64 \<Rightarrow> u8) \<Rightarrow> ('h \<Rightarrow> u64) \<Rightarrow> sbe_app \<Rightarrow> bool" where
  "can_answer P L memof mbox A \<longleftrightarrow>
     host_serves L memof (ha_addr (hostFFDCAddr A)) (unat (ha_size (hostFFDCAddr A))) \<and> mailbox_writes P memof mbox \<and>
     length (raw_buffer L) = 128 \<and> 128 dvd unat (ha_addr (hostFFDCAddr A)) \<and> blobs_ok (g_env (app_glob A))"

lemma psu_respond:
  assumes "can_answer P L memof mbox A"
  shows "\<exists>h'. sbePSUSendResponse P L A FAPI2_RC_SUCCESS 0 h = Some (0, A, h') \<and>
    mbox h' = psu_resp_word (sbeSbe2PsuRespHdr (app_glob A)) \<and>
    (pr_primStatus (sbeSbe2PsuRespHdr (app_glob A)) = 0 \<longrightarrow> pr_secStatus (sbeSbe2PsuRespHdr (app_glob A)) = 0 \<longrightarrow> memof h' = memof h)"
proof -
  obtain S where hw: "writes_memory (inj_hwp L) memof SBE_MEM_ACCESS_PBA 128 S"
    and S: "serves 128 S (ha_addr (hostFFDCAddr A)) (unat (ha_size (hostFFDCAddr A)))"
    using assms by (auto simp: can_answer_def host_serves_def)
  have mb: "mailbox_writes P memof mbox"
    and buf: "length (raw_buffer L) = 128" "128 dvd unat (ha_addr (hostFFDCAddr A))" and E: "blobs_ok (g_env (app_glob A))"
    using assms by (simp_all add: can_answer_def)
  let ?I = "mem_interface_create SBE_MEM_ACCESS_PBA (ha_addr (hostFFDCAddr A)) False False SBE_MEM_ACCESS_WRITE
    PBA_GRAN_SIZE_BYTES (raw_buffer L)" and ?E = "g_env (app_glob A)" and ?s = "ha_size (hostFFDCAddr A)"
  have "unat ?s < 2 ^ 32" using unsigned_less [of ?s] by simp
  then have sz: "area_ok 128 S (ha_addr (hostFFDCAddr A)) (unat ?s)" using S by (simp add: area_ok_def)
  obtain I1 h1 where 1: "sendOverHostIntf (inj_hwp L) ?E SBE_FFDC_ALL_DUMP ?s False (?I, h) = Some (0, I1, h1)"
  proof (cases "isSendInternalFFDCSet (regAccess ?E)")
    case True
    have "\<exists>st'. sendOverHostIntf (inj_hwp L) ?E SBE_FFDC_ALL_DUMP ?s False (?I, h) = Some (0, st')"
      using send_package_stream [OF hw sz area_at_start [OF buf, where memof = memof and h = h and avail = ?s] E True] by blast
    then show ?thesis using that by auto
  next
    case False
    then show ?thesis using that by (simp add: sendOverHostIntf_def)
  qed
  let ?int = "pr_primStatus (sbeSbe2PsuRespHdr (app_glob A)) \<noteq> 0 \<or> pr_secStatus (sbeSbe2PsuRespHdr (app_glob A)) \<noteq> 0"
  obtain I2 h2 where 2: "(if ?int then sendOverHostIntf (inj_hwp L) ?E SBE_FFDC_ALL_DUMP ?s False (?I, h) else Some (0, ?I, h)) =
      Some (0, I2, h2)" using 1 by (cases ?int) simp_all
  obtain h3 where 3: "write_psu_resp P (app_glob A) h2 = Some (0, h3)" "mbox h3 = psu_resp_word (sbeSbe2PsuRespHdr (app_glob A))"
    "memof h3 = memof h2"
    using write_psu_resp_returns [OF mb] by blast
  have "sbePSUSendResponse P L A FAPI2_RC_SUCCESS 0 h = Some (0, A, h3)"
  proof (cases ?int)
    case True
    then show ?thesis using 1 2 3(1) by (simp add: sbePSUSendResponse_def Let_def)
  next
    case False
    then show ?thesis using 2 3(1) by (simp add: sbePSUSendResponse_def Let_def)
  qed
  moreover have "memof h2 = memof h" if "\<not> ?int" using 2 that by simp
  ultimately show ?thesis using 3(2,3) by auto
qed

text \<open>What the request of the host does to the regions, and its answer.\<close>

definition region_asked :: "u16 \<Rightarrow> (nat \<Rightarrow> u64) \<Rightarrow> secureMemRegion_t" where
  "region_asked mode r = \<lparr> reg_start = r 1, reg_size = low_word (r 0),
     reg_mode = (if mode = SBE_MEM_REGION_OPEN_RO then MEM_REGION_READ else MEM_REGION_READ OR MEM_REGION_WRITE) \<rparr>"

lemma region_request_runs:
  assumes rd: "mailbox_reads P memof r" and an: "can_answer P L memof mbox A"
    and st: "pr_primStatus (sbeSbe2PsuRespHdr (app_glob A)) = 0" "pr_secStatus (sbeSbe2PsuRespHdr (app_glob A)) = 0"
    and u: "update_regions (pq_flags (sbePsu2SbeCmdReqHdr (app_glob A)) AND 0x00FF) (r 1) (low_word (r 0)) A = (rc, A1)"
  shows "\<exists>A' h'. sbeUpdateMemAccessRegion_op P L A h = Some (0, A', h') \<and> mainStoreMgr A' = mainStoreMgr A1 \<and>
    mbox h' = psu_resp_word ((sbeSbe2PsuRespHdr (app_glob A))
      \<lparr> pr_primStatus := (if rc = 0 then 0 else ucast SBE_PRI_USER_ERROR), pr_secStatus := ucast rc \<rparr>)"
proof -
  have mb: "mailbox_writes P memof mbox" using an by (simp add: can_answer_def)
  obtain req h1 where 1: "sbeReadPsu2SbeMbxReg P (app_glob A) SBE_HOST_PSU_MBOX_REG1 2 (\<lambda>_. 0) True h = Some (0, req, h1)"
    "\<forall>i < unat (2 :: u8). req i = r i"
    by (rule read_host_request [OF rd mb, of 2]) simp_all
  define A2 where "A2 = (if rc \<noteq> 0 then upd_glob (set_psu_status SBE_PRI_USER_ERROR rc) A1 else A1)"
  have same: "app_glob A1 = app_glob A" "hostFFDCAddr A1 = hostFFDCAddr A"
    using u by (auto simp: update_regions_def split: prod.splits)
  then have "can_answer P L memof mbox A2" using an by (simp add: can_answer_def A2_def upd_glob_def blobs_ok_def)
  from psu_respond [OF this] obtain h2 where 2: "sbePSUSendResponse P L A2 FAPI2_RC_SUCCESS 0 h1 = Some (0, A2, h2)"
    "mbox h2 = psu_resp_word (sbeSbe2PsuRespHdr (app_glob A2))" by blast
  have op: "sbeUpdateMemAccessRegion_op P L A h = Some (0, A2, h2)"
    using 1 2(1) u by (simp add: sbeUpdateMemAccessRegion_op_def A2_def)
  have "mainStoreMgr A2 = mainStoreMgr A1" by (simp add: A2_def upd_glob_def)
  moreover have "sbeSbe2PsuRespHdr (app_glob A2) = (sbeSbe2PsuRespHdr (app_glob A))
      \<lparr> pr_primStatus := (if rc = 0 then 0 else ucast SBE_PRI_USER_ERROR), pr_secStatus := ucast rc \<rparr>"
    using st same(1) by (cases "sbeSbe2PsuRespHdr (app_glob A)")
      (simp add: A2_def upd_glob_def set_psu_status_def record_failure_def Let_def)
  ultimately show ?thesis using op 2(2) by (intro exI [of _ A2] exI [of _ h2]) simp
qed

text \<open>
  The abstract view: a request changes the relation \<open>permitted\<close> between kinds of access and addresses, or is
  turned down and changes nothing.
\<close>

definition request_fits :: "SBESecureMemRegionManager \<Rightarrow> u16 \<Rightarrow> secureMemRegion_t \<Rightarrow> bool" where
  "request_fits M mode r \<longleftrightarrow>
     (if mode = SBE_MEM_REGION_CLOSE then \<exists>s \<in> set (open_regions M). reg_start s = reg_start r
      else (\<forall>s \<in> set (open_regions M). disjoint_regions r s) \<and> iv_regionsOpenCnt M < iv_maxRegions M)"

definition permitted_after :: "SBESecureMemRegionManager \<Rightarrow> u16 \<Rightarrow> secureMemRegion_t \<Rightarrow> u32 \<Rightarrow> nat \<Rightarrow> bool" where
  "permitted_after M mode r m x \<longleftrightarrow>
     (if mode = SBE_MEM_REGION_CLOSE
      then permitted M m x \<and> (\<forall>s \<in> set (open_regions M). reg_start s = reg_start r \<longrightarrow> \<not> covers s x)
      else permitted M m x \<or> covers r x \<and> m AND reg_mode r \<noteq> 0)"

lemma close_permitted:
  assumes "manager_inv M" "open_regions M = xs @ s # ys" "reg_start s = a" "open_regions M' = xs @ ys"
  shows "permitted M' m x \<longleftrightarrow> permitted M m x \<and> (\<forall>t \<in> set (open_regions M). reg_start t = a \<longrightarrow> \<not> covers t x)"
proof -
  have dj: "\<forall>t \<in> set (xs @ ys). disjoint_regions t s \<and> region_ok t" "region_ok s"
    using assms(1,2) by (auto simp: manager_inv_def sorted_wrt_append disjoint_regions_sym [of s])
  have ne: "reg_start t \<noteq> a \<and> \<not> (covers t x \<and> covers s x)" if t: "t \<in> set (xs @ ys)" for t x
  proof -
    have d: "disjoint_regions t s" "region_ok t" using dj(1) t by blast+
    have "covers t (unat a)" if "reg_start t = a" using d(2) that by (simp add: covers_def region_ok_def)
    moreover have "covers s (unat a)" using dj(2) assms(3) by (simp add: covers_def region_ok_def)
    ultimately show ?thesis using d(1) unfolding disjoint_regions_def by blast
  qed
  have one: "(\<forall>t \<in> set (open_regions M). reg_start t = a \<longrightarrow> \<not> covers t x) \<longleftrightarrow> \<not> covers s x"
    using ne assms(2,3) by auto
  show ?thesis unfolding one unfolding permitted_def using assms(2,4) ne by auto
qed

lemma update_regions_effect:
  assumes M: "manager_inv (mainStoreMgr A)" and mode: "mode \<in> {SBE_MEM_REGION_OPEN_RO, SBE_MEM_REGION_OPEN_RW, SBE_MEM_REGION_CLOSE}"
    and r: "r = region_asked mode req" "mode \<noteq> SBE_MEM_REGION_CLOSE \<Longrightarrow> region_ok r"
    and u: "update_regions mode (req 1) (low_word (req 0)) A = (rc, A1)"
  shows "manager_inv (mainStoreMgr A1) \<and> (rc = 0 \<longleftrightarrow> request_fits (mainStoreMgr A) mode r) \<and>
    (if rc = 0 then \<forall>m x. permitted (mainStoreMgr A1) m x \<longleftrightarrow> permitted_after (mainStoreMgr A) mode r m x
     else mainStoreMgr A1 = mainStoreMgr A)"
proof (cases "mode = SBE_MEM_REGION_CLOSE")
  case True
  obtain c M' where rm: "region_remove (req 1) (mainStoreMgr A) = (c, M')" by (cases "region_remove (req 1) (mainStoreMgr A)")
  then have a: "rc = sec_code c" "mainStoreMgr A1 = M'" using u True by (auto simp: update_regions_def)
  note k = region_remove_correct [OF M rm]
  have sc: "sec_code c = 0 \<longleftrightarrow> c = sbeSecondaryResponse.SBE_SEC_OPERATION_SUCCESSFUL" by (cases c) simp_all
  show ?thesis
  proof (cases "c = sbeSecondaryResponse.SBE_SEC_OPERATION_SUCCESSFUL")
    case ok: True
    then obtain xs s ys where o: "open_regions (mainStoreMgr A) = xs @ s # ys" "reg_start s = req 1" "open_regions M' = xs @ ys"
      using k by blast
    have "permitted M' m x \<longleftrightarrow> permitted_after (mainStoreMgr A) mode r m x" for m x
      using close_permitted [OF M o] True by (simp add: permitted_after_def r(1) region_asked_def)
    then show ?thesis using k a ok True sc by (simp add: request_fits_def r(1) region_asked_def)
  next
    case False
    then show ?thesis using k a True sc M by (simp add: request_fits_def r(1) region_asked_def)
  qed
next
  case False
  then have md: "region_mode mode \<noteq> 0" using mode by (auto simp: region_mode_def)
  obtain c M' where ad: "region_add (req 1) (low_word (req 0)) (region_mode mode) (mainStoreMgr A) = (c, M')"
    by (cases "region_add (req 1) (low_word (req 0)) (region_mode mode) (mainStoreMgr A)")
  then have a: "rc = sec_code c" "mainStoreMgr A1 = M'" using u False by (auto simp: update_regions_def)
  have rr: "\<lparr> reg_start = req 1, reg_size = low_word (req 0), reg_mode = ucast (region_mode mode) \<rparr> = r"
    using mode False by (auto simp: r(1) region_asked_def region_mode_def MEM_REGION_READ_def MEM_REGION_WRITE_def)
  note k = region_add_correct [OF M md _ ad, unfolded rr, OF r(2) [OF False]]
  note cs = region_add_cases [OF M _ md, of "req 1" "low_word (req 0)", unfolded rr ad, OF r(2) [OF False]]
  have sc: "sec_code c = 0 \<longleftrightarrow> c = sbeSecondaryResponse.SBE_SEC_OPERATION_SUCCESSFUL" by (cases c) simp_all
  have le: "iv_regionsOpenCnt (mainStoreMgr A) \<le> iv_maxRegions (mainStoreMgr A)" using M by (simp add: manager_inv_def)
  have fit: "c = sbeSecondaryResponse.SBE_SEC_OPERATION_SUCCESSFUL \<longleftrightarrow> request_fits (mainStoreMgr A) mode r"
    using cs le False by (auto simp: request_fits_def split: if_splits)
  have "permitted M' m x \<longleftrightarrow> permitted_after (mainStoreMgr A) mode r m x"
    if "open_regions M' = open_regions (mainStoreMgr A) @ [r]" for m x
    using that False by (auto simp: permitted_def permitted_after_def)
  then show ?thesis using k a sc fit by auto
qed

text \<open>
  Property C10. A request of the host to close a region, or to open one for reading or for reading and
  writing, has exactly its effect on what may be accessed. The mode is one of these three, a region to
  open is well formed (not empty, shorter than \<open>2 ^ 31\<close> bytes, its end below \<open>2 ^ 64\<close>), so are the open
  regions, which are disjoint; the status of the response starts clean, and the PBA serves the host's memory
  for FFDC. When the request fits, the open region adds its bytes with its mode and closing takes away the
  bytes of the region that starts at the address, nothing else changes, and the host reads success;
  otherwise the regions stay as they are and the host reads a user error. The open regions stay
  well formed and disjoint.
\<close>

theorem host_region_request:
  assumes "mailbox_reads P memof req" "can_answer P L memof mbox A" "manager_inv (mainStoreMgr A)"
    and "pr_primStatus (sbeSbe2PsuRespHdr (app_glob A)) = 0" "pr_secStatus (sbeSbe2PsuRespHdr (app_glob A)) = 0"
    and "mode = pq_flags (sbePsu2SbeCmdReqHdr (app_glob A)) AND 0x00FF"
      "mode \<in> {SBE_MEM_REGION_OPEN_RO, SBE_MEM_REGION_OPEN_RW, SBE_MEM_REGION_CLOSE}"
    and "r = region_asked mode req" "mode \<noteq> SBE_MEM_REGION_CLOSE \<Longrightarrow> region_ok r"
  shows "\<exists>A' h' prim sec. sbeUpdateMemAccessRegion_op P L A h = Some (0, A', h') \<and> manager_inv (mainStoreMgr A') \<and>
    mbox h' = psu_resp_word ((sbeSbe2PsuRespHdr (app_glob A))\<lparr> pr_primStatus := prim, pr_secStatus := sec \<rparr>) \<and>
    (if request_fits (mainStoreMgr A) mode r
     then prim = 0 \<and> sec = 0 \<and> (\<forall>m x. permitted (mainStoreMgr A') m x \<longleftrightarrow> permitted_after (mainStoreMgr A) mode r m x)
     else prim = ucast SBE_PRI_USER_ERROR \<and> mainStoreMgr A' = mainStoreMgr A)"
proof -
  obtain rc A1 where u: "update_regions mode (req 1) (low_word (req 0)) A = (rc, A1)" by (cases "update_regions mode (req 1) (low_word (req 0)) A")
  obtain A' h' where 1: "sbeUpdateMemAccessRegion_op P L A h = Some (0, A', h')" "mainStoreMgr A' = mainStoreMgr A1"
    "mbox h' = psu_resp_word ((sbeSbe2PsuRespHdr (app_glob A))
      \<lparr> pr_primStatus := (if rc = 0 then 0 else ucast SBE_PRI_USER_ERROR), pr_secStatus := ucast rc \<rparr>)"
    using region_request_runs [OF assms(1,2,4,5) u [unfolded assms(6)], of h] by blast
  have e: "manager_inv (mainStoreMgr A1)" "rc = 0 \<longleftrightarrow> request_fits (mainStoreMgr A) mode r"
    "if rc = 0 then \<forall>m x. permitted (mainStoreMgr A1) m x \<longleftrightarrow> permitted_after (mainStoreMgr A) mode r m x
     else mainStoreMgr A1 = mainStoreMgr A"
    using update_regions_effect [OF assms(3,7,8,9) u] by blast+
  show ?thesis
    by (rule exI [of _ A'], rule exI [of _ h'], rule exI [of _ "if rc = 0 then 0 else ucast SBE_PRI_USER_ERROR"],
        rule exI [of _ "ucast rc"]) (use 1 e in auto)
qed

text \<open>A mailbox with a request for \<open>0x100\<close> bytes at \<open>0x3000\<close>, read-only.\<close>

definition host_pib :: "u64 list \<Rightarrow> mem_sim pib" where
  "host_pib rs = mem_sim_pib\<lparr> getscom_abs := (\<lambda>a h. if SBE_HOST_PSU_MBOX_REG1 \<le> a \<and> a \<le> SBE_HOST_PSU_MBOX_REG3
     then (0, rs ! unat (a - SBE_HOST_PSU_MBOX_REG1), h) else getscom_abs mem_sim_pib a h) \<rparr>"

definition host_app :: "u16 \<Rightarrow> sbe_app" where
  "host_app flags = sample_app\<lparr> app_glob := (app_glob sample_app)
     \<lparr> sbePsu2SbeCmdReqHdr := (sbePsu2SbeCmdReqHdr (app_glob sample_app))\<lparr> pq_flags := flags \<rparr> \<rparr> \<rparr>"

lemma host_serves_sim: "unat a + n \<le> 2 ^ 56 \<Longrightarrow> host_serves mem_sim_plat snd a n"
  using mem_sim_writes serves_fabric unfolding host_serves_def mem_sim_plat_def by (intro exI [of _ fabric_range]) simp

lemma host_pib_facts:
  "mailbox_reads (host_pib rs) snd ((!) rs)" "can_answer (host_pib rs) mem_sim_plat snd (\<lambda>h. snd (fst h) SBE_HOST_PSU_MBOX_REG4) (host_app flags)"
proof -
  show "mailbox_reads (host_pib rs) snd ((!) rs)" 
    unfolding mailbox_reads_def
  proof (intro allI impI)
    fix k :: nat and h :: mem_sim
    assume "k < 3"
    then have "k = 0 \<or> k = 1 \<or> k = 2" by auto
    then show "\<exists>h'. getscom_abs (host_pib rs) (SBE_HOST_PSU_MBOX_REG1 + of_nat k) h = (0, rs ! k, h') \<and> snd h' = snd h"
      by (intro exI [of _ h]) (auto simp: host_pib_def)
  qed
  have "mailbox_writes (host_pib rs) snd (\<lambda>h. snd (fst h) SBE_HOST_PSU_MBOX_REG4)"
    using mem_sim_mailbox by (simp add: mailbox_writes_def host_pib_def)
  moreover have "host_serves mem_sim_plat snd (ha_addr (hostFFDCAddr (host_app flags))) (unat (ha_size (hostFFDCAddr (host_app flags))))"
    by (rule host_serves_sim) (simp add: host_app_def sample_app_def)
  ultimately show "can_answer (host_pib rs) mem_sim_plat snd (\<lambda>h. snd (fst h) SBE_HOST_PSU_MBOX_REG4) (host_app flags)"
    by (simp add: can_answer_def mem_sim_plat_def host_app_def sample_app_def secure_glob_def blobs_ok_def
        sample_env_def)
qed

theorem host_region_request_witness:
  "\<exists>A' h'. sbeUpdateMemAccessRegion_op (host_pib [0x100, 0x3000, 0]) mem_sim_plat (host_app 0x0111) (request [], \<lambda>_. 0) = Some (0, A', h') \<and>
    permitted (mainStoreMgr A') MEM_REGION_READ 0x3000 \<and> \<not> permitted (mainStoreMgr A') MEM_REGION_WRITE 0x3000 \<and>
    permitted (mainStoreMgr A') MEM_REGION_WRITE 0x1000"
proof -
  let ?A = "host_app 0x0111"
  let ?r = "region_asked (pq_flags (sbePsu2SbeCmdReqHdr (app_glob ?A)) AND 0x00FF) ((!) [0x100, 0x3000, 0])"
  have same: "mainStoreMgr ?A = mainStoreMgr sample_app" by (simp add: host_app_def)
  have st: "pr_primStatus (sbeSbe2PsuRespHdr (app_glob ?A)) = 0" "pr_secStatus (sbeSbe2PsuRespHdr (app_glob ?A)) = 0"
    "pq_flags (sbePsu2SbeCmdReqHdr (app_glob ?A)) AND 0x00FF = SBE_MEM_REGION_OPEN_RO"
    by (simp_all add: host_app_def sample_app_def secure_glob_def)
  have lw: "low_word 0x100 = 0x100" by code_simp
  have r: "?r = \<lparr> reg_start = 0x3000, reg_size = 0x100, reg_mode = 1 \<rparr>"
    unfolding st(3) by (simp add: region_asked_def lw MEM_REGION_READ_def)
  have ok: "region_ok ?r" unfolding r by (simp add: region_ok_def)
  have fits: "request_fits (mainStoreMgr ?A) SBE_MEM_REGION_OPEN_RO ?r"
    unfolding r same using sample_region by (auto simp: request_fits_def disjoint_regions_def covers_def)
      (simp_all add: sample_app_def mainStoreSecMemRegionManager_def region_add_def Let_def)
  have in3: "pq_flags (sbePsu2SbeCmdReqHdr (app_glob ?A)) AND 0x00FF \<in> {SBE_MEM_REGION_OPEN_RO, SBE_MEM_REGION_OPEN_RW, SBE_MEM_REGION_CLOSE}"
    unfolding st(3) by simp
  have M: "manager_inv (mainStoreMgr ?A)" unfolding same by (rule sample_manager)
  obtain A' h' where 1: "sbeUpdateMemAccessRegion_op (host_pib [0x100, 0x3000, 0]) mem_sim_plat ?A (request [], \<lambda>_. 0) = Some (0, A', h')"
    "if request_fits (mainStoreMgr ?A) SBE_MEM_REGION_OPEN_RO ?r
     then \<forall>m x. permitted (mainStoreMgr A') m x \<longleftrightarrow> permitted_after (mainStoreMgr ?A) SBE_MEM_REGION_OPEN_RO ?r m x
     else mainStoreMgr A' = mainStoreMgr ?A"
    using host_region_request [OF host_pib_facts(1) host_pib_facts(2) M st(1,2) refl in3 refl ok, of "(request [], \<lambda>_. 0)"]
    unfolding st(3) by (auto split: if_splits)
  have "permitted (mainStoreMgr A') m x \<longleftrightarrow> permitted_after (mainStoreMgr ?A) SBE_MEM_REGION_OPEN_RO ?r m x" for m x
    using 1(2) fits by simp
  then show ?thesis
    using 1(1) unfolding r same
    by (intro exI [of _ A'] exI [of _ h'])
      (simp add: permitted_after_def permitted_def sample_region covers_def MEM_REGION_READ_def MEM_REGION_WRITE_def)
qed

text \<open>
  Property C20. A request with a mode the code does not know is accepted: it opens a region that grants
  nothing. Afterwards the same range can be opened for reading and writing, again with success, and
  still no access that starts there is allowed, since the search stops at the region without a
  mode.
\<close>

theorem region_mode_shadow:
  assumes M: "iv_regionsOpenCnt (mainStoreMgr A) = 0" "length (iv_memRegions (mainStoreMgr A)) = iv_maxRegions (mainStoreMgr A)"
      "2 \<le> iv_maxRegions (mainStoreMgr A)"
    and mode: "mode \<notin> {SBE_MEM_REGION_OPEN_RO, SBE_MEM_REGION_OPEN_RW, SBE_MEM_REGION_CLOSE}"
    and sz: "unat a + unat sz < 2 ^ 64" "unat sz < 2 ^ 31" "0 < len" "len \<le> sz" and sec: "sbeFWSecurityEnabled (app_glob A)"
    and u: "update_regions mode a sz A = (rc1, A1)" "update_regions SBE_MEM_REGION_OPEN_RW a sz A1 = (rc2, A2)"
  shows "rc1 = 0 \<and> rc2 = 0 \<and> check_region (mainStoreMgr A2) rd a len A2 = Some 0x14"
proof -
  have len: "0 < unat len" "unat len \<le> unat sz"
    using sz(3,4) by (simp_all add: unat_gt_0 word_gt_0 word_le_nat_alt)
  define r where "r n m = \<lparr> reg_start = a, reg_size = n, reg_mode = m \<rparr>" for n :: u32 and m
  have ok: "region_ok (r n m)" if "n \<in> {len, sz}" for n m using that sz len by (auto simp: r_def region_ok_def)
  have clip: "clipped_region (r n m) (r sz 0) = r n 0 \<and> regions_overlap (r n m) (r sz 0) \<and> starts_inside (r n m) (r sz 0)"
    if n: "n \<in> {len, sz}" for n m
  proof -
    have c: "covers (r k m) (unat a)" if "k \<in> {len, sz}" for k m
      using ok [OF that, of m] by (simp add: covers_def region_ok_def r_def)
    have "regions_overlap (r n m) (r sz 0)"
      using regions_overlap_iff [OF ok [OF n, of m] ok [of sz 0]] c [OF n, of m] c [of sz 0] unfolding disjoint_regions_def by auto
    moreover have s: "starts_inside (r n m) (r sz 0)"
      using starts_inside_iff [OF ok [of sz 0], of "r n m"] c [of sz 0] by (simp add: r_def)
    moreover have "unat (reg_size (clipped_region (r n m) (r sz 0))) = unat n"
      using clipped_region_size(1) [OF ok [OF n, of m] ok [of sz 0]] c [of sz 0] n len by (auto simp: r_def)
    then have "clipped_region (r n m) (r sz 0) = r n 0"
      using clipped_region_size(2,3) [OF ok [OF n, of m] ok [of sz 0]] c [of sz 0]
      by (intro secureMemRegion_t.equality) (simp_all add: r_def word_unat_eq_iff)
    ultimately show ?thesis by blast
  qed
  let ?M = "mainStoreMgr A"
  have e0: "open_regions ?M = []" using M(1) by (simp add: open_regions_def)
  define M1 where "M1 = ?M\<lparr> iv_memRegions := (iv_memRegions ?M)[iv_regionsOpenCnt ?M := r sz 0],
    iv_regionsOpenCnt := Suc (iv_regionsOpenCnt ?M) \<rparr>"
  have "region_add a sz 0 ?M = (sbeSecondaryResponse.SBE_SEC_OPERATION_SUCCESSFUL, M1)"
    using M e0 by (simp add: region_add_def Let_def getPartialRegionSize_def no_region_def M1_def r_def)
  then have 1: "rc1 = 0" "A1 = A\<lparr> mainStoreMgr := M1 \<rparr>"
    using u(1) mode by (auto simp: update_regions_def region_mode_def)
  have e1: "open_regions M1 = [r sz 0]"
    using open_regions_added [of ?M "r sz 0"] M e0 by (simp add: M1_def)
  have c1: "iv_regionsOpenCnt M1 < iv_maxRegions M1" "length (iv_memRegions M1) = iv_maxRegions M1"
    using M by (simp_all add: M1_def)
  define M2 where "M2 = M1\<lparr> iv_memRegions := (iv_memRegions M1)[iv_regionsOpenCnt M1 := r sz 3],
    iv_regionsOpenCnt := Suc (iv_regionsOpenCnt M1) \<rparr>"
  have "getPartialRegionSize M1 (r sz 3) = r sz 0" using clip [of sz 3] by (simp add: getPartialRegionSize_def e1)
  then have "region_add a sz 3 M1 = (sbeSecondaryResponse.SBE_SEC_OPERATION_SUCCESSFUL, M2)"
    using c1 by (simp add: region_add_def Let_def M2_def r_def)
  then have 2: "rc2 = 0" "A2 = A\<lparr> mainStoreMgr := M2 \<rparr>"
    using u(2) 1(2) by (auto simp: update_regions_def region_mode_def)
  have e2: "open_regions M2 = [r sz 0, r sz 3]"
    using open_regions_added [OF c1(2,1), of "r sz 3"] e1 by (simp add: M2_def)
  have "getPartialRegionSize M2 (r len m) = r len 0" for m
    using clip [of len m] by (simp add: getPartialRegionSize_def e2)
  then have "access_check M2 (r len m) = Some SBE_SEC_BLACKLISTED_MEM_ACCESS" for m
    using sz(3) by (simp add: access_check.simps r_def)
  then have "check_region (mainStoreMgr A2) rd a len A2 = Some 0x14"
    using sec by (simp add: check_region_def isAccessAllowed_def 2(2) r_def)
  then show ?thesis using 1(1) 2(1) by blast
qed

theorem region_mode_shadow_witness:
  "check_region (mainStoreMgr (snd (update_regions SBE_MEM_REGION_OPEN_RW 0x3000 0x100
      (snd (update_regions 0 0x3000 0x100 (sample_app\<lparr> mainStoreMgr := mainStoreSecMemRegionManager \<rparr>))))))
    True 0x3000 8 (snd (update_regions SBE_MEM_REGION_OPEN_RW 0x3000 0x100
      (snd (update_regions 0 0x3000 0x100 (sample_app\<lparr> mainStoreMgr := mainStoreSecMemRegionManager \<rparr>))))) = Some 0x14"
proof -
  let ?A = "sample_app\<lparr> mainStoreMgr := mainStoreSecMemRegionManager \<rparr>"
  have 1: "iv_regionsOpenCnt (mainStoreMgr ?A) = 0" "length (iv_memRegions (mainStoreMgr ?A)) = iv_maxRegions (mainStoreMgr ?A)"
    "2 \<le> iv_maxRegions (mainStoreMgr ?A)" "sbeFWSecurityEnabled (app_glob ?A)"
    using sample_app_facts(2) by (simp_all add: mainStoreSecMemRegionManager_def)
  have 2: "0 \<notin> {SBE_MEM_REGION_OPEN_RO, SBE_MEM_REGION_OPEN_RW, SBE_MEM_REGION_CLOSE}"
    "unat (0x3000 :: u64) + unat (0x100 :: u32) < 2 ^ 64" "unat (0x100 :: u32) < 2 ^ 31" "0 < (8 :: u32)" "8 \<le> (0x100 :: u32)"
    by simp_all
  show ?thesis
    using region_mode_shadow [OF 1(1-3) 2 1(4) surjective_pairing surjective_pairing, of True] by blast
qed

end
