(* ===== verification/Sbe_HostOps.thy ===== *)
theory Sbe_HostOps
  imports Sbe_MemChecks
begin

unbundle bit_operations_syntax

text \<open>
  The requests of the host in \<open>app/common/sbecmdgeneric.C\<close>: the addresses of the memory the host set
  aside, the stash of key and address pairs, the dump of the security lists, the copy of the SEEPROM
  into memory. The quiesce requests of the same file are in \<open>Sbe_Quiesce\<close>.
\<close>

section \<open>The code\<close>

subsection \<open>Addresses in the memory of the host\<close>

definition getFFDCAddr :: "(nat \<Rightarrow> u64) \<Rightarrow> sbeHostAddr_t" where
  "getFFDCAddr req = \<lparr> ha_size = high_word (req 0), ha_addr = req 1 \<rparr>"

definition getPassThroughCmdAddr :: "(nat \<Rightarrow> u64) \<Rightarrow> sbeHostAddr_t" where
  "getPassThroughCmdAddr req = \<lparr> ha_size = low_word (req 0), ha_addr = req 2 \<rparr>"

definition sbeSetFFDCAddr_op :: "'h pib \<Rightarrow> 'h mem_plat \<Rightarrow> sbe_app \<Rightarrow> 'h \<Rightarrow> 'h app_result" where
  "sbeSetFFDCAddr_op P L A h = do {
     (rc, l_req, h) \<leftarrow> sbeReadPsu2SbeMbxReg P (app_glob A) SBE_HOST_PSU_MBOX_REG1 3 (\<lambda>_. 0) True h;
     let A = (if rc \<noteq> 0 then A
              else A\<lparr> hostFFDCAddr := getFFDCAddr l_req, hostPassThroughCmdAddr := getPassThroughCmdAddr l_req \<rparr>);
     sbePSUSendResponse P L A FAPI2_RC_SUCCESS rc h
   }"

subsection \<open>The stash\<close>

abbreviation "MAX_ROW_COUNT \<equiv> 8 :: nat"

text \<open>The two arrays of \<open>keyAddrPair_t\<close> as one list of pairs.\<close>

type_synonym sbeStashMemoryPair_t = "(u8 \<times> u64) list"

definition new_sbeStashMemoryPair :: sbeStashMemoryPair_t where
  "new_sbeStashMemoryPair = replicate MAX_ROW_COUNT (0xFF, 0xFFFFFFFFFFFFFFFF)"

text \<open>The first row with the key \<open>k\<close> is overwritten; \<open>None\<close> if there is none.\<close>

fun set_row :: "u8 \<Rightarrow> u8 \<times> u64 \<Rightarrow> sbeStashMemoryPair_t \<Rightarrow> sbeStashMemoryPair_t option" where
  "set_row k row [] = None"
| "set_row k row (r # rs) = (if fst r = k then Some (row # rs) else map_option ((#) r) (set_row k row rs))"

definition updatePair :: "u8 \<Rightarrow> u64 \<Rightarrow> sbeStashMemoryPair_t \<Rightarrow> bool \<times> sbeStashMemoryPair_t" where
  "updatePair key addr S =
     (case set_row key (key, addr) S of
        Some S \<Rightarrow> (True, S)
      | None \<Rightarrow> (case set_row 0xFF (key, addr) S of Some S \<Rightarrow> (True, S) | None \<Rightarrow> (False, S)))"

text \<open>The globals with the stash and the attribute that \<open>sbeSetSystemFabricMap\<close> sets.\<close>

record sbe_host =
  hs_app :: sbe_app
  sbeKeyAddrPair :: sbeStashMemoryPair_t
  ATTR_SBE_SYS_CONFIG :: u64

definition host_respond :: "'h pib \<Rightarrow> 'h mem_plat \<Rightarrow> sbe_host \<Rightarrow> u32 \<Rightarrow> 'h \<Rightarrow> (u32 \<times> sbe_host \<times> 'h) option" where
  "host_respond P L S rc h = do {
     (rc, A, h) \<leftarrow> sbePSUSendResponse P L (hs_app S) FAPI2_RC_SUCCESS rc h;
     Some (rc, S\<lparr> hs_app := A \<rparr>, h)
   }"

abbreviation "SBE_SEC_INPUT_BUFFER_OVERFLOW \<equiv> 0x18 :: u32"
abbreviation "SBE_SEC_INVALID_PARAMS \<equiv> 0x19 :: u32"

definition sbeStashKeyAddrPair_op :: "'h pib \<Rightarrow> 'h mem_plat \<Rightarrow> sbe_host \<Rightarrow> 'h \<Rightarrow> (u32 \<times> sbe_host \<times> 'h) option" where
  "sbeStashKeyAddrPair_op P L S h = do {
     (rc, l_stashMsg, h) \<leftarrow> sbeReadPsu2SbeMbxReg P (app_glob (hs_app S)) SBE_HOST_PSU_MBOX_REG1 2 (\<lambda>_. 0) True h;
     let S = (if rc \<noteq> 0 then S
              else case updatePair (ucast (l_stashMsg 0)) (l_stashMsg 1) (sbeKeyAddrPair S) of
                     (update, K) \<Rightarrow>
                       let S = S\<lparr> sbeKeyAddrPair := K \<rparr>
                       in if update then S
                          else S\<lparr> hs_app := upd_glob (set_psu_status SBE_PRI_GENERIC_EXECUTION_FAILURE
                                 SBE_SEC_INPUT_BUFFER_OVERFLOW) (hs_app S) \<rparr>);
     host_respond P L S rc h
   }"

definition sbeSetSystemFabricMap_op :: "'h pib \<Rightarrow> 'h mem_plat \<Rightarrow> sbe_host \<Rightarrow> 'h \<Rightarrow> (u32 \<times> sbe_host \<times> 'h) option" where
  "sbeSetSystemFabricMap_op P L S h = do {
     (rc, l_sysFabricMap, h) \<leftarrow> sbeReadPsu2SbeMbxReg P (app_glob (hs_app S)) SBE_HOST_PSU_MBOX_REG1 1 (\<lambda>_. 0) True h;
     let S = (if rc \<noteq> 0 then S else S\<lparr> ATTR_SBE_SYS_CONFIG := l_sysFabricMap 0 \<rparr>);
     host_respond P L S rc h
   }"

subsection \<open>The dump of the security lists\<close>

text \<open>What a failed procedure leaves in the globals, unlike \<open>note_failure\<close> without a status.\<close>

definition note_ffdc :: "'h mem_plat \<Rightarrow> fapi_rc \<Rightarrow> 'h \<Rightarrow> sbe_app \<Rightarrow> sbe_app" where
  "note_ffdc L fapiRc h A = (if fapiRc = FAPI2_RC_SUCCESS then A else upd_env (mem_ffdc L fapiRc h) A)"

definition host_stream :: "'h mem_plat \<Rightarrow> u64 \<Rightarrow> sbeMemAccessInterface" where
  "host_stream L addr = mem_interface_create SBE_MEM_ACCESS_PBA addr False False SBE_MEM_ACCESS_WRITE
     PBA_GRAN_SIZE_BYTES (raw_buffer L)"

definition sbeSecurityListBinDump_op :: "'h pib \<Rightarrow> 'h mem_plat \<Rightarrow> GenSecurityListTables \<Rightarrow> sbe_app \<Rightarrow> 'h \<Rightarrow> 'h app_result" where
  "sbeSecurityListBinDump_op P L T A h = do {
     (rc, dumpAddr, h) \<leftarrow> sbeReadPsu2SbeMbxReg P (app_glob A) SBE_HOST_PSU_MBOX_REG1 1 (\<lambda>_. 0) True h;
     if rc \<noteq> 0 then sbePSUSendResponse P L A FAPI2_RC_SUCCESS rc h
     else do {
       (fapiRc, I, h) \<leftarrow> sendSecurityListDumpToHB (inj_hwp L) T (host_stream L (dumpAddr 0), h);
       sbePSUSendResponse P L (note_ffdc L fapiRc h A) fapiRc rc h
     }
   }"

subsection \<open>Reading the SEEPROM\<close>

abbreviation "SBE_SEEPROM_BASE_ORIGIN \<equiv> 0xFF800000 :: u32"

definition MAX_SEEPROM_SIZE :: u32 where
  "MAX_SEEPROM_SIZE = ((65536 - (65536 mod 9)) div 9) * 8 * 4"

text \<open>The two 32-bit members are added at 32 bits.\<close>

definition validateReq :: "u32 \<Rightarrow> u32 \<Rightarrow> bool" where
  "validateReq offset sz \<longleftrightarrow> \<not> (offset mod 8 \<noteq> 0 \<or> sz mod 128 \<noteq> 0 \<or> offset + sz > MAX_SEEPROM_SIZE)"

definition getEffectiveAddr :: "u32 \<Rightarrow> u32" where
  "getEffectiveAddr offset = SBE_SEEPROM_BASE_ORIGIN + offset"

text \<open>
  The copy, sixteen double words at a time; \<open>ppe\<close> is the memory of the processor and \<open>k\<close> the number of
  granules in \<open>len\<close>. The return code of an access is not passed on, it is only given to \<open>note_ffdc\<close>.
\<close>

fun read_mem_loop :: "'h mem_hwp \<Rightarrow> (u32 \<Rightarrow> u8) \<Rightarrow> nat \<Rightarrow> u32 \<Rightarrow> sbeMemAccessInterface \<Rightarrow> 'h
    \<Rightarrow> (fapi_rc \<times> sbeMemAccessInterface \<times> 'h) option" where
  "read_mem_loop hwp ppe 0 seepromAddr I h = Some (FAPI2_RC_SUCCESS, I, h)"
| "read_mem_loop hwp ppe (Suc k) seepromAddr I h =
     (let (I, buffer) = getBuffer I;
          I = I\<lparr> iv_buffer := map (\<lambda>i. if i < PBA_GRAN_SIZE_BYTES then ppe (seepromAddr + of_nat i) else buffer ! i)
                 [0..<length buffer] \<rparr>
      in do {
        (rc, I, h) \<leftarrow> accessGranule hwp (k = 0) I h;
        if rc \<noteq> FAPI2_RC_SUCCESS then Some (rc, I, h)
        else read_mem_loop hwp ppe k (seepromAddr + of_nat PBA_GRAN_SIZE_BYTES) I h
      })"

definition sbeReadMem_op :: "'h pib \<Rightarrow> 'h mem_plat \<Rightarrow> (u32 \<Rightarrow> u8) \<Rightarrow> sbe_app \<Rightarrow> 'h \<Rightarrow> 'h app_result" where
  "sbeReadMem_op P L ppe A h = do {
     (rc, req, h) \<leftarrow> sbeReadPsu2SbeMbxReg P (app_glob A) SBE_HOST_PSU_MBOX_REG1 2 (\<lambda>_. 0) True h;
     if rc \<noteq> 0 then sbePSUSendResponse P L A FAPI2_RC_SUCCESS rc h
     else if \<not> validateReq (high_word (req 0)) (low_word (req 0))
     then sbePSUSendResponse P L (upd_glob (set_psu_status SBE_PRI_USER_ERROR SBE_SEC_INVALID_PARAMS) A) FAPI2_RC_SUCCESS rc h
     else do {
       (inner, I, h) \<leftarrow> read_mem_loop (inj_hwp L) ppe (unat (low_word (req 0)) div PBA_GRAN_SIZE_BYTES)
         (getEffectiveAddr (high_word (req 0))) (host_stream L (req 1)) h;
       sbePSUSendResponse P L (note_ffdc L inner h A) FAPI2_RC_SUCCESS rc h
     }
   }"

section \<open>The stash\<close>

text \<open>The stash as a map; \<open>0xFF\<close> marks a free row.\<close>

definition stash_map :: "sbeStashMemoryPair_t \<Rightarrow> u8 \<rightharpoonup> u64" where
  "stash_map K = (\<lambda>k. if k = 0xFF then None else map_of K k)"

definition stash_inv :: "sbeStashMemoryPair_t \<Rightarrow> bool" where
  "stash_inv K \<longleftrightarrow> length K = MAX_ROW_COUNT \<and> distinct (filter (\<lambda>k. k \<noteq> 0xFF) (map fst K))"

lemma stash_inv_new: "stash_inv new_sbeStashMemoryPair"
  by (simp add: stash_inv_def new_sbeStashMemoryPair_def)

lemma set_row_None: "set_row k row K = None \<longleftrightarrow> k \<notin> fst ` set K"
  by (induction K) auto

lemma set_row_Some: "set_row k row K = Some K' \<Longrightarrow>
    \<exists>xs v ys. K = xs @ (k, v) # ys \<and> k \<notin> fst ` set xs \<and> K' = xs @ row # ys"
proof (induction K arbitrary: K')
  case (Cons r K)
  show ?case
  proof (cases "fst r = k")
    case True
    then show ?thesis using Cons.prems by (intro exI [of _ "[]"] exI [of _ "snd r"] exI [of _ K]) (auto simp: prod_eq_iff)
  next
    case False
    then obtain K1 where 1: "set_row k row K = Some K1" "K' = r # K1" using Cons.prems by auto
    from Cons.IH [OF 1(1)] obtain xs v ys where "K = xs @ (k, v) # ys" "k \<notin> fst ` set xs" "K1 = xs @ row # ys" by blast
    then show ?thesis using 1(2) False by (intro exI [of _ "r # xs"] exI [of _ v] exI [of _ ys]) auto
  qed
qed simp

text \<open>Overwriting the row of a key, or a free row by a new key.\<close>

lemma stash_overwrite:
  assumes "stash_inv (xs @ (k, v) # ys)" "k \<notin> fst ` set xs" "k = key \<or> k = 0xFF \<and> key \<notin> fst ` set (xs @ ys)" "key \<noteq> 0xFF"
  shows "stash_inv (xs @ (key, a) # ys) \<and> stash_map (xs @ (key, a) # ys) = (stash_map (xs @ (k, v) # ys))(key \<mapsto> a)"
proof
  show "stash_inv (xs @ (key, a) # ys)"
  proof (cases "k = key")
    case True
    then show ?thesis using assms(1) by (simp add: stash_inv_def)
  next
    case False
    then have n: "k = 0xFF" "key \<notin> fst ` set xs" "key \<notin> fst ` set ys" using assms(3) by auto
    have "{x. x \<in> fst ` set xs \<and> x \<noteq> 0xFF} \<inter> {x. x \<in> fst ` set ys \<and> x \<noteq> 0xFF} = {}"
      using assms(1) unfolding stash_inv_def n(1) by simp
    then show ?thesis using assms(1,4) n by (simp add: stash_inv_def)
  qed
  have "map_of xs key = None" using assms(2,3) by (auto simp: map_of_eq_None_iff)
  then show "stash_map (xs @ (key, a) # ys) = (stash_map (xs @ (k, v) # ys))(key \<mapsto> a)"
    using assms(3,4) by (auto simp: stash_map_def map_add_def fun_eq_iff split: option.splits)
qed

lemma stash_dom: "dom (stash_map K) = set (filter (\<lambda>k. k \<noteq> 0xFF) (map fst K))"
proof (rule set_eqI)
  fix k
  have "k \<in> dom (map_of K) \<longleftrightarrow> k \<in> fst ` set K" by (simp only: dom_map_of_conv_image_fst)
  then show "k \<in> dom (stash_map K) \<longleftrightarrow> k \<in> set (filter (\<lambda>k. k \<noteq> 0xFF) (map fst K))"
    by (simp add: stash_map_def domIff del: not_None_eq)
qed

lemma stash_dom_card:
  assumes "stash_inv K"
  shows "card (dom (stash_map K)) < MAX_ROW_COUNT \<longleftrightarrow> 0xFF \<in> fst ` set K"
proof -
  let ?f = "filter (\<lambda>k. k \<noteq> 0xFF) (map fst K)"
  have c: "card (dom (stash_map K)) = length ?f" using assms unfolding stash_dom by (simp only: stash_inv_def distinct_card)
  have l: "length (map fst K) = MAX_ROW_COUNT" using assms by (simp add: stash_inv_def)
  show ?thesis
  proof (cases "0xFF \<in> fst ` set K")
    case True
    then have "length ?f < length (map fst K)" by (intro length_filter_less [of "0xFF"]) simp_all
    then show ?thesis using c l True by linarith
  next
    case False
    then have "?f = map fst K" by (intro filter_True ballI notI) auto
    then show ?thesis using c l False by (metis less_irrefl)
  qed
qed

lemma updatePair_key:
  assumes inv: "stash_inv K" and key: "key \<noteq> 0xFF" and u: "updatePair key addr K = (ok, K')"
  shows "stash_inv K' \<and> (ok \<longleftrightarrow> key \<in> dom (stash_map K) \<or> card (dom (stash_map K)) < MAX_ROW_COUNT) \<and>
    (if ok then stash_map K' = (stash_map K)(key \<mapsto> addr) else K' = K)"
proof (cases "set_row key (key, addr) K")
  case (Some K1)
  then have e: "ok" "K' = K1" using u by (simp_all add: updatePair_def)
  obtain xs v ys where s: "K = xs @ (key, v) # ys" "key \<notin> fst ` set xs" "K1 = xs @ (key, addr) # ys"
    using set_row_Some [OF Some] by blast
  have "key \<in> dom (stash_map K)" using key s(1) by (auto simp: stash_map_def dom_def map_add_def split: option.splits)
  then show ?thesis using e s stash_overwrite [of xs key v ys key addr] inv key by simp
next
  case None
  then have n: "key \<notin> fst ` set K" by (simp add: set_row_None)
  then have d: "key \<notin> dom (stash_map K)" by (auto simp: stash_map_def map_of_eq_None_iff [symmetric] split: if_splits)
  show ?thesis
  proof (cases "set_row 0xFF (key, addr) K")
    case none: None
    then have "\<not> ok" "K' = K" using None u by (simp_all add: updatePair_def)
    moreover have "\<not> card (dom (stash_map K)) < MAX_ROW_COUNT" using none stash_dom_card [OF inv] by (simp add: set_row_None)
    ultimately show ?thesis using inv d by simp
  next
    case (Some K1)
    then have e: "ok" "K' = K1" using None u by (simp_all add: updatePair_def)
    obtain xs v ys where s: "K = xs @ (0xFF, v) # ys" "0xFF \<notin> fst ` set xs" "K1 = xs @ (key, addr) # ys"
      using set_row_Some [OF Some] by blast
    have "card (dom (stash_map K)) < MAX_ROW_COUNT" using stash_dom_card [OF inv] s(1) by simp
    then show ?thesis using e s n stash_overwrite [of xs "0xFF" v ys key addr] inv key by simp
  qed
qed

text \<open>With the key \<open>0xFF\<close> a free row takes the address and stays free.\<close>

lemma updatePair_free:
  assumes inv: "stash_inv K" and u: "updatePair 0xFF addr K = (ok, K')"
  shows "stash_inv K' \<and> (ok \<longleftrightarrow> card (dom (stash_map K)) < MAX_ROW_COUNT) \<and> stash_map K' = stash_map K"
proof (cases "set_row 0xFF (0xFF, addr) K")
  case None
  then have "updatePair 0xFF addr K = (False, K)" by (simp add: updatePair_def)
  moreover have "0xFF \<notin> fst ` set K" using None by (simp add: set_row_None)
  ultimately show ?thesis using u inv stash_dom_card [OF inv] by simp
next
  case (Some K1)
  then have e: "ok" "K' = K1" using u by (simp_all add: updatePair_def)
  obtain xs v ys where s: "K = xs @ (0xFF, v) # ys" "K1 = xs @ (0xFF, addr) # ys"
    using set_row_Some [OF Some] by blast
  have "stash_map K1 k = stash_map K k" for k
    unfolding s by (cases "k = 0xFF") (simp_all add: stash_map_def map_add_def split: option.splits)
  then have "stash_map K1 = stash_map K" by (rule ext)
  then show ?thesis using e s inv stash_dom_card [OF inv] by (simp add: stash_inv_def)
qed

lemma updatePair_effect:
  assumes inv: "stash_inv K" and u: "updatePair key addr K = (ok, K')"
  shows "stash_inv K' \<and> (ok \<longleftrightarrow> key \<in> dom (stash_map K) \<or> card (dom (stash_map K)) < MAX_ROW_COUNT) \<and>
    stash_map K' = (if ok \<and> key \<noteq> 0xFF then (stash_map K)(key \<mapsto> addr) else stash_map K)"
proof (cases "key = 0xFF")
  case True
  have "0xFF \<notin> dom (stash_map K)" by (simp add: stash_map_def dom_def)
  then show ?thesis using updatePair_free [OF inv] u True by auto
next
  case False
  then show ?thesis using updatePair_key [OF inv False u] by auto
qed

section \<open>Requests of the host\<close>

lemma host_respond_runs:
  assumes "can_answer P L memof mbox (hs_app S)"
  shows "\<exists>h'. host_respond P L S 0 h = Some (0, S, h') \<and> mbox h' = psu_resp_word (sbeSbe2PsuRespHdr (app_glob (hs_app S)))"
proof -
  obtain h' where "sbePSUSendResponse P L (hs_app S) FAPI2_RC_SUCCESS 0 h = Some (0, hs_app S, h')"
    "mbox h' = psu_resp_word (sbeSbe2PsuRespHdr (app_glob (hs_app S)))"
    using psu_respond [OF assms, of h] by (elim exE conjE) (rule that)
  then show ?thesis by (intro exI [of _ h']) (simp add: host_respond_def)
qed

text \<open>
  Property C14. The stash of the host is a bounded map: a request to store an address under a key
  updates the map at that key and the host reads success, unless the key is new and eight
  keys are stored; then the stash keeps its contents and the host reads an overflow. (The status of the response
  starts clean, and the PBA serves the host's memory for FFDC, which an overflow writes.) The key \<open>0xFF\<close>,
  which marks a free row, is the exception: with fewer than eight keys stored such a request is answered
  with success as well, but no key gets the address.
\<close>

theorem stash_request:
  assumes rd: "mailbox_reads P memof r" and an: "can_answer P L memof mbox (hs_app S)"
    and G: "G = sbeSbe2PsuRespHdr (app_glob (hs_app S))" "pr_primStatus G = 0" "pr_secStatus G = 0"
    and inv: "stash_inv (sbeKeyAddrPair S)" and key: "key = ucast (r 0)"
    and fits: "fits \<longleftrightarrow> key \<in> dom (stash_map (sbeKeyAddrPair S)) \<or> card (dom (stash_map (sbeKeyAddrPair S))) < 8"
  shows "\<exists>S' h'. sbeStashKeyAddrPair_op P L S h = Some (0, S', h') \<and> stash_inv (sbeKeyAddrPair S') \<and>
    stash_map (sbeKeyAddrPair S') =
      (if fits \<and> key \<noteq> 0xFF then (stash_map (sbeKeyAddrPair S))(key \<mapsto> r 1) else stash_map (sbeKeyAddrPair S)) \<and>
    mbox h' = psu_resp_word (if fits then G else G\<lparr> pr_primStatus := ucast SBE_PRI_GENERIC_EXECUTION_FAILURE,
      pr_secStatus := ucast SBE_SEC_INPUT_BUFFER_OVERFLOW \<rparr>)"
proof -
  have mb: "mailbox_writes P memof mbox" using an by (simp add: can_answer_def)
  obtain req h1 where 1: "sbeReadPsu2SbeMbxReg P (app_glob (hs_app S)) SBE_HOST_PSU_MBOX_REG1 2 (\<lambda>_. 0) True h = Some (0, req, h1)"
    "\<forall>i < unat (2 :: u8). req i = r i"
    by (rule read_host_request [OF rd mb, of 2]) simp_all
  obtain K where u: "updatePair key (r 1) (sbeKeyAddrPair S) = (fits, K)" and K: "stash_inv K"
    "stash_map K = (if fits \<and> key \<noteq> 0xFF then (stash_map (sbeKeyAddrPair S))(key \<mapsto> r 1) else stash_map (sbeKeyAddrPair S))"
  proof -
    obtain ok K where "updatePair key (r 1) (sbeKeyAddrPair S) = (ok, K)" by (cases "updatePair key (r 1) (sbeKeyAddrPair S)")
    with updatePair_effect [OF inv this] show ?thesis using that [of K] fits by simp
  qed
  define S' where "S' = (if fits then S\<lparr> sbeKeyAddrPair := K \<rparr> else S\<lparr> sbeKeyAddrPair := K,
    hs_app := upd_glob (set_psu_status SBE_PRI_GENERIC_EXECUTION_FAILURE SBE_SEC_INPUT_BUFFER_OVERFLOW) (hs_app S) \<rparr>)"
  have "can_answer P L memof mbox (hs_app S')" using an by (simp add: can_answer_def S'_def upd_glob_def set_psu_status_def
    record_failure_def blobs_ok_def Let_def)
  from host_respond_runs [OF this, of h1]
  obtain h2 where 2: "host_respond P L S' 0 h1 = Some (0, S', h2)" "mbox h2 = psu_resp_word (sbeSbe2PsuRespHdr (app_glob (hs_app S')))"
    by (elim exE conjE) (rule that)
  have "sbeStashKeyAddrPair_op P L S h = Some (0, S', h2)"
    using 1 2(1) u by (cases fits) (simp_all add: sbeStashKeyAddrPair_op_def S'_def key)
  moreover have "sbeSbe2PsuRespHdr (app_glob (hs_app S')) = (if fits then G else G\<lparr> pr_primStatus := ucast SBE_PRI_GENERIC_EXECUTION_FAILURE,
      pr_secStatus := ucast SBE_SEC_INPUT_BUFFER_OVERFLOW \<rparr>)"
    using G by (cases G) (simp add: S'_def upd_glob_def set_psu_status_def record_failure_def Let_def)
  ultimately show ?thesis using 2(2) K by (intro exI [of _ S'] exI [of _ h2]) (simp add: S'_def)
qed

text \<open>Seven keys are stored; the request stores the eighth.\<close>

definition sample_host :: sbe_host where
  "sample_host = \<lparr> hs_app = host_app 0x0100, sbeKeyAddrPair = map (\<lambda>i. (of_nat i, of_nat (i * 16))) [0..<7] @ [(0xFF, 0)],
     ATTR_SBE_SYS_CONFIG = 0 \<rparr>"

theorem stash_request_witness:
  "\<exists>S' h'. sbeStashKeyAddrPair_op (host_pib [0x105, 0x4000, 0]) mem_sim_plat sample_host (request [], \<lambda>_. 0) = Some (0, S', h') \<and>
    stash_map (sbeKeyAddrPair S') 5 = Some 0x4000 \<and> stash_map (sbeKeyAddrPair S') 6 = Some 0x60"
proof -
  have app: "hs_app sample_host = host_app 0x0100" by (simp add: sample_host_def)
  have st: "pr_primStatus (sbeSbe2PsuRespHdr (app_glob (hs_app sample_host))) = 0"
    "pr_secStatus (sbeSbe2PsuRespHdr (app_glob (hs_app sample_host))) = 0"
    by (simp_all add: app host_app_def sample_app_def secure_glob_def)
  have inv: "stash_inv (sbeKeyAddrPair sample_host)" by (simp add: stash_inv_def sample_host_def upt_rec)
  have k: "5 = (ucast ([0x105, 0x4000, 0] ! 0 :: u64) :: u8)" "True \<and> (5 :: u8) \<noteq> 0xFF" by simp_all
  have m: "stash_map (sbeKeyAddrPair sample_host) 5 = Some 0x50" "stash_map (sbeKeyAddrPair sample_host) 6 = Some 0x60"
    by (simp_all add: stash_map_def sample_host_def upt_rec)
  then have f: "True \<longleftrightarrow> 5 \<in> dom (stash_map (sbeKeyAddrPair sample_host)) \<or> card (dom (stash_map (sbeKeyAddrPair sample_host))) < 8"
    by blast
  have an: "can_answer (host_pib [0x105, 0x4000, 0]) mem_sim_plat snd (\<lambda>h. snd (fst h) SBE_HOST_PSU_MBOX_REG4) (hs_app sample_host)"
    unfolding app by (rule host_pib_facts(2))
  obtain S' h' where 1: "sbeStashKeyAddrPair_op (host_pib [0x105, 0x4000, 0]) mem_sim_plat sample_host (request [], \<lambda>_. 0) = Some (0, S', h')"
    "stash_map (sbeKeyAddrPair S') = (stash_map (sbeKeyAddrPair sample_host))(5 \<mapsto> [0x105, 0x4000, 0] ! 1)"
    using stash_request [OF host_pib_facts(1) an refl st inv k(1) f, of "(request [], \<lambda>_. 0)"] unfolding if_P [OF k(2)] by (elim exE conjE) (rule that)
  then show ?thesis using m by (intro exI [of _ S'] exI [of _ h']) simp
qed

section \<open>The dump of the security lists\<close>

text \<open>
  Property C15. The host asks for the security lists at an address, a multiple of 128 that the PBA serves, and
  reads success; when it initialises its
  tables from the memory there, it has the lists of the SBE, and its access check gives the same
  answer as that of the SBE for every address, kind of access and chip.
\<close>

theorem security_dump_request:
  assumes rd: "mailbox_reads P memof r" and an: "can_answer P L memof mbox A"
    and G: "G = sbeSbe2PsuRespHdr (app_glob A)" "pr_primStatus G = 0" "pr_secStatus G = 0"
    and T: "tables_ok T" "\<not> isSecurityListInitDone S" and al: "128 dvd unat (r 0)"
    and sv: "host_serves L memof (r 0) (length (dump_bytes T) + 1)"
  shows "\<exists>h' S'. sbeSecurityListBinDump_op P L T A h = Some (0, A, h') \<and> mbox h' = psu_resp_word G \<and>
    securityAccessTablesInit (\<lambda>k. memof h' (r 0 + of_nat k)) S = (True, S') \<and> secListTableSupport S' = T \<and>
    (\<forall>addr m type. isAccessAllowed_host S' addr m type = isAllowed True T addr m type)"
proof -
  obtain Z where hw: "writes_memory (inj_hwp L) memof SBE_MEM_ACCESS_PBA 128 Z" and Z: "serves 128 Z (r 0) (length (dump_bytes T) + 1)"
    using sv unfolding host_serves_def by (elim exE conjE)
  have mb: "mailbox_writes P memof mbox" and buf: "length (raw_buffer L) = 128"
    using an by (simp_all add: can_answer_def)
  obtain req h1 where 1: "sbeReadPsu2SbeMbxReg P (app_glob A) SBE_HOST_PSU_MBOX_REG1 1 (\<lambda>_. 0) True h = Some (0, req, h1)"
    "\<forall>i < unat (1 :: u8). req i = r i" "memof h1 = memof h"
    by (rule read_host_request [OF rd mb, of 1]) simp_all
  have a: "req 0 = r 0" using 1(2) by simp
  obtain I' h2 S' where 2: "sendSecurityListDumpToHB (inj_hwp L) T (host_stream L (r 0), h1) = Some (FAPI2_RC_SUCCESS, I', h2)"
    "securityAccessTablesInit (\<lambda>k. memof h2 (r 0 + of_nat k)) S = (True, S')" "secListTableSupport S' = T"
    "\<forall>addr m type. isAccessAllowed_host S' addr m type = isAllowed True T addr m type"
    using security_list_roundtrip [OF hw T host_stream_def buf al Z, of h1] by (elim exE conjE) (rule that)
  obtain h3 where 3: "sbePSUSendResponse P L A FAPI2_RC_SUCCESS 0 h2 = Some (0, A, h3)" "mbox h3 = psu_resp_word G" "memof h3 = memof h2"
    using psu_respond [OF an, of h2] G by auto
  have "sbeSecurityListBinDump_op P L T A h = Some (0, A, h3)"
    using 1(1) 2(1) 3(1) by (simp add: sbeSecurityListBinDump_op_def note_ffdc_def a)
  then show ?thesis using 2(2-4) 3(2,3) by (intro exI [of _ h3] exI [of _ S']) simp
qed

theorem security_dump_request_witness:
  "\<exists>h' S'. sbeSecurityListBinDump_op (host_pib [0x8000, 0, 0]) mem_sim_plat sample_tables (host_app 0x0100) (request [], \<lambda>_. 0)
      = Some (0, host_app 0x0100, h') \<and>
    securityAccessTablesInit (\<lambda>k. snd h' (0x8000 + of_nat k))
      \<lparr> isSecurityListInitDone = False, secListTableSupport = sample_tables\<lparr> wl_t1 := bl_t1 sample_tables \<rparr> \<rparr> = (True, S') \<and>
    secListTableSupport S' = sample_tables"
proof -
  have st: "pr_primStatus (sbeSbe2PsuRespHdr (app_glob (host_app 0x0100))) = 0"
    "pr_secStatus (sbeSbe2PsuRespHdr (app_glob (host_app 0x0100))) = 0"
    by (simp_all add: host_app_def sample_app_def secure_glob_def)
  have i: "\<not> isSecurityListInitDone \<lparr> isSecurityListInitDone = False, secListTableSupport = sample_tables\<lparr> wl_t1 := bl_t1 sample_tables \<rparr> \<rparr>"
    "128 dvd unat ([0x8000, 0, 0] ! 0 :: u64)" by simp_all
  have z: "[0x8000, 0, 0] ! 0 = (0x8000 :: u64)" by simp
  have sv: "host_serves mem_sim_plat snd ([0x8000, 0, 0] ! 0) (length (dump_bytes sample_tables) + 1)"
    unfolding z by (rule host_serves_sim) (use length_dump_bytes [OF sample_tables_ok] in simp)
  obtain h' S' where "sbeSecurityListBinDump_op (host_pib [0x8000, 0, 0]) mem_sim_plat sample_tables (host_app 0x0100) (request [], \<lambda>_. 0)
      = Some (0, host_app 0x0100, h')" "securityAccessTablesInit (\<lambda>k. snd h' ([0x8000, 0, 0] ! 0 + of_nat k))
      \<lparr> isSecurityListInitDone = False, secListTableSupport = sample_tables\<lparr> wl_t1 := bl_t1 sample_tables \<rparr> \<rparr> = (True, S')"
    "secListTableSupport S' = sample_tables"
    using security_dump_request [OF host_pib_facts(1) host_pib_facts(2) refl st sample_tables_ok i sv, of "(request [], \<lambda>_. 0)"]
    by (elim exE conjE) (rule that)
  then show ?thesis unfolding z by (intro exI [of _ h'] exI [of _ S'] conjI)
qed

section \<open>Reading the SEEPROM\<close>

lemma read_mem_writes:
  assumes hw: "writes_memory hwp memof SBE_MEM_ACCESS_PBA 128 S"
  shows "writing 128 I \<Longrightarrow> length (iv_buffer I) = 128 \<Longrightarrow> iv_interface I = SBE_MEM_ACCESS_PBA \<Longrightarrow> 128 * k \<le> 2 ^ 64 \<Longrightarrow>
    serves 128 S (iv_addr I) (128 * k) \<Longrightarrow> \<exists>I' h'. read_mem_loop hwp ppe k src I h = Some (FAPI2_RC_SUCCESS, I', h') \<and>
      memof h' = mem_store (iv_addr I) (map (\<lambda>i. ppe (src + of_nat i)) [0..<128 * k]) (memof h)"
proof (induction k arbitrary: I h src)
  case 0
  then show ?case by simp
next
  case (Suc k)
  note pr = Suc.prems
  have s0: "iv_addr I \<in> S" by (rule serves_first [OF pr(5)]) simp
  let ?c = "map (\<lambda>i. ppe (src + of_nat i)) [0..<128]"
  define J where "J = I\<lparr> iv_iterator := 128, iv_buffer := ?c \<rparr>"
  have J: "writing 128 J" "iv_iterator J = 128" "iv_interface J = SBE_MEM_ACCESS_PBA" "iv_addr J = iv_addr I" "pending J = ?c"
    "length (iv_buffer J) = 128"
    using pr(1,3) by (simp_all add: J_def writing_def is_read_def pending_def)
  have g: "iv_granuleSize I = 128" using pr(1) by (simp add: writing_def)
  have fill: "map (\<lambda>i. if i < PBA_GRAN_SIZE_BYTES then ppe (src + of_nat i) else iv_buffer I ! i) [0..<length (iv_buffer I)] = ?c"
    using pr(2) by (simp add: PBA_GRAN_SIZE_BYTES_def)
  have hwJ: "writes_memory hwp memof (iv_interface J) 128 S" using hw J(3) by simp
  obtain I1 h1 where 1: "accessGranule hwp (k = 0) J h = Some (FAPI2_RC_SUCCESS, I1, h1)" "writing 128 I1"
    "iv_interface I1 = iv_interface J" "iv_addr I1 = iv_addr J + of_nat 128" "memof h1 = mem_store (iv_addr J) (pending J) (memof h)"
    by (rule accessGranule_write [OF hwJ J(1,2), of "k = 0" h]) (use s0 J(4) in simp)
  have b: "length (iv_buffer I1) = 128" using accessGranule_buffer [OF hw J(1,3) _ 1(1)] J(4,6) s0 by simp
  have i: "iv_interface I1 = SBE_MEM_ACCESS_PBA" using 1(3) J(3) by simp
  have k64: "128 * k \<le> 2 ^ 64" using pr(4) by simp
  have "serves 128 S (iv_addr I1) (128 * k)"
    using serves_skip [of 128 S "iv_addr I" 128 "128 * k"] pr(5) 1(4) J(4) by simp
  from Suc.IH [OF 1(2) b i k64 this, of "src + of_nat PBA_GRAN_SIZE_BYTES" h1]
  obtain I2 h2 where 2: "read_mem_loop hwp ppe k (src + of_nat PBA_GRAN_SIZE_BYTES) I1 h1 = Some (FAPI2_RC_SUCCESS, I2, h2)"
    "memof h2 = mem_store (iv_addr I1) (map (\<lambda>i. ppe (src + of_nat PBA_GRAN_SIZE_BYTES + of_nat i)) [0..<128 * k]) (memof h1)"
    by (elim exE conjE) (rule that)
  have sh: "map (\<lambda>i. ppe (src + of_nat PBA_GRAN_SIZE_BYTES + of_nat i)) [0..<128 * k] = map (\<lambda>i. ppe (src + of_nat i)) [128..<128 * Suc k]"
  proof -
    have "[128..<128 * Suc k] = map (\<lambda>i. i + 128) [0..<128 * k]" by (simp add: map_add_upt add.commute)
    then show ?thesis by (simp add: PBA_GRAN_SIZE_BYTES_def comp_def algebra_simps)
  qed
  have cat: "?c @ map (\<lambda>i. ppe (src + of_nat i)) [128..<128 * Suc k] = map (\<lambda>i. ppe (src + of_nat i)) [0..<128 * Suc k]"
    by (simp flip: map_append upt_add_eq_append)
  have lc: "length ?c = 128" by simp
  have "memof h2 = mem_store (iv_addr I + of_nat (length ?c)) (map (\<lambda>i. ppe (src + of_nat i)) [128..<128 * Suc k]) (mem_store (iv_addr I) ?c (memof h))"
    unfolding lc using 2(2) 1(4,5) J(4,5) sh by simp
  also have "\<dots> = mem_store (iv_addr I) (?c @ map (\<lambda>i. ppe (src + of_nat i)) [128..<128 * Suc k]) (memof h)"
    by (rule mem_store_append) (use pr(4) in simp)
  finally have m: "memof h2 = mem_store (iv_addr I) (map (\<lambda>i. ppe (src + of_nat i)) [0..<128 * Suc k]) (memof h)"
    unfolding cat .
  have "read_mem_loop hwp ppe (Suc k) src I h = Some (FAPI2_RC_SUCCESS, I2, h2)"
    using 1(1) 2(1) g fill by (simp add: getBuffer_def J_def PBA_GRAN_SIZE_BYTES_def)
  then show ?case using m by (intro exI [of _ I2] exI [of _ h2]) simp
qed

text \<open>A response without a failure reaches the host and touches no memory.\<close>

lemma psu_success:
  assumes mb: "mailbox_writes P memof mbox" and G: "G = sbeSbe2PsuRespHdr (app_glob A)" "pr_primStatus G = 0" "pr_secStatus G = 0"
  shows "\<exists>h'. sbePSUSendResponse P L A FAPI2_RC_SUCCESS 0 h = Some (0, A, h') \<and> mbox h' = psu_resp_word G \<and> memof h' = memof h"
proof -
  obtain h' where 1: "write_psu_resp P (app_glob A) h = Some (0, h')" "memof h' = memof h"
    "mbox h' = psu_resp_word (sbeSbe2PsuRespHdr (app_glob A))"
    using write_psu_resp_returns [OF mb, of "app_glob A" h] by (elim exE conjE) (rule that)
  have "sbePSUSendResponse P L A FAPI2_RC_SUCCESS 0 h = Some (0, A, h')"
    using 1(1) G by (simp add: sbePSUSendResponse_def Let_def)
  then show ?thesis using 1(2,3) G(1) by (intro exI [of _ h']) simp
qed

lemma host_stream_writing:
  assumes "length (raw_buffer L) = 128" "128 dvd unat a"
  shows "writing 128 (host_stream L a)" "length (iv_buffer (host_stream L a)) = 128"
    "iv_interface (host_stream L a) = SBE_MEM_ACCESS_PBA" "iv_addr (host_stream L a) = a"
  using assms by (simp_all add: host_stream_def mem_interface_create_def writing_def is_read_def PBA_GRAN_SIZE_BYTES_def)

text \<open>What an accepted request leaves in memory.\<close>

definition copied :: "(u32 \<Rightarrow> u8) \<Rightarrow> u32 \<Rightarrow> u32 \<Rightarrow> u64 \<Rightarrow> (u64 \<Rightarrow> u8) \<Rightarrow> u64 \<Rightarrow> u8" where
  "copied ppe offset sz to m x =
     (if unat (x - to) < unat sz then ppe (getEffectiveAddr offset + of_nat (unat (x - to))) else m x)"

lemma read_mem_runs:
  assumes rd: "mailbox_reads P memof r" and an: "can_answer P L memof mbox A"
    and G: "G = sbeSbe2PsuRespHdr (app_glob A)" "pr_primStatus G = 0" "pr_secStatus G = 0"
    and v: "validateReq (high_word (r 0)) (low_word (r 0))" and al: "128 dvd unat (r 1)"
    and sv: "host_serves L memof (r 1) (unat (low_word (r 0)))"
  shows "\<exists>h'. sbeReadMem_op P L ppe A h = Some (0, A, h') \<and> mbox h' = psu_resp_word G \<and>
    memof h' = copied ppe (high_word (r 0)) (low_word (r 0)) (r 1) (memof h)"
proof -
  obtain Z where hw: "writes_memory (inj_hwp L) memof SBE_MEM_ACCESS_PBA 128 Z" and Z: "serves 128 Z (r 1) (unat (low_word (r 0)))"
    using sv unfolding host_serves_def by (elim exE conjE)
  have mb: "mailbox_writes P memof mbox" and buf: "length (raw_buffer L) = 128"
    using an by (simp_all add: can_answer_def)
  obtain req h1 where 1: "sbeReadPsu2SbeMbxReg P (app_glob A) SBE_HOST_PSU_MBOX_REG1 2 (\<lambda>_. 0) True h = Some (0, req, h1)"
    "\<forall>i < unat (2 :: u8). req i = r i" "memof h1 = memof h"
    by (rule read_host_request [OF rd mb, of 2]) simp_all
  have req: "req 0 = r 0" "req (Suc 0) = r (Suc 0)" using 1(2) by simp_all
  let ?sz = "low_word (r 0)" and ?k = "unat (low_word (r 0)) div PBA_GRAN_SIZE_BYTES"
  have lt: "unat ?sz < 2 ^ 32" using unsigned_less [of ?sz] by simp
  have "?sz mod 128 = 0" using v by (simp add: validateReq_def)
  then have "unat (?sz mod 128) = 0" by simp
  then have "unat ?sz mod 128 = 0" by (simp add: unat_mod)
  then have k: "128 * ?k = unat ?sz" using mult_div_mod_eq [of 128 "unat ?sz"] by (simp add: PBA_GRAN_SIZE_BYTES_def)
  have k64: "128 * ?k \<le> 2 ^ 64" unfolding k using lt by simp
  have "serves 128 Z (iv_addr (host_stream L (r 1))) (128 * ?k)" unfolding k host_stream_writing(4) [OF buf al] by (rule Z)
  from read_mem_writes [OF hw host_stream_writing(1-3) [OF buf al] k64 this, of ppe "getEffectiveAddr (high_word (r 0))" h1]
  obtain I2 h2 where 2: "read_mem_loop (inj_hwp L) ppe ?k (getEffectiveAddr (high_word (r 0))) (host_stream L (r 1)) h1 =
      Some (FAPI2_RC_SUCCESS, I2, h2)" "memof h2 = mem_store (r 1)
      (map (\<lambda>i. ppe (getEffectiveAddr (high_word (r 0)) + of_nat i)) [0..<unat ?sz]) (memof h1)"
    unfolding k host_stream_writing(4) [OF buf al] by (elim exE conjE) (rule that)
  from psu_success [OF mb G, of L h2]
  obtain h3 where 3: "sbePSUSendResponse P L A FAPI2_RC_SUCCESS 0 h2 = Some (0, A, h3)" "mbox h3 = psu_resp_word G" "memof h3 = memof h2"
    by (elim exE conjE) (rule that)
  have "sbeReadMem_op P L ppe A h = Some (0, A, h3)"
    using 1(1) 2(1) 3(1) v by (simp add: sbeReadMem_op_def note_ffdc_def req del: read_mem_loop.simps)
  moreover have "memof h3 = copied ppe (high_word (r 0)) ?sz (r 1) (memof h)"
    unfolding 3(3) 2(2) 1(3) by (rule ext) (simp add: mem_store_def copied_def)
  ultimately show ?thesis using 3(2) by blast
qed

text \<open>
  An error of the copy does not reach the host: the return code of the access is declared a
  second time inside the loop, and the response is sent with the outer one. When the PBA refuses the
  address, nothing is copied and the host reads success.
\<close>

definition host_refuses :: "'h mem_plat \<Rightarrow> ('h \<Rightarrow> u64 \<Rightarrow> u8) \<Rightarrow> u64 \<Rightarrow> bool" where
  "host_refuses L memof a \<longleftrightarrow> (\<forall>h. \<exists>e n h'. setup_hwp (inj_hwp L) SBE_MEM_ACCESS_PBA a False h = (e, n, h') \<and>
     e \<noteq> FAPI2_RC_SUCCESS \<and> memof h' = memof h)"

lemma read_mem_error_lost:
  assumes rd: "mailbox_reads P memof r" and mb: "mailbox_writes P memof mbox"
    and G: "G = sbeSbe2PsuRespHdr (app_glob A)" "pr_primStatus G = 0" "pr_secStatus G = 0"
    and v: "validateReq (high_word (r 0)) (low_word (r 0))" "low_word (r 0) \<noteq> 0"
    and no: "host_refuses L memof (r 1)"
  shows "\<exists>A' h'. sbeReadMem_op P L ppe A h = Some (0, A', h') \<and> mbox h' = psu_resp_word G \<and> memof h' = memof h"
proof -
  obtain req h1 where 1: "sbeReadPsu2SbeMbxReg P (app_glob A) SBE_HOST_PSU_MBOX_REG1 2 (\<lambda>_. 0) True h = Some (0, req, h1)"
    "\<forall>i < unat (2 :: u8). req i = r i" "memof h1 = memof h"
    by (rule read_host_request [OF rd mb, of 2]) simp_all
  have req: "req 0 = r 0" "req (Suc 0) = r (Suc 0)" using 1(2) by simp_all
  obtain e n h2 where 2: "setup_hwp (inj_hwp L) SBE_MEM_ACCESS_PBA (r (Suc 0)) False h1 = (e, n, h2)" "e \<noteq> FAPI2_RC_SUCCESS"
    "memof h2 = memof h1"
    using no [unfolded host_refuses_def, rule_format, of h1] by auto
  let ?sz = "low_word (r 0)"
  have "?sz mod 128 = 0" using v by (simp add: validateReq_def)
  then have "unat (?sz mod 128) = 0" by simp
  then have "unat ?sz mod 128 = 0" by (simp add: unat_mod)
  moreover have "unat ?sz \<noteq> 0" using v(2) by (simp add: unat_eq_zero)
  ultimately have "unat ?sz div PBA_GRAN_SIZE_BYTES \<noteq> 0"
    using mult_div_mod_eq [of 128 "unat ?sz"] by (auto simp: PBA_GRAN_SIZE_BYTES_def)
  then obtain k where k: "unat ?sz div PBA_GRAN_SIZE_BYTES = Suc k" using not0_implies_Suc by blast
  obtain I2 where lp: "read_mem_loop (inj_hwp L) ppe (Suc k) (getEffectiveAddr (high_word (r 0))) (host_stream L (r (Suc 0))) h1 = Some (e, I2, h2)"
    using 2(1,2) by (simp add: getBuffer_def accessGranule_def mem_setup_def host_stream_def mem_interface_create_def is_read_def Let_def)
  define A' where "A' = note_ffdc L e h2 A"
  have G': "G = sbeSbe2PsuRespHdr (app_glob A')" using G(1) by (simp add: A'_def note_ffdc_def upd_env_def upd_glob_def set_env_def)
  from psu_success [OF mb G' G(2,3), of L h2]
  obtain h3 where 3: "sbePSUSendResponse P L A' FAPI2_RC_SUCCESS 0 h2 = Some (0, A', h3)" "mbox h3 = psu_resp_word G" "memof h3 = memof h2"
    by (elim exE conjE) (rule that)
  have "sbeReadMem_op P L ppe A h = Some (0, A', h3)"
    using 1(1) lp 3(1) v by (simp add: sbeReadMem_op_def A'_def req k del: read_mem_loop.simps)
  then show ?thesis using 3(2,3) 2(3) 1(3) by (intro exI [of _ A'] exI [of _ h3]) simp
qed

definition in_seeprom :: "u32 \<Rightarrow> bool" where
  "in_seeprom a \<longleftrightarrow> a - SBE_SEEPROM_BASE_ORIGIN < MAX_SEEPROM_SIZE"

lemma unat_sum32:
  assumes "unat (a :: u32) + unat b < 2 ^ 32"
  shows "unat (a + b) = unat a + unat b"
  by (rule unat_add_no_wrap) (use assms in simp)

lemma max_seeprom: "MAX_SEEPROM_SIZE = 0x38E20"
  by (simp add: MAX_SEEPROM_SIZE_def)


text \<open>Two granules from the offset \<open>0x80\<close>; every byte of the processor's memory holds the low byte of its address.\<close>

lemma host_app_ok:
  "pr_primStatus (sbeSbe2PsuRespHdr (app_glob (host_app f))) = 0" "pr_secStatus (sbeSbe2PsuRespHdr (app_glob (host_app f))) = 0"
  by (simp_all add: host_app_def sample_app_def secure_glob_def)


text \<open>
  Property C17. When offset and size of an accepted request wrap at 32 bits, the copy leaves the SEEPROM: at
  an address that is a multiple of 128 and that the PBA serves, the host gets all the bytes it asked for, at
  least one of them from another part of the memory of the processor, and reads success.
\<close>

theorem read_mem_wraps:
  assumes rd: "mailbox_reads P memof r" and an: "can_answer P L memof mbox A"
    and G: "G = sbeSbe2PsuRespHdr (app_glob A)" "pr_primStatus G = 0" "pr_secStatus G = 0"
    and o: "off = high_word (r 0)" "sz = low_word (r 0)" "2 ^ 32 \<le> unat off + unat sz" "validateReq off sz"
    and al: "128 dvd unat (r 1)" and sv: "host_serves L memof (r 1) (unat sz)"
  shows "\<exists>h'. sbeReadMem_op P L ppe A h = Some (0, A, h') \<and> mbox h' = psu_resp_word G \<and>
    (\<forall>i < unat sz. memof h' (r 1 + of_nat i) = ppe (getEffectiveAddr off + of_nat i)) \<and>
    (\<exists>i < unat sz. \<not> in_seeprom (getEffectiveAddr off + of_nat i))"
proof -
  have lt: "unat sz < 2 ^ 32" using unsigned_less [of sz] by simp
  obtain h' where 1: "sbeReadMem_op P L ppe A h = Some (0, A, h')" "mbox h' = psu_resp_word G"
    "memof h' = copied ppe off sz (r 1) (memof h)"
    using read_mem_runs [OF rd an G o(4) [unfolded o(1,2)] al sv [unfolded o(2)], of ppe h] unfolding o(1,2) [symmetric] by (elim exE conjE) (rule that)
  have c: "memof h' (r 1 + of_nat i) = ppe (getEffectiveAddr off + of_nat i)" if i: "i < unat sz" for i
  proof -
    have "unat (r 1 + of_nat i - r 1) = i" using i lt by (simp add: unat_of_nat)
    then show ?thesis using i unfolding 1(3) copied_def by (simp only: if_True)
  qed
  have "\<exists>i < unat sz. \<not> in_seeprom (getEffectiveAddr off + of_nat i)"
  proof (cases "unat off < 0x38E20")
    case True
    let ?i = "0x38E20 - unat off"
    have "of_nat ?i = 0x38E20 - off" using True by (simp add: of_nat_diff)
    then have "\<not> in_seeprom (getEffectiveAddr off + of_nat ?i)"
      by (simp add: in_seeprom_def getEffectiveAddr_def max_seeprom)
    moreover have "?i < unat sz" using o(3) True by simp
    ultimately show ?thesis by blast
  next
    case False
    then have "\<not> in_seeprom (getEffectiveAddr off + of_nat 0)"
      by (simp add: in_seeprom_def getEffectiveAddr_def max_seeprom word_less_nat_alt)
    moreover have "0 < unat sz" using o(3) unsigned_less [of off, where 'a = nat] by simp
    ultimately show ?thesis by blast
  qed
  then show ?thesis using 1(1,2) c by blast
qed

text \<open>The offset \<open>-0x80\<close>: the first of the two granules lies below the SEEPROM.\<close>

theorem read_mem_wraps_witness:
  "\<exists>h'. sbeReadMem_op (host_pib [0xFFFFFF8000000100, 0x8000, 0]) mem_sim_plat (\<lambda>a. if a < 0xFF800000 then 0x11 else 0x22)
      (host_app 0x0100) (request [], \<lambda>_. 0) = Some (0, host_app 0x0100, h') \<and> snd h' 0x8000 = 0x11 \<and> snd h' 0x8080 = 0x22"
proof -
  let ?r = "[0xFFFFFF8000000100, 0x8000, 0] :: u64 list" and ?m = "\<lambda>a :: u32. if a < 0xFF800000 then 0x11 else 0x22 :: u8"
  have w: "high_word (?r ! 0) = 0xFFFFFF80" "low_word (?r ! 0) = 0x100" by code_simp+
  have c: "2 ^ 32 \<le> unat (0xFFFFFF80 :: u32) + unat (0x100 :: u32)" "validateReq 0xFFFFFF80 0x100" "128 dvd unat (?r ! 1)"
    by (simp_all add: validateReq_def max_seeprom)
  have sv: "host_serves mem_sim_plat snd (?r ! 1) (unat (0x100 :: u32))" by (rule host_serves_sim) simp
  obtain h' where 1: "sbeReadMem_op (host_pib ?r) mem_sim_plat ?m (host_app 0x0100) (request [], \<lambda>_. 0) = Some (0, host_app 0x0100, h')"
    "\<forall>i < unat (0x100 :: u32). snd h' (?r ! 1 + of_nat i) = ?m (getEffectiveAddr 0xFFFFFF80 + of_nat i)"
    using read_mem_wraps [where A = "host_app 0x0100" and ppe = ?m and h = "(request [], \<lambda>_. 0)", OF host_pib_facts(1) host_pib_facts(2) refl host_app_ok w [symmetric] c sv]
    by (elim exE conjE) (rule that)
  have b: "(0 :: nat) < unat (0x100 :: u32)" "128 < unat (0x100 :: u32)" by simp_all
  show ?thesis
    using 1(2) [rule_format, OF b(1)] 1(2) [rule_format, OF b(2)]
    by (intro exI [of _ h'] conjI 1(1)) (simp_all add: getEffectiveAddr_def)
qed

text \<open>A PBA that refuses every address that is not a multiple of its granule.\<close>

definition strict_plat :: "mem_sim mem_plat" where
  "strict_plat = mem_sim_plat\<lparr> pba_hwp := (\<lambda>f ex. (mem_sim_hwp 128)
     \<lparr> setup_hwp := (\<lambda>i a r h. (if a AND 0x7F = 0 then FAPI2_RC_SUCCESS else 1, 16, h)) \<rparr>) \<rparr>"

lemma read_mem_error_lost_witness:
  "\<exists>A' h'. sbeReadMem_op (host_pib [0x0000008000000100, 0x8001, 0]) strict_plat (\<lambda>_. 0x33) (host_app 0x0100) (request [], \<lambda>_. 0) = Some (0, A', h') \<and>
    snd (fst h') SBE_HOST_PSU_MBOX_REG4 = 0 \<and> snd h' = (\<lambda>_. 0)"
proof -
  let ?r = "[0x0000008000000100, 0x8001, 0] :: u64 list"
  have w: "high_word (?r ! 0) = 0x80" "low_word (?r ! 0) = 0x100" by code_simp+
  have v: "validateReq (high_word (?r ! 0)) (low_word (?r ! 0))" "low_word (?r ! 0) \<noteq> 0"
    unfolding w by (simp_all add: validateReq_def max_seeprom)
  have no: "host_refuses strict_plat snd (?r ! 1)"
    by (simp add: host_refuses_def strict_plat_def FAPI2_RC_SUCCESS_def)
  have mb: "mailbox_writes (host_pib ?r) snd (\<lambda>h. snd (fst h) SBE_HOST_PSU_MBOX_REG4)"
    using host_pib_facts(2) by (simp add: can_answer_def)
  have z: "psu_resp_word (sbeSbe2PsuRespHdr (app_glob (host_app 0x0100))) = 0" by code_simp
  obtain A' h' where "sbeReadMem_op (host_pib ?r) strict_plat (\<lambda>_. 0x33) (host_app 0x0100) (request [], \<lambda>_. 0) = Some (0, A', h')"
    "snd (fst h') SBE_HOST_PSU_MBOX_REG4 = psu_resp_word (sbeSbe2PsuRespHdr (app_glob (host_app 0x0100)))"
    "snd h' = snd (request [], \<lambda>_. 0)"
    using read_mem_error_lost [where A = "host_app 0x0100" and ppe = "\<lambda>_. 0x33" and h = "(request [], \<lambda>_. 0)", OF host_pib_facts(1) mb refl host_app_ok v no]
    by (elim exE conjE) (rule that)
  then show ?thesis unfolding z by (intro exI [of _ A'] exI [of _ h']) simp
qed

end
