(* ===== verification/Sbe_Capability.thy ===== *)
theory Sbe_Capability
  imports Sbe_HostOps
begin

unbundle bit_operations_syntax

text \<open>
  The rest of \<open>app/common/sbecmdgeneric.C\<close>: the capabilities of \<open>app/power/sbecmdgeneric.C\<close>, sent over the
  FIFO or written to the memory of the host, and the command that fetches the FFDC. The bits of the
  capabilities are compared with the table of commands that the dispatch uses.
\<close>

section \<open>The code\<close>

subsection \<open>The capabilities\<close>

abbreviation "SBE_MAX_CAPABILITIES \<equiv> 20 :: nat"
abbreviation "CAPABILITIES_LAST_INDEX_FIFO \<equiv> 19 :: nat"
abbreviation "CAPABILITIES_LAST_INDEX_PSU \<equiv> 15 :: nat"

abbreviation "HWP_FFDC_COLLECTION_SUPPPORTED \<equiv> 0xC0000001 :: u32"
abbreviation "SBE_FFDC_COLLECTION_SUPPPORTED \<equiv> 0xC0000002 :: u32"
abbreviation "ADDRESS_BLACKLISTING_SUPPPORTED \<equiv> 0xC0000004 :: u32"
abbreviation "FIFO_RESET_SUPPPORTED \<equiv> 0xC0000008 :: u32"
abbreviation "HOST_CMD_INTERFACE_SUPPORTED \<equiv> 0xC0000010 :: u32"
abbreviation "SP_LESS_MPIPL_SUPPORTED \<equiv> 0xC0000020 :: u32"
abbreviation "RESERVED_GENERIC_CAPABILITIES \<equiv> 0xC8000000 :: u32"
abbreviation "EXECUTE_ISTEP_SUPPPORTED \<equiv> 0xA1000001 :: u32"
abbreviation "SUSPEND_IO_SUPPPORTED \<equiv> 0xA1000002 :: u32"
abbreviation "FLUSH_NVDIMM_SUPPPORTED \<equiv> 0xA1000003 :: u32"
abbreviation "GET_SCOM_SUPPPORTED \<equiv> 0xA2000001 :: u32"
abbreviation "PUT_SCOM_SUPPPORTED \<equiv> 0xA2000002 :: u32"
abbreviation "MODIFY_SCOM_SUPPPORTED \<equiv> 0xA2000004 :: u32"
abbreviation "PUT_SCOM_UNDER_MASK_SUPPPORTED \<equiv> 0xA2000008 :: u32"
abbreviation "GET_RING_SUPPPORTED \<equiv> 0xA3000001 :: u32"
abbreviation "PUT_RING_SUPPPORTED \<equiv> 0xA3000002 :: u32"
abbreviation "PUT_RING_FROM_IMAGE_SUPPPORTED \<equiv> 0xA3000004 :: u32"
abbreviation "GET_MEMORY_SUPPPORTED \<equiv> 0xA4000001 :: u32"
abbreviation "PUT_MEMORY_SUPPPORTED \<equiv> 0xA4000002 :: u32"
abbreviation "GET_SRAM_OCC_SUPPPORTED \<equiv> 0xA4000004 :: u32"
abbreviation "PUT_SRAM_OCC_SUPPPORTED \<equiv> 0xA4000008 :: u32"
abbreviation "GET_REGISTER_SUPPPORTED \<equiv> 0xA5000001 :: u32"
abbreviation "PUT_REGISTER_SUPPPORTED \<equiv> 0xA5000002 :: u32"
abbreviation "CONTROL_FAST_ARRAY_SUPPPORTED \<equiv> 0xA6000001 :: u32"
abbreviation "CONTROL_TRACE_ARRAY_SUPPPORTED \<equiv> 0xA6000002 :: u32"
abbreviation "CONTROL_INSTRUCTIONS_SUPPPORTED \<equiv> 0xA7000001 :: u32"
abbreviation "GET_SBE_FFDC_SUPPPORTED \<equiv> 0xA8000001 :: u32"
abbreviation "SBE_QUIESCE \<equiv> 0xA8000002 :: u32"
abbreviation "ENTER_MPIPL_SUPPORTED \<equiv> 0xA9000001 :: u32"
abbreviation "CONTINUE_MPIPL_SUPPORTED \<equiv> 0xA9000002 :: u32"
abbreviation "STOP_CLOCKS_MPIPL_SUPPORTED \<equiv> 0xA9000004 :: u32"
abbreviation "MPIPL_COLLECT_DUMP_SUPPORTED \<equiv> 0xA9000008 :: u32"
abbreviation "PSU_CONTROL_DEADMAN_LOOP \<equiv> 0xD1000001 :: u32"
abbreviation "PSU_PUT_RING_FROM_IMAGE_SUPPORTED \<equiv> 0xD3000001 :: u32"
abbreviation "PSU_CONTROL_TIMER_SUPPORTED \<equiv> 0xD4000001 :: u32"
abbreviation "PSU_UNSECURE_MEM_REGION_SUPPORTED \<equiv> 0xD6000001 :: u32"
abbreviation "PSU_GET_SBE_CAPABILITIES_SUPPPORTED \<equiv> 0xD7000002 :: u32"
abbreviation "PSU_READ_SBE_SEEPROM_SUPPORTED \<equiv> 0xD7000004 :: u32"
abbreviation "PSU_SET_FFDC_ADDRESS_SUPPORTED \<equiv> 0xD7000008 :: u32"
abbreviation "PSU_QUISCE_SUPPORTED \<equiv> 0xD7000010 :: u32"
abbreviation "PSU_SET_SYSTEM_FABRIC_ID_MAP_SUPPORTED \<equiv> 0xD7000020 :: u32"
abbreviation "PSU_STASH_MPIPL_CONFIG_SUPPORTED \<equiv> 0xD7000040 :: u32"
abbreviation "PSU_SECURITY_LIST_BIN_DUMP_SUPPORTED \<equiv> 0xD7000080 :: u32"

text \<open>
  The message: the version, the commit, the build tag of the image and the capabilities. The bytes \<open>tag\<close> of
  the build tag come from the header of the image.
\<close>

record sbeCapabilityRespMsg_t =
  verMajor :: u16
  verMinor :: u16
  fwCommitId :: u32
  buildTag :: "nat \<Rightarrow> u8"
  capability :: "u32 list"

definition generic_capabilities :: "u32 list" where
  "generic_capabilities = (replicate SBE_MAX_CAPABILITIES 0)
     [0 := HWP_FFDC_COLLECTION_SUPPPORTED OR SBE_FFDC_COLLECTION_SUPPPORTED OR ADDRESS_BLACKLISTING_SUPPPORTED
        OR FIFO_RESET_SUPPPORTED OR HOST_CMD_INTERFACE_SUPPORTED OR SP_LESS_MPIPL_SUPPORTED,
      1 := RESERVED_GENERIC_CAPABILITIES]"

definition new_sbeCapabilityRespMsg :: "resp_env \<Rightarrow> (nat \<Rightarrow> u8) \<Rightarrow> sbeCapabilityRespMsg_t" where
  "new_sbeCapabilityRespMsg E tag =
     \<lparr> verMajor = 1, verMinor = 1, fwCommitId = fwCommitID E, buildTag = tag,
       capability = generic_capabilities \<rparr>"

definition updatePsuCapabilities :: "u32 list \<Rightarrow> u32 list" where
  "updatePsuCapabilities caps = caps
     [2 := PSU_CONTROL_DEADMAN_LOOP, 3 := 0xD1800000,
      4 := 0xD2000000, 5 := 0xD2800000,
      6 := PSU_PUT_RING_FROM_IMAGE_SUPPORTED, 7 := 0xD3800000,
      8 := PSU_CONTROL_TIMER_SUPPORTED, 9 := 0xD4800000,
      10 := 0xD5000000, 11 := 0xD5800000,
      12 := PSU_UNSECURE_MEM_REGION_SUPPORTED, 13 := 0xD6800000,
      14 := PSU_GET_SBE_CAPABILITIES_SUPPPORTED OR PSU_READ_SBE_SEEPROM_SUPPORTED OR PSU_SET_FFDC_ADDRESS_SUPPORTED
        OR PSU_QUISCE_SUPPORTED OR PSU_SET_SYSTEM_FABRIC_ID_MAP_SUPPORTED OR PSU_STASH_MPIPL_CONFIG_SUPPORTED
        OR PSU_SECURITY_LIST_BIN_DUMP_SUPPORTED,
      15 := 0xD7800000]"

definition updateFifoCapabilities :: "u32 list \<Rightarrow> u32 list" where
  "updateFifoCapabilities caps = caps
     [2 := EXECUTE_ISTEP_SUPPPORTED OR SUSPEND_IO_SUPPPORTED OR FLUSH_NVDIMM_SUPPPORTED, 3 := 0xA1800000,
      4 := GET_SCOM_SUPPPORTED OR PUT_SCOM_SUPPPORTED OR MODIFY_SCOM_SUPPPORTED OR PUT_SCOM_UNDER_MASK_SUPPPORTED,
      5 := 0xA2800000,
      6 := GET_RING_SUPPPORTED OR PUT_RING_SUPPPORTED OR PUT_RING_FROM_IMAGE_SUPPPORTED, 7 := 0xA3800000,
      8 := GET_MEMORY_SUPPPORTED OR PUT_MEMORY_SUPPPORTED OR GET_SRAM_OCC_SUPPPORTED OR PUT_SRAM_OCC_SUPPPORTED,
      9 := 0xA4800000,
      10 := GET_REGISTER_SUPPPORTED OR PUT_REGISTER_SUPPPORTED, 11 := 0xA5800000,
      12 := CONTROL_FAST_ARRAY_SUPPPORTED OR CONTROL_TRACE_ARRAY_SUPPPORTED, 13 := 0xA6800000,
      14 := CONTROL_INSTRUCTIONS_SUPPPORTED, 15 := 0xA7800000,
      16 := GET_SBE_FFDC_SUPPPORTED OR SBE_QUIESCE, 17 := 0xA8800000,
      18 := ENTER_MPIPL_SUPPORTED OR CONTINUE_MPIPL_SUPPORTED OR STOP_CLOCKS_MPIPL_SUPPORTED
        OR MPIPL_COLLECT_DUMP_SUPPORTED,
      19 := 0xA9800000]"

text \<open>The structure as words, and its length in bytes without the capabilities that are not used.\<close>

definition capability_words :: "sbeCapabilityRespMsg_t \<Rightarrow> u32 list" where
  "capability_words m = word_of_halves (verMajor m) (verMinor m) # fwCommitId m
     # map (\<lambda>i. be_read 4 (buildTag m) (4 * i)) [0..<5] @ capability m"

definition SBE_CAPABILITES_LEN_FIFO :: nat where
  "SBE_CAPABILITES_LEN_FIFO = 28 + 4 * SBE_MAX_CAPABILITIES - 4 * (SBE_MAX_CAPABILITIES - CAPABILITIES_LAST_INDEX_FIFO - 1)"

definition SBE_CAPABILITES_LEN_PSU :: nat where
  "SBE_CAPABILITES_LEN_PSU = 28 + 4 * SBE_MAX_CAPABILITIES - 4 * (SBE_MAX_CAPABILITIES - CAPABILITIES_LAST_INDEX_PSU - 1)"

definition sbeGetCapabilities_op :: "'h pib \<Rightarrow> (nat \<Rightarrow> u8) \<Rightarrow> sbe_app \<Rightarrow> 'h \<Rightarrow> (u32 \<times> 'h) option" where
  "sbeGetCapabilities_op P tag A h =
     (let respHdr = init_resp_hdr (app_glob A);
          capMsg = new_sbeCapabilityRespMsg (g_env (app_glob A)) tag;
          capMsg = capMsg\<lparr> capability := updateFifoCapabilities (capability capMsg) \<rparr>
      in do {
        (rc, len, b, h) \<leftarrow> sbeUpFifoDeq_mult P 0 None True False h;
        if rc \<noteq> 0 then Some (rc, h)
        else do {
          (rc, len, h) \<leftarrow> sbeDownFifoEnq_mult P (of_nat (SBE_CAPABILITES_LEN_FIFO div 4)) ((!) (capability_words capMsg)) h;
          if rc \<noteq> 0 then Some (rc, h) else sbeDsSendRespHdr P (g_env (app_glob A)) respHdr None h
        }
      })"

abbreviation "SBE_HOST_PSU_MBOX_REG5 \<equiv> 0x000D0055 :: u32"
abbreviation "SBE_HOST_PSU_MBOX_REG6 \<equiv> 0x000D0056 :: u32"

definition sbePsuGetCapabilities_op :: "'h pib \<Rightarrow> 'h mem_plat \<Rightarrow> (nat \<Rightarrow> u8) \<Rightarrow> sbe_app \<Rightarrow> 'h \<Rightarrow> 'h app_result" where
  "sbePsuGetCapabilities_op P L tag A h =
     (let capMsg = new_sbeCapabilityRespMsg (g_env (app_glob A)) tag;
          capMsg = capMsg\<lparr> capability := updatePsuCapabilities (capability capMsg) \<rparr>;
          bytes = struct_bytes (capability_words capMsg)
      in do {
        (rc, req, h) \<leftarrow> sbeReadPsu2SbeMbxReg P (app_glob A) SBE_HOST_PSU_MBOX_REG1 2 (\<lambda>_. 0) True h;
        if rc \<noteq> 0 then sbePSUSendResponse P L A FAPI2_RC_SUCCESS rc h
        else if req 0 < of_nat SBE_CAPABILITES_LEN_PSU \<or> req 0 mod of_nat PBA_GRAN_SIZE_BYTES \<noteq> 0
        then sbePSUSendResponse P L (upd_glob (set_psu_status SBE_PRI_INVALID_DATA SBE_SEC_INVALID_PARAMS) A) FAPI2_RC_SUCCESS rc h
        else do {
          (rc, h) \<leftarrow> sbeWriteSbe2PsuMbxReg P (app_glob A) SBE_HOST_PSU_MBOX_REG5 (\<lambda>_. of_nat SBE_CAPABILITES_LEN_PSU) 1 False h;
          if rc \<noteq> 0 then sbePSUSendResponse P L A FAPI2_RC_SUCCESS rc h
          else do {
            (rc, h) \<leftarrow> sbeWriteSbe2PsuMbxReg P (app_glob A) SBE_HOST_PSU_MBOX_REG6 (\<lambda>_. be_read 8 ((!) bytes) 0) 1 False h;
            if rc \<noteq> 0 then sbePSUSendResponse P L A FAPI2_RC_SUCCESS rc h
            else do {
              (l_fapiRc, b, I, h) \<leftarrow> accessWithBuffer (inj_hwp L) ((!) bytes) SBE_CAPABILITES_LEN_PSU True (host_stream L (req 1)) h;
              let A = (if l_fapiRc = FAPI2_RC_SUCCESS then A
                       else upd_glob (set_psu_status SBE_PRI_GENERIC_EXECUTION_FAILURE SBE_SEC_GENERIC_FAILURE_IN_EXECUTION)
                              (note_ffdc L l_fapiRc h A));
              sbePSUSendResponse P L A l_fapiRc rc h
            }
          }
        }
      })"

subsection \<open>Fetching the FFDC\<close>

text \<open>
  \<open>g_FfdcData.fapiRc\<close> and \<open>asyncFfdcRC\<close> beside the other globals. \<open>collects\<close> are the return codes for which
  \<open>collectAsyncHwpFfdc\<close> calls a hardware procedure, \<open>collect\<close> what the procedure leaves.
\<close>

record sbe_ffdc =
  ff_app :: sbe_app
  g_fapiRc :: u32
  asyncFfdcRC :: u32

definition collectAsyncHwpFfdc :: "(u32 \<Rightarrow> bool) \<Rightarrow> (sbe_ffdc \<Rightarrow> 'h \<Rightarrow> sbe_ffdc \<times> 'h) \<Rightarrow> sbe_ffdc \<Rightarrow> 'h \<Rightarrow> sbe_ffdc \<times> 'h" where
  "collectAsyncHwpFfdc collects collect S h = (if collects (asyncFfdcRC S) then collect S h else (S, h))"

definition last_ffdc :: "u32 \<Rightarrow> resp_env \<Rightarrow> sbeResponseFfdc_t" where
  "last_ffdc rc E = (let f = setCmdInfo 0 (failedCmdClass E) (failedCmd E) (new_sbeResponseFfdc\<lparr> rf_fapiRc := rc \<rparr>)
     in f\<lparr> rf_lenInWords := rf_lenInWords f + ucast (ffdcLength E div 4) \<rparr>)"

definition send_last_ffdc :: "'h pib \<Rightarrow> u32 \<Rightarrow> resp_env \<Rightarrow> 'h \<Rightarrow> (u32 \<times> 'h) option" where
  "send_last_ffdc P fapiRc E h =
     (if fapiRc = FAPI2_RC_SUCCESS_WORD then Some (0, h)
      else if ffdcLength E mod 4 \<noteq> 0 then None
      else do {
        (rc, len, h) \<leftarrow> send_words P (resp_ffdc_words (last_ffdc fapiRc E)) h;
        if rc \<noteq> 0 then Some (rc, h)
        else do { (rc, len, h) \<leftarrow> sbeDownFifoEnq_mult P (ffdcLength E div 4) (ffdcData E) h; Some (rc, h) }
      })"

definition sbeGetFfdc_op :: "'h pib \<Rightarrow> (u32 \<Rightarrow> bool) \<Rightarrow> (sbe_ffdc \<Rightarrow> 'h \<Rightarrow> sbe_ffdc \<times> 'h) \<Rightarrow> sbe_ffdc \<Rightarrow> 'h
    \<Rightarrow> (u32 \<times> sbe_ffdc \<times> 'h) option" where
  "sbeGetFfdc_op P collects collect S h =
     (let respHdr = init_resp_hdr (app_glob (ff_app S))
      in do {
        (rc, len, b, h) \<leftarrow> sbeUpFifoDeq_mult P 0 None True False h;
        if rc \<noteq> 0 then Some (rc, S, h)
        else do {
          let (S, h) = collectAsyncHwpFfdc collects collect S h;
          let E = g_env (app_glob (ff_app S));
          (rc, h) \<leftarrow> send_last_ffdc P (g_fapiRc S) E h;
          if rc \<noteq> 0 then Some (rc, S, h)
          else do {
            (rc, len, h) \<leftarrow> sendOverFIFO P E SBE_FFDC_ALL_DUMP True h;
            if rc \<noteq> 0 then Some (rc, S, h)
            else do {
              (rc, h) \<leftarrow> sbeDsSendRespHdr P E respHdr None h;
              if rc \<noteq> 0 then Some (rc, S, h)
              else do {
                let (prc, R, h) = updateAsyncFFDCBit P False (regAccess E) h;
                Some (rc, S\<lparr> ff_app := upd_env (\<lambda>E. E\<lparr> regAccess := R \<rparr>) (ff_app S), asyncFfdcRC := 0 \<rparr>, h)
              }
            }
          }
        }
      })"

section \<open>The capabilities and the table of commands\<close>

text \<open>Command \<open>k\<close> of a class is announced by bit \<open>k - 1\<close> of its word; the upper byte of the word is the class.\<close>

definition announced :: "u32 \<Rightarrow> u8 list" where
  "announced w = map (\<lambda>i. of_nat (Suc i)) (filter (bit w) [0..<16])"

definition offered :: "u8 \<Rightarrow> u8 list" where
  "offered c = sort (map cmd_opcode (class_commands c))"

lemma fifo_capabilities:
  "length (updateFifoCapabilities generic_capabilities) = 20"
  "map (\<lambda>i. drop_bit 24 (updateFifoCapabilities generic_capabilities ! (2 * i + 2))) [0..<9] = map (\<lambda>i. 0xA1 + of_nat i) [0..<9]"
  "map (\<lambda>i. announced (updateFifoCapabilities generic_capabilities ! (2 * i + 2))) [0..<9] =
    [[1, 2], [1, 2, 3, 4], [1, 2, 3], [1, 2, 3, 4], [1, 2], [1, 2], [1], [1, 2], [1, 2, 3, 4]]"
  by code_simp+

lemma fifo_offered:
  "map (\<lambda>i. offered (0xA1 + of_nat i)) [0..<9] =
    [[1, 2, 3], [1, 2, 3, 4, 5], [1, 2], [1, 2, 3, 4], [1, 2], [1, 2], [1], [1, 2, 6], [1, 2, 3, 4]]"
  by code_simp

lemma psu_capabilities:
  "length (updatePsuCapabilities generic_capabilities) = 20"
  "map (\<lambda>i. drop_bit 24 (updatePsuCapabilities generic_capabilities ! (2 * i + 2))) [0..<7] = map (\<lambda>i. 0xD1 + of_nat i) [0..<7]"
  "map (\<lambda>i. announced (updatePsuCapabilities generic_capabilities ! (2 * i + 2))) [0..<7] = map (\<lambda>i. offered (0xD1 + of_nat i)) [0..<7]"
  by code_simp+

section \<open>The capabilities over the FIFO\<close>

lemma deq_nothing:
  assumes "fifo_feeds P up" "body_at up h es rest" "words_of es = []"
  obtains n b h1 where "sbeUpFifoDeq_mult P 0 None True False h = Some (0, n, b, h1)" "up h1 = rest"
proof -
  obtain e where e: "up h = es @ e # rest" "\<forall>x \<in> set es. plain_entry x" "eot_entry e" using assms(2) by (auto simp: body_at_def)
  show ?thesis using deq_loop_eot [OF assms(1) e, of True False 0 0 None] assms(3) that by (auto simp: sbeUpFifoDeq_mult_def)
qed

lemma capability_words_nth:
  "i < 20 \<Longrightarrow> length (capability m) = 20 \<Longrightarrow> capability_words m ! (i + 7) = capability m ! i"
  "length (capability m) = 20 \<Longrightarrow> length (capability_words m) = 27"
  "take 2 (capability_words m) = [word_of_halves (verMajor m) (verMinor m), fwCommitId m]"
  by (simp_all add: capability_words_def nth_append)

text \<open>
  Property C19. The capabilities that the service processor reads over the FIFO, word by word, are those of
  the table of commands for the classes of memory, registers, arrays, instructions and MPIPL. For the
  others they differ: FLUSH NVDIMM and MULTI SCOM are served and not announced, a third ring command is
  announced and not served, and in the generic class the bit of command 2 stands for quiesce,
  which is command 6.
\<close>

theorem capabilities_announced:
  assumes p: "fifo_pair P up sent busy memof" and b: "body_at up h es rest" "words_of es = []" and A: "env_ok A"
  shows "\<exists>h' ws word. sbeGetCapabilities_op P tag A h = Some (0, h') \<and>
    parse_response (sent h') = (sent h @ ws, init_resp_hdr (app_glob A)) \<and>
    length ws = 27 \<and> take 2 ws = [0x00010001, fwCommitID (g_env (app_glob A))] \<and>
    (\<forall>c :: u8. word c = ws ! (2 * unat (c - 0xA1) + 9)) \<and>
    (\<forall>c \<in> {0xA4, 0xA5, 0xA6, 0xA7, 0xA9}. announced (word c) = offered c) \<and>
    announced (word 0xA1) = [1, 2] \<and> offered 0xA1 = [1, 2, 3] \<and>
    announced (word 0xA2) = [1, 2, 3, 4] \<and> offered 0xA2 = [1, 2, 3, 4, 5] \<and>
    announced (word 0xA3) = [1, 2, 3] \<and> offered 0xA3 = [1, 2] \<and>
    announced (word 0xA8) = [1, 2] \<and> offered 0xA8 = [1, 2, 6]"
proof -
  have f: "fifo_feeds P up" and d: "fifo_drains P sent busy" and k: "deq_keeps P (\<lambda>h. (sent h, memof h))"
    using p by (auto simp: fifo_pair_def)
  let ?E = "g_env (app_glob A)"
  define m where "m = (new_sbeCapabilityRespMsg ?E tag)\<lparr> capability := updateFifoCapabilities (capability (new_sbeCapabilityRespMsg ?E tag)) \<rparr>"
  have caps: "capability m = updateFifoCapabilities generic_capabilities" by (simp add: m_def new_sbeCapabilityRespMsg_def)
  have l: "length (capability m) = 20" unfolding caps by (rule fifo_capabilities(1))
  let ?ws = "capability_words m" and ?word = "\<lambda>c :: u8. capability_words m ! (2 * unat (c - 0xA1) + 9)"
  obtain n b1 h1 where 1: "sbeUpFifoDeq_mult P 0 None True False h = Some (0, n, b1, h1)" by (rule deq_nothing [OF f b])
  have s1: "sent h1 = sent h" using deq_mult_keeps [OF k 1] by simp
  obtain h2 where 2: "sbeDownFifoEnq_mult P (of_nat (SBE_CAPABILITES_LEN_FIFO div 4)) ((!) ?ws) h1 = Some (0, 27, h2)"
    "sent h2 = sent h1 @ ?ws"
    using enq_mult_sends [OF d, of 27 "(!) ?ws" h1] capability_words_nth(2) [OF l] map_nth [of ?ws] by (auto simp: SBE_CAPABILITES_LEN_FIFO_def)
  obtain h3 body where 3: "sbeDsSendRespHdr P ?E (init_resp_hdr (app_glob A)) None h2 = Some (0, h3)"
    "sent h3 = sent h2 @ resp_hdr_words (init_resp_hdr (app_glob A)) @ body @ [of_nat (length body + 3)]" "length body + 3 < 2 ^ 32"
    using send_resp_hdr_sends [OF d A [unfolded env_ok_def, THEN conjunct1] A [unfolded env_ok_def, THEN conjunct2],
        of "init_resp_hdr (app_glob A)" None h2] by (elim conjE exE) (rule that)
  have op: "sbeGetCapabilities_op P tag A h = Some (0, h3)"
    using 1 2(1) 3(1) unfolding sbeGetCapabilities_op_def Let_def m_def by simp
  have pr: "parse_response (sent h3) = (sent h @ ?ws, init_resp_hdr (app_glob A))"
    unfolding 3(2) parse_sent [OF 3(3)] 2(2) s1 ..
  have wd: "announced (?word (0xA1 + of_nat i)) = announced (capability m ! (2 * i + 2))" if "i < 9" for i
  proof -
    have "unat (of_nat i :: u8) = i" using that by (simp add: unat_of_nat)
    then have "?word (0xA1 + of_nat i) = ?ws ! ((2 * i + 2) + 7)" by (simp add: add.commute)
    then show ?thesis using capability_words_nth(1) [OF _ l, of "2 * i + 2"] that by simp
  qed
  have an: "map (\<lambda>i. announced (?word (0xA1 + of_nat i))) [0..<9] =
    [[1, 2], [1, 2, 3, 4], [1, 2, 3], [1, 2, 3, 4], [1, 2], [1, 2], [1], [1, 2], [1, 2, 3, 4]]"
    unfolding fifo_capabilities(3) [symmetric] caps [symmetric] using wd by simp
  have t: "take 2 ?ws = [0x00010001, fwCommitID ?E]"
    unfolding capability_words_nth(3) by (simp add: m_def new_sbeCapabilityRespMsg_def word_of_halves_def)
  have u: "[0..<9] = [0, 1, 2, 3, 4, 5, 6, 7, 8 :: nat]" by (simp add: upt_rec)
  note z = an [unfolded u] fifo_offered [unfolded u]
  show ?thesis
    by (rule exI [of _ h3], rule exI [of _ ?ws], rule exI [of _ ?word])
      (use op pr t z capability_words_nth(2) [OF l] in simp)
qed

theorem capabilities_announced_witness:
  "\<exists>h' ws. sbeGetCapabilities_op mem_sim_pib (\<lambda>_. 0) sample_app (request [], \<lambda>_. 0) = Some (0, h') \<and>
    fst (parse_response (sim_sent h')) = ws \<and> announced (ws ! 23) = [1, 2] \<and> offered 0xA8 = [1, 2, 6]"
proof -
  have b: "body_at sim_up (request [], \<lambda>_ :: u64. 0 :: u8) [] []"
    unfolding body_at_def by (intro exI [of _ "0x40000000 :: u64"]) (simp add: request_def request_eot)
  obtain h' ws word where "sbeGetCapabilities_op mem_sim_pib (\<lambda>_. 0) sample_app (request [], \<lambda>_. 0) = Some (0, h')"
    "parse_response (sim_sent h') = (sim_sent (request [], \<lambda>_ :: u64. 0 :: u8) @ ws, init_resp_hdr (app_glob sample_app))"
    "\<forall>c :: u8. word c = ws ! (2 * unat (c - 0xA1) + 9)" "announced (word 0xA8) = [1, 2]" "offered 0xA8 = [1, 2, 6]"
    using capabilities_announced [OF mem_sim_pair b words_of_simps(1) sample_app_facts(1), of "\<lambda>_. 0"] by (elim exE conjE) (rule that)
  then show ?thesis by (intro exI [of _ h'] exI [of _ ws]) (simp add: request_def)
qed

section \<open>The capabilities in the memory of the host\<close>

lemma struct_bytes_word:
  assumes "agree d 0 (struct_bytes ws)" "i < length ws"
  shows "word_view d i = ws ! i"
proof -
  have "ws = take i ws @ [ws ! i] @ drop (Suc i) ws" using assms(2) by (simp add: id_take_nth_drop)
  then have "struct_bytes ws = struct_bytes (take i ws) @ be_bytes 4 (ws ! i) @ struct_bytes (drop (Suc i) ws)"
    by (metis struct_bytes_append append_Cons append_Nil concat.simps(2) list.simps(9) struct_bytes_def)
  then have "agree d (4 * i) (be_bytes 4 (ws ! i))"
    using assms agree_append [of d 0 "struct_bytes (take i ws)"] by (simp add: agree_append struct_bytes_length)
  then show ?thesis unfolding word_view_def by (intro be_read_bytes) simp_all
qed

text \<open>
  The host finds the capabilities at the address it gave: each class of the host announces the commands of
  the table. The area must have room for them and be a multiple of the granule, which the last access
  fills up.
\<close>

lemma host_capabilities:
  assumes rd: "mailbox_reads P memof r" and an: "can_answer P L memof mbox A"
    and mb56: "\<forall>a \<in> {SBE_HOST_PSU_MBOX_REG5, SBE_HOST_PSU_MBOX_REG6}. \<forall>v h. \<exists>h'. putscom_abs P a v h = (0, h') \<and> memof h' = memof h"
    and G: "G = sbeSbe2PsuRespHdr (app_glob A)" "pr_primStatus G = 0" "pr_secStatus G = 0"
    and sz: "92 \<le> unat (r 0)" "128 dvd unat (r 0)" and al: "128 dvd unat (r 1)" and sv: "host_serves L memof (r 1) 128"
  shows "\<exists>h'. sbePsuGetCapabilities_op P L tag A h = Some (0, A, h') \<and> mbox h' = psu_resp_word G \<and>
    (\<forall>i < 7. announced (mem_words (memof h') (r 1) 23 ! (2 * i + 9)) = offered (0xD1 + of_nat i)) \<and>
    (\<forall>x. unat (r 0) \<le> unat (x - r 1) \<longrightarrow> memof h' x = memof h x)"
proof -
  obtain S where hw: "writes_memory (inj_hwp L) memof SBE_MEM_ACCESS_PBA 128 S" and S: "serves 128 S (r 1) 128"
    using sv unfolding host_serves_def by (elim exE conjE)
  have mb: "mailbox_writes P memof mbox" and buf: "length (raw_buffer L) = 128"
    using an by (simp_all add: can_answer_def)
  let ?E = "g_env (app_glob A)"
  define m where "m = (new_sbeCapabilityRespMsg ?E tag)\<lparr> capability := updatePsuCapabilities (capability (new_sbeCapabilityRespMsg ?E tag)) \<rparr>"
  have caps: "capability m = updatePsuCapabilities generic_capabilities" by (simp add: m_def new_sbeCapabilityRespMsg_def)
  have l: "length (capability m) = 20" unfolding caps by (rule psu_capabilities(1))
  let ?ws = "capability_words m" and ?bs = "struct_bytes (capability_words m)"
  have lb: "length ?bs = 108" using capability_words_nth(2) [OF l] by (simp add: struct_bytes_length)
  have len: "SBE_CAPABILITES_LEN_PSU = 92" by (simp add: SBE_CAPABILITES_LEN_PSU_def)
  obtain req h1 where 1: "sbeReadPsu2SbeMbxReg P (app_glob A) SBE_HOST_PSU_MBOX_REG1 2 (\<lambda>_. 0) True h = Some (0, req, h1)"
    "\<forall>i < unat (2 :: u8). req i = r i" "memof h1 = memof h"
    by (rule read_host_request [OF rd mb, of 2]) simp_all
  have req: "req 0 = r 0" "req (Suc 0) = r (Suc 0)" using 1(2) by simp_all
  have "r 0 mod 128 = 0" using sz(2) by (simp add: word_unat_eq_iff unat_mod dvd_eq_mod_eq_0)
  then have ok: "\<not> (req 0 < of_nat SBE_CAPABILITES_LEN_PSU \<or> req 0 mod of_nat PBA_GRAN_SIZE_BYTES \<noteq> 0)"
    using sz(1) by (simp add: req len PBA_GRAN_SIZE_BYTES_def word_less_nat_alt)
  obtain h2 where 2: "putscom_abs P SBE_HOST_PSU_MBOX_REG5 92 h1 = (0, h2)" "memof h2 = memof h1" using mb56 by blast
  obtain h3 where 3: "putscom_abs P SBE_HOST_PSU_MBOX_REG6 (be_read 8 ((!) ?bs) 0) h2 = (0, h3)" "memof h3 = memof h2" using mb56 by blast
  let ?d = "map ((!) ?bs) [0..<92]"
  have w: "writing 128 (host_stream L (r 1))" "iv_iterator (host_stream L (r 1)) < 128" "pending (host_stream L (r 1)) = []"
    and adr: "iv_addr (host_stream L (r 1)) = r 1"
    using host_stream_writing [OF buf al] by (simp_all add: host_stream_def mem_interface_create_def pending_def)
  have hw': "writes_memory (inj_hwp L) memof (iv_interface (host_stream L (r 1))) 128 S" using hw host_stream_writing(3) [OF buf al] by simp
  have fl128: "serves 128 S (iv_addr (host_stream L (r 1))) (length (flushed 128 True ?d))"
    using S unfolding adr by (simp add: flushed_def)
  obtain I4 h4 where 4: "accessWithBuffer (inj_hwp L) ((!) ?bs) 92 True (host_stream L (r 1)) h3 = Some (FAPI2_RC_SUCCESS, (!) ?bs, I4, h4)"
    "memof h4 = mem_store (r 1) (flushed 128 True ?d) (memof h3)"
    using access_loop_writes [OF hw' w(1,2) _ _ _ fl128, of 0 92 "(!) ?bs" False h3] w(3) unfolding adr
    by (auto simp: accessWithBuffer_def)
  from psu_success [OF mb G, of L h4]
  obtain h5 where 5: "sbePSUSendResponse P L A FAPI2_RC_SUCCESS 0 h4 = Some (0, A, h5)" "mbox h5 = psu_resp_word G" "memof h5 = memof h4"
    by (elim exE conjE) (rule that)
  have wr: "sbeWriteSbe2PsuMbxReg P (app_glob A) SBE_HOST_PSU_MBOX_REG5 (\<lambda>_. of_nat SBE_CAPABILITES_LEN_PSU) 1 False h1 = Some (0, h2)"
    "sbeWriteSbe2PsuMbxReg P (app_glob A) SBE_HOST_PSU_MBOX_REG6 (\<lambda>_. be_read 8 ((!) ?bs) 0) 1 False h2 = Some (0, h3)"
    using 2(1) 3(1) by (simp_all add: sbeWriteSbe2PsuMbxReg_def len)
  have op: "sbePsuGetCapabilities_op P L tag A h = Some (0, A, h5)"
    unfolding sbePsuGetCapabilities_op_def Let_def m_def [symmetric]
    using 1(1) ok wr 4(1) 5(1) by (simp add: len req del: de_Morgan_disj)
  have d: "?d = struct_bytes (take 23 ?ws)"
  proof -
    have "?bs = struct_bytes (take 23 ?ws) @ struct_bytes (drop 23 ?ws)" by (simp flip: struct_bytes_append)
    moreover have "length (struct_bytes (take 23 ?ws)) = 92" using capability_words_nth(2) [OF l] by (simp add: struct_bytes_length)
    ultimately show ?thesis using map_nth [of "struct_bytes (take 23 ?ws)"] by (intro nth_equalityI) (simp_all add: nth_append)
  qed
  have fl: "flushed 128 True ?d = struct_bytes (take 23 ?ws) @ replicate 36 0" unfolding d using capability_words_nth(2) [OF l]
    by (simp add: flushed_def struct_bytes_length)
  have m5: "memof h5 = mem_store (r 1) (struct_bytes (take 23 ?ws) @ replicate 36 0) (memof h)"
    using 5(3) 4(2) 3(2) 2(2) 1(3) fl by simp
  have ag: "agree (\<lambda>k. memof h5 (r 1 + of_nat k)) 0 (struct_bytes (take 23 ?ws))"
    unfolding m5 by (rule mem_store_agree) (use capability_words_nth(2) [OF l] in \<open>simp add: struct_bytes_length\<close>)
  have cap: "announced (mem_words (memof h5) (r 1) 23 ! (2 * i + 9)) = offered (0xD1 + of_nat i)" if i: "i < 7" for i
  proof -
    have "mem_words (memof h5) (r 1) 23 ! (2 * i + 9) = word_view (\<lambda>k. memof h5 (r 1 + of_nat k)) (2 * i + 9)"
      using i by (simp add: mem_words_def)
    also have "\<dots> = take 23 ?ws ! (2 * i + 9)"
      by (rule struct_bytes_word [OF ag]) (use i capability_words_nth(2) [OF l] in simp)
    also have "\<dots> = ?ws ! ((2 * i + 2) + 7)" using i by (simp add: add.commute)
    also have "\<dots> = capability m ! (2 * i + 2)" by (rule capability_words_nth(1) [OF _ l]) (use i in simp)
    finally show ?thesis using psu_capabilities(3) i unfolding caps by (simp add: map_eq_conv)
  qed
  have "memof h5 x = memof h x" if "unat (r 0) \<le> unat (x - r 1)" for x
  proof -
    have "128 \<le> unat (r 0)" using sz by (auto elim!: dvdE)
    then show ?thesis using that capability_words_nth(2) [OF l] unfolding m5 by (simp add: mem_store_def struct_bytes_length)
  qed
  then show ?thesis using op 5(2) cap by (intro exI [of _ h5]) simp
qed

section \<open>Fetching the FFDC\<close>

text \<open>
  When a procedure has failed, the FFDC it left is sent with the command that failed, followed by the
  package of the SBE; the response reports success, the asynchronous return code is cleared and
  the bit that announced it is turned off.
\<close>

lemma get_ffdc_sends:
  assumes p: "fifo_pair P up sent busy memof" and b: "body_at up h es rest" "words_of es = []" and A: "env_ok (ff_app S)"
    and E: "E = g_env (app_glob (ff_app S))" and no: "\<not> collects (asyncFfdcRC S)" and rc: "g_fapiRc S \<noteq> 0" "4 \<le> ffdcLength E"
    and msg: "\<forall>v h. \<exists>h'. putscom_abs P PERV_SB_MSG_SCOM v h = (0, h') \<and> sent h' = sent h"
  shows "\<exists>S' h' pkg. sbeGetFfdc_op P collects collect S h = Some (0, S', h') \<and> asyncFfdcRC S' = 0 \<and>
    bf_get 1 1 (iv_messagingReg (regAccess (g_env (app_glob (ff_app S'))))) = 0 \<and>
    parse_response (sent h') = (sent h @ resp_ffdc_words (last_ffdc (g_fapiRc S) E) @
      map (ffdcData E) [0..<unat (ffdcLength E) div 4] @ pkg, init_resp_hdr (app_glob (ff_app S)))"
proof -
  have f: "fifo_feeds P up" and d: "fifo_drains P sent busy" and k: "deq_keeps P (\<lambda>h. (sent h, memof h))"
    using p by (auto simp: fifo_pair_def)
  have m4: "ffdcLength E mod 4 = 0" and blobs: "length (sbeFFDCUserDataArray E) \<le> 2" using A by (simp_all add: env_ok_def E)
  obtain n b1 h1 where 1: "sbeUpFifoDeq_mult P 0 None True False h = Some (0, n, b1, h1)" by (rule deq_nothing [OF f b])
  have s1: "sent h1 = sent h" using deq_mult_keeps [OF k 1] by simp
  let ?f = "resp_ffdc_words (last_ffdc (g_fapiRc S) E)"
  have ne: "?f \<noteq> []" by (simp add: resp_ffdc_words_def)
  obtain h2 where 2: "send_words P ?f h1 = Some (0, of_nat (length ?f), h2)" "sent h2 = sent h1 @ ?f"
    using send_words_sends [OF d ne, of h1] by (auto simp: resp_ffdc_words_def)
  have q: "unat (ffdcLength E div 4) = unat (ffdcLength E) div 4" by (simp add: unat_div)
  have "0 < ffdcLength E div 4" using rc(2) by (simp add: word_less_nat_alt word_le_nat_alt q)
  then obtain h3 where 3: "sbeDownFifoEnq_mult P (ffdcLength E div 4) (ffdcData E) h2 = Some (0, ffdcLength E div 4, h3)"
    "sent h3 = sent h2 @ map (ffdcData E) [0..<unat (ffdcLength E) div 4]"
    using enq_mult_sends [OF d, of "ffdcLength E div 4" "ffdcData E" h2] q by auto
  obtain h4 pkg where 4: "sendOverFIFO P E SBE_FFDC_ALL_DUMP True h3 = Some (0, of_nat (length pkg), h4)" "sent h4 = sent h3 @ pkg"
    using sendOverFIFO_sends [OF d, of E SBE_FFDC_ALL_DUMP True h3] by (elim exE conjE) (rule that)
  let ?hdr = "init_resp_hdr (app_glob (ff_app S))"
  obtain h5 body where 5: "sbeDsSendRespHdr P E ?hdr None h4 = Some (0, h5)"
    "sent h5 = sent h4 @ resp_hdr_words ?hdr @ body @ [of_nat (length body + 3)]" "length body + 3 < 2 ^ 32"
    using send_resp_hdr_sends [OF d m4 blobs, of ?hdr None h4] by (elim conjE exE) (rule that)
  let ?v = "bf_put 1 1 (of_bool False) (iv_messagingReg (regAccess E))"
  obtain h6 where 6: "putscom_abs P PERV_SB_MSG_SCOM ?v h5 = (0, h6)" "sent h6 = sent h5" using msg by blast
  define S' where "S' = S\<lparr> ff_app := upd_env (\<lambda>E. E\<lparr> regAccess := (regAccess E)\<lparr> iv_messagingReg := ?v \<rparr> \<rparr>) (ff_app S), asyncFfdcRC := 0 \<rparr>"
  have col: "collectAsyncHwpFfdc collects collect S h1 = (S, h1)" using no by (simp add: collectAsyncHwpFfdc_def)
  have snd: "send_last_ffdc P (g_fapiRc S) E h1 = Some (0, h3)" using rc(1) m4 2(1) 3(1) by (simp add: send_last_ffdc_def)
  have upd: "updateAsyncFFDCBit P False (regAccess E) h5 = (0, (regAccess E)\<lparr> iv_messagingReg := ?v \<rparr>, h6)"
    using 6(1) by (simp add: updateAsyncFFDCBit_def write_messaging_def)
  have op: "sbeGetFfdc_op P collects collect S h = Some (0, S', h6)"
    using 1 col snd 4(1) 5(1) upd E by (simp add: sbeGetFfdc_op_def S'_def upd_env_def upd_glob_def Let_def)
  have pr: "parse_response (sent h6) = (sent h4, ?hdr)" unfolding 6(2) 5(2) parse_sent [OF 5(3)] ..
  have bit: "bf_get 1 1 ?v = 0" by (rule bit_word_eqI) (simp add: bf_get_def bf_put_def bit_simps)
  show ?thesis
    by (rule exI [of _ S'], rule exI [of _ h6], rule exI [of _ pkg])
      (use op pr bit 4(2) 3(2) 2(2) s1 E in \<open>simp add: S'_def upd_env_def upd_glob_def set_env_def\<close>)
qed

end
