(* ===== verification/Sbe_Quiesce.thy ===== *)
theory Sbe_Quiesce
  imports Sbe_HostOps Pk_Thread
begin

text \<open>
  The quiesce requests of \<open>app/common/sbecmdgeneric.C\<close>, of the service processor over the FIFO and of the
  host: the asynchronous command thread is suspended and the state machine moved. The suspend is
  \<open>pk_thread_suspend\<close> of \<open>Pk_Thread\<close>, on the state of the kernel beside that of the hardware.
\<close>

section \<open>The code\<close>

type_synonym 'h quiesce_result = "(u32 \<times> sbe_app \<times> pk_state \<times> 'h) option"

text \<open>The transition of the state is \<open>stateTransition\<close> of \<open>Sbe_State\<close>; its return code is dropped.\<close>

definition quiesce_state :: "'h pib \<Rightarrow> sbe_app \<Rightarrow> 'h \<Rightarrow> (sbe_app \<times> 'h) option" where
  "quiesce_state P A h =
     map_option (\<lambda>(R, h). (upd_env (\<lambda>E. E\<lparr> regAccess := R \<rparr>) A, h))
       (stateTransition P SBE_QUIESCE_EVENT (regAccess (g_env (app_glob A))) h)"

text \<open>\<open>t\<close> is the asynchronous command thread, \<open>K\<close> the state of the kernel.\<close>

definition sbeFifoQuiesce_op :: "'h pib \<Rightarrow> thread_id \<Rightarrow> sbe_app \<Rightarrow> pk_state \<Rightarrow> 'h \<Rightarrow> 'h quiesce_result" where
  "sbeFifoQuiesce_op P t A K h = do {
     (rc, n, b, h) \<leftarrow> sbeUpFifoDeq_mult P 0 None True False h;
     let respHdr = init_resp_hdr (app_glob A);
     (respHdr, A, K, h) \<leftarrow>
       (if rc \<noteq> 0 then Some (respHdr, A, K, h)
        else let (pkRc, K) = pk_thread_suspend t K
             in if pkRc \<noteq> PK_OK
                then let (respHdr, A) = app_status SBE_PRI_GENERIC_EXECUTION_FAILURE SBE_SEC_OS_FAILURE respHdr A
                     in Some (respHdr, A, K, h)
                else map_option (\<lambda>(A, h). (respHdr, A, K, h)) (quiesce_state P A h));
     (rc, h) \<leftarrow> sbeDsSendRespHdr P (g_env (app_glob A)) respHdr None h;
     Some (rc, A, K, h)
   }"

definition psu_answer :: "'h pib \<Rightarrow> 'h mem_plat \<Rightarrow> sbe_app \<Rightarrow> u32 \<Rightarrow> pk_state \<Rightarrow> 'h \<Rightarrow> 'h quiesce_result" where
  "psu_answer P L A rc K h = map_option (\<lambda>(rc, A, h). (rc, A, K, h)) (sbePSUSendResponse P L A FAPI2_RC_SUCCESS rc h)"

definition sbePsuQuiesce_op :: "'h pib \<Rightarrow> 'h mem_plat \<Rightarrow> thread_id \<Rightarrow> sbe_app \<Rightarrow> pk_state \<Rightarrow> 'h \<Rightarrow> 'h quiesce_result" where
  "sbePsuQuiesce_op P L t A K h =
     (let (rc, h) = sbeAcknowledgeHost P (app_glob A) h
      in if rc \<noteq> 0 then psu_answer P L A rc K h
         else let (pkRc, K) = pk_thread_suspend t K
              in if pkRc \<noteq> PK_OK
                 then psu_answer P L (upd_glob (set_psu_status SBE_PRI_GENERIC_EXECUTION_FAILURE SBE_SEC_OS_FAILURE) A) rc K h
                 else do {
                   (A, h) \<leftarrow> quiesce_state P A h;
                   psu_answer P L A rc K h
                 })"

section \<open>What the host and the service processor see\<close>

lemma quiesce_state_step:
  assumes msg: "\<forall>v h. sent (snd (putscom_abs P PERV_SB_MSG_SCOM v h)) = sent h" and A: "env_ok A"
    and st: "getSbeState (regAccess (g_env (app_glob A))) < SBE_MAX_STATE"
  obtains A' h' where "quiesce_state P A h = Some (A', h')" "sent h' = sent h" "env_ok A'"
    "getSbeState (regAccess (g_env (app_glob A'))) = sbe_next (getSbeState (regAccess (g_env (app_glob A)))) SBE_QUIESCE_EVENT"
proof -
  obtain R h' where 1: "stateTransition P SBE_QUIESCE_EVENT (regAccess (g_env (app_glob A))) h = Some (R, h')"
    "getSbeState R = sbe_next (getSbeState (regAccess (g_env (app_glob A)))) SBE_QUIESCE_EVENT"
    by (rule stateTransition_step [OF st, of P SBE_QUIESCE_EVENT h]) blast
  have "sent h' = sent h"
    using 1(1) msg by (auto simp: stateTransition_def updateSbeState_def write_messaging_def Let_def
        split: if_splits prod.splits option.splits) (metis snd_conv)
  then show ?thesis
    by (intro that [of "upd_env (\<lambda>E. E\<lparr> regAccess := R \<rparr>) A" h'])
      (use 1 A in \<open>simp_all add: quiesce_state_def upd_env_def upd_glob_def set_env_def env_ok_def\<close>)
qed

text \<open>
  Property C18. A quiesce over the FIFO, in a state of the enumeration, without further words suspends the
  asynchronous thread, as the kernel's \<open>pk_thread_suspend\<close> does. If the kernel suspends it, the state
  machine is moved and success reported; otherwise the state stays and a
  failure is reported. With words behind the
  header the command is refused by the dequeue, but its return code is overwritten: success is
  reported, while the kernel is untouched and the state is the old one.
\<close>

theorem fifo_quiesce_answered:
  assumes p: "fifo_pair P up sent busy memof" and b: "body_at up h es rest" "length (words_of es) < 2 ^ 32" and A: "env_ok A"
    and sus: "pk_thread_suspend t K = (pkRc, K1)"
    and msg: "\<forall>v h. sent (snd (putscom_abs P PERV_SB_MSG_SCOM v h)) = sent h"
    and st: "st = getSbeState (regAccess (g_env (app_glob A)))" "st < SBE_MAX_STATE" and hdr: "hdr = init_resp_hdr (app_glob A)"
  shows "\<exists>A' h'. sbeFifoQuiesce_op P t A K h = Some (0, A', if words_of es = [] then K1 else K, h') \<and>
    parse_response (sent h') = (sent h,
      if words_of es = [] \<and> pkRc \<noteq> PK_OK
      then hdr\<lparr> rh_primaryStatus := ucast SBE_PRI_GENERIC_EXECUTION_FAILURE, rh_secondaryStatus := ucast SBE_SEC_OS_FAILURE \<rparr> else hdr) \<and>
    getSbeState (regAccess (g_env (app_glob A'))) = (if words_of es = [] \<and> pkRc = PK_OK then sbe_next st SBE_QUIESCE_EVENT else st)"
proof -
  have f: "fifo_feeds P up" and d: "fifo_drains P sent busy" and k: "deq_keeps P (\<lambda>h. (sent h, memof h))"
    using p by (auto simp: fifo_pair_def)
  obtain e where e: "up h = es @ e # rest" "\<forall>x \<in> set es. plain_entry x" "eot_entry e" using b(1) by (auto simp: body_at_def)
  have "(of_nat (length (words_of es)) :: u32) = 0 \<longleftrightarrow> words_of es = []"
    using b(2) by (simp add: word_unat_eq_iff unat_of_nat)
  then obtain rc n dd h1 where 1: "sbeUpFifoDeq_mult P 0 None True False h = Some (rc, n, dd, h1)" "rc = 0 \<longleftrightarrow> words_of es = []"
    using deq_loop_eot [OF f e, of True False 0 0 None] b(2) by (auto simp: sbeUpFifoDeq_mult_def)
  have s1: "sent h1 = sent h" using deq_mult_keeps [OF k 1(1)] by simp
  define K2 where "K2 = (if words_of es = [] then K1 else K)"
  define sent_hdr where "sent_hdr = (if words_of es = [] \<and> pkRc \<noteq> PK_OK
    then hdr\<lparr> rh_primaryStatus := ucast SBE_PRI_GENERIC_EXECUTION_FAILURE, rh_secondaryStatus := ucast SBE_SEC_OS_FAILURE \<rparr> else hdr)"
  obtain A2 h2 where 2: "(if rc \<noteq> 0 then Some (hdr, A, K, h1)
        else let (pkRc, K) = pk_thread_suspend t K
             in if pkRc \<noteq> PK_OK
                then let (respHdr, A) = app_status SBE_PRI_GENERIC_EXECUTION_FAILURE SBE_SEC_OS_FAILURE hdr A
                     in Some (respHdr, A, K, h1)
                else map_option (\<lambda>(A, h). (hdr, A, K, h)) (quiesce_state P A h1)) = Some (sent_hdr, A2, K2, h2)"
    "sent h2 = sent h" "env_ok A2"
    "getSbeState (regAccess (g_env (app_glob A2))) = (if words_of es = [] \<and> pkRc = PK_OK then sbe_next st SBE_QUIESCE_EVENT else st)"
  proof (cases "rc = 0")
    case False
    then show ?thesis by (intro that [of A h1]) (use 1(2) s1 A st(1) in \<open>simp_all add: sent_hdr_def K2_def\<close>)
  next
    case True
    show ?thesis
    proof (cases "pkRc = PK_OK")
      case True
      obtain A' h' where q: "quiesce_state P A h1 = Some (A', h')" "sent h' = sent h1" "env_ok A'"
        "getSbeState (regAccess (g_env (app_glob A'))) = sbe_next (getSbeState (regAccess (g_env (app_glob A)))) SBE_QUIESCE_EVENT"
        by (rule quiesce_state_step [where sent = sent and h = h1, OF msg A st(2) [unfolded st(1)]])
      then show ?thesis by (intro that [of A' h']) (use \<open>rc = 0\<close> 1(2) s1 sus True st(1) in \<open>simp_all add: sent_hdr_def K2_def\<close>)
    next
      case False
      obtain r A' where s: "app_status SBE_PRI_GENERIC_EXECUTION_FAILURE SBE_SEC_OS_FAILURE hdr A = (r, A')"
        by (cases "app_status SBE_PRI_GENERIC_EXECUTION_FAILURE SBE_SEC_OS_FAILURE hdr A")
      have "regAccess (g_env (app_glob A')) = regAccess (g_env (app_glob A))"
        using s by (auto simp: app_status_def set_resp_status_def record_failure_def Let_def)
      then show ?thesis
        by (intro that [of A' h1])
          (use \<open>rc = 0\<close> 1(2) s1 sus False s st(1) app_status_hdr [OF s] env_ok_status [OF s A] in \<open>simp_all add: sent_hdr_def K2_def\<close>)
    qed
  qed
  obtain h3 body where 3: "sbeDsSendRespHdr P (g_env (app_glob A2)) sent_hdr None h2 = Some (0, h3)"
    "sent h3 = sent h2 @ resp_hdr_words sent_hdr @ body @ [of_nat (length body + 3)]" "length body + 3 < 2 ^ 32"
    using send_resp_hdr_sends [OF d 2(3) [unfolded env_ok_def, THEN conjunct1] 2(3) [unfolded env_ok_def, THEN conjunct2],
        of sent_hdr None h2] by (elim conjE exE) (rule that)
  have "sbeFifoQuiesce_op P t A K h = Some (0, A2, K2, h3)"
    using 1(1) 2(1) 3(1) unfolding sbeFifoQuiesce_op_def Let_def [of "init_resp_hdr (app_glob A)"] hdr [symmetric] by simp
  moreover have "parse_response (sent h3) = (sent h, sent_hdr)" unfolding 3(2) parse_sent [OF 3(3)] 2(2) ..
  ultimately show ?thesis using 2(4) unfolding sent_hdr_def K2_def by blast
qed

text \<open>
  The SBE is at run time and its asynchronous thread, 5, is runnable behind the current thread 2. A
  quiesce suspends it; one with a word too many leaves it where it is and is answered with success as well.
\<close>

definition runtime_app :: sbe_app where
  "runtime_app = upd_env (\<lambda>E. E\<lparr> regAccess := reset_regs\<lparr> iv_messagingReg := bf_put 8 4 SBE_STATE_RUNTIME 0 \<rparr> \<rparr>) sample_app"

definition async_kernel :: pk_state where
  "async_kernel = zero_state\<lparr> threads := (\<lambda>_. zero_thread)
       (2 := zero_thread\<lparr> thr_priority := 9, thr_state := PK_THREAD_STATE_MAPPED \<rparr>,
        5 := zero_thread\<lparr> thr_priority := 10, thr_state := PK_THREAD_STATE_MAPPED \<rparr>),
     priority_map := (\<lambda>_. 0)(9 := 2, 10 := 5), run_queue := pk_thread_queue_insert (pk_thread_queue_insert 0 9) 10,
     current_thread := 2, next_thread := 2, thread_mode := True, msr_ee := True \<rparr>"

theorem fifo_quiesce_answered_witness:
  "(\<exists>A' K' h'. sbeFifoQuiesce_op mem_sim_pib 5 runtime_app async_kernel (request [], \<lambda>_. 0) = Some (0, A', K', h') \<and>
    thr_state (threads K' 5) = PK_THREAD_STATE_SUSPENDED_RUNNABLE \<and> priority_map K' 10 = 0 \<and>
    rh_primaryStatus (snd (parse_response (sim_sent h'))) = 0 \<and>
    getSbeState (regAccess (g_env (app_glob A'))) = SBE_STATE_QUIESCE) \<and>
  (\<exists>A' h'. sbeFifoQuiesce_op mem_sim_pib 5 runtime_app async_kernel (request [0x55], \<lambda>_. 0) = Some (0, A', async_kernel, h') \<and>
    rh_primaryStatus (snd (parse_response (sim_sent h'))) = 0 \<and>
    getSbeState (regAccess (g_env (app_glob A'))) = SBE_STATE_RUNTIME)"
proof -
  have b: "body_at sim_up (request ws, \<lambda>_ :: u64. 0 :: u8) (map entry_of ws) []" for ws
    unfolding body_at_def by (intro exI [of _ "0x40000000 :: u64"]) (simp add: request_def entry_of_word request_eot)
  have l: "length (words_of (map entry_of [0x55])) < 2 ^ 32" "words_of (map entry_of [0x55]) \<noteq> []"
    "length (words_of (map entry_of [])) < 2 ^ 32" "words_of (map entry_of []) = []"
    unfolding words_of_request by simp_all
  have A: "env_ok runtime_app" using sample_app_facts(1) by (simp add: runtime_app_def env_ok_def upd_env_def upd_glob_def set_env_def)
  have st: "SBE_STATE_RUNTIME = getSbeState (regAccess (g_env (app_glob runtime_app)))" "SBE_STATE_RUNTIME < SBE_MAX_STATE"
    "sbe_next SBE_STATE_RUNTIME SBE_QUIESCE_EVENT = SBE_STATE_QUIESCE"
    by code_simp+
  define K1 where "K1 = snd (pk_thread_suspend 5 async_kernel)"
  have "fst (pk_thread_suspend 5 async_kernel) = PK_OK" by code_simp
  then have s: "pk_thread_suspend 5 async_kernel = (PK_OK, K1)" by (simp add: K1_def prod_eq_iff)
  have k: "thr_state (threads K1 5) = PK_THREAD_STATE_SUSPENDED_RUNNABLE" "priority_map K1 10 = 0"
    unfolding K1_def by code_simp+
  have m: "\<forall>v h. sim_sent (snd (putscom_abs mem_sim_pib PERV_SB_MSG_SCOM v h)) = sim_sent h"
    by (simp add: mem_sim_pib_def reg_put_def split: prod.splits)
  have "\<exists>A' h'. sbeFifoQuiesce_op mem_sim_pib 5 runtime_app async_kernel (request [], \<lambda>_. 0) = Some (0, A', K1, h') \<and>
    parse_response (sim_sent h') = (sim_sent (request [], \<lambda>_ :: u64. 0 :: u8), init_resp_hdr (app_glob runtime_app)) \<and>
    getSbeState (regAccess (g_env (app_glob A'))) = SBE_STATE_QUIESCE"
    using fifo_quiesce_answered [OF mem_sim_pair b l(3) A s m st(1,2) refl] l(4) st(3) by simp
  moreover have "\<exists>A' h'. sbeFifoQuiesce_op mem_sim_pib 5 runtime_app async_kernel (request [0x55], \<lambda>_. 0)
      = Some (0, A', async_kernel, h') \<and>
    parse_response (sim_sent h') = (sim_sent (request [0x55], \<lambda>_ :: u64. 0 :: u8), init_resp_hdr (app_glob runtime_app)) \<and>
    getSbeState (regAccess (g_env (app_glob A'))) = SBE_STATE_RUNTIME"
    using fifo_quiesce_answered [OF mem_sim_pair b l(1) A s m st(1,2) refl] l(2) by simp
  ultimately show ?thesis using k by (auto simp: init_resp_hdr_def)
qed

end
