(* ===== verification/Spec2Isabelle.thy ===== *)
theory Spec2Isabelle
  imports Pk_System Ppe_Arith Ppe_String Sbe_SecurityDump Sbe_MemRegion Sbe_Flow Sbe_Scom Sbe_Capability Sbe_Quiesce
begin

text \<open>
  A verification library for the firmware of the POWER9 self boot engine (SBE).

  The program. The SBE is a small PPE42 processor that starts the chip and then serves commands
  (chip operations) of the service processor, which arrive through a pair of FIFOs, and of the host,
  which arrive through mailbox registers (PSU). The firmware under \<open>src/src/sbefw\<close> runs on the PK
  kernel under \<open>src/src/import/chips/p9/procedures/ppe/pk\<close>. An interrupt handler posts a semaphore, the
  receiver thread reads the header of the message and checks it against the table of commands, and
  posts a second semaphore, on which the processor thread runs the command and sends the response.
  Commands that touch memory go through the memory access interface and the list of open memory
  regions; commands that touch registers go through the security access lists.

  The kernel (files \<open>kernel/pk_*.c\<close>, \<open>ppe42/*\<close>, \<open>trace/*\<close>).
  \<open>Pk_Queue\<close>: the priority queues of \<open>ppe42.h\<close> as 32-bit masks, refined to sets of priorities.
  \<open>Pk_Deque\<close>: the doubly linked deques of \<open>pk_core.c\<close> over an explicit heap of links, refined to lists.
  \<open>Pk_State\<close>, \<open>Pk_Timer\<close>, \<open>Pk_Thread\<close>, \<open>Pk_Semaphore\<close>, \<open>Pk_Init\<close>: the state of the kernel as a record,
  one definition per function of the kernel of the same name. A blocking call is split into the part before
  the context switch and the part after it. \<open>Pk_System\<close>: calls, timeouts and interrupts as an inductive
  step relation with a flag \<open>strict\<close>. What the scheduler picks is proved for all runs; that the kernel's data
  are consistent for the strict ones, in which a thread is suspended, deleted or given another priority only
  while it is settled (not both timed out and still in a pending queue), no active thread is created
  again and no priority becomes that of the idle thread. \<open>pk_thread_suspend_stale\<close> shows that
  the condition is needed. \<open>Pk_Trace\<close>: the circular trace buffer and the reader
  \<open>ppe2fsp.c\<close> that walks it backwards. \<open>Ppe_Arith\<close>, \<open>Ppe_String\<close>: the compiler's run time, from the C
  files and, for the divisions, from the assembler.

  The firmware (files \<open>sbefw/core\<close>, unless named otherwise).
  \<open>Sbe_Pib\<close>: register access, a parameter (\<open>getscom_abs\<close>, \<open>putscom_abs\<close>, the sleep), bit fields, response
  codes. \<open>Sbe_State\<close>: \<open>sberegaccess.C\<close> and \<open>sbeevents.H\<close>, the state machine with its transition
  table. \<open>Sbe_Fifo\<close>: \<open>sbeFifoMsgUtils.C\<close>, the response header and \<open>SbeFFDCPackage::sendOverFIFO\<close>.
  \<open>Sbe_Chipop\<close>: \<open>chipop_handler.C\<close> and the tables of \<open>app/power/chipop_table.C\<close>. \<open>Sbe_Command\<close>: the interrupt handler
  of \<open>sbeirq.C\<close>, one pass of \<open>sbecmdreceiver.C\<close>, the loop of \<open>sbecmdprocessor.C\<close> cut at the points where
  another thread or an interrupt can take over, the responses, the mailbox routines. \<open>Sbe_Flow\<close>: these
  as a step relation and its invariants. \<open>Sbe_Scom\<close>: \<open>sbescom.C\<close> with the register wrappers of
  \<open>hwpf/plat_hw_access.C\<close> and the chip operations of \<open>app/common/sbecmdscomaccess.C\<close>. \<open>Sbe_MemAccess\<close>: \<open>sbeMemAccessInterface.C\<close>. \<open>Sbe_MemRegion\<close>:
  \<open>sbeSecureMemRegionManager.C\<close>. \<open>Sbe_Security\<close>: \<open>securityAlgo.C\<close> and the table generator in
  \<open>build/security\<close>. \<open>Sbe_SecurityDump\<close>: the dump of the tables in \<open>sbeSecurity.C\<close>. \<open>Sbe_HostResp\<close>: the
  response to the host of \<open>sbeHostUtils.C\<close> and \<open>SbeFFDCPackage::sendOverHostIntf\<close>, which stores FFDC in host memory; its record
  \<open>sbe_app\<close> adds the regions and the memory of the host to the globals of \<open>Sbe_Command\<close>. \<open>Sbe_MemOps\<close>:
  \<open>app/power/sbecmdmemaccess.C\<close>, GetMem and PutMem over the PBA and the ADU and the host's region requests;
  \<open>Sbe_MemProps\<close> and \<open>Sbe_MemChecks\<close> hold their theorems. \<open>Sbe_HostOps\<close>, \<open>Sbe_Quiesce\<close> and \<open>Sbe_Capability\<close>: \<open>app/common/sbecmdgeneric.C\<close>,
  the requests of the host for its memory areas, the stash, the dump of the security lists, the copy of
  the SEEPROM, the quiesce requests, which suspend a thread by the kernel operation of \<open>Pk_Thread\<close>, the
  capabilities and the fetch of the FFDC.

  What is shown. The refinements (\<open>Pk_Queue\<close>, \<open>Pk_Deque\<close>, the timer queue, the access lists, the memory
  interface, the state machine) give each component an abstract meaning in sets and lists; the
  invariants (\<open>pk_scheduling\<close>, \<open>command_flow\<close>, \<open>host_region_request\<close>) hold in every state their steps reach; the
  functional theorems give the result of an operation; the dispatch is compared with a table of the commands written
  out on its own, \<open>command_spec\<close>; the round trips compare a writer with a reader (trace, FIFO
  response, security tables); a group of theorems states where the code fails: lost posts, stale
  queue entries, errors that leave interrupts off, sizes that wrap, a timer cancelled under the handler, binary
  traces too long for their footer, the FIFO reset that leaves a post behind, requests that get past the checks of memory. The theorems about GetMem and PutMem compose the FIFO, the region check, the
  memory interface and the response from request to answer.

  Conventions. Records have the members of the structures and keep their names where
  HOL allows it; machine integers are words of their width. A call that halts, fails an assertion or
  does not return is \<open>None\<close>. The polling loops on the FIFO and the scans of strings are
  \<open>partial_function (option)\<close>, so that \<open>None\<close> is also a loop that does not end, and the theorems about them prove that they return under a
  condition on the hardware or the data. The timer handler has fuel for each
  visit of the queue; its theorems give enough. The division loop counts down from 33, one more
  than the number of bits of a word. Locales state
  what the clients of the queues, the deques and the entries of the security tables need; each is
  interpreted on the model itself.

  Atomicity. In \<open>Pk_System\<close> and \<open>Sbe_Flow\<close> a step is a stretch of code between two points where the program can be
  interrupted with a visible effect. An interrupt that arrives in the middle of a pass of the receiver is handled
  after the pass; the sources are changed in critical sections, and the handler commutes with the
  rest of a pass except at the two calls that unmask the FIFO interrupts, which are separate steps.

  Not modelled, and why. The hardware procedures under \<open>import/chips\<close> apart from the kernel are register
  sequences, most of their files are generated register addresses; most chip operations under
  \<open>sbefw/app\<close> other than those on registers and memory are calls of them, so that a command's effect is a parameter of
  \<open>Sbe_Flow\<close>. The PBA and ADU procedures (\<open>import/chips/p9/procedures/hwp/nest\<close>) are a parameter with a
  contract: at multiples of the granule in a set \<open>S\<close> of addresses they read and write memory and leave the
  FIFOs alone; elsewhere nothing is assumed. Each theorem says which addresses must be in \<open>S\<close>, since the
  procedures refuse any address above \<open>P9_FBC_UTILS_FBC_MAX_ADDRESS\<close>, and every address while the fabric does
  not run; the witnesses use a memory with that limit. The IPL sequence, the platform and attribute code under
  \<open>hwpf\<close>, the boot code, the build scripts and the tests are out of reach for the same reasons.
  Assembler other than the divisions and the thread context, the console, the S0 interrupt and
  the second chip-op table for another system are left out.
\<close>

end
